(* ===== verification/Prelude.thy ===== *)
theory Prelude
  imports Main "HOL-Library.Word" "HOL-Library.Multiset"
begin

text \<open>
  Shared vocabulary of the development: Rust's fixed-width integers as \<^typ>\<open>nat\<close> and
  \<^typ>\<open>int\<close> with the wrap-around written out, byte strings, slices, little-endian integers,
  results, and the insertion-ordered association lists that stand for \<open>HashMap\<close> and
  \<open>BTreeMap\<close>. Every lemma here is about the standard library of the source language; the
  components import it.
\<close>

named_theorems codec_simps \<open>little-endian integers, slices and length-prefixed segments\<close>
named_theorems amap_simps \<open>lookup and key sets of association lists\<close>

section \<open>Results\<close>

text \<open>A Rust \<open>Result<T, E>\<close> is \<open>'e + 'a\<close>; the operator \<open>?\<close> is \<open>rbind\<close>.\<close>

fun rbind :: "'e + 'a \<Rightarrow> ('a \<Rightarrow> 'e + 'b) \<Rightarrow> 'e + 'b" where
  "rbind (Inl e) f = Inl e"
| "rbind (Inr a) f = f a"

lemma rbind_Inr_iff: "rbind r f = Inr b \<longleftrightarrow> (\<exists>a. r = Inr a \<and> f a = Inr b)"
  by (cases r) auto

lemma rbind_Inl_iff: "rbind r f = Inl e \<longleftrightarrow> r = Inl e \<or> (\<exists>a. r = Inr a \<and> f a = Inl e)"
  by (cases r) auto

fun is_ok :: "'e + 'a \<Rightarrow> bool" where
  "is_ok (Inl e) = False"
| "is_ok (Inr a) = True"

section \<open>Fixed-width integers\<close>

abbreviation two64 :: nat where
  "two64 \<equiv> 18446744073709551616"

abbreviation u64_max :: nat where
  "u64_max \<equiv> 18446744073709551615"

abbreviation i64_max :: int where
  "i64_max \<equiv> 9223372036854775807"

abbreviation i64_min :: int where
  "i64_min \<equiv> - 9223372036854775808"

definition in_i64 :: "int \<Rightarrow> bool" where
  "in_i64 x \<longleftrightarrow> i64_min \<le> x \<and> x \<le> i64_max"

text \<open>\<open>usize\<close> addition on a 64-bit target without overflow checks wraps.\<close>

definition usize_add :: "nat \<Rightarrow> nat \<Rightarrow> nat" where
  "usize_add a b = (a + b) mod two64"

definition checked_add_u64 :: "nat \<Rightarrow> nat \<Rightarrow> nat option" where
  "checked_add_u64 a b = (if a + b \<le> u64_max then Some (a + b) else None)"

definition saturating_add_u64 :: "nat \<Rightarrow> nat \<Rightarrow> nat" where
  "saturating_add_u64 a b = min (a + b) u64_max"

definition checked_add_i64 :: "int \<Rightarrow> int \<Rightarrow> int option" where
  "checked_add_i64 a b = (if in_i64 (a + b) then Some (a + b) else None)"

definition saturating_add_i64 :: "int \<Rightarrow> int \<Rightarrow> int" where
  "saturating_add_i64 a b = max i64_min (min (a + b) i64_max)"

text \<open>\<open>x as i64\<close>: the two's complement reading of the low 64 bits.\<close>

definition wrap_i64 :: "int \<Rightarrow> int" where
  "wrap_i64 x = (x + 9223372036854775808) mod 18446744073709551616 - 9223372036854775808"

lemma usize_add_small [simp]: "a + b < two64 \<Longrightarrow> usize_add a b = a + b"
  by (simp add: usize_add_def)

lemma wrap_i64_id: "in_i64 x \<Longrightarrow> wrap_i64 x = x"
  by (simp add: wrap_i64_def in_i64_def)

lemma wrap_i64_range [simp]: "in_i64 (wrap_i64 x)"
  unfolding wrap_i64_def in_i64_def by (auto intro: order.trans pos_mod_sign pos_mod_bound)

lemma wrap_i64_mod [simp]: "wrap_i64 (x mod 18446744073709551616) = wrap_i64 x"
  by (simp add: wrap_i64_def mod_simps)

lemma wrap_i64_add: "wrap_i64 (wrap_i64 a + b) = wrap_i64 (a + b)"
  unfolding wrap_i64_def by (simp add: algebra_simps mod_simps)

section \<open>Bytes, slices and little-endian integers\<close>

type_synonym u8 = "8 word"
type_synonym bytes = "u8 list"

text \<open>\<open>buf.get(i..j)\<close>: absent when the range is inverted or ends past the slice.\<close>

definition slice_get :: "'a list \<Rightarrow> nat \<Rightarrow> nat \<Rightarrow> 'a list option" where
  "slice_get buf i j = (if i \<le> j \<and> j \<le> length buf then Some (take (j - i) (drop i buf)) else None)"

fun le_bytes :: "nat \<Rightarrow> nat \<Rightarrow> bytes" where
  "le_bytes 0 n = []"
| "le_bytes (Suc k) n = of_nat (n mod 256) # le_bytes k (n div 256)"

fun le_nat :: "bytes \<Rightarrow> nat" where
  "le_nat [] = 0"
| "le_nat (b # bs) = unat b + 256 * le_nat bs"

text \<open>\<open>u32::to_le_bytes\<close>, \<open>u64::to_le_bytes\<close>, \<open>i64::to_le_bytes\<close> and their inverses.\<close>

definition u32_le :: "nat \<Rightarrow> bytes" where
  "u32_le n = le_bytes 4 n"

definition u64_le :: "nat \<Rightarrow> bytes" where
  "u64_le n = le_bytes 8 n"

definition i64_le :: "int \<Rightarrow> bytes" where
  "i64_le x = le_bytes 8 (nat (x mod 18446744073709551616))"

definition i64_of_le :: "bytes \<Rightarrow> int" where
  "i64_of_le bs = wrap_i64 (int (le_nat bs))"

lemma length_le_bytes [simp]: "length (le_bytes k n) = k"
  by (induction k arbitrary: n) auto

lemma le_nat_replicate_0: "le_nat (replicate n 0) = 0"
  by (induction n) simp_all

lemma le_bytes_numeral:
  "le_bytes (numeral k) n = of_nat (n mod 256) # le_bytes (pred_numeral k) (n div 256)"
  by (simp only: numeral_eq_Suc [of k] le_bytes.simps)

lemma length_u32_le [simp, codec_simps]: "length (u32_le n) = 4"
  by (simp add: u32_le_def)

lemma length_u64_le [simp, codec_simps]: "length (u64_le n) = 8"
  by (simp add: u64_le_def)

lemma length_i64_le [simp, codec_simps]: "length (i64_le n) = 8"
  by (simp add: i64_le_def)

lemma unat_of_nat_u8 [simp]: "unat (of_nat (n mod 256) :: u8) = n mod 256"
  by (simp add: unat_of_nat)

lemma le_nat_le_bytes: "le_nat (le_bytes k n) = n mod 256 ^ k"
  by (induction k arbitrary: n) (simp_all add: mod_mult2_eq)

lemma le_nat_u32_le [codec_simps]: "n < 4294967296 \<Longrightarrow> le_nat (u32_le n) = n"
  by (simp add: u32_le_def le_nat_le_bytes)

lemma le_nat_u64_le [codec_simps]: "n < two64 \<Longrightarrow> le_nat (u64_le n) = n"
  by (simp add: u64_le_def le_nat_le_bytes)

lemma i64_of_le_i64_le [codec_simps]: "in_i64 x \<Longrightarrow> i64_of_le (i64_le x) = x"
  by (simp add: i64_of_le_def i64_le_def le_nat_le_bytes wrap_i64_id)

lemma i64_of_le_range [simp]: "in_i64 (i64_of_le bs)"
  by (simp add: i64_of_le_def)

lemma le_nat_bound: "le_nat bs < 256 ^ length bs"
proof (induction bs)
  case Nil
  then show ?case by simp
next
  case (Cons b bs)
  have "unat b < 256" using unsigned_less [of b] by simp
  with Cons show ?case by simp
qed

lemma le_bytes_le_nat: "le_bytes (length bs) (le_nat bs) = bs"
proof (induction bs)
  case Nil
  then show ?case by simp
next
  case (Cons b bs)
  have "unat b < 256" using unsigned_less [of b] by simp
  with Cons show ?case by simp
qed

lemma u64_le_le_nat [codec_simps]: "length bs = 8 \<Longrightarrow> u64_le (le_nat bs) = bs"
  using le_bytes_le_nat [of bs] by (simp add: u64_le_def)

lemma u32_le_le_nat [codec_simps]: "length bs = 4 \<Longrightarrow> u32_le (le_nat bs) = bs"
  using le_bytes_le_nat [of bs] by (simp add: u32_le_def)

lemma slice_get_mid [codec_simps]:
  "i = length pre \<Longrightarrow> j = length pre + length xs \<Longrightarrow> slice_get (pre @ xs @ post) i j = Some xs"
  by (simp add: slice_get_def)

lemma slice_get_length: "slice_get buf i j = Some xs \<Longrightarrow> length xs = j - i"
  by (auto simp: slice_get_def split: if_splits)

lemma slice_get_take_drop:
  "slice_get buf i j = Some xs \<Longrightarrow> drop i buf = xs @ drop j buf \<and> i \<le> j \<and> j \<le> length buf"
  by (auto simp: slice_get_def split: if_splits)
    (metis append_take_drop_id drop_drop le_add_diff_inverse2)

section \<open>Association lists\<close>

text \<open>
  A \<open>HashMap\<close> or \<open>BTreeMap\<close> is an association list with distinct keys, kept in
  insertion order: the list order is the iteration order, which for a \<open>HashMap\<close> is
  unspecified, so statements about its content go through \<^const>\<open>map_of\<close> and sets.
\<close>

type_synonym ('k, 'v) amap = "('k \<times> 'v) list"

fun amap_insert :: "'k \<Rightarrow> 'v \<Rightarrow> ('k, 'v) amap \<Rightarrow> ('k, 'v) amap" where
  "amap_insert k v [] = [(k, v)]"
| "amap_insert k v ((k', v') # m) = (if k' = k then (k, v) # m else (k', v') # amap_insert k v m)"

definition amap_remove :: "'k \<Rightarrow> ('k, 'v) amap \<Rightarrow> ('k, 'v) amap" where
  "amap_remove k m = filter (\<lambda>(k', v). k' \<noteq> k) m"

abbreviation amap_keys :: "('k, 'v) amap \<Rightarrow> 'k list" where
  "amap_keys m \<equiv> map fst m"

definition amap_wf :: "('k, 'v) amap \<Rightarrow> bool" where
  "amap_wf m \<longleftrightarrow> distinct (amap_keys m)"

lemma map_of_amap_insert [simp, amap_simps]:
  "map_of (amap_insert k v m) = (map_of m)(k \<mapsto> v)"
  by (induction k v m rule: amap_insert.induct) (auto simp: fun_eq_iff)

lemma set_keys_amap_insert [simp, amap_simps]:
  "fst ` set (amap_insert k v m) = insert k (fst ` set m)"
  by (induction k v m rule: amap_insert.induct) (auto simp: image_iff)

lemma map_of_amap_remove [simp, amap_simps]: "map_of (amap_remove k m) = (map_of m)(k := None)"
  by (induction m) (auto simp: amap_remove_def fun_eq_iff)

lemma set_keys_amap_remove [simp, amap_simps]:
  "fst ` set (amap_remove k m) = fst ` set m - {k}"
  by (force simp: amap_remove_def)

lemma amap_wf_Nil [simp]: "amap_wf []"
  by (simp add: amap_wf_def)

lemma amap_wf_insert [simp, intro]: "amap_wf m \<Longrightarrow> amap_wf (amap_insert k v m)"
  by (induction k v m rule: amap_insert.induct) (auto simp: amap_wf_def)

lemma amap_wf_filter [simp, intro]: "amap_wf m \<Longrightarrow> amap_wf (filter P m)"
  by (auto simp: amap_wf_def distinct_map intro: inj_on_subset)

lemma amap_wf_remove [simp, intro]: "amap_wf m \<Longrightarrow> amap_wf (amap_remove k m)"
  by (simp add: amap_remove_def)

lemma length_amap_insert:
  "length (amap_insert k v m) = (if k \<in> fst ` set m then length m else Suc (length m))"
  by (induction k v m rule: amap_insert.induct) auto

lemma amap_mem_iff: "amap_wf m \<Longrightarrow> (k, v) \<in> set m \<longleftrightarrow> map_of m k = Some v"
  by (simp add: amap_wf_def)

lemma set_amap_insert: "amap_wf m \<Longrightarrow> set (amap_insert k v m) = insert (k, v) {x \<in> set m. fst x \<noteq> k}"
  by (induction k v m rule: amap_insert.induct) (auto simp: amap_wf_def image_iff)

lemma map_of_rev [amap_simps]:
  assumes "distinct (map fst m)"
  shows "map_of (rev m) = map_of m"
proof
  fix k
  have "distinct (map fst (rev m))" using assms by (simp flip: rev_map)
  then show "map_of (rev m) k = map_of m k"
    using assms by (metis map_of_SomeD map_of_eq_Some_iff not_None_eq set_rev)
qed

text \<open>A \<open>BTreeMap\<close> that is iterated: an association list sorted by its keys.\<close>

fun bt_insert :: "'k::linorder \<Rightarrow> 'v \<Rightarrow> ('k, 'v) amap \<Rightarrow> ('k, 'v) amap" where
  "bt_insert k v [] = [(k, v)]"
| "bt_insert k v ((k', v') # m) =
     (if k < k' then (k, v) # (k', v') # m
      else if k = k' then (k, v) # m else (k', v') # bt_insert k v m)"

definition bt_wf :: "('k::linorder, 'v) amap \<Rightarrow> bool" where
  "bt_wf m \<longleftrightarrow> sorted_wrt (<) (amap_keys m)"

lemma bt_wf_Nil [simp]: "bt_wf []"
  by (simp add: bt_wf_def)

lemma bt_wf_Cons: "bt_wf ((k, v) # m) \<longleftrightarrow> (\<forall>k' \<in> fst ` set m. k < k') \<and> bt_wf m"
  by (auto simp: bt_wf_def)

lemma set_keys_bt_insert [simp, amap_simps]: "fst ` set (bt_insert k v m) = insert k (fst ` set m)"
  by (induction k v m rule: bt_insert.induct) auto

lemma bt_wf_insert [simp, intro]: "bt_wf m \<Longrightarrow> bt_wf (bt_insert k v m)"
proof (induction k v m rule: bt_insert.induct)
  case (2 k v k' v' m)
  then show ?case by (auto simp: bt_wf_Cons dest: order.strict_trans)
qed (simp add: bt_wf_Cons)

lemma map_of_bt_insert [simp, amap_simps]: "bt_wf m \<Longrightarrow> map_of (bt_insert k v m) = (map_of m)(k \<mapsto> v)"
proof (induction k v m rule: bt_insert.induct)
  case (2 k v k' v' m)
  then show ?case by (auto simp: bt_wf_Cons fun_eq_iff)
qed simp

lemma bt_wf_amap_wf: "bt_wf m \<Longrightarrow> amap_wf m"
  by (auto simp: bt_wf_def amap_wf_def strict_sorted_iff)

lemma bt_insert_snoc: "\<forall>k' \<in> fst ` set m. k' < k \<Longrightarrow> bt_insert k v m = m @ [(k, v)]"
  by (induction k v m rule: bt_insert.induct) auto

section \<open>Lists\<close>

lemma count_list_distinct: "distinct xs \<Longrightarrow> count_list xs x = (if x \<in> set xs then 1 else 0)"
  by (induction xs) auto

lemma takeWhile_less_sorted:
  fixes b :: "'a :: linorder"
  shows "sorted ts \<Longrightarrow> takeWhile (\<lambda>t. t < b) ts = filter (\<lambda>t. t < b) ts"
proof (induction ts)
  case (Cons t ts)
  then show ?case
    by (cases "t < b") (auto intro!: filter_False [symmetric] dest: order.strict_trans1)
qed simp

lemma dropWhile_less_sorted:
  fixes b :: "'a :: linorder"
  shows "sorted ts \<Longrightarrow> dropWhile (\<lambda>t. t < b) ts = filter (\<lambda>t. \<not> t < b) ts"
proof (induction ts)
  case (Cons t ts)
  then show ?case by (cases "t < b") (auto intro!: filter_True [symmetric])
qed simp

end
