(* ===== verification/RustStr.thy ===== *)
theory RustStr
  imports Prelude "HOL-Library.Char_ord" "HOL-Library.List_Lexorder"
begin

text \<open>
  The part of Rust's \<open>str\<close> the source uses. A \<open>String\<close> is a \<^typ>\<open>string\<close> whose characters
  are its UTF-8 bytes, so \<open>len\<close> is \<^const>\<open>length\<close> and \<open>Ord\<close> is the lexicographic order
  of \<open>HOL-Library.List_Lexorder\<close>. Decimal printing and parsing, UTF-8 validation, trimming,
  splitting and \<open>char::is_control\<close> are executable.
\<close>

section \<open>Bytes of a string and UTF-8\<close>

abbreviation code :: "char \<Rightarrow> nat" where
  "code c \<equiv> of_char c"

definition as_bytes :: "string \<Rightarrow> bytes" where
  "as_bytes s = map (\<lambda>c. of_nat (code c)) s"

definition bytes_str :: "bytes \<Rightarrow> string" where
  "bytes_str bs = map (\<lambda>b. char_of (unat b)) bs"

lemma length_as_bytes [simp]: "length (as_bytes s) = length s"
  by (simp add: as_bytes_def)

lemma as_bytes_append [simp]: "as_bytes (s @ t) = as_bytes s @ as_bytes t"
  by (simp add: as_bytes_def)

lemma bytes_str_as_bytes [simp]: "bytes_str (as_bytes s) = s"
proof -
  have "char_of (unat (of_nat (code c) :: u8)) = c" for c
  proof -
    have "unat (of_nat (code c) :: u8) = code c"
      using nat_of_char_less_256 [of c] by (simp add: unat_of_nat)
    then show ?thesis by simp
  qed
  then show ?thesis
    by (simp add: as_bytes_def bytes_str_def comp_def)
qed

lemma as_bytes_bytes_str [simp]: "as_bytes (bytes_str bs) = bs"
proof -
  have "(of_nat (code (char_of (unat b))) :: u8) = b" for b :: u8
  proof -
    have "unat b < 256" using unsigned_less [of b] by simp
    then show ?thesis by simp
  qed
  then show ?thesis
    by (simp add: as_bytes_def bytes_str_def comp_def)
qed

lemma as_bytes_inj [simp]: "as_bytes s = as_bytes t \<longleftrightarrow> s = t"
  by (metis bytes_str_as_bytes)

text \<open>
  \<open>std::str::from_utf8\<close>: the well-formed byte sequences of the Unicode standard (no
  overlong forms, no surrogates, nothing above U+10FFFF).
\<close>

definition cont :: "u8 \<Rightarrow> bool" where
  "cont b \<longleftrightarrow> 128 \<le> b \<and> b \<le> 191"

fun utf8_valid :: "bytes \<Rightarrow> bool" where
  "utf8_valid [] = True"
| "utf8_valid (b # bs) =
     (if b \<le> 127 then utf8_valid bs
      else if 194 \<le> b \<and> b \<le> 223 then
        (case bs of c # r \<Rightarrow> cont c \<and> utf8_valid r | _ \<Rightarrow> False)
      else if 224 \<le> b \<and> b \<le> 239 then
        (case bs of c # d # r \<Rightarrow>
           cont c \<and> cont d \<and> (b = 224 \<longrightarrow> 160 \<le> c) \<and> (b = 237 \<longrightarrow> c \<le> 159) \<and> utf8_valid r
         | _ \<Rightarrow> False)
      else if 240 \<le> b \<and> b \<le> 244 then
        (case bs of c # d # e # r \<Rightarrow>
           cont c \<and> cont d \<and> cont e \<and> (b = 240 \<longrightarrow> 144 \<le> c) \<and> (b = 244 \<longrightarrow> c \<le> 143) \<and> utf8_valid r
         | _ \<Rightarrow> False)
      else False)"

definition from_utf8 :: "bytes \<Rightarrow> string option" where
  "from_utf8 bs = (if utf8_valid bs then Some (bytes_str bs) else None)"

text \<open>The invariant of Rust's \<open>String\<close>: its bytes are well-formed UTF-8.\<close>

definition rust_str :: "string \<Rightarrow> bool" where
  "rust_str s \<longleftrightarrow> utf8_valid (as_bytes s)"

lemma from_utf8_as_bytes [simp]: "rust_str s \<Longrightarrow> from_utf8 (as_bytes s) = Some s"
  by (simp add: from_utf8_def rust_str_def)

lemma from_utf8_Some: "from_utf8 bs = Some s \<longleftrightarrow> rust_str s \<and> bs = as_bytes s"
  by (auto simp: from_utf8_def rust_str_def)

section \<open>Decimal numbers\<close>

definition digit_char :: "nat \<Rightarrow> char" where
  "digit_char d = char_of (48 + d)"

fun show_nat :: "nat \<Rightarrow> string" where
  "show_nat n = (if n < 10 then [digit_char n] else show_nat (n div 10) @ [digit_char (n mod 10)])"

declare show_nat.simps [simp del]

text \<open>\<open>{n:020}\<close>: right-aligned in twenty columns, filled with zeros.\<close>

definition pad20 :: "nat \<Rightarrow> string" where
  "pad20 n = replicate (20 - length (show_nat n)) (CHR ''0'') @ show_nat n"

fun parse_digits :: "nat \<Rightarrow> string \<Rightarrow> nat option" where
  "parse_digits acc [] = Some acc"
| "parse_digits acc (c # cs) =
     (if 48 \<le> code c \<and> code c \<le> 57 then
        (let v = acc * 10 + (code c - 48) in if v \<le> u64_max then parse_digits v cs else None)
      else None)"

text \<open>\<open>str::parse::<u64>\<close>: an optional plus sign, then at least one digit, no overflow.\<close>

definition parse_u64 :: "string \<Rightarrow> nat option" where
  "parse_u64 s =
     (case s of [] \<Rightarrow> None
      | c # cs \<Rightarrow> if c = CHR ''+'' then (if cs = [] then None else parse_digits 0 cs)
                 else parse_digits 0 s)"

lemma code_digit_char [simp]: "d < 10 \<Longrightarrow> code (digit_char d) = 48 + d"
  by (simp add: digit_char_def)

lemma parse_digits_append:
  "parse_digits a (xs @ ys) = Option.bind (parse_digits a xs) (\<lambda>v. parse_digits v ys)"
  by (induction a xs rule: parse_digits.induct) (auto simp: Let_def)

lemma parse_digits_show_nat: "n \<le> u64_max \<Longrightarrow> parse_digits 0 (show_nat n) = Some n"
proof (induction n rule: show_nat.induct)
  case (1 n)
  show ?case
  proof (cases "n < 10")
    case True
    then show ?thesis by (simp add: show_nat.simps [of n])
  next
    case False
    have "n div 10 \<le> u64_max" using 1(2) by linarith
    with 1(1) False have "parse_digits 0 (show_nat (n div 10)) = Some (n div 10)" by simp
    with False 1(2) show ?thesis
      by (simp add: show_nat.simps [of n] parse_digits_append)
  qed
qed

lemma parse_digits_zeros: "parse_digits 0 (replicate k (CHR ''0'') @ s) = parse_digits 0 s"
  by (induction k) auto

lemma show_nat_not_Nil [simp]: "show_nat n \<noteq> []"
  by (subst show_nat.simps) simp

lemma set_show_nat: "c \<in> set (show_nat n) \<Longrightarrow> 48 \<le> code c \<and> code c \<le> 57"
proof (induction n rule: show_nat.induct)
  case (1 n)
  show ?case
  proof (cases "n < 10")
    case True
    with 1(2) show ?thesis by (simp add: show_nat.simps [of n])
  next
    case False
    with 1(2) have "c \<in> set (show_nat (n div 10)) \<or> c = digit_char (n mod 10)"
      by (auto simp: show_nat.simps [of n])
    with 1(1) False show ?thesis by auto
  qed
qed

lemma set_pad20: "c \<in> set (pad20 n) \<Longrightarrow> 48 \<le> code c \<and> code c \<le> 57"
  by (auto simp: pad20_def dest: set_show_nat split: if_splits)

lemma pad20_not_Nil [simp]: "pad20 n \<noteq> []"
  by (simp add: pad20_def)

lemma parse_pad20: "n \<le> u64_max \<Longrightarrow> parse_u64 (pad20 n) = Some n"
proof -
  assume "n \<le> u64_max"
  then have "parse_digits 0 (pad20 n) = Some n"
    by (simp add: pad20_def parse_digits_zeros parse_digits_show_nat)
  moreover obtain c cs where "pad20 n = c # cs" by (cases "pad20 n") auto
  moreover from this have "c \<noteq> CHR ''+''" using set_pad20 [of c n] by auto
  ultimately show ?thesis by (simp add: parse_u64_def)
qed

lemma pad20_inj: "a \<le> u64_max \<Longrightarrow> b \<le> u64_max \<Longrightarrow> pad20 a = pad20 b \<longleftrightarrow> a = b"
  by (metis option.inject parse_pad20)

lemma parse_digits_le: "parse_digits a s = Some n \<Longrightarrow> a \<le> u64_max \<Longrightarrow> n \<le> u64_max"
  by (induction a s rule: parse_digits.induct) (auto simp: Let_def split: if_splits)

lemma parse_u64_le: "parse_u64 s = Some n \<Longrightarrow> n \<le> u64_max"
  unfolding parse_u64_def by (auto split: list.splits if_splits simp del: parse_digits.simps elim!: parse_digits_le)

section \<open>Debug formatting\<close>

text \<open>
  The \<open>Debug\<close> form of a string. Characters outside ASCII are printed as they are; the standard
  library escapes the unprintable ones among them.
\<close>

definition hex_digit :: "nat \<Rightarrow> char" where
  "hex_digit d = char_of (if d < 10 then 48 + d else 87 + d)"

definition debug_char :: "char \<Rightarrow> string" where
  "debug_char c =
     (let n = code c; bs = CHR 0x5C in
      if n = 0 then [bs, CHR ''0''] else if n = 9 then [bs, CHR ''t'']
      else if n = 10 then [bs, CHR ''n''] else if n = 13 then [bs, CHR ''r'']
      else if n = 34 \<or> n = 92 then [bs, c]
      else if n < 16 then [bs, CHR ''u'', CHR 0x7B, hex_digit n, CHR 0x7D]
      else if n < 32 \<or> n = 127 then [bs, CHR ''u'', CHR 0x7B, hex_digit (n div 16), hex_digit (n mod 16), CHR 0x7D]
      else [c])"

definition debug_str :: "string \<Rightarrow> string" where
  "debug_str s = [CHR 0x22] @ concat (map debug_char s) @ [CHR 0x22]"

section \<open>Splitting and trimming\<close>

fun split_on :: "char \<Rightarrow> string \<Rightarrow> string list" where
  "split_on c [] = [[]]"
| "split_on c (x # xs) =
     (if x = c then [] # split_on c xs
      else (case split_on c xs of [] \<Rightarrow> [[x]] | y # ys \<Rightarrow> (x # y) # ys))"

definition strip_prefix :: "string \<Rightarrow> string \<Rightarrow> string option" where
  "strip_prefix p s = (if take (length p) s = p then Some (drop (length p) s) else None)"

text \<open>\<open>str::split_once\<close> at the first pair of spaces.\<close>

fun split_once2 :: "string \<Rightarrow> (string \<times> string) option" where
  "split_once2 (a # b # r) =
     (if a = CHR '' '' \<and> b = CHR '' '' then Some ([], r)
      else map_option (\<lambda>(p, q). (a # p, q)) (split_once2 (b # r)))"
| "split_once2 _ = None"

abbreviation newline :: char where
  "newline \<equiv> CHR 0x0A"

text \<open>\<open>str::lines\<close>: split at line feeds, a final empty line is dropped; a carriage return is stripped only before a line feed.\<close>

definition strip_cr :: "string \<Rightarrow> string" where
  "strip_cr s = (if s \<noteq> [] \<and> last s = CHR 0x0D then butlast s else s)"

definition lines :: "string \<Rightarrow> string list" where
  "lines s = (let ls = split_on newline s in map strip_cr (butlast ls) @ (if last ls = [] then [] else [last ls]))"

text \<open>The UTF-8 encodings of the characters with the \<open>White_Space\<close> property.\<close>

fun ws_codes :: "nat list \<Rightarrow> bool" where
  "ws_codes [a] = ((9 \<le> a \<and> a \<le> 13) \<or> a = 32)"
| "ws_codes [a, b] = (a = 194 \<and> (b = 133 \<or> b = 160))"
| "ws_codes [a, b, c] =
     ((a = 225 \<and> b = 154 \<and> c = 128)
      \<or> (a = 226 \<and> b = 128 \<and> ((128 \<le> c \<and> c \<le> 138) \<or> c = 168 \<or> c = 169 \<or> c = 175))
      \<or> (a = 226 \<and> b = 129 \<and> c = 159)
      \<or> (a = 227 \<and> b = 128 \<and> c = 128))"
| "ws_codes _ = False"

definition ws_head :: "string \<Rightarrow> nat" where
  "ws_head s = (if ws_codes (map code (take 1 s)) then 1
                else if ws_codes (map code (take 2 s)) then 2
                else if ws_codes (map code (take 3 s)) then 3 else 0)"

definition ws_last :: "string \<Rightarrow> nat" where
  "ws_last s = (if ws_codes (map code (drop (length s - 1) s)) then 1
                else if ws_codes (map code (drop (length s - 2) s)) then 2
                else if ws_codes (map code (drop (length s - 3) s)) then 3 else 0)"

lemma ws_head_Nil [simp]: "ws_head [] = 0"
  by (simp add: ws_head_def)

lemma ws_last_Nil [simp]: "ws_last [] = 0"
  by (simp add: ws_last_def)

function trim_start :: "string \<Rightarrow> string" where
  "trim_start s = (if ws_head s = 0 then s else trim_start (drop (ws_head s) s))"
  by pat_completeness auto
termination
proof (relation "measure length", goal_cases)
  case 1
  then show ?case by simp
next
  case (2 s)
  then have "s \<noteq> []" by (cases s) auto
  with 2 show ?case by simp
qed

declare trim_start.simps [simp del]

function trim_end :: "string \<Rightarrow> string" where
  "trim_end s = (if ws_last s = 0 then s else trim_end (take (length s - ws_last s) s))"
  by pat_completeness auto
termination
proof (relation "measure length", goal_cases)
  case 1
  then show ?case by simp
next
  case (2 s)
  then have "s \<noteq> []" by (cases s) auto
  with 2 show ?case by simp
qed

declare trim_end.simps [simp del]

definition trim :: "string \<Rightarrow> string" where
  "trim s = trim_end (trim_start s)"

lemma trim_fixed: "ws_head s = 0 \<Longrightarrow> ws_last s = 0 \<Longrightarrow> trim s = s"
  by (simp add: trim_def trim_start.simps [of s] trim_end.simps [of s])

text \<open>\<open>char::is_control\<close>: the code points of general category Cc, in UTF-8.\<close>

fun has_control :: "string \<Rightarrow> bool" where
  "has_control [] = False"
| "has_control (c # cs) =
     (code c < 32 \<or> code c = 127
      \<or> (code c = 194 \<and> (case cs of [] \<Rightarrow> False | d # _ \<Rightarrow> 128 \<le> code d \<and> code d \<le> 159))
      \<or> has_control cs)"

lemma strip_prefix_append [simp]: "strip_prefix p (p @ s) = Some s"
  by (simp add: strip_prefix_def)

lemma strip_prefix_Some: "strip_prefix p s = Some t \<longleftrightarrow> s = p @ t"
  by (auto simp: strip_prefix_def) (metis append_take_drop_id)

lemma split_on_not_Nil [simp]: "split_on c s \<noteq> []"
  by (induction c s rule: split_on.induct) (auto split: list.splits)

lemma split_on_none: "c \<notin> set s \<Longrightarrow> split_on c s = [s]"
  by (induction s) auto

lemma split_on_append: "c \<notin> set s \<Longrightarrow> split_on c (s @ c # t) = s # split_on c t"
  by (induction s) auto

section \<open>Concatenation and lines\<close>

declare utf8_valid.simps(2) [simp del]

lemma utf8_valid_append: "utf8_valid xs \<Longrightarrow> utf8_valid ys \<Longrightarrow> utf8_valid (xs @ ys)"
proof (induction xs rule: utf8_valid.induct)
  case (2 b bs)
  consider "b \<le> 127" | "\<not> b \<le> 127" "194 \<le> b \<and> b \<le> 223"
    | "\<not> b \<le> 127" "\<not> (194 \<le> b \<and> b \<le> 223)" "224 \<le> b \<and> b \<le> 239"
    | "\<not> b \<le> 127" "\<not> (194 \<le> b \<and> b \<le> 223)" "\<not> (224 \<le> b \<and> b \<le> 239)" "240 \<le> b \<and> b \<le> 244"
    | "\<not> b \<le> 127" "\<not> (194 \<le> b \<and> b \<le> 223)" "\<not> (224 \<le> b \<and> b \<le> 239)" "\<not> (240 \<le> b \<and> b \<le> 244)"
    by blast
  then show ?case
  proof cases
    case 1
    with 2 show ?thesis by (simp add: utf8_valid.simps(2) [of b])
  next
    case 2
    with "2.prems"(1) obtain c r where "bs = c # r" "cont c" "utf8_valid r"
      by (auto simp: utf8_valid.simps(2) [of b] split: list.splits)
    with 2 "2.prems"(2) "2.IH" show ?thesis by (simp add: utf8_valid.simps(2) [of b])
  next
    case 3
    with "2.prems"(1) obtain c d r where "bs = c # d # r" "cont c" "cont d" "utf8_valid r"
      "b = 224 \<longrightarrow> 160 \<le> c" "b = 237 \<longrightarrow> c \<le> 159"
      by (auto simp: utf8_valid.simps(2) [of b] split: list.splits)
    with 3 "2.prems"(2) "2.IH" show ?thesis by (auto simp: utf8_valid.simps(2) [of b])
  next
    case 4
    with "2.prems"(1) obtain c d e r where "bs = c # d # e # r" "cont c" "cont d" "cont e"
      "utf8_valid r" "b = 240 \<longrightarrow> 144 \<le> c" "b = 244 \<longrightarrow> c \<le> 143"
      by (auto simp: utf8_valid.simps(2) [of b] split: list.splits)
    with 4 "2.prems"(2) "2.IH" show ?thesis by (auto simp: utf8_valid.simps(2) [of b])
  next
    case 5
    with "2.prems"(1) show ?thesis by (simp add: utf8_valid.simps(2) [of b])
  qed
qed simp

lemma rust_str_append [intro]: "rust_str s \<Longrightarrow> rust_str t \<Longrightarrow> rust_str (s @ t)"
  by (simp add: rust_str_def utf8_valid_append)

lemma split_once2_append:
  "CHR '' '' \<notin> set h \<Longrightarrow> split_once2 (h @ CHR '' '' # CHR '' '' # p) = Some (h, p)"
proof (induction h)
  case (Cons a h)
  then show ?case by (cases h) auto
qed simp

lemma lines_concat:
  assumes "\<forall>l \<in> set ls. newline \<notin> set l \<and> strip_cr l = l"
  shows "lines (concat (map (\<lambda>l. l @ [newline]) ls)) = ls"
proof -
  have "split_on newline (concat (map (\<lambda>l. l @ [newline]) ls)) = ls @ [[]]"
    using assms by (induction ls) (simp_all add: split_on_append)
  moreover have "map strip_cr ls = ls" using assms by (simp add: map_idI)
  ultimately show ?thesis by (simp add: lines_def)
qed

lemma drop_suffix: "k \<le> length p \<Longrightarrow> drop (length (pre @ p) - k) (pre @ p) = drop (length p - k) p"
  by simp

lemma ws_last_append:
  assumes "3 \<le> length p"
  shows "ws_last (pre @ p) = ws_last p"
proof -
  have "1 \<le> length p" "2 \<le> length p" using assms by simp_all
  then show ?thesis unfolding ws_last_def by (simp only: drop_suffix assms)
qed

lemma ws_last_space_append:
  assumes "p \<noteq> []"
  shows "ws_last (pre @ CHR '' '' # p) = 0 \<longleftrightarrow> ws_last p = 0"
proof -
  consider a where "p = [a]" | a b where "p = [a, b]" | q a b c where "p = q @ [a, b, c]"
  proof (cases p rule: rev_cases)
    case (snoc q c)
    then show ?thesis
    proof (cases q rule: rev_cases)
      case (snoc r b)
      with \<open>p = q @ [c]\<close> show ?thesis using that by (cases r rule: rev_cases) simp_all
    qed (use that in simp)
  qed (use assms in simp)
  then show ?thesis
  proof cases
    case 3
    then show ?thesis using ws_last_append [of p "pre @ [CHR '' '']"] by simp
  next
    case 1
    then show ?thesis by (cases pre rule: rev_cases) (auto simp: ws_last_def)
  qed (auto simp: ws_last_def)
qed

lemma ws_last_strip_cr: "ws_last s = 0 \<Longrightarrow> strip_cr s = s"
  by (cases s rule: rev_cases) (auto simp: ws_last_def strip_cr_def split: if_splits)

end
