(* ===== verification/StateCore.thy ===== *)
theory StateCore
  imports RustStr
begin

text \<open>
  The vocabulary of \<open>krishiv-state\<close>: its error type (\<open>error.rs\<close>) and the namespaces that
  scope keyed state (\<open>namespace.rs\<close>), with the lexicographic order the derived \<open>Ord\<close> gives
  them.
\<close>

text \<open>The boxed source of \<open>BackendUnavailable\<close> is opaque and left out.\<close>

datatype state_error =
    BackendUnavailable string
  | SnapshotUnsupported string
  | SnapshotCorrupt string
  | CorruptEntry string
  | ClockError string
  | LockPoisoned string

datatype namespace = Namespace (operator_id: string) (state_name: string)

instantiation namespace :: linorder
begin

definition less_eq_namespace :: "namespace \<Rightarrow> namespace \<Rightarrow> bool" where
  "less_eq_namespace a b \<longleftrightarrow>
     operator_id a < operator_id b \<or> operator_id a = operator_id b \<and> state_name a \<le> state_name b"

definition less_namespace :: "namespace \<Rightarrow> namespace \<Rightarrow> bool" where
  "less_namespace a b \<longleftrightarrow>
     operator_id a < operator_id b \<or> operator_id a = operator_id b \<and> state_name a < state_name b"

instance
  by standard (auto simp: less_eq_namespace_def less_namespace_def namespace.expand)

end

lemma namespace_empty_least: "Namespace [] [] \<le> ns"
  by (cases "operator_id ns") (auto simp: less_eq_namespace_def)

end
