(* ===== verification/SnapshotCodec.thy ===== *)
theory SnapshotCodec
  imports StateCore
begin

text \<open>
  The portable snapshot format of \<open>krishiv-state/src/snapshot.rs\<close>: a version word, an entry
  count and, per entry, four length-prefixed segments. The decoder is modelled with its
  \<open>usize\<close> arithmetic wrapping, so that a hostile length prefix is part of the model. The
  lemmas show that encoding and decoding are inverse to each other in both directions.
\<close>

type_synonym snapshot_entry = "string \<times> string \<times> bytes \<times> bytes"

section \<open>Operations\<close>

fun read_lp_bytes :: "bytes \<Rightarrow> nat \<Rightarrow> (bytes \<times> nat) option" where
  "read_lp_bytes buf pos =
     (if length buf < usize_add pos 8 then None
      else (case slice_get buf pos (usize_add pos 8) of
              None \<Rightarrow> None
            | Some b8 \<Rightarrow>
                (let len = le_nat b8; pos1 = usize_add pos 8 in
                 if length buf < usize_add pos1 len then None
                 else (case slice_get buf pos1 (usize_add pos1 len) of
                         None \<Rightarrow> None
                       | Some v \<Rightarrow> Some (v, usize_add pos1 len)))))"

declare read_lp_bytes.simps [simp del]

definition write_prefix :: "bytes \<Rightarrow> string \<Rightarrow> string \<Rightarrow> bytes" where
  "write_prefix buf op_id name =
     buf @ u64_le (length op_id) @ as_bytes op_id @ u64_le (length name) @ as_bytes name"

definition corrupt :: "string \<Rightarrow> state_error + 'a" where
  "corrupt msg = Inl (SnapshotCorrupt msg)"

fun decode_entries :: "nat \<Rightarrow> bytes \<Rightarrow> nat \<Rightarrow> snapshot_entry list \<Rightarrow>
    state_error + (snapshot_entry list \<times> nat)" where
  "decode_entries 0 buf pos entries = Inr (entries, pos)"
| "decode_entries (Suc n) buf pos entries =
     (case read_lp_bytes buf pos of
        None \<Rightarrow> corrupt ''truncated op_id''
      | Some (op_b, pos1) \<Rightarrow>
     (case from_utf8 op_b of
        None \<Rightarrow> corrupt ''op_id not utf8''
      | Some op_id \<Rightarrow>
     (case read_lp_bytes buf pos1 of
        None \<Rightarrow> corrupt ''truncated state_name''
      | Some (name_b, pos2) \<Rightarrow>
     (case from_utf8 name_b of
        None \<Rightarrow> corrupt ''state_name not utf8''
      | Some name \<Rightarrow>
     (case read_lp_bytes buf pos2 of
        None \<Rightarrow> corrupt ''truncated key''
      | Some (key, pos3) \<Rightarrow>
     (case read_lp_bytes buf pos3 of
        None \<Rightarrow> corrupt ''truncated value''
      | Some (val, pos4) \<Rightarrow>
          decode_entries n buf pos4 (entries @ [(op_id, name, key, val)])))))))"

definition decode_snapshot_entries :: "bytes \<Rightarrow> state_error + snapshot_entry list" where
  "decode_snapshot_entries bs =
     (if length bs < 12 then corrupt ''too short''
      else let version = le_nat (take 4 bs) in
      if version \<noteq> 1 then corrupt (''unsupported snapshot version '' @ show_nat version)
      else let count = le_nat (take 8 (drop 4 bs)); max_possible = (length bs - 12) div 32 in
      if count > max_possible then
        corrupt (''entry count '' @ show_nat count @ '' exceeds what '' @ show_nat (length bs - 12)
                 @ '' payload bytes could hold ('' @ show_nat max_possible @ '')'')
      else (case decode_entries count bs 12 [] of
              Inl e \<Rightarrow> Inl e
            | Inr (entries, pos) \<Rightarrow>
                if pos \<noteq> length bs then
                  corrupt (''trailing garbage after '' @ show_nat count @ '' entries: ''
                           @ show_nat (length bs - pos) @ '' extra bytes'')
                else Inr entries))"

fun write_entry :: "bytes \<Rightarrow> snapshot_entry \<Rightarrow> bytes" where
  "write_entry buf (op_id, name, key, val) =
     write_prefix buf op_id name @ u64_le (length key) @ key @ u64_le (length val) @ val"

definition encode_snapshot_entries :: "snapshot_entry list \<Rightarrow> bytes" where
  "encode_snapshot_entries entries =
     foldl write_entry (u32_le 1 @ u64_le (length entries)) entries"

section \<open>Length-prefixed segments\<close>

definition lp :: "bytes \<Rightarrow> bytes" where
  "lp b = u64_le (length b) @ b"

fun entry_bytes :: "snapshot_entry \<Rightarrow> bytes" where
  "entry_bytes (op_id, name, key, val) = lp (as_bytes op_id) @ lp (as_bytes name) @ lp key @ lp val"

lemma length_lp [simp, codec_simps]: "length (lp b) = 8 + length b"
  by (simp add: lp_def)

lemma length_entry_bytes_ge: "32 \<le> length (entry_bytes e)"
  by (cases e) simp

lemma write_entry_eq: "write_entry buf e = buf @ entry_bytes e"
  by (cases e) (simp add: write_prefix_def lp_def)

lemma encode_eq:
  "encode_snapshot_entries es = u32_le 1 @ u64_le (length es) @ concat (map entry_bytes es)"
proof -
  have "foldl write_entry buf es = buf @ concat (map entry_bytes es)" for buf
    by (induction es arbitrary: buf) (simp_all add: write_entry_eq)
  then show ?thesis
    by (simp add: encode_snapshot_entries_def)
qed

lemma read_lp_bytes_at:
  assumes "buf = pre @ lp v @ post" and "length buf < two64" and "pos = length pre"
  shows "read_lp_bytes buf pos = Some (v, length pre + 8 + length v)"
proof -
  have len: "length pre + 8 + length v + length post < two64"
    using assms(1,2) by simp
  have "slice_get buf pos (pos + 8) = Some (u64_le (length v))"
    using slice_get_mid [of pos pre "pos + 8" "u64_le (length v)" "v @ post"] assms(1,3)
    by (simp add: lp_def)
  moreover have "slice_get buf (pos + 8) (pos + 8 + length v) = Some v"
    using slice_get_mid [of "pos + 8" "pre @ u64_le (length v)" "pos + 8 + length v" v post]
      assms(1,3)
    by (simp add: lp_def)
  moreover have "le_nat (u64_le (length v)) = length v"
    using len by (simp add: le_nat_u64_le)
  moreover have "usize_add pos 8 = pos + 8" "usize_add (pos + 8) (length v) = pos + 8 + length v"
    using len assms(3) by (simp_all add: usize_add_small)
  moreover have "pos + 8 + length v \<le> length buf" "pos + 8 \<le> length buf"
    using assms(1,3) by simp_all
  ultimately show ?thesis
    using assms(3) by (simp add: read_lp_bytes.simps not_less)
qed

lemma usize_add_no_wrap:
  "a < two64 \<Longrightarrow> b < two64 \<Longrightarrow> a \<le> usize_add a b \<Longrightarrow> usize_add a b = a + b"
  by (cases "a + b < two64") (simp_all add: usize_add_def le_mod_geq)

lemma read_lp_bytes_Some:
  assumes "read_lp_bytes buf pos = Some (v, pos')" and "length buf < two64"
  shows "drop pos buf = lp v @ drop pos' buf \<and> pos' = pos + 8 + length v \<and> pos' \<le> length buf"
proof -
  let ?p1 = "usize_add pos 8"
  obtain b8 where b8: "slice_get buf pos ?p1 = Some b8"
    and v: "slice_get buf ?p1 (usize_add ?p1 (le_nat b8)) = Some v"
    and pos': "pos' = usize_add ?p1 (le_nat b8)"
    using assms(1) by (auto simp: read_lp_bytes.simps Let_def split: if_splits option.splits)
  note 1 = slice_get_take_drop [OF b8] and 2 = slice_get_take_drop [OF v]
  have p1: "?p1 = pos + 8"
    using 1 assms(2) by (intro usize_add_no_wrap) auto
  have l8: "length b8 = 8"
    using slice_get_length [OF b8] p1 by simp
  have "le_nat b8 < two64"
    using le_nat_bound [of b8] l8 by simp
  then have p2: "usize_add ?p1 (le_nat b8) = ?p1 + le_nat b8"
    using 1 2 assms(2) by (intro usize_add_no_wrap) auto
  have lv: "length v = le_nat b8"
    using slice_get_length [OF v] p2 by simp
  have "lp v = b8 @ v"
    using l8 lv by (simp add: lp_def u64_le_le_nat)
  then show ?thesis
    using 1 2 p1 p2 lv pos' by simp
qed

section \<open>Encoding and decoding are inverse\<close>

definition entry_wf :: "snapshot_entry \<Rightarrow> bool" where
  "entry_wf e \<longleftrightarrow> (case e of (op_id, name, _, _) \<Rightarrow> rust_str op_id \<and> rust_str name)"

lemma decode_entries_encoded:
  assumes "buf = pre @ concat (map entry_bytes es) @ post" and "length buf < two64"
    and "\<forall>e \<in> set es. entry_wf e"
  shows "decode_entries (length es) buf (length pre) acc =
    Inr (acc @ es, length pre + length (concat (map entry_bytes es)))"
  using assms
proof (induction es arbitrary: pre acc)
  case Nil
  then show ?case by simp
next
  case (Cons e es)
  obtain op_id name key val where e: "e = (op_id, name, key, val)" by (cases e)
  let ?rest = "concat (map entry_bytes es) @ post"
  let ?o = "lp (as_bytes op_id)" and ?n = "lp (as_bytes name)" and ?k = "lp key" and ?v = "lp val"
  have buf: "buf = pre @ ?o @ ?n @ ?k @ ?v @ ?rest"
    using Cons.prems(1) e by simp
  note at = read_lp_bytes_at [OF _ Cons.prems(2)]
  have 1: "read_lp_bytes buf (length pre) = Some (as_bytes op_id, length (pre @ ?o))"
    using at [of pre "as_bytes op_id" "?n @ ?k @ ?v @ ?rest"] buf by simp
  have 2: "read_lp_bytes buf (length (pre @ ?o)) = Some (as_bytes name, length (pre @ ?o @ ?n))"
    using at [of "pre @ ?o" "as_bytes name" "?k @ ?v @ ?rest"] buf by simp
  have 3: "read_lp_bytes buf (length (pre @ ?o @ ?n)) = Some (key, length (pre @ ?o @ ?n @ ?k))"
    using at [of "pre @ ?o @ ?n" key "?v @ ?rest"] buf by simp
  have 4: "read_lp_bytes buf (length (pre @ ?o @ ?n @ ?k)) =
      Some (val, length (pre @ ?o @ ?n @ ?k @ ?v))"
    using at [of "pre @ ?o @ ?n @ ?k" val ?rest] buf by simp
  have wf: "rust_str op_id" "rust_str name"
    using Cons.prems(3) e by (auto simp: entry_wf_def)
  have IH: "decode_entries (length es) buf (length (pre @ ?o @ ?n @ ?k @ ?v)) (acc @ [e]) =
      Inr ((acc @ [e]) @ es,
        length (pre @ ?o @ ?n @ ?k @ ?v) + length (concat (map entry_bytes es)))"
    using Cons.prems buf by (intro Cons.IH) auto
  have "decode_entries (length (e # es)) buf (length pre) acc =
      decode_entries (length es) buf (length (pre @ ?o @ ?n @ ?k @ ?v)) (acc @ [e])"
    using 1 2 3 4 wf e by (simp del: length_append)
  then show ?case
    using IH e by simp
qed

lemma decode_entries_Inr:
  assumes "decode_entries n buf pos acc = Inr (es, pos')" and "length buf < two64"
    and "pos \<le> length buf"
  shows "\<exists>fs. es = acc @ fs \<and> length fs = n \<and> (\<forall>e \<in> set fs. entry_wf e) \<and> pos' \<le> length buf
    \<and> drop pos buf = concat (map entry_bytes fs) @ drop pos' buf"
  using assms(1,3)
proof (induction n arbitrary: pos acc)
  case 0
  then show ?case by simp
next
  case (Suc n)
  from Suc.prems(1) obtain ob p1 op_id nb p2 name key p3 val p4 where
    r: "read_lp_bytes buf pos = Some (ob, p1)" "from_utf8 ob = Some op_id"
       "read_lp_bytes buf p1 = Some (nb, p2)" "from_utf8 nb = Some name"
       "read_lp_bytes buf p2 = Some (key, p3)" "read_lp_bytes buf p3 = Some (val, p4)"
    and rest: "decode_entries n buf p4 (acc @ [(op_id, name, key, val)]) = Inr (es, pos')"
    by (auto simp: corrupt_def split: option.splits prod.splits)
  note d = read_lp_bytes_Some [OF r(1) assms(2)] read_lp_bytes_Some [OF r(3) assms(2)]
    read_lp_bytes_Some [OF r(5) assms(2)] read_lp_bytes_Some [OF r(6) assms(2)]
  from Suc.IH [OF rest] d obtain fs where
    fs: "es = (acc @ [(op_id, name, key, val)]) @ fs" "length fs = n"
      "\<forall>e \<in> set fs. entry_wf e" "pos' \<le> length buf"
      "drop p4 buf = concat (map entry_bytes fs) @ drop pos' buf"
    by blast
  have "entry_wf (op_id, name, key, val)" "ob = as_bytes op_id" "nb = as_bytes name"
    using r(2,4) by (auto simp: from_utf8_Some entry_wf_def)
  then show ?case
    using d fs by (intro exI [of _ "(op_id, name, key, val) # fs"]) simp
qed

text \<open>An accepted buffer is exactly the encoding of what was read from it.\<close>

lemma decode_Inr_encode:
  assumes "decode_snapshot_entries bs = Inr es" and "length bs < two64"
  shows "encode_snapshot_entries es = bs \<and> (\<forall>e \<in> set es. entry_wf e)"
proof -
  from assms(1) have l: "12 \<le> length bs" and ver: "le_nat (take 4 bs) = 1"
    and dec: "decode_entries (le_nat (take 8 (drop 4 bs))) bs 12 [] = Inr (es, length bs)"
    by (auto simp: decode_snapshot_entries_def corrupt_def Let_def not_less
        split: if_splits sum.splits prod.splits)
  from decode_entries_Inr [OF dec assms(2) l]
  have es: "length es = le_nat (take 8 (drop 4 bs))" "\<forall>e \<in> set es. entry_wf e"
    "drop 12 bs = concat (map entry_bytes es)"
    by auto
  have "u32_le 1 = take 4 bs"
    using u32_le_le_nat [of "take 4 bs"] ver l by simp
  moreover have "u64_le (length es) = take 8 (drop 4 bs)"
    using u64_le_le_nat [of "take 8 (drop 4 bs)"] es(1) l by simp
  moreover have "bs = take 4 bs @ take 8 (drop 4 bs) @ drop 12 bs"
  proof -
    have "drop 4 bs = take 8 (drop 4 bs) @ drop 12 bs"
      using append_take_drop_id [of 8 "drop 4 bs"] by simp
    then show ?thesis by (metis append_take_drop_id)
  qed
  ultimately have "encode_snapshot_entries es = bs"
    using es(3) by (simp add: encode_eq)
  with es(2) show ?thesis by simp
qed

lemma concat_entry_bytes_ge: "32 * length es \<le> length (concat (map entry_bytes es))"
proof (induction es)
  case Nil
  then show ?case by simp
next
  case (Cons e es)
  then show ?case using length_entry_bytes_ge [of e] by simp
qed

lemma decode_encode:
  assumes "\<forall>e \<in> set es. entry_wf e" and "length (encode_snapshot_entries es) < two64"
  shows "decode_snapshot_entries (encode_snapshot_entries es) = Inr es"
proof -
  let ?bs = "encode_snapshot_entries es" and ?hdr = "u32_le 1 @ u64_le (length es)"
  have bs: "?bs = ?hdr @ concat (map entry_bytes es) @ []"
    by (simp add: encode_eq)
  have l: "length ?bs = 12 + length (concat (map entry_bytes es))"
    by (simp add: encode_eq)
  have "length es < two64"
    using concat_entry_bytes_ge [of es] assms(2) l by linarith
  then have count: "le_nat (take 8 (drop 4 ?bs)) = length es"
    by (simp add: encode_eq le_nat_u64_le)
  have ver: "le_nat (take 4 ?bs) = 1"
    by (simp add: encode_eq le_nat_u32_le)
  have "decode_entries (length es) ?bs 12 [] = Inr (es, length ?bs)"
    using decode_entries_encoded [OF bs assms(2,1), of "[]"] l by simp
  moreover have "\<not> length es > (length ?bs - 12) div 32"
    using concat_entry_bytes_ge [of es] l by linarith
  ultimately show ?thesis
    using l ver count by (simp add: decode_snapshot_entries_def Let_def)
qed

section \<open>Properties\<close>

text \<open>
  C18. A buffer is accepted by the decoder exactly when it is the encoding of a list of
  entries with well-formed identifiers, and it decodes to that list: the portable snapshot
  format is unambiguous, complete and canonical.
\<close>

theorem snapshot_codec_exact:
  assumes "length bs < two64"
  shows "decode_snapshot_entries bs = Inr es \<longleftrightarrow>
    bs = encode_snapshot_entries es \<and> (\<forall>e \<in> set es. entry_wf e)"
  using decode_encode [of es] decode_Inr_encode [of bs es] assms by auto

theorem snapshot_codec_exact_witness:
  "decode_snapshot_entries (encode_snapshot_entries [(''op'', ''sum'', [1, 2], [7])]) =
     Inr [(''op'', ''sum'', [1, 2], [7])]
   \<and> length (encode_snapshot_entries [(''op'', ''sum'', [1, 2], [7])]) = 52"
proof -
  let ?es = "[(''op'', ''sum'', [1, 2], [7])] :: snapshot_entry list"
  have len: "length (encode_snapshot_entries ?es) = 52"
    by (simp add: encode_snapshot_entries_def write_prefix_def)
  moreover have "rust_str ''op''" "rust_str ''sum''" by code_simp+
  then have "\<forall>e \<in> set ?es. entry_wf e" by (simp add: entry_wf_def)
  ultimately show ?thesis
    using snapshot_codec_exact [of "encode_snapshot_entries ?es" ?es] by simp
qed

text \<open>
  Reading a length-prefixed segment never leaves the buffer, whatever the prefix says:
  with the wrapping \<open>usize\<close> arithmetic a hostile length is refused, and a segment that is
  returned is the one the prefix describes.
\<close>

theorem read_lp_bytes_in_bounds:
  assumes "length buf < two64" and "read_lp_bytes buf pos = Some (v, pos')"
  shows "pos' \<le> length buf \<and> pos' = pos + 8 + length v
    \<and> take (length v + 8) (drop pos buf) = u64_le (length v) @ v"
  using read_lp_bytes_Some [OF assms(2,1)] by (simp add: lp_def)

lemma hostile_length_refused: "read_lp_bytes (u64_le 18446744073709551615 @ [5, 6]) 0 = None"
proof -
  have "usize_add 8 18446744073709551615 = 7" "usize_add 0 8 = 8" by (simp_all add: usize_add_def)
  moreover have "le_nat (u64_le 18446744073709551615) = 18446744073709551615"
    by (rule le_nat_u64_le) simp
  ultimately show ?thesis by (simp add: read_lp_bytes.simps slice_get_def)
qed

theorem read_lp_bytes_in_bounds_witness:
  "read_lp_bytes (u64_le 2 @ [5, 6, 9]) 0 = Some ([5, 6], 10)
   \<and> take 10 (drop 0 (u64_le 2 @ [5, 6, 9])) = u64_le 2 @ [5, 6]
   \<and> read_lp_bytes (u64_le 18446744073709551615 @ [5, 6]) 0 = None"
proof -
  have r: "read_lp_bytes (u64_le 2 @ [5, 6, 9]) 0 = Some ([5, 6], 10)"
    by (simp add: read_lp_bytes.simps slice_get_def u64_le_def le_bytes_numeral usize_add_def)
  have "length (u64_le 2 @ [5, 6, 9 :: u8]) < two64" by simp
  from read_lp_bytes_in_bounds [OF this r] have "take 10 (drop 0 (u64_le 2 @ [5, 6, 9])) = u64_le 2 @ [5, 6]"
    by simp
  with r hostile_length_refused show ?thesis by blast
qed

end
