(* ===== verification/KeyGroups.thy ===== *)
theory KeyGroups
  imports RustStr
begin

text \<open>
  Key groups (\<open>krishiv-state/src/key_group.rs\<close>) and the keyed hash that feeds them
  (\<open>krishiv-common/src/partition.rs\<close>, \<open>krishiv-common/src/hash.rs\<close>). SHA-256 comes from a
  third-party crate and is the parameter \<open>sha256\<close>. Widths: key groups are \<open>u16\<close>, task
  indices and parallelism \<open>u32\<close>; both are \<^typ>\<open>nat\<close> here, with the casts written out.
  The lemmas show that the range table partitions the key groups evenly and that the constant
  time lookup inverts it.
\<close>

section \<open>Operations\<close>

definition NUM_KEY_GROUPS :: nat where
  "NUM_KEY_GROUPS = 32768"

record key_group_range =
  kg_start :: nat
  kg_end :: nat

definition kgr_contains :: "key_group_range \<Rightarrow> nat \<Rightarrow> bool" where
  "kgr_contains r key_group \<longleftrightarrow> key_group \<ge> kg_start r \<and> key_group \<le> kg_end r"

definition as_u16 :: "nat \<Rightarrow> nat" where
  "as_u16 n = n mod 65536"

definition sha256_bytes_multi :: "(bytes \<Rightarrow> bytes) \<Rightarrow> bytes list \<Rightarrow> bytes" where
  "sha256_bytes_multi sha256 inputs = sha256 (concat inputs)"

definition PARTITION_KEY_HASH_DOMAIN :: bytes where
  "PARTITION_KEY_HASH_DOMAIN = as_bytes ''krishiv.partition-key.v1'' @ [0]"

definition key_group_for_bytes :: "(bytes \<Rightarrow> bytes) \<Rightarrow> bytes \<Rightarrow> nat \<Rightarrow> nat" where
  "key_group_for_bytes sha256 key num_groups =
     (let groups = max num_groups 1;
          digest = sha256_bytes_multi sha256
                     [PARTITION_KEY_HASH_DOMAIN, as_bytes ''keygroup'' @ [0], key];
          hash = le_nat (take 8 digest)
      in as_u16 (hash mod groups))"

definition key_group_for_key :: "(bytes \<Rightarrow> bytes) \<Rightarrow> bytes \<Rightarrow> nat" where
  "key_group_for_key sha256 key = key_group_for_bytes sha256 key NUM_KEY_GROUPS"

fun kg_ranges_loop :: "nat \<Rightarrow> nat \<Rightarrow> nat list \<Rightarrow> nat \<Rightarrow> key_group_range list" where
  "kg_ranges_loop base rem [] start = []"
| "kg_ranges_loop base rem (i # is) start =
     (let extra = (if i < rem then 1 else 0);
          count = base + extra;
          last_kg = start + count - 1
      in \<lparr>kg_start = as_u16 start, kg_end = as_u16 last_kg\<rparr> # kg_ranges_loop base rem is (last_kg + 1))"

definition key_group_ranges_for_parallelism :: "nat \<Rightarrow> key_group_range list" where
  "key_group_ranges_for_parallelism parallelism =
     (let p = max parallelism 1; groups = NUM_KEY_GROUPS
      in kg_ranges_loop (groups div p) (groups mod p) [0..<p] 0)"

definition task_index_for_key_group :: "nat \<Rightarrow> nat \<Rightarrow> nat" where
  "task_index_for_key_group key_group parallelism =
     (let p = max parallelism 1; groups = NUM_KEY_GROUPS;
          base = groups div p; rem = groups mod p;
          fat_span = rem * (base + 1)
      in if key_group < fat_span then key_group div (base + 1)
         else if base = 0 then p - 1
         else rem + (key_group - fat_span) div base)"

section \<open>The range table in closed form\<close>

definition range_lo :: "nat \<Rightarrow> nat \<Rightarrow> nat" where
  "range_lo p i = i * (NUM_KEY_GROUPS div p) + min i (NUM_KEY_GROUPS mod p)"

lemma range_lo_0 [simp]: "range_lo p 0 = 0"
  by (simp add: range_lo_def)

lemma range_lo_Suc:
  "range_lo p (Suc i) =
     range_lo p i + NUM_KEY_GROUPS div p + (if i < NUM_KEY_GROUPS mod p then 1 else 0)"
  by (simp add: range_lo_def min_def)

lemma range_lo_last: "0 < p \<Longrightarrow> range_lo p p = NUM_KEY_GROUPS"
proof -
  assume "0 < p"
  then have "NUM_KEY_GROUPS mod p < p" by simp
  then show ?thesis by (simp add: range_lo_def min_absorb2)
qed

lemma range_lo_mono: "i \<le> j \<Longrightarrow> range_lo p i \<le> range_lo p j"
  unfolding range_lo_def by (intro add_mono mult_le_mono1) (auto simp: min_def)

lemma range_lo_le: "0 < p \<Longrightarrow> i \<le> p \<Longrightarrow> range_lo p i \<le> 32768"
  using range_lo_mono [of i p p] range_lo_last [of p] by (simp add: NUM_KEY_GROUPS_def)

lemma range_lo_Suc_pos: "0 < p \<Longrightarrow> 0 < range_lo p (Suc i)"
proof -
  assume p: "0 < p"
  have "0 < NUM_KEY_GROUPS div p \<or> 0 < NUM_KEY_GROUPS mod p"
    using p by (metis NUM_KEY_GROUPS_def bot_nat_0.not_eq_extremum div_mult_mod_eq mult_is_0
        plus_nat.add_0 zero_neq_numeral)
  then show ?thesis by (auto simp: range_lo_def)
qed

lemma kg_ranges_loop_eq:
  assumes "0 < p" and "n \<le> p"
  shows "kg_ranges_loop (NUM_KEY_GROUPS div p) (NUM_KEY_GROUPS mod p) [i..<n] (range_lo p i) =
    map (\<lambda>j. \<lparr>kg_start = range_lo p j, kg_end = range_lo p (Suc j) - 1\<rparr>) [i..<n]"
proof (induction "n - i" arbitrary: i)
  case 0
  then show ?case by simp
next
  case (Suc k)
  then have i: "i < n" by simp
  have le: "range_lo p i \<le> 32768" "range_lo p (Suc i) \<le> 32768"
    using range_lo_le assms i by simp_all
  have "kg_ranges_loop (NUM_KEY_GROUPS div p) (NUM_KEY_GROUPS mod p) [Suc i..<n]
      (range_lo p (Suc i)) =
    map (\<lambda>j. \<lparr>kg_start = range_lo p j, kg_end = range_lo p (Suc j) - 1\<rparr>) [Suc i..<n]"
    using Suc by simp
  moreover have hi: "range_lo p i + (NUM_KEY_GROUPS div p + (if i < NUM_KEY_GROUPS mod p then 1 else 0))
      = range_lo p (Suc i)"
    by (simp add: range_lo_Suc)
  moreover have "range_lo p (Suc i) - 1 + 1 = range_lo p (Suc i)"
    using range_lo_Suc_pos [OF assms(1), of i] by simp
  ultimately show ?case
    using i le by (simp only: upt_conv_Cons kg_ranges_loop.simps Let_def hi) (simp add: as_u16_def)
qed

lemma key_group_ranges_eq:
  "key_group_ranges_for_parallelism n =
     map (\<lambda>j. \<lparr>kg_start = range_lo (max n 1) j, kg_end = range_lo (max n 1) (Suc j) - 1\<rparr>)
       [0..<max n 1]"
  using kg_ranges_loop_eq [of "max n 1" "max n 1" 0]
  by (simp add: key_group_ranges_for_parallelism_def Let_def)

lemma length_key_group_ranges [simp]:
  "length (key_group_ranges_for_parallelism n) = max n 1"
  by (simp add: key_group_ranges_eq)

lemma key_group_ranges_nth:
  "i < max n 1 \<Longrightarrow> key_group_ranges_for_parallelism n ! i =
     \<lparr>kg_start = range_lo (max n 1) i, kg_end = range_lo (max n 1) (Suc i) - 1\<rparr>"
  by (simp add: key_group_ranges_eq del: upt_Suc)

lemma contains_nth:
  "i < max n 1 \<Longrightarrow> kgr_contains (key_group_ranges_for_parallelism n ! i) kg \<longleftrightarrow>
     range_lo (max n 1) i \<le> kg \<and> kg < range_lo (max n 1) (Suc i)"
  using range_lo_Suc_pos [of "max n 1" i]
  by (auto simp: key_group_ranges_nth kgr_contains_def)

section \<open>The constant-time lookup inverts the table\<close>

lemma task_index_bounds:
  assumes "0 < p" and "kg < NUM_KEY_GROUPS" and "t = task_index_for_key_group kg p"
  shows "t < p \<and> range_lo p t \<le> kg \<and> kg < range_lo p (Suc t)"
proof -
  define b where "b = NUM_KEY_GROUPS div p"
  define r where "r = NUM_KEY_GROUPS mod p"
  have rp: "r < p" and tot: "b * p + r = NUM_KEY_GROUPS"
    using assms(1) by (simp_all add: b_def r_def)
  have lo: "range_lo p i = i * b + min i r" for i
    by (simp add: range_lo_def b_def r_def)
  show ?thesis
  proof (cases "kg < r * (b + 1)")
    case True
    then have t: "t = kg div (b + 1)"
      using assms(1,3) by (simp add: task_index_for_key_group_def Let_def b_def r_def max_absorb1)
    have "t < r" using True t by (simp add: less_mult_imp_div_less)
    moreover have "t * (b + 1) \<le> kg" "kg < Suc t * (b + 1)"
      unfolding t by (rule div_times_less_eq_dividend)
        (metis add_gr_0 dividend_less_div_times less_one mult_Suc plus_1_eq_Suc add.commute)
    ultimately show ?thesis
      using rp by (simp add: lo algebra_simps)
  next
    case False
    have b0: "b \<noteq> 0"
      using False tot assms(2) by (cases "b = 0") (auto simp: NUM_KEY_GROUPS_def)
    let ?q = "(kg - r * (b + 1)) div b"
    have t: "t = r + ?q"
      using False b0 assms(1,3)
      by (simp add: task_index_for_key_group_def Let_def b_def r_def max_absorb1)
    have "?q * b \<le> kg - r * (b + 1)" "kg - r * (b + 1) < Suc ?q * b"
      using b0 by (simp_all add: dividend_less_div_times div_times_less_eq_dividend)
    then have bounds: "r * (b + 1) + ?q * b \<le> kg" "kg < r * (b + 1) + Suc ?q * b"
      using False by linarith+
    have "kg - r * (b + 1) < (p - r) * b"
      using assms(2) tot rp False by (simp add: diff_mult_distrib algebra_simps)
    then have "?q < p - r" by (simp add: less_mult_imp_div_less)
    then show ?thesis
      using bounds t by (simp add: lo algebra_simps)
  qed
qed

lemma task_index_max: "task_index_for_key_group kg n = task_index_for_key_group kg (max n 1)"
  by (simp add: task_index_for_key_group_def)

lemma task_index_less: "kg < NUM_KEY_GROUPS \<Longrightarrow> task_index_for_key_group kg n < max n 1"
  using task_index_bounds [of "max n 1" kg] by (simp add: task_index_max [of kg n])

lemma key_group_for_key_less: "key_group_for_key h k < NUM_KEY_GROUPS"
  by (simp add: key_group_for_key_def key_group_for_bytes_def NUM_KEY_GROUPS_def as_u16_def Let_def)

text \<open>
  Every key group is in exactly one range, the one the O(1) arithmetic names.
\<close>

lemma contains_iff_task_index:
  assumes "kg < NUM_KEY_GROUPS" and "i < max n 1"
  shows "kgr_contains (key_group_ranges_for_parallelism n ! i) kg \<longleftrightarrow>
    i = task_index_for_key_group kg n"
proof -
  let ?p = "max n 1" and ?t = "task_index_for_key_group kg n"
  have t: "?t < ?p" "range_lo ?p ?t \<le> kg" "kg < range_lo ?p (Suc ?t)"
    using task_index_bounds [of ?p kg ?t] assms(1) task_index_max [of kg n] by auto
  have "i = ?t" if "range_lo ?p i \<le> kg" "kg < range_lo ?p (Suc i)"
  proof (rule ccontr)
    assume "i \<noteq> ?t"
    then have "Suc i \<le> ?t \<or> Suc ?t \<le> i" by linarith
    then show False
      using that t range_lo_mono [of "Suc i" ?t ?p] range_lo_mono [of "Suc ?t" i ?p] by linarith
  qed
  with t show ?thesis
    using assms(2) by (auto simp: contains_nth)
qed

lemma range_size:
  "range_lo p (Suc i) - range_lo p i \<in> {NUM_KEY_GROUPS div p, NUM_KEY_GROUPS div p + 1}"
  by (simp add: range_lo_Suc)

section \<open>Properties\<close>

text \<open>
  Every key group belongs to exactly one task's range, and the constant-time lookup names
  that task, for every parallelism (also when it does not divide the number of key groups).
\<close>

theorem key_group_owner_unique:
  assumes "kg < NUM_KEY_GROUPS"
  shows "\<forall>i < length (key_group_ranges_for_parallelism n).
    kgr_contains (key_group_ranges_for_parallelism n ! i) kg \<longleftrightarrow> i = task_index_for_key_group kg n"
  using contains_iff_task_index [OF assms] by simp

theorem key_group_owner_unique_witness:
  "task_index_for_key_group 19662 5 = 3
   \<and> kgr_contains (key_group_ranges_for_parallelism 5 ! 3) 19662
   \<and> \<not> kgr_contains (key_group_ranges_for_parallelism 5 ! 2) 19662"
proof -
  have t: "task_index_for_key_group 19662 5 = 3"
    by (simp add: task_index_for_key_group_def NUM_KEY_GROUPS_def Let_def)
  have "19662 < NUM_KEY_GROUPS" by (simp add: NUM_KEY_GROUPS_def)
  from key_group_owner_unique [OF this, of 5] t show ?thesis by simp
qed

text \<open>The ranges are contiguous, cover all key groups and differ in size by at most one.\<close>

theorem key_group_ranges_balanced:
  assumes "0 < n" and "i < n"
  shows "let rs = key_group_ranges_for_parallelism n;
             size = (\<lambda>r. kg_end r + 1 - kg_start r)
         in length rs = n
            \<and> kg_start (rs ! 0) = 0 \<and> kg_end (rs ! (n - 1)) = NUM_KEY_GROUPS - 1
            \<and> (Suc i < n \<longrightarrow> kg_start (rs ! Suc i) = kg_end (rs ! i) + 1)
            \<and> size (rs ! i) \<in> {NUM_KEY_GROUPS div n, NUM_KEY_GROUPS div n + 1}"
proof -
  have nth: "key_group_ranges_for_parallelism n ! j =
      \<lparr>kg_start = range_lo n j, kg_end = range_lo n (Suc j) - 1\<rparr>" if "j < n" for j
    using key_group_ranges_nth [of j n] that assms(1) by (simp add: max_absorb1)
  have pos: "0 < range_lo n (Suc j)" for j
    using assms(1) by (rule range_lo_Suc_pos)
  have last: "range_lo n (Suc (n - 1)) = NUM_KEY_GROUPS"
    using range_lo_last [OF assms(1)] assms(1) by simp
  have size: "range_lo n (Suc i) - 1 + 1 - range_lo n i
      \<in> {NUM_KEY_GROUPS div n, NUM_KEY_GROUPS div n + 1}"
    using range_size [of n i] pos [of i] by simp
  show ?thesis
    using assms nth [of 0] nth [of "n - 1"] nth [of i] nth [of "Suc i"] pos [of i] last size
    by (simp add: Let_def max_absorb1)
qed

theorem key_group_ranges_balanced_witness:
  "map (\<lambda>r. (kg_start r, kg_end r)) (key_group_ranges_for_parallelism 3) =
     [(0, 10922), (10923, 21845), (21846, 32767)]
   \<and> kg_start (key_group_ranges_for_parallelism 3 ! 2) = kg_end (key_group_ranges_for_parallelism 3 ! 1) + 1"
proof -
  have "map (\<lambda>r. (kg_start r, kg_end r)) (key_group_ranges_for_parallelism 3) =
      [(0, 10922), (10923, 21845), (21846, 32767)]"
    by (simp add: key_group_ranges_for_parallelism_def NUM_KEY_GROUPS_def as_u16_def upt_rec Let_def)
  with key_group_ranges_balanced [of 3 1] show ?thesis by (simp add: Let_def numeral_2_eq_2)
qed

end
