(* ===== verification/Rescaling.thy ===== *)
theory Rescaling
  imports SnapshotCodec KeyGroups
begin

text \<open>
  Redistribution of operator snapshots to a new parallelism
  (\<open>krishiv-state/src/checkpoint/rescaling.rs\<close>). The routing hash is the parameter
  \<open>sha256\<close>. Messages that interpolate a \<open>Debug\<close> rendering carry the text around it. The
  lemmas show which task every entry goes to, that no entry is lost or duplicated, that the
  watermark of a rescaled task is the minimum over the old tasks, and that the internal
  verification step can never reject.
\<close>

section \<open>Operations\<close>

record rescale_checksum =
  total_rows :: nat
  column_count :: nat
  old_parallelism :: nat
  new_parallelism :: nat

definition checksum_verify :: "rescale_checksum \<Rightarrow> nat list \<Rightarrow> nat \<Rightarrow> bool" where
  "checksum_verify c post_shard_row_counts post_column_count \<longleftrightarrow>
     sum_list post_shard_row_counts = total_rows c
     \<and> post_column_count = column_count c
     \<and> length post_shard_row_counts = new_parallelism c"

record key_group_rescaler =
  rs_old_parallelism :: nat
  rs_new_parallelism :: nat
  new_ranges :: "key_group_range list"

definition rescaler_new :: "nat \<Rightarrow> nat \<Rightarrow> key_group_rescaler" where
  "rescaler_new old new =
     \<lparr>rs_old_parallelism = max old 1, rs_new_parallelism = max new 1,
      new_ranges = key_group_ranges_for_parallelism (max new 1)\<rparr>"

text \<open>\<open>slice::partition_point\<close>: binary search for the end of the prefix where \<open>P\<close> holds.\<close>

function pp_search :: "('a \<Rightarrow> bool) \<Rightarrow> 'a list \<Rightarrow> nat \<Rightarrow> nat \<Rightarrow> nat" where
  "pp_search P xs lo hi =
     (if lo < hi then
        (let mid = (lo + hi) div 2 in
         if P (xs ! mid) then pp_search P xs (mid + 1) hi else pp_search P xs lo mid)
      else lo)"
  by pat_completeness auto
termination
  by (relation "measure (\<lambda>(P, xs, lo, hi). hi - lo)") (auto simp: Let_def)

declare pp_search.simps [simp del]

definition partition_point :: "('a \<Rightarrow> bool) \<Rightarrow> 'a list \<Rightarrow> nat" where
  "partition_point P xs = pp_search P xs 0 (length xs)"

definition task_for_key_group :: "key_group_rescaler \<Rightarrow> nat \<Rightarrow> nat" where
  "task_for_key_group r key_group =
     (let idx = partition_point (\<lambda>x. kg_end x < key_group) (new_ranges r) in
      if idx < length (new_ranges r) then idx else rs_new_parallelism r - 1)"

definition range_for_task :: "key_group_rescaler \<Rightarrow> nat \<Rightarrow> key_group_range option" where
  "range_for_task r task_index =
     (if task_index < length (new_ranges r) then Some (new_ranges r ! task_index) else None)"

definition WINDOW_STATE_KEY_LAYOUTS :: "(bytes \<times> nat) list" where
  "WINDOW_STATE_KEY_LAYOUTS =
     [(as_bytes ''tw:'', 8), (as_bytes ''sw:'', 8), (as_bytes ''ses:'', 16)]"

definition BROADCAST_STATE_KEYS :: "bytes list" where
  "BROADCAST_STATE_KEYS = [as_bytes ''wm:'']"

datatype entry_routing = ByStateKey | WindowGroupKey

fun window_group_key_in :: "(bytes \<times> nat) list \<Rightarrow> bytes \<Rightarrow> bytes option" where
  "window_group_key_in [] state_key = None"
| "window_group_key_in ((prefix, trailing) # ls) state_key =
     (if take (length prefix) state_key \<noteq> prefix
         \<or> length state_key < length prefix + 4 + trailing
      then window_group_key_in ls state_key
      else let rest = drop (length prefix) state_key;
               key_len = le_nat (take 4 rest)
           in if length rest = 4 + key_len + trailing then slice_get rest 4 (4 + key_len)
              else window_group_key_in ls state_key)"

definition window_group_key :: "bytes \<Rightarrow> bytes option" where
  "window_group_key = window_group_key_in WINDOW_STATE_KEY_LAYOUTS"

fun routing_key :: "bytes \<Rightarrow> entry_routing \<Rightarrow> bytes option" where
  "routing_key state_key ByStateKey = Some state_key"
| "routing_key state_key WindowGroupKey =
     (if state_key \<in> set BROADCAST_STATE_KEYS then None else window_group_key state_key)"

abbreviation entry_key :: "snapshot_entry \<Rightarrow> bytes" where
  "entry_key e \<equiv> fst (snd (snd e))"

abbreviation entry_value :: "snapshot_entry \<Rightarrow> bytes" where
  "entry_value e \<equiv> snd (snd (snd e))"

text \<open>The first loop: route or set aside every entry of every old snapshot.\<close>

record redist =
  routed :: "snapshot_entry list list"
  bcast :: "snapshot_entry list"
  routed_total :: nat

fun route_entries :: "(bytes \<Rightarrow> bytes) \<Rightarrow> key_group_rescaler \<Rightarrow> entry_routing \<Rightarrow>
    snapshot_entry list \<Rightarrow> redist \<Rightarrow> state_error + redist" where
  "route_entries sha256 r routing [] st = Inr st"
| "route_entries sha256 r routing (e # es) st =
     (case routing_key (entry_key e) routing of
        Some key \<Rightarrow>
          (let task = task_for_key_group r (key_group_for_key sha256 key) in
           if task < length (routed st) then
             route_entries sha256 r routing es
               (st\<lparr>routed := (routed st)[task := routed st ! task @ [e]],
                   routed_total := routed_total st + 1\<rparr>)
           else Inl (SnapshotCorrupt (''task index '' @ show_nat task @ '' out of range'')))
      | None \<Rightarrow> route_entries sha256 r routing es (st\<lparr>bcast := bcast st @ [e]\<rparr>))"

fun route_snapshots :: "(bytes \<Rightarrow> bytes) \<Rightarrow> key_group_rescaler \<Rightarrow> entry_routing \<Rightarrow>
    bytes list \<Rightarrow> redist \<Rightarrow> state_error + redist" where
  "route_snapshots sha256 r routing [] st = Inr st"
| "route_snapshots sha256 r routing (s # ss) st =
     (if s = [] then route_snapshots sha256 r routing ss st
      else rbind (decode_snapshot_entries s)
        (\<lambda>es. rbind (route_entries sha256 r routing es st)
          (\<lambda>st'. route_snapshots sha256 r routing ss st')))"

text \<open>The second loop: one broadcast entry per key, the smaller watermark winning.\<close>

definition same_slot :: "snapshot_entry \<Rightarrow> snapshot_entry \<Rightarrow> bool" where
  "same_slot a b \<longleftrightarrow> fst a = fst b \<and> fst (snd a) = fst (snd b) \<and> entry_key a = entry_key b"

definition set_value :: "snapshot_entry \<Rightarrow> bytes \<Rightarrow> snapshot_entry" where
  "set_value e v = (fst e, fst (snd e), entry_key e, v)"

fun merge_bcast :: "snapshot_entry list \<Rightarrow> snapshot_entry \<Rightarrow> state_error + snapshot_entry list" where
  "merge_bcast [] e = Inr [e]"
| "merge_bcast (x # xs) e =
     (if same_slot x e then
        (if length (entry_value x) = 8 \<and> length (entry_value e) = 8 then
           (if i64_of_le (entry_value e) < i64_of_le (entry_value x)
            then Inr (set_value x (entry_value e) # xs) else Inr (x # xs))
         else if entry_value e \<noteq> entry_value x then
           Inl (SnapshotCorrupt
             ''broadcast state key has conflicting non-watermark values across old tasks; cannot redistribute safely'')
         else Inr (x # xs))
      else rbind (merge_bcast xs e) (\<lambda>ys. Inr (x # ys)))"

fun dedup_bcast :: "snapshot_entry list \<Rightarrow> snapshot_entry list \<Rightarrow> state_error + snapshot_entry list" where
  "dedup_bcast acc [] = Inr acc"
| "dedup_bcast acc (e # es) = rbind (merge_bcast acc e) (\<lambda>acc'. dedup_bcast acc' es)"

definition target_snapshot :: "snapshot_entry list \<Rightarrow> snapshot_entry list \<Rightarrow> bytes" where
  "target_snapshot shared entries =
     (let es = entries @ shared in if es = [] then [] else encode_snapshot_entries es)"

definition redistribute_snapshots ::
    "(bytes \<Rightarrow> bytes) \<Rightarrow> bytes list \<Rightarrow> nat \<Rightarrow> entry_routing \<Rightarrow> state_error + bytes list" where
  "redistribute_snapshots sha256 old_snapshots new_par routing =
     (let np = max new_par 1;
          rescaler = rescaler_new (max (length old_snapshots) 1) np
      in rbind (route_snapshots sha256 rescaler routing old_snapshots
                  \<lparr>routed = replicate np [], bcast = [], routed_total = 0\<rparr>)
        (\<lambda>st. rbind (dedup_bcast [] (bcast st))
          (\<lambda>deduped.
             let checksum = \<lparr>total_rows = routed_total st, column_count = 0,
                             old_parallelism = max (length old_snapshots) 1, new_parallelism = np\<rparr>
             in if \<not> checksum_verify checksum (map length (routed st)) 0 then
                  Inl (SnapshotCorrupt (''rescale verification failed: '' @ show_nat (routed_total st)
                    @ '' routed entries split across '' @ show_nat np @ '' tasks''))
                else Inr (map (target_snapshot deduped) (routed st)))))"

section \<open>Binary search and task lookup\<close>

lemma pp_search_spec:
  assumes "\<And>i j. i < j \<Longrightarrow> j < length xs \<Longrightarrow> P (xs ! j) \<Longrightarrow> P (xs ! i)"
    and "lo \<le> hi" and "hi \<le> length xs"
    and "\<And>i. i < lo \<Longrightarrow> P (xs ! i)" and "hi < length xs \<Longrightarrow> \<not> P (xs ! hi)"
  shows "let k = pp_search P xs lo hi in
    k \<le> length xs \<and> (\<forall>i < k. P (xs ! i)) \<and> (k < length xs \<longrightarrow> \<not> P (xs ! k))"
  using assms(2-)
proof (induction "hi - lo" arbitrary: lo hi rule: less_induct)
  case less
  let ?mid = "(lo + hi) div 2"
  note unfold = pp_search.simps [of P xs lo hi]
  show ?case
  proof (cases "lo < hi")
    case False
    then have "pp_search P xs lo hi = lo" by (simp add: unfold)
    with False less.prems show ?thesis by (auto simp: Let_def)
  next
    case lt: True
    then have mid: "lo \<le> ?mid" "?mid < hi" by linarith+
    show ?thesis
    proof (cases "P (xs ! ?mid)")
      case True
      have "P (xs ! i)" if "i < ?mid + 1" for i
        using that True assms(1) [of i ?mid] mid(2) less.prems(2) by (cases "i = ?mid") auto
      with True lt mid less.prems less.hyps [of hi "?mid + 1"] show ?thesis
        by (simp add: unfold Let_def)
    next
      case False
      with lt mid less.prems less.hyps [of ?mid lo] show ?thesis
        by (simp add: unfold Let_def)
    qed
  qed
qed

lemma partition_point_spec:
  assumes "\<And>i j. i < j \<Longrightarrow> j < length xs \<Longrightarrow> P (xs ! j) \<Longrightarrow> P (xs ! i)"
  shows "partition_point P xs \<le> length xs"
    and "i < partition_point P xs \<Longrightarrow> P (xs ! i)"
    and "partition_point P xs < length xs \<Longrightarrow> \<not> P (xs ! partition_point P xs)"
  using pp_search_spec [of xs P 0 "length xs"] assms
  by (auto simp: partition_point_def Let_def)

lemma partition_point_ranges:
  assumes "0 < p" and "kg < NUM_KEY_GROUPS"
  shows "partition_point (\<lambda>x. kg_end x < kg) (key_group_ranges_for_parallelism p) =
    task_index_for_key_group kg p" (is "partition_point ?P ?rs = ?t")
proof -
  have len: "length ?rs = p" using assms(1) by (simp add: max_absorb1)
  have P: "?P (?rs ! i) \<longleftrightarrow> range_lo p (Suc i) \<le> kg" if "i < p" for i
    using key_group_ranges_nth [of i p] range_lo_Suc_pos [OF assms(1), of i] that assms(1)
    by (auto simp: max_absorb1)
  have t: "?t < p" "range_lo p ?t \<le> kg" "kg < range_lo p (Suc ?t)"
    using task_index_bounds [OF assms refl] by auto
  have mono: "?P (?rs ! i)" if "i < j" "j < length ?rs" "?P (?rs ! j)" for i j
    using that P [of i] P [of j] range_lo_mono [of "Suc i" "Suc j" p] len by simp
  let ?k = "partition_point ?P ?rs"
  have before: "i < ?k \<Longrightarrow> ?P (?rs ! i)" and at: "?k < p \<Longrightarrow> \<not> ?P (?rs ! ?k)" for i
    using partition_point_spec(2,3) [of ?rs ?P, OF mono] len by auto
  have "\<not> ?t < ?k" using before [of ?t] P [OF t(1)] t(3) by auto
  moreover have "\<not> ?k < ?t"
    using at P [of ?k] t range_lo_mono [of "Suc ?k" ?t p] by auto
  ultimately show ?thesis by simp
qed

lemma task_for_key_group_eq:
  assumes "kg < NUM_KEY_GROUPS"
  shows "task_for_key_group (rescaler_new old new) kg = task_index_for_key_group kg new"
  using partition_point_ranges [of "max new 1" kg] task_index_less [OF assms, of new] assms
    task_index_max [of kg new]
  by (simp add: task_for_key_group_def rescaler_new_def Let_def)

section \<open>The abstract redistribution\<close>

definition target :: "(bytes \<Rightarrow> bytes) \<Rightarrow> nat \<Rightarrow> entry_routing \<Rightarrow> snapshot_entry \<Rightarrow> nat option" where
  "target sha256 np routing e =
     map_option (\<lambda>k. task_index_for_key_group (key_group_for_key sha256 k) np)
       (routing_key (entry_key e) routing)"

definition owned_by :: "(bytes \<Rightarrow> bytes) \<Rightarrow> nat \<Rightarrow> entry_routing \<Rightarrow> nat option \<Rightarrow>
    snapshot_entry list \<Rightarrow> snapshot_entry list" where
  "owned_by sha256 np routing t es = filter (\<lambda>e. target sha256 np routing e = t) es"

fun all_entries :: "bytes list \<Rightarrow> state_error + snapshot_entry list" where
  "all_entries [] = Inr []"
| "all_entries (s # ss) =
     (if s = [] then all_entries ss
      else rbind (decode_snapshot_entries s) (\<lambda>es. rbind (all_entries ss) (\<lambda>r. Inr (es @ r))))"

definition redistribute_spec ::
    "(bytes \<Rightarrow> bytes) \<Rightarrow> bytes list \<Rightarrow> nat \<Rightarrow> entry_routing \<Rightarrow> state_error + bytes list" where
  "redistribute_spec sha256 snaps np routing =
     rbind (all_entries snaps) (\<lambda>es.
       rbind (dedup_bcast [] (owned_by sha256 np routing None es)) (\<lambda>shared.
         Inr (map (\<lambda>i. target_snapshot shared (owned_by sha256 np routing (Some i) es))
                [0..<max np 1])))"

lemma target_less: "target h np routing e = Some i \<Longrightarrow> i < max np 1"
  by (auto simp: target_def task_index_less key_group_for_key_less simp del: One_nat_def)

lemma owned_by_simps [simp]:
  "owned_by h np routing t [] = []"
  "owned_by h np routing t (e # es) =
     (if target h np routing e = t then e # owned_by h np routing t es
      else owned_by h np routing t es)"
  "owned_by h np routing t (es @ fs) = owned_by h np routing t es @ owned_by h np routing t fs"
  by (simp_all add: owned_by_def)

definition routed_state ::
    "(bytes \<Rightarrow> bytes) \<Rightarrow> nat \<Rightarrow> entry_routing \<Rightarrow> snapshot_entry list \<Rightarrow> redist" where
  "routed_state sha256 np routing es =
     \<lparr>routed = map (\<lambda>i. owned_by sha256 np routing (Some i) es) [0..<max np 1],
      bcast = owned_by sha256 np routing None es,
      routed_total = length (filter (\<lambda>e. target sha256 np routing e \<noteq> None) es)\<rparr>"

lemma routed_state_Some:
  assumes "target h np routing e = Some t"
  shows "routed_state h np routing (fs @ [e]) =
    (routed_state h np routing fs)
      \<lparr>routed := (routed (routed_state h np routing fs))
                   [t := routed (routed_state h np routing fs) ! t @ [e]],
       routed_total := routed_total (routed_state h np routing fs) + 1\<rparr>"
  using assms target_less [OF assms]
  by (auto simp: routed_state_def owned_by_def intro!: nth_equalityI simp: nth_list_update)

lemma routed_state_None:
  assumes "target h np routing e = None"
  shows "routed_state h np routing (fs @ [e]) =
    (routed_state h np routing fs)\<lparr>bcast := bcast (routed_state h np routing fs) @ [e]\<rparr>"
  using assms by (simp add: routed_state_def owned_by_def)

lemma route_entries_eq:
  "route_entries h (rescaler_new old np) routing es (routed_state h np routing fs) =
     Inr (routed_state h np routing (fs @ es))"
proof (induction es arbitrary: fs)
  case Nil
  then show ?case by simp
next
  case (Cons e es)
  show ?case
  proof (cases "routing_key (entry_key e) routing")
    case None
    then have "target h np routing e = None" by (simp add: target_def)
    from routed_state_None [OF this, of fs] Cons.IH [of "fs @ [e]"] None show ?thesis by simp
  next
    case (Some k)
    let ?t = "task_index_for_key_group (key_group_for_key h k) np"
    from Some have t: "target h np routing e = Some ?t" by (simp add: target_def)
    have "task_for_key_group (rescaler_new old np) (key_group_for_key h k) = ?t"
      by (simp add: task_for_key_group_eq key_group_for_key_less)
    moreover have "?t < length (routed (routed_state h np routing fs))"
      using target_less [OF t] by (simp add: routed_state_def)
    ultimately show ?thesis
      using routed_state_Some [OF t, of fs] Cons.IH [of "fs @ [e]"] Some by (simp add: Let_def)
  qed
qed

lemma route_snapshots_eq:
  "route_snapshots h (rescaler_new old np) routing ss (routed_state h np routing fs) =
     rbind (all_entries ss) (\<lambda>es. Inr (routed_state h np routing (fs @ es)))"
proof (induction ss arbitrary: fs)
  case Nil
  then show ?case by simp
next
  case (Cons s ss)
  show ?case
  proof (cases "s = []")
    case True
    with Cons show ?thesis by simp
  next
    case False
    then show ?thesis
      using Cons.IH
      by (cases "decode_snapshot_entries s"; cases "all_entries ss")
        (simp_all add: route_entries_eq)
  qed
qed

lemma routed_total_eq:
  "sum_list (map length (routed (routed_state h np routing es))) =
     routed_total (routed_state h np routing es)"
proof (induction es rule: rev_induct)
  case Nil
  have "(\<Sum>i\<leftarrow>xs. 0) = (0::nat)" for xs :: "nat list" by (induction xs) auto
  then show ?case by (simp add: routed_state_def comp_def)
next
  case (snoc e es)
  let ?st = "routed_state h np routing es"
  show ?case
  proof (cases "target h np routing e")
    case None
    with snoc routed_state_None [OF None, of es] show ?thesis by simp
  next
    case (Some t)
    have t: "t < length (routed ?st)"
      using target_less [OF Some] by (simp add: routed_state_def)
    have "sum_list (map length ((routed ?st)[t := routed ?st ! t @ [e]])) =
        sum_list (map length (routed ?st)) + 1"
      using t sum_list_update [of t "map length (routed ?st)" "length (routed ?st ! t @ [e])"]
        elem_le_sum_list [of t "map length (routed ?st)"]
      by (simp add: map_update)
    with snoc routed_state_Some [OF Some, of es] show ?thesis by simp
  qed
qed

lemma redistribute_eq_spec:
  "redistribute_snapshots h snaps np routing = redistribute_spec h snaps np routing"
proof -
  let ?old = "max (length snaps) 1"
  have init: "\<lparr>routed = replicate (max np 1) [], bcast = [], routed_total = 0\<rparr> =
      routed_state h np routing []"
    by (simp add: routed_state_def map_replicate_const)
  have rsc: "rescaler_new ?old (max np 1) = rescaler_new ?old np"
    by (simp add: rescaler_new_def)
  have "checksum_verify \<lparr>total_rows = routed_total st, column_count = 0, old_parallelism = ?old,
      new_parallelism = max np 1\<rparr> (map length (routed st)) 0"
    if "st = routed_state h np routing es" for st es
    using that routed_total_eq [of h np routing es]
    by (simp add: checksum_verify_def routed_state_def)
  note v = this [OF refl]
  show ?thesis
    unfolding redistribute_snapshots_def redistribute_spec_def Let_def init rsc route_snapshots_eq
    by (cases "all_entries snaps"; simp add: v del: One_nat_def)
      (simp add: routed_state_def comp_def)
qed

section \<open>Broadcast entries: the smallest watermark wins\<close>

definition covers :: "snapshot_entry \<Rightarrow> snapshot_entry \<Rightarrow> bool" where
  "covers x y \<longleftrightarrow> same_slot x y \<and>
     (if length (entry_value x) = 8 \<and> length (entry_value y) = 8
      then i64_of_le (entry_value x) \<le> i64_of_le (entry_value y)
      else entry_value x = entry_value y)"

lemma covers_refl [simp]: "covers x x"
  by (simp add: covers_def same_slot_def)

lemma covers_trans: "covers x y \<Longrightarrow> covers y z \<Longrightarrow> covers x z"
  by (auto simp: covers_def same_slot_def split: if_splits)

lemma set_value_same: "same_slot x e \<Longrightarrow> set_value x (entry_value e) = e"
  by (simp add: set_value_def same_slot_def)

lemma merge_bcast_sound:
  "merge_bcast acc e = Inr acc' \<Longrightarrow>
     set acc' \<subseteq> insert e (set acc) \<and> (\<forall>y \<in> insert e (set acc). \<exists>x \<in> set acc'. covers x y)"
proof (induction acc e arbitrary: acc' rule: merge_bcast.induct)
  case (1 e)
  then have "acc' = [e]" by simp
  then show ?case by simp
next
  case (2 x xs e)
  show ?case
  proof (cases "same_slot x e")
    case True
    with "2.prems" have "acc' = e # xs \<and> covers e x \<or> acc' = x # xs \<and> covers x e"
      by (auto simp: set_value_same covers_def same_slot_def split: if_splits)
    then show ?thesis by (auto intro: covers_refl)
  next
    case False
    with "2.prems" obtain ys where ys: "merge_bcast xs e = Inr ys" "acc' = x # ys"
      by (auto simp: rbind_Inr_iff)
    with "2.IH" [OF False ys(1)] show ?thesis by (auto intro: covers_refl)
  qed
qed

lemma dedup_bcast_sound:
  "dedup_bcast acc es = Inr out \<Longrightarrow>
     set out \<subseteq> set acc \<union> set es \<and> (\<forall>y \<in> set acc \<union> set es. \<exists>x \<in> set out. covers x y)"
proof (induction acc es rule: dedup_bcast.induct)
  case (1 acc)
  then show ?case by (auto intro: covers_refl)
next
  case (2 acc e es)
  then obtain acc' where a: "merge_bcast acc e = Inr acc'" and d: "dedup_bcast acc' es = Inr out"
    by (auto simp: rbind_Inr_iff)
  note m = merge_bcast_sound [OF a] and IH = "2.IH" [OF d]
  have "\<exists>x \<in> set out. covers x y" if "y \<in> insert e (set acc)" for y
  proof -
    from m that obtain z where "z \<in> set acc'" "covers z y" by blast
    with IH show ?thesis by (blast intro: covers_trans)
  qed
  with m IH show ?case by auto
qed

lemma all_entries_wf:
  "all_entries ss = Inr es \<Longrightarrow> \<forall>s \<in> set ss. length s < two64 \<Longrightarrow> \<forall>e \<in> set es. entry_wf e"
proof (induction ss arbitrary: es)
  case Nil
  then show ?case by simp
next
  case (Cons s ss)
  show ?case
  proof (cases "s = []")
    case True
    with Cons show ?thesis by simp
  next
    case False
    with Cons.prems(1) obtain fs gs where f: "decode_snapshot_entries s = Inr fs"
      and g: "all_entries ss = Inr gs" and es: "es = fs @ gs"
      by (auto simp: rbind_Inr_iff)
    have "length s < two64" using Cons.prems(2) by simp
    with decode_Inr_encode [OF f] Cons.IH [OF g] Cons.prems(2) es show ?thesis by auto
  qed
qed

lemma target_snapshot_entries:
  assumes "\<forall>e \<in> set (xs @ shared). entry_wf e" and "length (target_snapshot shared xs) < two64"
  shows "all_entries [target_snapshot shared xs] = Inr (xs @ shared)"
proof (cases "xs @ shared = []")
  case True
  then show ?thesis by (simp add: target_snapshot_def)
next
  case False
  then have t: "target_snapshot shared xs = encode_snapshot_entries (xs @ shared)"
    by (auto simp: target_snapshot_def Let_def)
  have "12 \<le> length (encode_snapshot_entries (xs @ shared))"
    by (simp add: encode_eq)
  then have "encode_snapshot_entries (xs @ shared) \<noteq> []" by auto
  with decode_encode [OF assms(1)] assms(2) t show ?thesis by simp
qed

lemma redistribute_entries:
  assumes red: "redistribute_snapshots h snaps np routing = Inr outs"
    and old: "\<forall>s \<in> set snaps. length s < two64" and new: "\<forall>s \<in> set outs. length s < two64"
  obtains es shared where "all_entries snaps = Inr es" and "length outs = max np 1"
    and "\<And>i. i < max np 1 \<Longrightarrow>
      all_entries [outs ! i] = Inr (owned_by h np routing (Some i) es @ shared)"
    and "set shared \<subseteq> set (owned_by h np routing None es)"
    and "\<And>e. e \<in> set (owned_by h np routing None es) \<Longrightarrow> \<exists>x \<in> set shared. covers x e"
proof -
  from red obtain es shared where es: "all_entries snaps = Inr es"
    and sh: "dedup_bcast [] (owned_by h np routing None es) = Inr shared"
    and outs: "outs = map (\<lambda>i. target_snapshot shared (owned_by h np routing (Some i) es))
      [0..<max np 1]"
    by (auto simp: redistribute_eq_spec redistribute_spec_def rbind_Inr_iff)
  note d = dedup_bcast_sound [OF sh]
  have wf: "\<forall>e \<in> set (owned_by h np routing t es @ shared). entry_wf e" for t
    using all_entries_wf [OF es old] d by (auto simp: owned_by_def)
  have "all_entries [outs ! i] = Inr (owned_by h np routing (Some i) es @ shared)"
    if i: "i < max np 1" for i
  proof -
    have nth: "outs ! i = target_snapshot shared (owned_by h np routing (Some i) es)"
      using i outs by (simp del: upt_Suc)
    have "outs ! i \<in> set outs" using i outs by simp
    then have "length (target_snapshot shared (owned_by h np routing (Some i) es)) < two64"
      using new nth by auto
    from target_snapshot_entries [OF wf this] nth show ?thesis by simp
  qed
  moreover have "length outs = max np 1" using outs by simp
  ultimately show ?thesis
    using that [OF es] d by simp
qed

section \<open>Window state keys\<close>

lemma layout_prefix_bytes:
  "as_bytes ''tw:'' = [116, 119, 58]" "as_bytes ''sw:'' = [115, 119, 58]"
  "as_bytes ''ses:'' = [115, 101, 115, 58]"
  by code_simp+

lemma window_group_key_layout:
  assumes "(pre, trailing) \<in> set WINDOW_STATE_KEY_LAYOUTS" and "length suffix = trailing"
    and "length k < 4294967296"
  shows "window_group_key (pre @ u32_le (length k) @ k @ suffix) = Some k"
proof -
  have get: "slice_get (u32_le (length k) @ k @ suffix) 4 (4 + length k) = Some k"
    using slice_get_mid [of 4 "u32_le (length k)" "4 + length k" k suffix] by simp
  have len: "le_nat (u32_le (length k)) = length k"
    using assms(3) by (rule le_nat_u32_le)
  have l4: "length (u32_le (length k)) = 4" by simp
  obtain u where u: "u = u32_le (length k)" by simp
  from assms(1) consider "pre = as_bytes ''tw:''" "trailing = 8"
    | "pre = as_bytes ''sw:''" "trailing = 8" | "pre = as_bytes ''ses:''" "trailing = 16"
    by (auto simp: WINDOW_STATE_KEY_LAYOUTS_def)
  then show ?thesis
    unfolding window_group_key_def WINDOW_STATE_KEY_LAYOUTS_def layout_prefix_bytes
    using get len l4 assms(2) unfolding u [symmetric]
    by cases (simp_all add: Let_def)
qed

section \<open>Properties\<close>

text \<open>
  C17. Redistribution, with its task table, its binary search, its counters and its final
  checksum, computes exactly the abstract redistribution: decode everything, send each entry to
  the owner of its key group, share the deduplicated broadcast entries. In particular the
  out-of-range branch and the verification failure are unreachable.
\<close>

theorem redistribute_refines_spec:
  "redistribute_snapshots sha256 snaps np routing = redistribute_spec sha256 snaps np routing"
  by (rule redistribute_eq_spec)

text \<open>
  C3. After a successful redistribution every new task's snapshot decodes to exactly the old
  entries whose key group the task owns (in order, none lost, none duplicated) followed by the
  shared entries, and every broadcast entry is covered by a shared one with the same key whose
  watermark is not larger.
\<close>

theorem redistribute_placement:
  assumes "redistribute_snapshots sha256 snaps np routing = Inr outs"
    and "\<forall>s \<in> set snaps. length s < two64" and "\<forall>s \<in> set outs. length s < two64"
  shows "\<exists>es shared. all_entries snaps = Inr es \<and> length outs = max np 1
    \<and> (\<forall>i < max np 1. all_entries [outs ! i] =
          Inr (filter (\<lambda>e. target sha256 np routing e = Some i) es @ shared))
    \<and> set shared \<subseteq> set (filter (\<lambda>e. target sha256 np routing e = None) es)
    \<and> (\<forall>e \<in> set es. target sha256 np routing e = None \<longrightarrow> (\<exists>x \<in> set shared. covers x e))"
  by (rule redistribute_entries [OF assms]) (auto simp: owned_by_def)

lemma redistribute_example:
  fixes e :: snapshot_entry
  defines "e \<equiv> (''op'', ''sum'', [1], [7])"
  shows "redistribute_snapshots (\<lambda>_. replicate 32 0) [encode_snapshot_entries [e]] 2 ByStateKey =
    Inr [encode_snapshot_entries [e], []]"
proof -
  have len: "length (encode_snapshot_entries [e]) = 51"
    by (simp add: encode_snapshot_entries_def write_prefix_def e_def)
  have "rust_str ''op''" "rust_str ''sum''" by code_simp+
  then have "\<forall>e' \<in> set [e]. entry_wf e'" by (simp add: entry_wf_def e_def)
  then have dec: "decode_snapshot_entries (encode_snapshot_entries [e]) = Inr [e]"
    by (rule decode_encode) (simp add: len)
  have ne: "encode_snapshot_entries [e] \<noteq> []" using len by auto
  have zero: "key_group_for_key (\<lambda>_. replicate 32 0) k = 0" for k
    by (simp add: key_group_for_key_def key_group_for_bytes_def NUM_KEY_GROUPS_def
        sha256_bytes_multi_def as_u16_def Let_def le_nat_replicate_0)
  have tgt: "target (\<lambda>_. replicate 32 0) 2 ByStateKey e = Some 0"
    by (simp add: target_def zero task_index_for_key_group_def NUM_KEY_GROUPS_def Let_def del: One_nat_def)
  show ?thesis
    by (simp add: redistribute_eq_spec redistribute_spec_def dec ne owned_by_def tgt upt_rec
        target_snapshot_def)
qed

theorem redistribute_placement_witness:
  "\<exists>es shared. all_entries [encode_snapshot_entries [(''op'', ''sum'', [1], [7])]] = Inr es
    \<and> all_entries [encode_snapshot_entries [(''op'', ''sum'', [1], [7])]] =
        Inr (filter (\<lambda>e. target (\<lambda>_. replicate 32 0) 2 ByStateKey e = Some 0) es @ shared)"
proof -
  let ?s = "encode_snapshot_entries [(''op'', ''sum'', [1], [7])]"
  have "length ?s = 51" by (simp add: encode_snapshot_entries_def write_prefix_def)
  then have "\<forall>s \<in> set [?s]. length s < two64" "\<forall>s \<in> set [?s, []]. length s < two64" by simp_all
  from redistribute_placement [OF redistribute_example this] obtain es shared where
    "all_entries [?s] = Inr es"
    and *: "\<forall>i < max 2 1. all_entries [[?s, []] ! i] =
      Inr (filter (\<lambda>e. target (\<lambda>_. replicate 32 0) 2 ByStateKey e = Some i) es @ shared)"
    by blast
  moreover have "(0::nat) < max 2 1" by simp
  then have "all_entries [[?s, []] ! 0] =
      Inr (filter (\<lambda>e. target (\<lambda>_. replicate 32 0) 2 ByStateKey e = Some 0) es @ shared)"
    using * by blast
  then have "all_entries [?s] =
      Inr (filter (\<lambda>e. target (\<lambda>_. replicate 32 0) 2 ByStateKey e = Some 0) es @ shared)"
    unfolding nth_Cons_0 .
  ultimately show ?thesis by (intro exI conjI)
qed

text \<open>A window operator's state key routes by the group key embedded in it.\<close>

theorem window_key_routes_by_group_key:
  assumes "(pre, trailing) \<in> set WINDOW_STATE_KEY_LAYOUTS" and "length suffix = trailing"
    and "length k < 4294967296"
  shows "routing_key (pre @ u32_le (length k) @ k @ suffix) WindowGroupKey = Some k"
proof -
  have "length (pre @ u32_le (length k) @ k @ suffix) \<noteq> length (as_bytes ''wm:'')"
    by simp
  then have "pre @ u32_le (length k) @ k @ suffix \<notin> set BROADCAST_STATE_KEYS"
    by (metis BROADCAST_STATE_KEYS_def empty_iff empty_set set_ConsD)
  then show ?thesis by (simp add: window_group_key_layout [OF assms])
qed

theorem window_key_routes_by_group_key_witness:
  "routing_key (as_bytes ''tw:'' @ u32_le 2 @ [10, 11] @ [0, 0, 0, 0, 0, 0, 0, 0]) WindowGroupKey =
     Some [10, 11]"
proof -
  have "(as_bytes ''tw:'', 8) \<in> set WINDOW_STATE_KEY_LAYOUTS"
    by (simp add: WINDOW_STATE_KEY_LAYOUTS_def)
  from window_key_routes_by_group_key [OF this, of "[0, 0, 0, 0, 0, 0, 0, 0]" "[10, 11]"]
  show ?thesis by (simp add: numeral_2_eq_2 del: routing_key.simps)
qed

end
