(* ===== verification/StateBackend.thy ===== *)
theory StateBackend
  imports SnapshotCodec
begin

text \<open>
  The keyed state backends of \<open>krishiv-state/src/backend.rs\<close>. The trait is a record of its
  methods over the type of the backend's state; a method with \<open>&mut self\<close> returns the new
  state beside its result, so a backend that fails half-way keeps what it wrote. The default
  methods of the trait are functions of the methods they call. The locale \<open>state_backend\<close> is
  what the clients of a working backend rely on; the in-memory backend is its first instance.
\<close>

section \<open>The trait\<close>

type_synonym ('s, 'a) fallible = "'s \<times> (state_error + 'a)"

record 's backend_ops =
  b_get :: "'s \<Rightarrow> namespace \<Rightarrow> bytes \<Rightarrow> state_error + bytes option"
  b_put :: "'s \<Rightarrow> namespace \<Rightarrow> bytes \<Rightarrow> bytes \<Rightarrow> ('s, unit) fallible"
  b_delete :: "'s \<Rightarrow> namespace \<Rightarrow> bytes \<Rightarrow> ('s, unit) fallible"
  b_clear_namespace :: "'s \<Rightarrow> namespace \<Rightarrow> ('s, unit) fallible"
  b_list_namespaces :: "'s \<Rightarrow> state_error + namespace list"
  b_list_keys :: "'s \<Rightarrow> namespace \<Rightarrow> state_error + bytes list"
  b_snapshot :: "'s \<Rightarrow> state_error + bytes"
  b_load_snapshot :: "'s \<Rightarrow> bytes \<Rightarrow> ('s, unit) fallible"
  b_delete_batch :: "'s \<Rightarrow> (namespace \<times> bytes) list \<Rightarrow> ('s, unit) fallible"
  b_purge_expired :: "'s \<Rightarrow> ('s, nat) fallible"

text \<open>A loop over \<open>&mut self\<close> calls with \<open>?\<close>: it stops at the first error.\<close>

fun try_each :: "('s \<Rightarrow> 'a \<Rightarrow> ('s, unit) fallible) \<Rightarrow> 's \<Rightarrow> 'a list \<Rightarrow> ('s, unit) fallible" where
  "try_each f s [] = (s, Inr ())"
| "try_each f s (x # xs) =
     (case f s x of (s', Inl e) \<Rightarrow> (s', Inl e) | (s', Inr _) \<Rightarrow> try_each f s' xs)"

fun try_map :: "('a \<Rightarrow> 'e + 'b) \<Rightarrow> 'a list \<Rightarrow> 'e + 'b list" where
  "try_map f [] = Inr []"
| "try_map f (x # xs) = rbind (f x) (\<lambda>y. rbind (try_map f xs) (\<lambda>ys. Inr (y # ys)))"

definition put_batch :: "'s backend_ops \<Rightarrow> 's \<Rightarrow> snapshot_entry list \<Rightarrow> ('s, unit) fallible" where
  "put_batch ops = try_each (\<lambda>s (op_id, name, key, val). b_put ops s (Namespace op_id name) key val)"

definition delete_batch_default ::
    "('s \<Rightarrow> namespace \<Rightarrow> bytes \<Rightarrow> ('s, unit) fallible) \<Rightarrow> 's \<Rightarrow> (namespace \<times> bytes) list \<Rightarrow>
      ('s, unit) fallible" where
  "delete_batch_default delete_fn = try_each (\<lambda>s (ns, key). delete_fn s ns key)"

definition get_batch :: "'s backend_ops \<Rightarrow> 's \<Rightarrow> (string \<times> string \<times> bytes) list \<Rightarrow>
    state_error + bytes option list" where
  "get_batch ops s = try_map (\<lambda>(op_id, name, key). b_get ops s (Namespace op_id name) key)"

definition purge_expired_default :: "'s \<Rightarrow> ('s, nat) fallible" where
  "purge_expired_default s = (s, Inr 0)"

section \<open>The in-memory backend\<close>

type_synonym mem_backend = "(namespace \<times> bytes, bytes) amap"

definition mem_get :: "mem_backend \<Rightarrow> namespace \<Rightarrow> bytes \<Rightarrow> state_error + bytes option" where
  "mem_get m ns key = Inr (map_of m (ns, key))"

definition mem_put :: "mem_backend \<Rightarrow> namespace \<Rightarrow> bytes \<Rightarrow> bytes \<Rightarrow> (mem_backend, unit) fallible" where
  "mem_put m ns key val = (amap_insert (ns, key) val m, Inr ())"

definition mem_delete :: "mem_backend \<Rightarrow> namespace \<Rightarrow> bytes \<Rightarrow> (mem_backend, unit) fallible" where
  "mem_delete m ns key = (amap_remove (ns, key) m, Inr ())"

definition mem_clear_namespace :: "mem_backend \<Rightarrow> namespace \<Rightarrow> (mem_backend, unit) fallible" where
  "mem_clear_namespace m ns = (filter (\<lambda>((ns', _), _). ns' \<noteq> ns) m, Inr ())"

text \<open>The derived \<open>Debug\<close> of a namespace, by which \<open>list_namespaces\<close> sorts.\<close>

definition debug_namespace :: "namespace \<Rightarrow> string" where
  "debug_namespace ns =
     ''Namespace { operator_id: '' @ debug_str (operator_id ns)
     @ '', state_name: '' @ debug_str (state_name ns) @ '' }''"

definition mem_list_namespaces :: "mem_backend \<Rightarrow> state_error + namespace list" where
  "mem_list_namespaces m = Inr (sort_key debug_namespace (remdups (map fst (amap_keys m))))"

definition mem_list_keys :: "mem_backend \<Rightarrow> namespace \<Rightarrow> state_error + bytes list" where
  "mem_list_keys m ns = Inr (sort (map snd (filter (\<lambda>(ns', _). ns' = ns) (amap_keys m))))"

fun mem_write_entry :: "bytes \<Rightarrow> (namespace \<times> bytes) \<times> bytes \<Rightarrow> bytes" where
  "mem_write_entry buf ((ns, key), val) =
     buf @ u64_le (length (as_bytes (operator_id ns))) @ as_bytes (operator_id ns)
       @ u64_le (length (as_bytes (state_name ns))) @ as_bytes (state_name ns)
       @ u64_le (length key) @ key @ u64_le (length val) @ val"

definition mem_snapshot :: "mem_backend \<Rightarrow> state_error + bytes" where
  "mem_snapshot m = Inr (foldl mem_write_entry (u32_le 1 @ u64_le (length m)) m)"

fun load_entry :: "mem_backend \<Rightarrow> snapshot_entry \<Rightarrow> mem_backend" where
  "load_entry m (op_id, name, key, val) = amap_insert (Namespace op_id name, key) val m"

definition mem_load_snapshot :: "mem_backend \<Rightarrow> bytes \<Rightarrow> (mem_backend, unit) fallible" where
  "mem_load_snapshot m bs =
     (case decode_snapshot_entries bs of
        Inl e \<Rightarrow> (m, Inl e)
      | Inr entries \<Rightarrow> (foldl load_entry [] entries, Inr ()))"

definition mem_ops :: "mem_backend backend_ops" where
  "mem_ops =
     \<lparr>b_get = mem_get, b_put = mem_put, b_delete = mem_delete,
      b_clear_namespace = mem_clear_namespace, b_list_namespaces = mem_list_namespaces,
      b_list_keys = mem_list_keys, b_snapshot = mem_snapshot, b_load_snapshot = mem_load_snapshot,
      b_delete_batch = delete_batch_default mem_delete, b_purge_expired = purge_expired_default\<rparr>"

section \<open>The contract\<close>

definition ns_ok :: "namespace \<Rightarrow> bool" where
  "ns_ok ns \<longleftrightarrow> rust_str (operator_id ns) \<and> rust_str (state_name ns)"

fun entry_kv :: "snapshot_entry \<Rightarrow> (namespace \<times> bytes) \<times> bytes" where
  "entry_kv (op_id, name, key, val) = ((Namespace op_id name, key), val)"

fun kv_entry :: "(namespace \<times> bytes) \<times> bytes \<Rightarrow> snapshot_entry" where
  "kv_entry ((ns, key), val) = (operator_id ns, state_name ns, key, val)"

text \<open>
  What a backend that does not fail promises: its calls act on the finite map \<open>lookup s\<close>
  from namespace and key to value, and the portable snapshot carries exactly that map.
\<close>

locale state_backend =
  fixes ops :: "'s backend_ops"
    and inv :: "'s \<Rightarrow> bool"
    and lookup :: "'s \<Rightarrow> namespace \<times> bytes \<Rightarrow> bytes option"
  assumes finite_dom: "inv s \<Longrightarrow> finite (dom (lookup s))"
    and get_law: "inv s \<Longrightarrow> b_get ops s ns key = Inr (lookup s (ns, key))"
    and put_law: "inv s \<Longrightarrow> ns_ok ns \<Longrightarrow> \<exists>s'. b_put ops s ns key val = (s', Inr ())
      \<and> inv s' \<and> lookup s' = (lookup s)((ns, key) \<mapsto> val)"
    and delete_law: "inv s \<Longrightarrow> \<exists>s'. b_delete ops s ns key = (s', Inr ())
      \<and> inv s' \<and> lookup s' = (lookup s)((ns, key) := None)"
    and clear_law: "inv s \<Longrightarrow> \<exists>s'. b_clear_namespace ops s ns = (s', Inr ())
      \<and> inv s' \<and> lookup s' = (\<lambda>k. if fst k = ns then None else lookup s k)"
    and namespaces_law: "inv s \<Longrightarrow> \<exists>nss. b_list_namespaces ops s = Inr nss
      \<and> distinct nss \<and> set nss = fst ` dom (lookup s)"
    and keys_law: "inv s \<Longrightarrow> \<exists>ks. b_list_keys ops s ns = Inr ks
      \<and> distinct ks \<and> set ks = {k. lookup s (ns, k) \<noteq> None}"
    and snapshot_law: "inv s \<Longrightarrow> \<exists>es. b_snapshot ops s = Inr (encode_snapshot_entries es)
      \<and> distinct (map (fst \<circ> entry_kv) es) \<and> map_of (map entry_kv es) = lookup s
      \<and> (\<forall>e \<in> set es. entry_wf e)"
    and load_law: "inv s \<Longrightarrow> length bs < two64 \<Longrightarrow> decode_snapshot_entries bs = Inr es \<Longrightarrow>
      \<exists>s'. b_load_snapshot ops s bs = (s', Inr ()) \<and> inv s'
        \<and> lookup s' = map_of (rev (map entry_kv es))"
    and load_error_law: "inv s \<Longrightarrow> decode_snapshot_entries bs = Inl e \<Longrightarrow>
      b_load_snapshot ops s bs = (s, Inl e)"
    and delete_batch_law: "inv s \<Longrightarrow> \<exists>s'. b_delete_batch ops s kks = (s', Inr ())
      \<and> inv s' \<and> lookup s' = (\<lambda>k. if k \<in> set kks then None else lookup s k)"
begin

lemma put_batch_law:
  assumes "inv s" and "\<forall>e \<in> set es. entry_wf e"
  shows "\<exists>s'. put_batch ops s es = (s', Inr ()) \<and> inv s'
    \<and> lookup s' = lookup s ++ map_of (rev (map entry_kv es))"
  using assms
proof (induction es arbitrary: s)
  case Nil
  then show ?case by (simp add: put_batch_def)
next
  case (Cons e es)
  obtain op_id name key val where e: "e = (op_id, name, key, val)" by (cases e)
  then have "ns_ok (Namespace op_id name)"
    using Cons.prems(2) by (simp add: ns_ok_def entry_wf_def)
  from put_law [OF Cons.prems(1) this] obtain s1 where
    p: "b_put ops s (Namespace op_id name) key val = (s1, Inr ())" and i: "inv s1"
    and l: "lookup s1 = (lookup s)((Namespace op_id name, key) \<mapsto> val)" by blast
  from Cons.IH [OF i] Cons.prems(2) obtain s' where "put_batch ops s1 es = (s', Inr ())" "inv s'"
    "lookup s' = lookup s1 ++ map_of (rev (map entry_kv es))" by auto
  with p e l show ?case
    by (auto simp: put_batch_def map_add_def fun_eq_iff split: option.splits)
qed

lemma get_batch_law:
  assumes "inv s"
  shows "get_batch ops s ks = Inr (map (\<lambda>(op_id, name, key). lookup s (Namespace op_id name, key)) ks)"
  using assms by (induction ks) (auto simp: get_batch_def get_law)

text \<open>A snapshot restored into any state of the backend reproduces the map it was taken from.\<close>

lemma snapshot_load_roundtrip:
  assumes "inv s" and "inv s0" and "b_snapshot ops s = Inr bs" and "length bs < two64"
  shows "\<exists>s'. b_load_snapshot ops s0 bs = (s', Inr ()) \<and> inv s' \<and> lookup s' = lookup s"
proof -
  from snapshot_law [OF assms(1)] assms(3) obtain es where bs: "bs = encode_snapshot_entries es"
    and d: "distinct (map (fst \<circ> entry_kv) es)" and m: "map_of (map entry_kv es) = lookup s"
    and wf: "\<forall>e \<in> set es. entry_wf e" by auto
  have "decode_snapshot_entries bs = Inr es"
    using decode_encode [OF wf] assms(4) bs by simp
  from load_law [OF assms(2,4) this] obtain s' where
    "b_load_snapshot ops s0 bs = (s', Inr ())" "inv s'" "lookup s' = map_of (rev (map entry_kv es))"
    by blast
  moreover have "map_of (rev (map entry_kv es)) = map_of (map entry_kv es)"
    using d by (intro map_of_rev) (simp add: comp_def)
  ultimately show ?thesis using m by simp
qed

end

section \<open>The in-memory backend meets the contract\<close>

lemma map_of_filter_fst: "map_of (filter (\<lambda>((a, _), _). a \<noteq> ns) m) =
    (\<lambda>k. if fst k = ns then None else map_of m k)"
  by (induction m) (auto simp: fun_eq_iff)

definition mem_inv :: "mem_backend \<Rightarrow> bool" where
  "mem_inv m \<longleftrightarrow> amap_wf m \<and> (\<forall>k \<in> fst ` set m. ns_ok (fst k))"

lemma entry_kv_kv_entry [simp]: "entry_kv (kv_entry x) = x"
  by (cases x rule: kv_entry.cases) simp

lemma mem_snapshot_eq: "mem_snapshot m = Inr (encode_snapshot_entries (map kv_entry m))"
proof -
  have "foldl mem_write_entry buf m = foldl write_entry buf (map kv_entry m)" for buf
  proof (induction m arbitrary: buf)
    case (Cons x m)
    then show ?case by (cases x rule: kv_entry.cases) (simp add: write_prefix_def)
  qed simp
  then show ?thesis by (simp add: mem_snapshot_def encode_snapshot_entries_def)
qed

lemma map_of_load: "map_of (foldl load_entry m es) = map_of m ++ map_of (rev (map entry_kv es))"
proof (induction es arbitrary: m)
  case (Cons e es)
  then show ?case
    by (cases e) (auto simp: map_add_def fun_eq_iff split: option.splits)
qed simp

lemma mem_inv_load:
  "mem_inv m \<Longrightarrow> \<forall>e \<in> set es. entry_wf e \<Longrightarrow> mem_inv (foldl load_entry m es)"
proof (induction es arbitrary: m)
  case (Cons e es)
  obtain op_id name key val where e: "e = (op_id, name, key, val)" by (cases e)
  have "mem_inv (amap_insert (Namespace op_id name, key) val m)"
    using Cons.prems e by (simp add: mem_inv_def ns_ok_def entry_wf_def)
  with Cons e show ?case by simp
qed simp

lemma mem_inv_insert [simp]: "mem_inv m \<Longrightarrow> ns_ok ns \<Longrightarrow> mem_inv (amap_insert (ns, key) val m)"
  by (auto simp: mem_inv_def set_amap_insert)

lemma mem_inv_remove [simp]: "mem_inv m \<Longrightarrow> mem_inv (amap_remove kk m)"
  by (auto simp: mem_inv_def amap_remove_def)

lemma mem_delete_batch:
  "mem_inv m \<Longrightarrow> \<exists>m'. delete_batch_default mem_delete m kks = (m', Inr ()) \<and> mem_inv m'
     \<and> map_of m' = (\<lambda>k. if k \<in> set kks then None else map_of m k)"
proof (induction kks arbitrary: m)
  case Nil
  then show ?case by (simp add: delete_batch_default_def)
next
  case (Cons kk kks)
  have "mem_inv (amap_remove kk m)" using Cons.prems by simp
  from Cons.IH [OF this] show ?case
    by (cases kk) (auto simp: delete_batch_default_def mem_delete_def fun_eq_iff)
qed

lemma mem_list_keys_set:
  assumes "amap_wf m"
  shows "\<exists>ks. mem_list_keys m ns = Inr ks \<and> distinct ks \<and> set ks = {k. map_of m (ns, k) \<noteq> None}"
proof -
  let ?f = "filter (\<lambda>(ns', _). ns' = ns) (amap_keys m)"
  have "inj_on snd (set ?f)" by (auto intro!: inj_onI)
  then have "distinct (map snd ?f)"
    using assms by (simp add: distinct_map amap_wf_def)
  moreover have "set (map snd ?f) = {k. map_of m (ns, k) \<noteq> None}"
    by (auto simp: map_of_eq_None_iff image_iff) force+
  ultimately show ?thesis by (simp add: mem_list_keys_def)
qed

interpretation mem: state_backend mem_ops mem_inv map_of
proof
  fix m :: mem_backend and ns key val and kks :: "(namespace \<times> bytes) list"
  assume inv: "mem_inv m"
  show "finite (dom (map_of m))" by (rule finite_dom_map_of)
  show "b_get mem_ops m ns key = Inr (map_of m (ns, key))" by (simp add: mem_ops_def mem_get_def)
  show "\<exists>s'. b_delete mem_ops m ns key = (s', Inr ()) \<and> mem_inv s'
      \<and> map_of s' = (map_of m)((ns, key) := None)"
    using inv by (simp add: mem_ops_def mem_delete_def)
  show "\<exists>s'. b_clear_namespace mem_ops m ns = (s', Inr ()) \<and> mem_inv s'
      \<and> map_of s' = (\<lambda>k. if fst k = ns then None else map_of m k)"
    using inv by (auto simp: mem_ops_def mem_clear_namespace_def mem_inv_def map_of_filter_fst)
  show "\<exists>nss. b_list_namespaces mem_ops m = Inr nss \<and> distinct nss \<and> set nss = fst ` dom (map_of m)"
    by (simp add: mem_ops_def mem_list_namespaces_def dom_map_of_conv_image_fst image_image)
  show "\<exists>ks. b_list_keys mem_ops m ns = Inr ks \<and> distinct ks \<and> set ks = {k. map_of m (ns, k) \<noteq> None}"
    using mem_list_keys_set [of m ns] inv by (simp add: mem_ops_def mem_inv_def)
  show "\<exists>s'. b_delete_batch mem_ops m kks = (s', Inr ()) \<and> mem_inv s'
      \<and> map_of s' = (\<lambda>k. if k \<in> set kks then None else map_of m k)"
    using mem_delete_batch [OF inv] by (simp add: mem_ops_def)
  show "\<exists>es. b_snapshot mem_ops m = Inr (encode_snapshot_entries es)
      \<and> distinct (map (fst \<circ> entry_kv) es) \<and> map_of (map entry_kv es) = map_of m
      \<and> (\<forall>e \<in> set es. entry_wf e)"
    by (rule exI [of _ "map kv_entry m"])
      (use inv in \<open>auto simp: mem_ops_def mem_snapshot_eq comp_def mem_inv_def amap_wf_def
        entry_wf_def ns_ok_def image_iff split_beta\<close>)
next
  fix m :: mem_backend and ns key val
  assume "mem_inv m" and "ns_ok ns"
  then show "\<exists>s'. b_put mem_ops m ns key val = (s', Inr ()) \<and> mem_inv s'
      \<and> map_of s' = (map_of m)((ns, key) \<mapsto> val)"
    by (simp add: mem_ops_def mem_put_def)
next
  fix m :: mem_backend and bs es
  assume "length bs < two64" and d: "decode_snapshot_entries bs = Inr es"
  then have "\<forall>e \<in> set es. entry_wf e" using decode_Inr_encode [OF d] by blast
  then have "mem_inv (foldl load_entry [] es)" by (rule mem_inv_load [rotated]) (simp add: mem_inv_def)
  with d show "\<exists>s'. b_load_snapshot mem_ops m bs = (s', Inr ()) \<and> mem_inv s'
      \<and> map_of s' = map_of (rev (map entry_kv es))"
    by (simp add: mem_ops_def mem_load_snapshot_def map_of_load)
next
  fix m :: mem_backend and bs e
  assume "decode_snapshot_entries bs = Inl e"
  then show "b_load_snapshot mem_ops m bs = (m, Inl e)"
    by (simp add: mem_ops_def mem_load_snapshot_def)
qed

section \<open>Properties\<close>

text \<open>
  A snapshot of the in-memory backend restored into any backend, whatever that held,
  reproduces the keyed state exactly; bytes that do not decode leave the target untouched.
\<close>

theorem mem_snapshot_restore:
  assumes "mem_inv m" and "mem_inv m0" and "mem_snapshot m = Inr bs" and "length bs < two64"
  shows "(\<exists>m'. mem_load_snapshot m0 bs = (m', Inr ()) \<and> mem_inv m' \<and> map_of m' = map_of m)
    \<and> (\<forall>bad e. decode_snapshot_entries bad = Inl e \<longrightarrow> mem_load_snapshot m0 bad = (m0, Inl e))"
  using mem.snapshot_load_roundtrip [OF assms(1,2)] mem.load_error_law [OF assms(2)] assms(3,4)
  by (simp add: mem_ops_def)

theorem mem_snapshot_restore_witness:
  "\<exists>m'. mem_load_snapshot [((Namespace ''op'' ''old'', [9]), [9])]
     (encode_snapshot_entries [(''op'', ''sum'', [1], [7])]) = (m', Inr ())
     \<and> map_of m' = [(Namespace ''op'' ''sum'', [1]) \<mapsto> [7]]"
proof -
  let ?m = "[((Namespace ''op'' ''sum'', [1]), [7])] :: mem_backend"
  let ?old = "[((Namespace ''op'' ''old'', [9]), [9])] :: mem_backend"
  have r: "rust_str ''op''" "rust_str ''sum''" "rust_str ''old''" by code_simp+
  have "mem_inv ?m" "mem_inv ?old" using r by (simp_all add: mem_inv_def amap_wf_def ns_ok_def)
  moreover have "mem_snapshot ?m = Inr (encode_snapshot_entries [(''op'', ''sum'', [1], [7])])"
    by (simp add: mem_snapshot_eq)
  moreover have "length (encode_snapshot_entries [(''op'', ''sum'', [1], [7])]) < two64"
    by (simp add: encode_snapshot_entries_def write_prefix_def)
  ultimately obtain m' where
    "mem_load_snapshot ?old (encode_snapshot_entries [(''op'', ''sum'', [1], [7])]) = (m', Inr ())"
    "map_of m' = map_of ?m"
    using mem_snapshot_restore [of ?m ?old] by blast
  then show ?thesis by simp
qed

end
