(* ===== verification/TtlState.thy ===== *)
theory TtlState
  imports StateBackend
begin

text \<open>
  The time-to-live wrapper of \<open>krishiv-state/src/ttl.rs\<close>: \<open>TtlStateBackend<B>\<close> stores every
  value behind an 8-byte expiry deadline in an inner backend \<open>B\<close> and hides what has expired.
  The operations take the inner backend's methods and the reading of the wall clock at the
  call; the lemmas hold for every inner backend that meets the contract \<open>state_backend\<close>, and
  the properties instantiate them with the in-memory one. The text of a key in the error of
  \<open>list_keys\<close> and the log line for corrupt snapshot entries are left out.
\<close>

section \<open>Operations\<close>

record 's ttl_backend =
  inner :: 's
  ttl_ms :: nat
  watermark_ms :: "int option"

definition ttl_new :: "'s \<Rightarrow> nat \<Rightarrow> 's ttl_backend" where
  "ttl_new b config_ttl_ms = \<lparr>inner = b, ttl_ms = config_ttl_ms, watermark_ms = None\<rparr>"

definition ttl_set_watermark :: "'s ttl_backend \<Rightarrow> int \<Rightarrow> 's ttl_backend" where
  "ttl_set_watermark t w = t\<lparr>watermark_ms := Some w\<rparr>"

definition ttl_now :: "int \<Rightarrow> 's ttl_backend \<Rightarrow> int" where
  "ttl_now clock t = (case watermark_ms t of Some w \<Rightarrow> w | None \<Rightarrow> clock)"

definition ttl_encode :: "bytes \<Rightarrow> int \<Rightarrow> bytes" where
  "ttl_encode val expires_at_ms = i64_le expires_at_ms @ val"

definition decode_if_live :: "bytes \<Rightarrow> int \<Rightarrow> state_error + bytes option" where
  "decode_if_live encoded now_ms =
     (if length encoded < 8 then
        Inl (CorruptEntry (''ttl value is too short: '' @ show_nat (length encoded) @ '' bytes''))
      else let expires_at_ms = i64_of_le (take 8 encoded)
           in if now_ms \<ge> expires_at_ms then Inr None else Inr (Some (drop 8 encoded)))"

text \<open>\<open>now.checked_add(ttl_ms as i64).unwrap_or(i64::MAX)\<close>, with the wrapping cast.\<close>

definition ttl_expiry :: "int \<Rightarrow> nat \<Rightarrow> int" where
  "ttl_expiry now_ms ttl =
     (case checked_add_i64 now_ms (wrap_i64 (int ttl)) of Some e \<Rightarrow> e | None \<Rightarrow> i64_max)"

definition lift_inner :: "'s ttl_backend \<Rightarrow> ('s, 'a) fallible \<Rightarrow> ('s ttl_backend, 'a) fallible" where
  "lift_inner t r = (t\<lparr>inner := fst r\<rparr>, snd r)"

definition ttl_get :: "'s backend_ops \<Rightarrow> int \<Rightarrow> 's ttl_backend \<Rightarrow> namespace \<Rightarrow> bytes \<Rightarrow>
    state_error + bytes option" where
  "ttl_get ops clock t ns key =
     rbind (b_get ops (inner t) ns key) (\<lambda>r.
       case r of None \<Rightarrow> Inr None | Some encoded \<Rightarrow> decode_if_live encoded (ttl_now clock t))"

definition ttl_put :: "'s backend_ops \<Rightarrow> int \<Rightarrow> 's ttl_backend \<Rightarrow> namespace \<Rightarrow> bytes \<Rightarrow> bytes \<Rightarrow>
    ('s ttl_backend, unit) fallible" where
  "ttl_put ops clock t ns key val =
     (let expires_at_ms = ttl_expiry (ttl_now clock t) (ttl_ms t)
      in lift_inner t (b_put ops (inner t) ns key (ttl_encode val expires_at_ms)))"

definition ttl_delete :: "'s backend_ops \<Rightarrow> 's ttl_backend \<Rightarrow> namespace \<Rightarrow> bytes \<Rightarrow>
    ('s ttl_backend, unit) fallible" where
  "ttl_delete ops t ns key = lift_inner t (b_delete ops (inner t) ns key)"

definition ttl_clear_namespace :: "'s backend_ops \<Rightarrow> 's ttl_backend \<Rightarrow> namespace \<Rightarrow>
    ('s ttl_backend, unit) fallible" where
  "ttl_clear_namespace ops t ns = lift_inner t (b_clear_namespace ops (inner t) ns)"

definition ttl_list_namespaces :: "'s backend_ops \<Rightarrow> 's ttl_backend \<Rightarrow> state_error + namespace list" where
  "ttl_list_namespaces ops t = b_list_namespaces ops (inner t)"

fun ttl_live_keys :: "'s backend_ops \<Rightarrow> 's \<Rightarrow> namespace \<Rightarrow> int \<Rightarrow> bytes list \<Rightarrow> bytes list \<Rightarrow>
    state_error + bytes list" where
  "ttl_live_keys ops s ns now_ms [] live = Inr live"
| "ttl_live_keys ops s ns now_ms (key # keys) live =
     rbind (b_get ops s ns key) (\<lambda>r. case r of
       Some encoded \<Rightarrow>
         if length encoded \<ge> 8 then
           (if now_ms < i64_of_le (take 8 encoded)
            then ttl_live_keys ops s ns now_ms keys (live @ [key])
            else ttl_live_keys ops s ns now_ms keys live)
         else Inl (CorruptEntry ''ttl value for key is too short for the 8-byte expiry prefix'')
     | None \<Rightarrow> ttl_live_keys ops s ns now_ms keys live)"

definition ttl_list_keys :: "'s backend_ops \<Rightarrow> int \<Rightarrow> 's ttl_backend \<Rightarrow> namespace \<Rightarrow>
    state_error + bytes list" where
  "ttl_list_keys ops clock t ns =
     rbind (b_list_keys ops (inner t) ns) (\<lambda>all_keys.
       ttl_live_keys ops (inner t) ns (ttl_now clock t) all_keys [])"

fun ttl_snapshot_loop :: "int \<Rightarrow> snapshot_entry list \<Rightarrow> bytes \<Rightarrow> nat \<Rightarrow> bytes \<times> nat" where
  "ttl_snapshot_loop now_ms [] out written = (out, written)"
| "ttl_snapshot_loop now_ms ((op_id, name, key, encoded) # entries) out written =
     (if length encoded < 8 then ttl_snapshot_loop now_ms entries out written
      else if now_ms \<ge> i64_of_le (take 8 encoded) then ttl_snapshot_loop now_ms entries out written
      else let raw_value = drop 8 encoded in
        ttl_snapshot_loop now_ms entries
          (out @ u64_le (length (as_bytes op_id)) @ as_bytes op_id
             @ u64_le (length (as_bytes name)) @ as_bytes name
             @ u64_le (length key) @ key @ u64_le (length raw_value) @ raw_value)
          (written + 1))"

definition ttl_snapshot :: "'s backend_ops \<Rightarrow> int \<Rightarrow> 's ttl_backend \<Rightarrow> state_error + bytes" where
  "ttl_snapshot ops clock t =
     rbind (b_snapshot ops (inner t)) (\<lambda>raw_snap.
       rbind (decode_snapshot_entries raw_snap) (\<lambda>entries.
         let (out, written) = ttl_snapshot_loop (ttl_now clock t) entries (u32_le 1 @ u64_le 0) 0
         in Inr (take 4 out @ u64_le written @ drop 12 out)))"

fun purge_scan_keys :: "'s backend_ops \<Rightarrow> 's \<Rightarrow> int \<Rightarrow> namespace \<Rightarrow> bytes list \<Rightarrow>
    (namespace \<times> bytes) list \<Rightarrow> state_error + (namespace \<times> bytes) list" where
  "purge_scan_keys ops s now_ms ns [] acc = Inr acc"
| "purge_scan_keys ops s now_ms ns (key # keys) acc =
     rbind (b_get ops s ns key) (\<lambda>r. case r of
       Some encoded \<Rightarrow>
         if length encoded \<ge> 8 \<and> now_ms \<ge> i64_of_le (take 8 encoded)
         then purge_scan_keys ops s now_ms ns keys (acc @ [(ns, key)])
         else purge_scan_keys ops s now_ms ns keys acc
     | None \<Rightarrow> purge_scan_keys ops s now_ms ns keys acc)"

fun purge_scan :: "'s backend_ops \<Rightarrow> 's \<Rightarrow> int \<Rightarrow> namespace list \<Rightarrow> (namespace \<times> bytes) list \<Rightarrow>
    state_error + (namespace \<times> bytes) list" where
  "purge_scan ops s now_ms [] acc = Inr acc"
| "purge_scan ops s now_ms (ns # nss) acc =
     rbind (b_list_keys ops s ns) (\<lambda>keys.
       rbind (purge_scan_keys ops s now_ms ns keys acc) (\<lambda>acc'. purge_scan ops s now_ms nss acc'))"

definition ttl_purge_expired :: "'s backend_ops \<Rightarrow> int \<Rightarrow> 's ttl_backend \<Rightarrow>
    ('s ttl_backend, nat) fallible" where
  "ttl_purge_expired ops clock t =
     (case rbind (b_list_namespaces ops (inner t)) (\<lambda>nss.
             purge_scan ops (inner t) (ttl_now clock t) nss []) of
        Inl e \<Rightarrow> (t, Inl e)
      | Inr keys_to_delete \<Rightarrow>
          if keys_to_delete = [] then (t, Inr 0)
          else (case lift_inner t (b_delete_batch ops (inner t) keys_to_delete) of
                  (t', Inl e) \<Rightarrow> (t', Inl e)
                | (t', Inr _) \<Rightarrow> (t', Inr (length keys_to_delete))))"

fun stale_keys :: "'s backend_ops \<Rightarrow> 's \<Rightarrow> (namespace \<times> bytes) list \<Rightarrow> namespace list \<Rightarrow>
    (namespace \<times> bytes) list \<Rightarrow> state_error + (namespace \<times> bytes) list" where
  "stale_keys ops s new_keys [] to_delete = Inr to_delete"
| "stale_keys ops s new_keys (ns # nss) to_delete =
     rbind (b_list_keys ops s ns) (\<lambda>existing.
       stale_keys ops s new_keys nss
         (to_delete @ filter (\<lambda>kk. kk \<notin> set new_keys) (map (Pair ns) existing)))"

definition ttl_precompute :: "int \<Rightarrow> snapshot_entry list \<Rightarrow> snapshot_entry list" where
  "ttl_precompute expires_at_ms entries =
     map (\<lambda>(op_id, name, key, raw_value). (op_id, name, key, ttl_encode raw_value expires_at_ms)) entries"

definition ttl_load_snapshot :: "'s backend_ops \<Rightarrow> int \<Rightarrow> 's ttl_backend \<Rightarrow> bytes \<Rightarrow>
    ('s ttl_backend, unit) fallible" where
  "ttl_load_snapshot ops clock t bs =
     (case decode_snapshot_entries bs of
        Inl e \<Rightarrow> (t, Inl e)
      | Inr entries \<Rightarrow>
          (let expires_at_ms = ttl_expiry (ttl_now clock t) (ttl_ms t);
               precomputed = ttl_precompute expires_at_ms entries
           in case try_each (\<lambda>s (op_id, name, key, encoded).
                    b_put ops s (Namespace op_id name) key encoded) (inner t) precomputed of
                (s1, Inl e) \<Rightarrow> (t\<lparr>inner := s1\<rparr>, Inl e)
              | (s1, Inr _) \<Rightarrow>
                  (let new_keys = map (fst \<circ> entry_kv) precomputed in
                   case rbind (b_list_namespaces ops s1) (\<lambda>nss. stale_keys ops s1 new_keys nss []) of
                     Inl e \<Rightarrow> (t\<lparr>inner := s1\<rparr>, Inl e)
                   | Inr to_delete \<Rightarrow>
                       if to_delete = [] then (t\<lparr>inner := s1\<rparr>, Inr ())
                       else lift_inner t (b_delete_batch ops s1 to_delete))))"

definition ttl_ops :: "'s backend_ops \<Rightarrow> int \<Rightarrow> 's ttl_backend backend_ops" where
  "ttl_ops ops clock =
     \<lparr>b_get = ttl_get ops clock, b_put = ttl_put ops clock, b_delete = ttl_delete ops,
      b_clear_namespace = ttl_clear_namespace ops, b_list_namespaces = ttl_list_namespaces ops,
      b_list_keys = ttl_list_keys ops clock, b_snapshot = ttl_snapshot ops clock,
      b_load_snapshot = ttl_load_snapshot ops clock,
      b_delete_batch = delete_batch_default (ttl_delete ops),
      b_purge_expired = ttl_purge_expired ops clock\<rparr>"

text \<open>
  An inner backend that is interrupted: it carries out the given number of writes and deletions
  and then every further call fails without effect. A batch of deletions is the trait's loop, so
  it can be cut in the middle.
\<close>

definition interrupted_call :: "('s \<Rightarrow> ('s, 'a) fallible) \<Rightarrow> 's \<times> nat \<Rightarrow> ('s \<times> nat, 'a) fallible" where
  "interrupted_call f sn =
     (if snd sn = 0 then (sn, Inl (BackendUnavailable ''interrupted''))
      else case f (fst sn) of (s', r) \<Rightarrow> ((s', snd sn - 1), r))"

definition interrupted_read :: "('s \<Rightarrow> state_error + 'a) \<Rightarrow> 's \<times> nat \<Rightarrow> state_error + 'a" where
  "interrupted_read f sn = (if snd sn = 0 then Inl (BackendUnavailable ''interrupted'') else f (fst sn))"

definition interrupted :: "'s backend_ops \<Rightarrow> ('s \<times> nat) backend_ops" where
  "interrupted ops =
     \<lparr>b_get = \<lambda>sn ns key. interrupted_read (\<lambda>s. b_get ops s ns key) sn,
      b_put = \<lambda>sn ns key val. interrupted_call (\<lambda>s. b_put ops s ns key val) sn,
      b_delete = \<lambda>sn ns key. interrupted_call (\<lambda>s. b_delete ops s ns key) sn,
      b_clear_namespace = \<lambda>sn ns. interrupted_call (\<lambda>s. b_clear_namespace ops s ns) sn,
      b_list_namespaces = interrupted_read (b_list_namespaces ops),
      b_list_keys = \<lambda>sn ns. interrupted_read (\<lambda>s. b_list_keys ops s ns) sn,
      b_snapshot = interrupted_read (b_snapshot ops),
      b_load_snapshot = \<lambda>sn bs. interrupted_call (\<lambda>s. b_load_snapshot ops s bs) sn,
      b_delete_batch = delete_batch_default (\<lambda>sn ns key. interrupted_call (\<lambda>s. b_delete ops s ns key) sn),
      b_purge_expired = interrupted_call (b_purge_expired ops)\<rparr>"

definition interrupt_after :: "nat \<Rightarrow> 's ttl_backend \<Rightarrow> ('s \<times> nat) ttl_backend" where
  "interrupt_after n t = \<lparr>inner = (inner t, n), ttl_ms = ttl_ms t, watermark_ms = watermark_ms t\<rparr>"

text \<open>The writes of a restore, and what they leave when they are all done and nothing else is left.\<close>

definition restore_writes :: "int \<Rightarrow> 's ttl_backend \<Rightarrow> snapshot_entry list \<Rightarrow> ((namespace \<times> bytes) \<times> bytes) list" where
  "restore_writes clock t es = map entry_kv (ttl_precompute (ttl_expiry (ttl_now clock t) (ttl_ms t)) es)"

definition restored :: "int \<Rightarrow> 's ttl_backend \<Rightarrow> snapshot_entry list \<Rightarrow> namespace \<times> bytes \<Rightarrow> bytes option" where
  "restored clock t es = map_of (rev (restore_writes clock t es))"

section \<open>What a reader of the wrapped backend sees\<close>

abbreviation expires :: "bytes \<Rightarrow> int" where
  "expires encoded \<equiv> i64_of_le (take 8 encoded)"

definition visible :: "int \<Rightarrow> ('k \<rightharpoonup> bytes) \<Rightarrow> 'k \<rightharpoonup> bytes" where
  "visible now m k =
     (case m k of None \<Rightarrow> None | Some encoded \<Rightarrow> if now < expires encoded then Some (drop 8 encoded) else None)"

definition expired_keys :: "int \<Rightarrow> ('k \<rightharpoonup> bytes) \<Rightarrow> 'k set" where
  "expired_keys now m = {k. \<exists>encoded. m k = Some encoded \<and> expires encoded \<le> now}"

definition ttl_wf :: "('k \<rightharpoonup> bytes) \<Rightarrow> bool" where
  "ttl_wf m \<longleftrightarrow> (\<forall>k encoded. m k = Some encoded \<longrightarrow> 8 \<le> length encoded)"

lemma ttl_expiry_i64 [simp]: "in_i64 (ttl_expiry now ttl)"
  by (auto simp: ttl_expiry_def checked_add_i64_def) (simp add: in_i64_def)

lemma expires_encode [simp]: "in_i64 e \<Longrightarrow> expires (ttl_encode v e) = e"
  by (simp add: ttl_encode_def i64_of_le_i64_le)

lemma drop_encode [simp]: "drop 8 (ttl_encode v e) = v"
  by (simp add: ttl_encode_def)

lemma length_encode [simp]: "length (ttl_encode v e) = 8 + length v"
  by (simp add: ttl_encode_def)

lemma ttl_wf_upd [simp]: "ttl_wf m \<Longrightarrow> ttl_wf (m(k \<mapsto> ttl_encode v e))"
  by (simp add: ttl_wf_def)

lemma ttl_wf_del [simp]: "ttl_wf m \<Longrightarrow> ttl_wf (m(k := None))"
  by (auto simp: ttl_wf_def split: if_splits)

lemma ttl_wf_restrict [simp]: "ttl_wf m \<Longrightarrow> ttl_wf (m |` A)"
  by (simp add: ttl_wf_def restrict_map_def)

lemma visible_upd:
  "in_i64 e \<Longrightarrow> visible now (m(k \<mapsto> ttl_encode v e)) = (visible now m)(k := if now < e then Some v else None)"
  by (auto simp: visible_def fun_eq_iff)

lemma visible_purged:
  "now \<le> now' \<Longrightarrow> visible now' (m |` (- expired_keys now m)) = visible now' m"
  by (auto simp: visible_def expired_keys_def restrict_map_def fun_eq_iff split: option.splits)

lemma visible_None_iff: "visible now m k = None \<longleftrightarrow> m k = None \<or> k \<in> expired_keys now m"
  by (auto simp: visible_def expired_keys_def split: option.splits)

lemma decode_if_live_visible:
  "ttl_wf m \<Longrightarrow> m k = Some encoded \<Longrightarrow> decode_if_live encoded now = Inr (visible now m k)"
  by (auto simp: decode_if_live_def visible_def ttl_wf_def Let_def not_less [symmetric])

lemma map_of_precompute:
  "map_of (map entry_kv (ttl_precompute e es)) =
     map_option (\<lambda>v. ttl_encode v e) \<circ> map_of (map entry_kv es)"
proof (induction es)
  case (Cons e' es)
  then show ?case by (cases e') (simp add: ttl_precompute_def fun_eq_iff)
qed (simp add: ttl_precompute_def fun_eq_iff)

lemma rev_precompute: "rev (ttl_precompute e es) = ttl_precompute e (rev es)"
  by (simp add: ttl_precompute_def rev_map)

lemma visible_precompute:
  "in_i64 e \<Longrightarrow> visible now (map_of (map entry_kv (ttl_precompute e es))) =
     (if now < e then map_of (map entry_kv es) else Map.empty)"
  by (auto simp: map_of_precompute visible_def fun_eq_iff split: option.splits)

lemma entry_wf_precompute: "\<forall>x \<in> set es. entry_wf x \<Longrightarrow> \<forall>x \<in> set (ttl_precompute e es). entry_wf x"
  by (auto simp: ttl_precompute_def entry_wf_def)

text \<open>The snapshot loop keeps the live entries with their deadline stripped.\<close>

fun strip_ttl :: "snapshot_entry \<Rightarrow> snapshot_entry" where
  "strip_ttl (op_id, name, key, encoded) = (op_id, name, key, drop 8 encoded)"

fun entry_live :: "int \<Rightarrow> snapshot_entry \<Rightarrow> bool" where
  "entry_live now (_, _, _, encoded) \<longleftrightarrow> 8 \<le> length encoded \<and> now < expires encoded"

lemma ttl_snapshot_loop_eq:
  "ttl_snapshot_loop now es out written =
     (let live = map strip_ttl (filter (entry_live now) es)
      in (out @ concat (map entry_bytes live), written + length live))"
  by (induction now es out written rule: ttl_snapshot_loop.induct)
    (auto simp: Let_def lp_def not_less not_le)

lemma ttl_snapshot_bytes:
  assumes "ttl_snapshot_loop now es (u32_le 1 @ u64_le 0) 0 = (out, written)"
  shows "take 4 out @ u64_le written @ drop 12 out =
    encode_snapshot_entries (map strip_ttl (filter (entry_live now) es))"
  using assms by (auto simp: ttl_snapshot_loop_eq encode_eq Let_def)

lemma map_of_live:
  assumes "distinct (map (fst \<circ> entry_kv) es)" and "ttl_wf (map_of (map entry_kv es))"
  shows "map_of (map entry_kv (map strip_ttl (filter (entry_live now) es))) =
    visible now (map_of (map entry_kv es))"
  using assms
proof (induction es)
  case Nil
  then show ?case by (simp add: visible_def fun_eq_iff)
next
  case (Cons e es)
  obtain op_id name key enc where e: "e = (op_id, name, key, enc)" by (cases e)
  let ?k = "(Namespace op_id name, key)" and ?m = "map_of (map entry_kv es)"
  have fresh: "?m ?k = None"
    using Cons.prems(1) e by (auto simp: map_of_eq_None_iff image_iff)
  have "map_of (map entry_kv (e # es)) ?k = Some enc" by (simp add: e)
  then have wf: "8 \<le> length enc" using Cons.prems(2) unfolding ttl_wf_def by blast
  have "ttl_wf ?m"
    unfolding ttl_wf_def
  proof (intro allI impI)
    fix k enc' assume "?m k = Some enc'"
    with fresh e have "map_of (map entry_kv (e # es)) k = Some enc'" by auto
    with Cons.prems(2) show "8 \<le> length enc'" unfolding ttl_wf_def by blast
  qed
  with Cons have "map_of (map entry_kv (map strip_ttl (filter (entry_live now) es))) = visible now ?m"
    by simp
  with fresh wf e show ?case
    by (auto simp: visible_def fun_eq_iff)
qed

section \<open>The wrapper over any working backend\<close>

definition ttl_inv :: "('s \<Rightarrow> bool) \<Rightarrow> ('s \<Rightarrow> namespace \<times> bytes \<Rightarrow> bytes option) \<Rightarrow> 's ttl_backend \<Rightarrow> bool" where
  "ttl_inv ok lookup t \<longleftrightarrow> ok (inner t) \<and> ttl_wf (lookup (inner t))"

context state_backend
begin

lemma ttl_get_law:
  assumes "ttl_inv inv lookup t"
  shows "ttl_get ops clock t ns key = Inr (visible (ttl_now clock t) (lookup (inner t)) (ns, key))"
proof (cases "lookup (inner t) (ns, key)")
  case None
  with assms show ?thesis by (simp add: ttl_get_def ttl_inv_def get_law visible_def)
next
  case (Some encoded)
  with assms show ?thesis
    by (simp add: ttl_get_def ttl_inv_def get_law decode_if_live_visible)
qed

lemma ttl_put_law:
  assumes "ttl_inv inv lookup t" and "ns_ok ns"
  shows "\<exists>t'. ttl_put ops clock t ns key val = (t', Inr ()) \<and> ttl_inv inv lookup t'
    \<and> watermark_ms t' = watermark_ms t \<and> ttl_ms t' = ttl_ms t
    \<and> lookup (inner t') = (lookup (inner t))((ns, key) \<mapsto>
        ttl_encode val (ttl_expiry (ttl_now clock t) (ttl_ms t)))"
  using put_law [of "inner t" ns key "ttl_encode val (ttl_expiry (ttl_now clock t) (ttl_ms t))"] assms
  by (auto simp: ttl_put_def ttl_inv_def lift_inner_def Let_def)

lemma ttl_delete_law:
  assumes "ttl_inv inv lookup t"
  shows "\<exists>t'. ttl_delete ops t ns key = (t', Inr ()) \<and> ttl_inv inv lookup t'
    \<and> watermark_ms t' = watermark_ms t \<and> ttl_ms t' = ttl_ms t
    \<and> lookup (inner t') = (lookup (inner t))((ns, key) := None)"
  using delete_law [of "inner t" ns key] assms
  by (auto simp: ttl_delete_def ttl_inv_def lift_inner_def)

lemma ttl_live_keys_eq:
  assumes "inv s" and "ttl_wf (lookup s)"
  shows "ttl_live_keys ops s ns now keys live =
    Inr (live @ filter (\<lambda>k. visible now (lookup s) (ns, k) \<noteq> None) keys)"
proof (induction keys arbitrary: live)
  case (Cons key keys)
  show ?case
  proof (cases "lookup s (ns, key)")
    case None
    then show ?thesis using assms(1) Cons by (simp add: get_law visible_def)
  next
    case (Some encoded)
    then have "8 \<le> length encoded" using assms(2) unfolding ttl_wf_def by blast
    with Some show ?thesis using assms(1) Cons by (simp add: get_law visible_def)
  qed
qed simp

lemma ttl_list_keys_law:
  assumes "ttl_inv inv lookup t"
  shows "\<exists>ks. ttl_list_keys ops clock t ns = Inr ks \<and> distinct ks
    \<and> set ks = {k. visible (ttl_now clock t) (lookup (inner t)) (ns, k) \<noteq> None}"
proof -
  from keys_law [of "inner t" ns] assms obtain ks where ks: "b_list_keys ops (inner t) ns = Inr ks"
    "distinct ks" "set ks = {k. lookup (inner t) (ns, k) \<noteq> None}"
    by (auto simp: ttl_inv_def)
  with assms show ?thesis
    by (auto simp: ttl_list_keys_def ttl_live_keys_eq ttl_inv_def visible_None_iff)
qed

lemma ttl_snapshot_law:
  assumes "ttl_inv inv lookup t" and "b_snapshot ops (inner t) = Inr raw" and "length raw < two64"
  shows "\<exists>es. ttl_snapshot ops clock t = Inr (encode_snapshot_entries es)
    \<and> distinct (map (fst \<circ> entry_kv) es) \<and> (\<forall>e \<in> set es. entry_wf e)
    \<and> map_of (map entry_kv es) = visible (ttl_now clock t) (lookup (inner t))"
proof -
  from snapshot_law [of "inner t"] assms obtain es where raw: "raw = encode_snapshot_entries es"
    and d: "distinct (map (fst \<circ> entry_kv) es)" and m: "map_of (map entry_kv es) = lookup (inner t)"
    and wf: "\<forall>e \<in> set es. entry_wf e" by (auto simp: ttl_inv_def)
  let ?live = "map strip_ttl (filter (entry_live (ttl_now clock t)) es)"
  have dec: "decode_snapshot_entries raw = Inr es"
    using decode_encode [OF wf] raw assms(3) by simp
  have "ttl_snapshot ops clock t = Inr (encode_snapshot_entries ?live)"
    using assms(2) dec ttl_snapshot_bytes [of "ttl_now clock t" es]
    by (simp add: ttl_snapshot_def split: prod.split)
  moreover have "(fst \<circ> entry_kv) \<circ> strip_ttl = fst \<circ> entry_kv"
    by (auto simp: fun_eq_iff)
  then have "distinct (map (fst \<circ> entry_kv) ?live)"
    using d by (simp add: distinct_map_filter)
  moreover have "\<forall>e \<in> set ?live. entry_wf e"
    using wf by (auto simp: entry_wf_def split: prod.splits)
  moreover have "map_of (map entry_kv ?live) = visible (ttl_now clock t) (lookup (inner t))"
    using map_of_live [OF d] m assms(1) by (simp add: ttl_inv_def)
  ultimately show ?thesis by blast
qed

lemma purge_scan_keys_eq:
  assumes "inv s" and "ttl_wf (lookup s)"
  shows "purge_scan_keys ops s now ns keys acc =
    Inr (acc @ filter (\<lambda>kk. kk \<in> expired_keys now (lookup s)) (map (Pair ns) keys))"
proof (induction keys arbitrary: acc)
  case (Cons key keys)
  show ?case
  proof (cases "lookup s (ns, key)")
    case None
    then show ?thesis using assms(1) Cons by (simp add: get_law expired_keys_def)
  next
    case (Some encoded)
    then have "8 \<le> length encoded" using assms(2) unfolding ttl_wf_def by blast
    with Some show ?thesis using assms(1) Cons by (simp add: get_law expired_keys_def)
  qed
qed simp

lemma purge_scan_eq:
  assumes "inv s" and "ttl_wf (lookup s)" and "distinct nss"
    and "distinct acc" and "fst ` set acc \<inter> set nss = {}"
  shows "\<exists>kks. purge_scan ops s now nss acc = Inr kks \<and> distinct kks
    \<and> set kks = set acc \<union> {kk \<in> expired_keys now (lookup s). fst kk \<in> set nss}"
  using assms(3-5)
proof (induction nss arbitrary: acc)
  case (Cons ns nss)
  from keys_law [OF assms(1)] obtain keys where ks: "b_list_keys ops s ns = Inr keys" "distinct keys"
    "set keys = {k. lookup s (ns, k) \<noteq> None}" by blast
  let ?new = "filter (\<lambda>kk. kk \<in> expired_keys now (lookup s)) (map (Pair ns) keys)"
  have new: "set ?new = {kk \<in> expired_keys now (lookup s). fst kk = ns}"
    using ks(3) by (auto simp: expired_keys_def)
  have "distinct ?new" using ks(2) by (simp add: distinct_map inj_on_def)
  moreover have "set acc \<inter> set ?new = {}" using Cons.prems(3) new by force
  ultimately have dist: "distinct (acc @ ?new)" using Cons.prems(2) by simp
  have disj: "fst ` set (acc @ ?new) \<inter> set nss = {}"
    using Cons.prems(1,3) new by auto
  have "distinct nss" using Cons.prems(1) by simp
  from Cons.IH [OF this dist disj] obtain kks where
    "purge_scan ops s now nss (acc @ ?new) = Inr kks" "distinct kks"
    and "set kks = set (acc @ ?new) \<union> {kk \<in> expired_keys now (lookup s). fst kk \<in> set nss}"
    by blast
  moreover from this(3) have
    "set kks = set acc \<union> {kk \<in> expired_keys now (lookup s). fst kk \<in> set (ns # nss)}"
    unfolding set_append new by auto
  ultimately show ?case
    using ks(1) by (simp only: purge_scan.simps purge_scan_keys_eq [OF assms(1,2)] rbind.simps) blast
qed simp

lemma ttl_purge_law:
  assumes "ttl_inv inv lookup t"
  shows "\<exists>t'. ttl_purge_expired ops clock t =
      (t', Inr (card (expired_keys (ttl_now clock t) (lookup (inner t)))))
    \<and> ttl_inv inv lookup t' \<and> watermark_ms t' = watermark_ms t \<and> ttl_ms t' = ttl_ms t
    \<and> lookup (inner t') = lookup (inner t) |` (- expired_keys (ttl_now clock t) (lookup (inner t)))"
proof -
  let ?s = "inner t" and ?now = "ttl_now clock t"
  let ?exp = "expired_keys ?now (lookup ?s)"
  have i: "inv ?s" and wf: "ttl_wf (lookup ?s)" using assms by (simp_all add: ttl_inv_def)
  from namespaces_law [OF i] obtain nss where nss: "b_list_namespaces ops ?s = Inr nss"
    "distinct nss" "set nss = fst ` dom (lookup ?s)" by blast
  from purge_scan_eq [OF i wf nss(2), of "[]" ?now] obtain kks where
    k: "purge_scan ops ?s ?now nss [] = Inr kks" "distinct kks"
    and "set kks = {kk \<in> ?exp. fst kk \<in> set nss}" by auto
  with nss(3) have kset: "set kks = ?exp" by (force simp: expired_keys_def)
  from delete_batch_law [OF i, of kks] obtain s' where
    d: "b_delete_batch ops ?s kks = (s', Inr ())" "inv s'"
    "lookup s' = (\<lambda>kk. if kk \<in> set kks then None else lookup ?s kk)" by blast
  have l: "lookup s' = lookup ?s |` (- ?exp)"
    using d(3) kset by (auto simp: restrict_map_def)
  have c: "length kks = card ?exp" using distinct_card [OF k(2)] kset by simp
  show ?thesis
  proof (cases "kks = []")
    case True
    with kset have "?exp = {}" by simp
    with True nss k(1) assms show ?thesis by (simp add: ttl_purge_expired_def restrict_map_def)
  next
    case False
    with nss k(1) d(1,2) l c wf show ?thesis
      by (simp add: ttl_purge_expired_def lift_inner_def ttl_inv_def)
  qed
qed

end

context state_backend
begin

lemma stale_keys_eq:
  assumes "inv s"
  shows "\<exists>kks. stale_keys ops s new_keys nss acc = Inr kks
    \<and> set kks = set acc \<union> {kk \<in> dom (lookup s). fst kk \<in> set nss \<and> kk \<notin> set new_keys}"
proof (induction nss arbitrary: acc)
  case (Cons ns nss)
  from keys_law [OF assms] obtain keys where ks: "b_list_keys ops s ns = Inr keys"
    "set keys = {k. lookup s (ns, k) \<noteq> None}" by blast
  let ?new = "filter (\<lambda>kk. kk \<notin> set new_keys) (map (Pair ns) keys)"
  have new: "set ?new = {kk \<in> dom (lookup s). fst kk = ns \<and> kk \<notin> set new_keys}"
    using ks(2) by (auto simp: dom_def)
  from Cons.IH [of "acc @ ?new"] obtain kks where "stale_keys ops s new_keys nss (acc @ ?new) = Inr kks"
    and "set kks = set (acc @ ?new) \<union> {kk \<in> dom (lookup s). fst kk \<in> set nss \<and> kk \<notin> set new_keys}"
    by blast
  moreover from this(2) have
    "set kks = set acc \<union> {kk \<in> dom (lookup s). fst kk \<in> set (ns # nss) \<and> kk \<notin> set new_keys}"
    unfolding set_append new by auto
  ultimately show ?case using ks(1) by simp
qed simp

lemma ttl_load_law:
  assumes inv: "ttl_inv inv lookup t" and len: "length bs < two64"
    and dec: "decode_snapshot_entries bs = Inr es"
  shows "\<exists>t'. ttl_load_snapshot ops clock t bs = (t', Inr ()) \<and> ttl_inv inv lookup t'
    \<and> watermark_ms t' = watermark_ms t \<and> ttl_ms t' = ttl_ms t
    \<and> lookup (inner t') = map_of (map entry_kv
        (rev (ttl_precompute (ttl_expiry (ttl_now clock t) (ttl_ms t)) es)))"
proof -
  let ?pre = "ttl_precompute (ttl_expiry (ttl_now clock t) (ttl_ms t)) es"
  let ?new = "map_of (map entry_kv (rev ?pre))"
  have "\<forall>e \<in> set ?pre. entry_wf e"
    using decode_Inr_encode [OF dec] len by (intro entry_wf_precompute) blast
  from put_batch_law [OF _ this, of "inner t"] inv obtain s1 where
    p: "put_batch ops (inner t) ?pre = (s1, Inr ())" and i1: "inv s1"
    and l1: "lookup s1 = lookup (inner t) ++ ?new"
    by (auto simp: ttl_inv_def rev_map)
  from namespaces_law [OF i1] obtain nss where nss: "b_list_namespaces ops s1 = Inr nss"
    "set nss = fst ` dom (lookup s1)" by blast
  from stale_keys_eq [OF i1, of "map (fst \<circ> entry_kv) ?pre" nss "[]"] obtain kks where
    st: "stale_keys ops s1 (map (fst \<circ> entry_kv) ?pre) nss [] = Inr kks"
    and kset: "set kks = {kk \<in> dom (lookup s1). fst kk \<in> set nss \<and> kk \<notin> set (map (fst \<circ> entry_kv) ?pre)}"
    by auto
  have dom_new: "dom ?new = set (map (fst \<circ> entry_kv) ?pre)"
    by (simp add: dom_map_of_conv_image_fst image_image)
  have kks: "set kks = dom (lookup s1) - dom ?new"
    using kset nss(2) unfolding dom_new by auto
  from delete_batch_law [OF i1, of kks] obtain s' where
    d: "b_delete_batch ops s1 kks = (s', Inr ())" "inv s'"
    "lookup s' = (\<lambda>kk. if kk \<in> set kks then None else lookup s1 kk)" by blast
  have "lookup s' = ?new" and empty: "kks = [] \<Longrightarrow> lookup s1 = ?new"
    using d(3) kks l1 by (auto simp: fun_eq_iff map_add_def dom_def split: option.splits)
  moreover have "ttl_wf ?new"
    by (auto simp: rev_precompute map_of_precompute ttl_wf_def)
  ultimately show ?thesis
    using p nss(1) st d(1,2) i1
    by (auto simp: ttl_load_snapshot_def dec Let_def put_batch_def lift_inner_def ttl_inv_def)
qed

text \<open>
  A restore cut short after any number of writes and deletions: the writes come first, and only
  once all of them are done a key outside the snapshot is deleted.
\<close>

lemma interrupted_puts:
  assumes "inv s" and "\<forall>e \<in> set es. entry_wf e"
  shows "\<exists>s' r. try_each (\<lambda>s (op_id, name, key, encoded). b_put (interrupted ops) s (Namespace op_id name) key encoded) (s, n) es
      = ((s', n - length es), r) \<and> inv s' \<and> lookup s' = lookup s ++ map_of (rev (map entry_kv (take n es)))
    \<and> (r = Inr () \<longleftrightarrow> length es \<le> n)"
  using assms
proof (induction es arbitrary: s n)
  case (Cons e es)
  obtain op_id name key val where e: "e = (op_id, name, key, val)" by (cases e)
  show ?case
  proof (cases n)
    case 0
    then show ?thesis using e Cons.prems(1) by (simp add: interrupted_def interrupted_call_def)
  next
    case (Suc m)
    have "ns_ok (Namespace op_id name)" using Cons.prems(2) e by (simp add: ns_ok_def entry_wf_def)
    from put_law [OF Cons.prems(1) this] obtain s1 where
      p: "b_put ops s (Namespace op_id name) key val = (s1, Inr ())" and i: "inv s1"
      and l: "lookup s1 = (lookup s)((Namespace op_id name, key) \<mapsto> val)" by blast
    from Cons.IH [OF i, of m] Cons.prems(2) obtain s' r where
      "try_each (\<lambda>s (op_id, name, key, encoded). b_put (interrupted ops) s (Namespace op_id name) key encoded) (s1, m) es
        = ((s', m - length es), r)" "inv s'" "r = Inr () \<longleftrightarrow> length es \<le> m"
      "lookup s' = lookup s1 ++ map_of (rev (map entry_kv (take m es)))" by auto
    moreover have "b_put (interrupted ops) (s, n) (Namespace op_id name) key val = ((s1, m), Inr ())"
      using p Suc by (simp add: interrupted_def interrupted_call_def)
    ultimately show ?thesis using e l Suc
      by (auto simp: map_add_def fun_eq_iff split: option.splits)
  qed
qed simp

lemma interrupted_deletes:
  assumes "inv s"
  shows "\<exists>s' r. b_delete_batch (interrupted ops) (s, n) kks = ((s', n - length kks), r) \<and> inv s'
    \<and> lookup s' = (\<lambda>k. if k \<in> set (take n kks) then None else lookup s k) \<and> (r = Inr () \<longleftrightarrow> length kks \<le> n)"
  using assms
proof (induction kks arbitrary: s n)
  case Nil
  then show ?case by (simp add: interrupted_def delete_batch_default_def)
next
  case (Cons kk kks)
  obtain ns key where kk: "kk = (ns, key)" by (cases kk)
  show ?case
  proof (cases n)
    case 0
    then show ?thesis using kk Cons.prems by (simp add: interrupted_def interrupted_call_def delete_batch_default_def)
  next
    case (Suc m)
    from delete_law [OF Cons.prems] obtain s1 where
      d: "b_delete ops s ns key = (s1, Inr ())" "inv s1" "lookup s1 = (lookup s)((ns, key) := None)" by blast
    from Cons.IH [OF d(2), of m] obtain s' r where
      "b_delete_batch (interrupted ops) (s1, m) kks = ((s', m - length kks), r)" "inv s'" "r = Inr () \<longleftrightarrow> length kks \<le> m"
      "lookup s' = (\<lambda>k. if k \<in> set (take m kks) then None else lookup s1 k)" by blast
    then show ?thesis using kk d(1,3) Suc
      by (auto simp: interrupted_def interrupted_call_def delete_batch_default_def fun_eq_iff)
  qed
qed

lemma interrupted_stale:
  "0 < n \<Longrightarrow> stale_keys (interrupted ops) (s, n) new_keys nss acc = stale_keys ops s new_keys nss acc"
proof (induction nss arbitrary: acc)
  case (Cons ns nss)
  then show ?case by (cases "b_list_keys ops s ns") (simp_all add: interrupted_def interrupted_read_def)
qed simp

lemma ttl_load_interrupted:
  assumes inv: "ttl_inv inv lookup t" and len: "length bs < two64" and dec: "decode_snapshot_entries bs = Inr es"
    and run: "ttl_load_snapshot (interrupted ops) clock (interrupt_after n t) bs = (t', r)"
  shows "(\<forall>k v. lookup (fst (inner t')) k = Some v \<longrightarrow> lookup (inner t) k = Some v \<or> (k, v) \<in> set (restore_writes clock t es))
    \<and> dom (lookup (inner t)) \<inter> dom (restored clock t es) \<subseteq> dom (lookup (fst (inner t')))
    \<and> (dom (lookup (inner t)) \<subseteq> dom (lookup (fst (inner t'))) \<or> restored clock t es \<subseteq>\<^sub>m lookup (fst (inner t')))
    \<and> (r = Inr () \<longrightarrow> lookup (fst (inner t')) = restored clock t es)"
proof -
  let ?pre = "ttl_precompute (ttl_expiry (ttl_now clock t) (ttl_ms t)) es"
  let ?old = "lookup (inner t)" and ?new = "restored clock t es" and ?cur = "lookup (fst (inner t'))"
  have e: "ttl_expiry (ttl_now clock (interrupt_after n t)) (ttl_ms (interrupt_after n t)) = ttl_expiry (ttl_now clock t) (ttl_ms t)"
    "inner (interrupt_after n t) = (inner t, n)" by (simp_all add: interrupt_after_def ttl_now_def)
  have "\<forall>e \<in> set ?pre. entry_wf e"
    using decode_Inr_encode [OF dec] len by (intro entry_wf_precompute) blast
  from interrupted_puts [OF _ this, of "inner t" n] inv obtain s1 r1 where
    p: "try_each (\<lambda>s (op_id, name, key, encoded). b_put (interrupted ops) s (Namespace op_id name) key encoded) (inner t, n) ?pre
      = ((s1, n - length ?pre), r1)" and i1: "inv s1"
    and l1: "lookup s1 = ?old ++ map_of (rev (map entry_kv (take n ?pre)))" and r1: "r1 = Inr () \<longleftrightarrow> length ?pre \<le> n"
    by (auto simp: ttl_inv_def)
  note run' = run [unfolded ttl_load_snapshot_def dec sum.case Let_def e p prod.case]
  have writes: "?old k = Some v \<or> (k, v) \<in> set (restore_writes clock t es)" if "lookup s1 k = Some v" for k v
    using that l1 by (auto simp: map_add_def restore_writes_def split: option.splits dest!: map_of_SomeD in_set_takeD)
  show ?thesis
  proof (cases "length ?pre < n")
    case False
    have "interrupted_read (b_list_namespaces ops) (s1, n - length ?pre) = Inl (BackendUnavailable ''interrupted'')"
      using False by (simp add: interrupted_read_def)
    with run' have "fst (inner t') = s1 \<and> r \<noteq> Inr ()"
      by (auto simp: interrupted_def split: sum.splits)
    then show ?thesis using writes l1 by auto
  next
    case True
    then have r: "r1 = Inr ()" and pos: "0 < n - length ?pre" using r1 by simp_all
    have l: "lookup s1 = ?old ++ ?new" using l1 True by (simp add: restored_def restore_writes_def)
    from namespaces_law [OF i1] obtain nss where nss: "b_list_namespaces ops s1 = Inr nss"
      "set nss = fst ` dom (lookup s1)" by blast
    then have nss': "b_list_namespaces (interrupted ops) (s1, n - length ?pre) = Inr nss"
      using pos by (simp add: interrupted_def interrupted_read_def)
    from stale_keys_eq [OF i1, of "map (fst \<circ> entry_kv) ?pre" nss "[]"] obtain kks where
      st: "stale_keys ops s1 (map (fst \<circ> entry_kv) ?pre) nss [] = Inr kks"
      and kset: "set kks = {kk \<in> dom (lookup s1). fst kk \<in> set nss \<and> kk \<notin> set (map (fst \<circ> entry_kv) ?pre)}"
      by auto
    have "dom ?new = set (map (fst \<circ> entry_kv) ?pre)"
      by (simp add: restored_def restore_writes_def dom_map_of_conv_image_fst image_image)
    with kset nss(2) have kks: "set kks = dom (lookup s1) - dom ?new" by auto
    from interrupted_deletes [OF i1, of "n - length ?pre" kks] obtain s2 r2 where
      d: "b_delete_batch (interrupted ops) (s1, n - length ?pre) kks = ((s2, n - length ?pre - length kks), r2)"
      "lookup s2 = (\<lambda>k. if k \<in> set (take (n - length ?pre) kks) then None else lookup s1 k)"
      "r2 = Inr () \<longleftrightarrow> length kks \<le> n - length ?pre" by blast
    have "?cur = lookup s2 \<and> (r = Inr () \<longrightarrow> length kks \<le> n - length ?pre)"
      using run' r nss' st d pos by (cases "kks = []") (auto simp: interrupted_stale lift_inner_def)
    moreover have "set (take m kks) \<inter> dom ?new = {}" for m using kks by (auto dest: in_set_takeD)
    ultimately have c: "?cur = (\<lambda>k. if k \<in> set (take (n - length ?pre) kks) then None else lookup s1 k)"
      and full: "r = Inr () \<Longrightarrow> set (take (n - length ?pre) kks) = dom (lookup s1) - dom ?new"
      and keep: "set (take (n - length ?pre) kks) \<inter> dom ?new = {}"
      using d(2) kks by simp_all
    have m: "?new \<subseteq>\<^sub>m ?cur" using c keep l by (auto simp: map_le_def)
    moreover have "?cur = ?new" if "r = Inr ()"
      using c full [OF that] l by (auto simp: fun_eq_iff map_add_def dom_def split: option.splits)
    moreover have "?old k = Some v \<or> (k, v) \<in> set (restore_writes clock t es)" if "?cur k = Some v" for k v
      using writes [of k v] that c by (simp split: if_splits)
    ultimately show ?thesis using map_le_implies_dom_le [OF m] by blast
  qed
qed

end

section \<open>Properties\<close>

abbreviation ttl_mem_inv :: "mem_backend ttl_backend \<Rightarrow> bool" where
  "ttl_mem_inv \<equiv> ttl_inv mem_inv map_of"

text \<open>
  A value written through the wrapper is returned until the deadline computed at the write
  and never after it, whatever clock or watermark the reader uses; every other key reads as
  before.
\<close>

theorem ttl_put_get:
  assumes "ttl_mem_inv t" and "ns_ok ns"
  shows "\<exists>t'. ttl_put mem_ops clock t ns key val = (t', Inr ()) \<and> ttl_mem_inv t'
    \<and> (\<forall>clock'. ttl_get mem_ops clock' t' ns key =
          Inr (if ttl_now clock' t < ttl_expiry (ttl_now clock t) (ttl_ms t) then Some val else None))
    \<and> (\<forall>clock' ns' key'. (ns', key') \<noteq> (ns, key) \<longrightarrow>
          ttl_get mem_ops clock' t' ns' key' = ttl_get mem_ops clock' t ns' key')"
proof -
  from mem.ttl_put_law [OF assms, of clock key val] obtain t' where
    p: "ttl_put mem_ops clock t ns key val = (t', Inr ())" and i: "ttl_mem_inv t'"
    and w: "watermark_ms t' = watermark_ms t"
    and l: "map_of (inner t') = (map_of (inner t))((ns, key) \<mapsto>
      ttl_encode val (ttl_expiry (ttl_now clock t) (ttl_ms t)))" by blast
  have "ttl_now clock' t' = ttl_now clock' t" for clock' using w by (simp add: ttl_now_def)
  with p i l show ?thesis
    by (intro exI [of _ t']) (simp add: mem.ttl_get_law [OF i] mem.ttl_get_law [OF assms(1)] visible_upd)
qed

lemma ttl_new_sel [simp]:
  "ttl_now c (ttl_new b n) = c" "inner (ttl_new b n) = b" "ttl_ms (ttl_new b n) = n"
  by (simp_all add: ttl_new_def ttl_now_def)

lemma ttl_mem_empty: "ttl_mem_inv (ttl_new [] ttl)"
  by (simp add: ttl_inv_def ttl_new_def mem_inv_def ttl_wf_def)

lemma ttl_mem_single:
  "ttl_mem_inv (ttl_new [((Namespace ''op'' ''s'', [1]), ttl_encode [7] 100)] ttl)"
proof -
  have "rust_str ''op''" "rust_str ''s''" by code_simp+
  then show ?thesis
    by (auto simp: ttl_inv_def ttl_new_def mem_inv_def ttl_wf_def amap_wf_def ns_ok_def)
qed

theorem ttl_put_get_witness:
  "\<exists>t'. ttl_put mem_ops 1000 (ttl_new [] 500) (Namespace ''op'' ''s'') [1] [7] = (t', Inr ())
    \<and> ttl_get mem_ops 1499 t' (Namespace ''op'' ''s'') [1] = Inr (Some [7])
    \<and> ttl_get mem_ops 1500 t' (Namespace ''op'' ''s'') [1] = Inr None"
proof -
  have "rust_str ''op''" "rust_str ''s''" by code_simp+
  then have "ns_ok (Namespace ''op'' ''s'')" by (simp add: ns_ok_def)
  moreover have "ttl_expiry 1000 500 = 1500"
    by (simp add: ttl_expiry_def checked_add_i64_def wrap_i64_def in_i64_def)
  ultimately obtain t' where
    "ttl_put mem_ops 1000 (ttl_new [] 500) (Namespace ''op'' ''s'') [1] [7] = (t', Inr ())"
    and "\<forall>c. ttl_get mem_ops c t' (Namespace ''op'' ''s'') [1] = Inr (if c < 1500 then Some [7] else None)"
    using ttl_put_get [OF ttl_mem_empty, of "Namespace ''op'' ''s''" 1000 500 "[1]" "[7]"]
    by auto
  then show ?thesis by auto
qed

text \<open>
  Purging reports exactly the number of expired entries, removes all of them and nothing
  else, and no reader at the same or a later time can tell the difference.
\<close>

theorem ttl_purge_exact:
  assumes "ttl_mem_inv t"
  shows "\<exists>t'. ttl_purge_expired mem_ops clock t =
      (t', Inr (card (expired_keys (ttl_now clock t) (map_of (inner t)))))
    \<and> ttl_mem_inv t' \<and> expired_keys (ttl_now clock t) (map_of (inner t')) = {}
    \<and> (\<forall>clock' ns key. ttl_now clock t \<le> ttl_now clock' t \<longrightarrow>
          ttl_get mem_ops clock' t' ns key = ttl_get mem_ops clock' t ns key)"
proof -
  from mem.ttl_purge_law [OF assms, of clock] obtain t' where
    p: "ttl_purge_expired mem_ops clock t =
      (t', Inr (card (expired_keys (ttl_now clock t) (map_of (inner t)))))" and i: "ttl_mem_inv t'"
    and w: "watermark_ms t' = watermark_ms t"
    and l: "map_of (inner t') = map_of (inner t) |` (- expired_keys (ttl_now clock t) (map_of (inner t)))"
    by blast
  have "ttl_now clock' t' = ttl_now clock' t" for clock' using w by (simp add: ttl_now_def)
  moreover have "expired_keys (ttl_now clock t) (map_of (inner t')) = {}"
    unfolding l by (auto simp: expired_keys_def restrict_map_def split: if_splits)
  ultimately show ?thesis
    using p i l
    by (intro exI [of _ t']) (simp add: mem.ttl_get_law [OF i] mem.ttl_get_law [OF assms] visible_purged)
qed

theorem ttl_purge_exact_witness:
  "\<exists>t t'. inner t = [((Namespace ''op'' ''s'', [1]), ttl_encode [7] 100)]
     \<and> ttl_purge_expired mem_ops 100 t = (t', Inr 1)"
proof -
  let ?t = "ttl_new [((Namespace ''op'' ''s'', [1]), ttl_encode [7] 100)] 50 :: mem_backend ttl_backend"
  have "ttl_mem_inv ?t" by (rule ttl_mem_single)
  moreover have "expired_keys 100 (map_of (inner ?t)) = {(Namespace ''op'' ''s'', [1])}"
    by (auto simp: expired_keys_def in_i64_def)
  ultimately obtain t' where "ttl_purge_expired mem_ops 100 ?t = (t', Inr 1)"
    using ttl_purge_exact [of ?t 100] by auto
  moreover have "inner ?t = [((Namespace ''op'' ''s'', [1]), ttl_encode [7] 100)]" by simp
  ultimately show ?thesis by blast
qed

text \<open>
  C19. A checkpoint of the wrapped backend restored into another wrapped backend carries over
  exactly what was visible when it was taken: until the fresh deadline every read agrees with
  the source at the time of the snapshot, after it nothing is visible.
\<close>

theorem ttl_checkpoint_restore:
  assumes "ttl_mem_inv t" and "ttl_mem_inv t0" and "ttl_snapshot mem_ops clock t = Inr bs"
    and "length bs < two64" and "mem_snapshot (inner t) = Inr raw" and "length raw < two64"
  shows "\<exists>t'. ttl_load_snapshot mem_ops clock0 t0 bs = (t', Inr ()) \<and> ttl_mem_inv t'
    \<and> (\<forall>clock' ns key. ttl_get mem_ops clock' t' ns key =
          (if ttl_now clock' t0 < ttl_expiry (ttl_now clock0 t0) (ttl_ms t0)
           then ttl_get mem_ops clock t ns key else Inr None))"
proof -
  from mem.ttl_snapshot_law [OF assms(1), of raw clock] assms obtain es where
    bs: "bs = encode_snapshot_entries es" and d: "distinct (map (fst \<circ> entry_kv) es)"
    and wf: "\<forall>e \<in> set es. entry_wf e"
    and m: "map_of (map entry_kv es) = visible (ttl_now clock t) (map_of (inner t))"
    by (auto simp: mem_ops_def)
  have dec: "decode_snapshot_entries bs = Inr es"
    using decode_encode [OF wf] assms(4) bs by simp
  let ?e = "ttl_expiry (ttl_now clock0 t0) (ttl_ms t0)"
  from mem.ttl_load_law [OF assms(2,4) dec, of clock0] obtain t' where
    p: "ttl_load_snapshot mem_ops clock0 t0 bs = (t', Inr ())" and i: "ttl_mem_inv t'"
    and w: "watermark_ms t' = watermark_ms t0"
    and l: "map_of (inner t') = map_of (map entry_kv (ttl_precompute ?e (rev es)))"
    by (auto simp: rev_precompute)
  have n: "ttl_now clock' t' = ttl_now clock' t0" for clock' using w by (simp add: ttl_now_def)
  have "map_of (map entry_kv (rev es)) = map_of (map entry_kv es)"
    using map_of_rev [of "map entry_kv es"] d by (simp add: rev_map)
  then have "visible now (map_of (inner t')) =
      (if now < ?e then visible (ttl_now clock t) (map_of (inner t)) else Map.empty)" for now
    using l m by (simp add: visible_precompute)
  with p i n show ?thesis
    by (intro exI [of _ t']) (simp add: mem.ttl_get_law [OF i] mem.ttl_get_law [OF assms(1)])
qed

theorem ttl_checkpoint_restore_witness:
  "\<exists>bs t'. ttl_snapshot mem_ops 0 (ttl_new [] 10) = Inr bs
     \<and> ttl_load_snapshot mem_ops 5 (ttl_new [((Namespace ''op'' ''s'', [1]), ttl_encode [7] 100)] 10) bs = (t', Inr ())
     \<and> ttl_get mem_ops 6 t' (Namespace ''op'' ''s'') [1] = Inr None"
proof -
  let ?t = "ttl_new [] 10 :: mem_backend ttl_backend"
  let ?old = "ttl_new [((Namespace ''op'' ''s'', [1]), ttl_encode [7] 100)] 10 :: mem_backend ttl_backend"
  have o: "ttl_mem_inv ?old" by (rule ttl_mem_single)
  have raw: "mem_snapshot (inner ?t) = Inr (encode_snapshot_entries [])"
    by (simp add: mem_snapshot_eq ttl_new_def)
  have len: "length (encode_snapshot_entries []) < two64" by (simp add: encode_eq)
  have dec: "decode_snapshot_entries (encode_snapshot_entries []) = Inr []"
    using decode_encode [of "[]"] len by simp
  have snap: "ttl_snapshot mem_ops 0 ?t = Inr (encode_snapshot_entries [])"
    using raw dec by (simp add: ttl_snapshot_def mem_ops_def encode_eq)
  have get: "ttl_get mem_ops 0 ?t ns key = Inr None" for ns key
    by (simp add: ttl_get_def ttl_new_def mem_ops_def mem_get_def)
  from ttl_checkpoint_restore [OF ttl_mem_empty o snap len raw len, of 5] obtain t' where
    "ttl_load_snapshot mem_ops 5 ?old (encode_snapshot_entries []) = (t', Inr ())"
    and "\<forall>clock' ns key. ttl_get mem_ops clock' t' ns key = Inr None"
    unfolding get if_cancel by blast
  then show ?thesis using snap by blast
qed


text \<open>Two entries to write over one old key: the restore stops after its first write.\<close>

definition demo_entries :: "snapshot_entry list" where
  "demo_entries = [(''op'', ''s'', [2], [3]), (''op'', ''s'', [4], [5])]"


text \<open>A configured duration above \<open>i64::MAX\<close> is cast to a negative one: the write is never visible.\<close>

lemma ttl_duration_overflow:
  assumes "0 \<le> clock" and "in_i64 clock" and "ns_ok ns"
  shows "\<exists>t'. ttl_put mem_ops clock (ttl_new [] 9223372036854775808) ns key val = (t', Inr ())
    \<and> ttl_get mem_ops clock t' ns key = Inr None"
proof -
  let ?t = "ttl_new [] 9223372036854775808 :: mem_backend ttl_backend"
  have "wrap_i64 (int 9223372036854775808) = - 9223372036854775808" by (simp add: wrap_i64_def)
  then have e: "ttl_expiry clock 9223372036854775808 = clock - 9223372036854775808"
    using assms(1,2) unfolding ttl_expiry_def checked_add_i64_def in_i64_def by simp
  from mem.ttl_put_law [OF ttl_mem_empty assms(3)] obtain t' where
    p: "ttl_put mem_ops clock ?t ns key val = (t', Inr ())" and i: "ttl_mem_inv t'"
    and w: "watermark_ms t' = watermark_ms ?t"
    and l: "map_of (inner t') = (map_of (inner ?t))((ns, key) \<mapsto>
      ttl_encode val (ttl_expiry (ttl_now clock ?t) (ttl_ms ?t)))" by blast
  have "ttl_now clock t' = clock" using w by (simp add: ttl_now_def ttl_new_def)
  moreover have "in_i64 (clock - 9223372036854775808)" using ttl_expiry_i64 e by metis
  moreover have "map_of (inner t') = [(ns, key) \<mapsto> ttl_encode val (clock - 9223372036854775808)]"
    using l by (simp only: ttl_new_sel e map_of.simps)
  ultimately have "ttl_get mem_ops clock t' ns key = Inr None"
    by (simp add: mem.ttl_get_law [OF i] visible_upd)
  with p show ?thesis by blast
qed

end
