(* ===== verification/Timers.thy ===== *)
theory Timers
  imports StateCore
begin

text \<open>
  The timer services of \<open>krishiv-state\<close>: event-time timers (\<open>timer.rs\<close>) and
  processing-time timers (\<open>processing_time.rs\<close>). The two timer structs have the same fields
  in the same order, so one datatype with the derived lexicographic order stands for both. A
  \<open>BTreeMap\<close> with unit values is its sorted list of keys. The locale \<open>timer_contract\<close> is the
  contract of both services; the lemmas about whole runs are proved in it once.
\<close>

section \<open>Timer keys\<close>

datatype timer_key = TimerKey (deadline_ms: int) (timer_ns: namespace) (record_key: bytes)

instantiation timer_key :: linorder
begin

definition less_eq_timer_key :: "timer_key \<Rightarrow> timer_key \<Rightarrow> bool" where
  "less_eq_timer_key a b \<longleftrightarrow>
     deadline_ms a < deadline_ms b \<or> deadline_ms a = deadline_ms b \<and>
       (timer_ns a < timer_ns b \<or> timer_ns a = timer_ns b \<and> record_key a \<le> record_key b)"

definition less_timer_key :: "timer_key \<Rightarrow> timer_key \<Rightarrow> bool" where
  "less_timer_key a b \<longleftrightarrow>
     deadline_ms a < deadline_ms b \<or> deadline_ms a = deadline_ms b \<and>
       (timer_ns a < timer_ns b \<or> timer_ns a = timer_ns b \<and> record_key a < record_key b)"

instance
  by standard (auto simp: less_eq_timer_key_def less_timer_key_def timer_key.expand)

end

abbreviation timer_id :: "timer_key \<Rightarrow> namespace \<times> bytes" where
  "timer_id t \<equiv> (timer_ns t, record_key t)"

section \<open>Operations\<close>

record timer_service =
  timers :: "timer_key list"
  identity_index :: "(namespace \<times> bytes, int) amap"

definition timer_service_new :: timer_service where
  "timer_service_new = \<lparr>timers = [], identity_index = []\<rparr>"

definition btree_insert :: "timer_key \<Rightarrow> timer_key list \<Rightarrow> timer_key list" where
  "btree_insert t ts = (if t \<in> set ts then ts else insort t ts)"

text \<open>\<open>BTreeMap::split_off\<close>: the keys below the bound stay, the others are returned.\<close>

definition split_off :: "timer_key \<Rightarrow> timer_key list \<Rightarrow> timer_key list \<times> timer_key list" where
  "split_off bound ts = (takeWhile (\<lambda>t. t < bound) ts, dropWhile (\<lambda>t. t < bound) ts)"

definition register_event_time_timer ::
    "timer_service \<Rightarrow> timer_key \<Rightarrow> timer_service \<times> (state_error + unit)" where
  "register_event_time_timer s timer =
     (let identity = timer_id timer;
          ts = (case map_of (identity_index s) identity of
                  Some old_deadline \<Rightarrow>
                    remove1 (TimerKey old_deadline (timer_ns timer) (record_key timer)) (timers s)
                | None \<Rightarrow> timers s)
      in (\<lparr>timers = btree_insert timer ts,
           identity_index = amap_insert identity (deadline_ms timer) (identity_index s)\<rparr>, Inr ()))"

definition cancel_timer ::
    "timer_service \<Rightarrow> namespace \<Rightarrow> bytes \<Rightarrow> timer_service \<times> (state_error + unit)" where
  "cancel_timer s ns key =
     (let identity = (ns, key) in
      case map_of (identity_index s) identity of
        Some deadline \<Rightarrow>
          (\<lparr>timers = remove1 (TimerKey deadline ns key) (timers s),
            identity_index = amap_remove identity (identity_index s)\<rparr>, Inr ())
      | None \<Rightarrow> (s, Inr ()))"

definition drain_fired_timers :: "timer_service \<Rightarrow> int \<Rightarrow> timer_service \<times> timer_key list" where
  "drain_fired_timers s watermark =
     (let sentinel = TimerKey (saturating_add_i64 watermark 1) (Namespace [] []) [];
          (fired, pending) = split_off sentinel (timers s);
          idx = foldl (\<lambda>m t. amap_remove (timer_id t) m) (identity_index s) fired
      in (\<lparr>timers = pending, identity_index = idx\<rparr>, fired))"

definition pending_count :: "timer_service \<Rightarrow> nat" where
  "pending_count s = length (timers s)"

definition register_processing_time_timer ::
    "timer_service \<Rightarrow> timer_key \<Rightarrow> timer_service \<times> (state_error + unit)" where
  "register_processing_time_timer s timer =
     (let identity = timer_id timer;
          ts = (case map_of (identity_index s) identity of
                  Some old_fire_at \<Rightarrow>
                    remove1 (TimerKey old_fire_at (timer_ns timer) (record_key timer)) (timers s)
                | None \<Rightarrow> timers s)
      in (\<lparr>timers = btree_insert timer ts,
           identity_index = amap_insert identity (deadline_ms timer) (identity_index s)\<rparr>, Inr ()))"

definition cancel_processing_time_timer ::
    "timer_service \<Rightarrow> namespace \<Rightarrow> bytes \<Rightarrow> timer_service \<times> (state_error + unit)" where
  "cancel_processing_time_timer s ns key =
     (let identity = (ns, key) in
      case map_of (identity_index s) identity of
        Some fire_at \<Rightarrow>
          (\<lparr>timers = remove1 (TimerKey fire_at ns key) (timers s),
            identity_index = amap_remove identity (identity_index s)\<rparr>, Inr ())
      | None \<Rightarrow> (s, Inr ()))"

text \<open>\<open>now_ms + 1\<close> wraps around in the release profile, which has no overflow checks.\<close>

definition drain_fired_processing_time_timers ::
    "timer_service \<Rightarrow> int \<Rightarrow> timer_service \<times> timer_key list" where
  "drain_fired_processing_time_timers s now =
     (let sentinel = TimerKey (wrap_i64 (now + 1)) (Namespace [] []) [];
          (fired, pending) = split_off sentinel (timers s);
          idx = foldl (\<lambda>m t. amap_remove (timer_id t) m) (identity_index s) fired
      in (\<lparr>timers = pending, identity_index = idx\<rparr>, fired))"

section \<open>The contract and whole runs\<close>

datatype timer_op = Register timer_key | Cancel namespace bytes | Drain int

fun op_touches :: "namespace \<times> bytes \<Rightarrow> timer_op \<Rightarrow> bool" where
  "op_touches i (Register t) \<longleftrightarrow> timer_id t = i"
| "op_touches i (Cancel ns key) \<longleftrightarrow> (ns, key) = i"
| "op_touches i (Drain w) \<longleftrightarrow> False"

fun op_ok :: "timer_op \<Rightarrow> bool" where
  "op_ok (Drain w) \<longleftrightarrow> i64_min \<le> w \<and> w < i64_max"
| "op_ok _ \<longleftrightarrow> True"

text \<open>A run of a service given by its three operations: the final state and all fired timers.\<close>

fun run_timers :: "('s \<Rightarrow> timer_key \<Rightarrow> 's \<times> (state_error + unit)) \<Rightarrow>
    ('s \<Rightarrow> namespace \<Rightarrow> bytes \<Rightarrow> 's \<times> (state_error + unit)) \<Rightarrow>
    ('s \<Rightarrow> int \<Rightarrow> 's \<times> timer_key list) \<Rightarrow> 's \<Rightarrow> timer_op list \<Rightarrow> 's \<times> timer_key list" where
  "run_timers reg can dr s [] = (s, [])"
| "run_timers reg can dr s (Register t # os) = run_timers reg can dr (fst (reg s t)) os"
| "run_timers reg can dr s (Cancel ns key # os) = run_timers reg can dr (fst (can s ns key)) os"
| "run_timers reg can dr s (Drain w # os) =
     (let (s', fired) = dr s w; (s'', rest) = run_timers reg can dr s' os in (s'', fired @ rest))"

definition due :: "(namespace \<times> bytes \<rightharpoonup> int) \<Rightarrow> int \<Rightarrow> timer_key set" where
  "due p w = {t. p (timer_id t) = Some (deadline_ms t) \<and> deadline_ms t \<le> w}"

definition not_due :: "(namespace \<times> bytes \<rightharpoonup> int) \<Rightarrow> int \<Rightarrow> (namespace \<times> bytes \<rightharpoonup> int)" where
  "not_due p w i = (case p i of None \<Rightarrow> None | Some d \<Rightarrow> if d \<le> w then None else Some d)"

locale timer_contract =
  fixes register :: "'s \<Rightarrow> timer_key \<Rightarrow> 's \<times> (state_error + unit)"
    and cancel :: "'s \<Rightarrow> namespace \<Rightarrow> bytes \<Rightarrow> 's \<times> (state_error + unit)"
    and drain :: "'s \<Rightarrow> int \<Rightarrow> 's \<times> timer_key list"
    and ok :: "'s \<Rightarrow> bool"
    and pending :: "'s \<Rightarrow> namespace \<times> bytes \<rightharpoonup> int"
  assumes register_law: "ok s \<Longrightarrow> \<exists>s'. register s t = (s', Inr ()) \<and> ok s'
      \<and> pending s' = (pending s)(timer_id t \<mapsto> deadline_ms t)"
    and cancel_law: "ok s \<Longrightarrow> \<exists>s'. cancel s ns key = (s', Inr ()) \<and> ok s'
      \<and> pending s' = (pending s)((ns, key) := None)"
    and drain_law: "ok s \<Longrightarrow> i64_min \<le> w \<Longrightarrow> w < i64_max \<Longrightarrow> \<exists>s' fired. drain s w = (s', fired)
      \<and> ok s' \<and> sorted fired \<and> distinct fired \<and> set fired = due (pending s) w
      \<and> pending s' = not_due (pending s) w"
begin

lemma drain_twice:
  assumes "ok s" and "i64_min \<le> w" and "w < i64_max" and "drain s w = (s', fired)"
    and "v \<le> w" and "i64_min \<le> v"
  shows "snd (drain s' v) = []"
proof -
  from drain_law [OF assms(1-3)] assms(4) have "ok s'" and p: "pending s' = not_due (pending s) w"
    by auto
  then obtain s'' f where "drain s' v = (s'', f)" "set f = due (pending s') v"
    using drain_law [of s' v] assms by fastforce
  moreover have "due (pending s') v = {}"
    using assms(5) unfolding p by (auto simp: due_def not_due_def split: option.splits if_splits)
  ultimately show ?thesis by simp
qed

text \<open>Draining in two steps fires the same timers in the same order as draining once.\<close>

lemma drain_compose:
  assumes "ok s" and "i64_min \<le> v" and "v \<le> w" and "w < i64_max"
    and d: "drain s v = (s1, f1)" "drain s1 w = (s2, f2)" "drain s w = (s3, f3)"
  shows "f3 = f1 @ f2 \<and> pending s3 = pending s2"
proof -
  have v: "ok s1" "sorted f1" "distinct f1" "set f1 = due (pending s) v" "pending s1 = not_due (pending s) v"
    using drain_law [OF assms(1,2)] assms(3,4) d(1) by force+
  have w: "sorted f3" "distinct f3" "set f3 = due (pending s) w" "pending s3 = not_due (pending s) w"
    using drain_law [OF assms(1) _ assms(4)] assms(2,3) d(3) by force+
  have vw: "sorted f2" "distinct f2" "set f2 = due (pending s1) w" "pending s2 = not_due (pending s1) w"
    using drain_law [OF v(1) _ assms(4)] assms(2,3) d(2) by force+
  have later: "v < deadline_ms t" if "t \<in> set f2" for t
    using that unfolding vw(3) v(5) by (auto simp: due_def not_due_def split: option.splits if_splits)
  have earlier: "deadline_ms t \<le> v" if "t \<in> set f1" for t
    using that unfolding v(4) by (simp add: due_def)
  have "sorted (f1 @ f2)"
    using v(2) vw(1) later earlier by (fastforce simp: sorted_append less_eq_timer_key_def)
  moreover have "distinct (f1 @ f2)" using v(3) vw(2) later earlier by fastforce
  moreover have "set (f1 @ f2) = set f3"
    unfolding set_append w(3) v(4) vw(3) v(5) using assms(3)
    by (auto simp: due_def not_due_def split: option.splits if_splits)
  ultimately have "f3 = f1 @ f2" using w(1,2) by (metis sorted_distinct_set_unique)
  moreover have "pending s3 = pending s2"
    unfolding w(4) vw(4) v(5) using assms(3) by (auto simp: not_due_def fun_eq_iff split: option.splits)
  ultimately show ?thesis ..
qed

text \<open>
  In a run that neither cancels nor re-registers it, a pending timer fires exactly once if some
  drain reaches its deadline, and not at all otherwise.
\<close>

lemma absent_timer_never_fires:
  assumes "ok s" and "list_all op_ok os" and "\<forall>op \<in> set os. \<not> op_touches (timer_id t) op"
    and "pending s (timer_id t) = None"
  shows "count_list (snd (run_timers register cancel drain s os)) t = 0"
  using assms
proof (induction os arbitrary: s)
  case (Cons op os)
  show ?case
  proof (cases op)
    case (Register t')
    with register_law [OF Cons.prems(1), of t'] Cons show ?thesis by auto
  next
    case (Cancel ns key)
    with cancel_law [OF Cons.prems(1), of ns key] Cons show ?thesis by auto
  next
    case (Drain w)
    with Cons.prems(2) have "i64_min \<le> w" "w < i64_max" by simp_all
    from drain_law [OF Cons.prems(1) this] obtain s' fired where
      d: "drain s w = (s', fired)" "ok s'" "set fired = due (pending s) w"
      "pending s' = not_due (pending s) w" by blast
    have "t \<notin> set fired" using Cons.prems(4) d(3) by (simp add: due_def)
    then have "count_list fired t = 0" by simp
    moreover have "pending s' (timer_id t) = None"
      using Cons.prems(4) d(4) by (simp add: not_due_def)
    ultimately show ?thesis
      using Drain d(1,2) Cons by (auto simp: case_prod_unfold Let_def)
  qed
qed simp

lemma pending_timer_fires_once:
  assumes "ok s" and "list_all op_ok os" and "\<forall>op \<in> set os. \<not> op_touches (timer_id t) op"
    and "pending s (timer_id t) = Some (deadline_ms t)"
  shows "count_list (snd (run_timers register cancel drain s os)) t =
    (if \<exists>w. Drain w \<in> set os \<and> deadline_ms t \<le> w then 1 else 0)"
  using assms
proof (induction os arbitrary: s)
  case (Cons op os)
  show ?case
  proof (cases op)
    case (Register t')
    with register_law [OF Cons.prems(1), of t'] Cons show ?thesis by auto
  next
    case (Cancel ns key)
    with cancel_law [OF Cons.prems(1), of ns key] Cons show ?thesis by auto
  next
    case (Drain w)
    with Cons.prems(2) have "i64_min \<le> w" "w < i64_max" by simp_all
    from drain_law [OF Cons.prems(1) this] obtain s' fired where
      d: "drain s w = (s', fired)" "ok s'" "distinct fired" "set fired = due (pending s) w"
      "pending s' = not_due (pending s) w" by blast
    have tail: "list_all op_ok os" "\<forall>op \<in> set os. \<not> op_touches (timer_id t) op"
      using Cons.prems by auto
    have run: "snd (run_timers register cancel drain s (op # os)) =
        fired @ snd (run_timers register cancel drain s' os)"
      using Drain d(1) by (simp add: case_prod_unfold Let_def)
    show ?thesis
    proof (cases "deadline_ms t \<le> w")
      case True
      then have "t \<in> set fired" using Cons.prems(4) d(4) by (simp add: due_def)
      then have "count_list fired t = 1" using d(3) by (simp add: count_list_distinct)
      moreover have "pending s' (timer_id t) = None"
        using True Cons.prems(4) d(5) by (simp add: not_due_def)
      ultimately show ?thesis
        using True Drain absent_timer_never_fires [OF d(2) tail] run by auto
    next
      case False
      then have "t \<notin> set fired" using d(4) by (simp add: due_def)
      then have "count_list fired t = 0" by simp
      moreover have "pending s' (timer_id t) = Some (deadline_ms t)"
        using False Cons.prems(4) d(5) by (simp add: not_due_def)
      ultimately show ?thesis
        using False Drain Cons.IH [OF d(2) tail] run by auto
    qed
  qed
qed simp

end

section \<open>Both services meet the contract\<close>

definition timers_ok :: "timer_service \<Rightarrow> bool" where
  "timers_ok s \<longleftrightarrow> sorted (timers s) \<and> distinct (timers s) \<and> amap_wf (identity_index s)
     \<and> set (timers s) = {t. map_of (identity_index s) (timer_id t) = Some (deadline_ms t)}"

abbreviation pending_timers :: "timer_service \<Rightarrow> namespace \<times> bytes \<rightharpoonup> int" where
  "pending_timers s \<equiv> map_of (identity_index s)"

lemma timers_ok_new: "timers_ok timer_service_new"
  by (simp add: timers_ok_def timer_service_new_def)

lemma sorted_btree_insert [simp]: "sorted ts \<Longrightarrow> sorted (btree_insert t ts)"
  by (simp add: btree_insert_def sorted_insort)

lemma distinct_btree_insert [simp]: "distinct ts \<Longrightarrow> distinct (btree_insert t ts)"
  by (simp add: btree_insert_def distinct_insort)

lemma set_btree_insert [simp]: "set (btree_insert t ts) = insert t (set ts)"
  by (auto simp: btree_insert_def set_insort_key)

lemma timer_eq_iff: "x = t \<longleftrightarrow> timer_id x = timer_id t \<and> deadline_ms x = deadline_ms t"
  by (cases x; cases t) auto

lemma remove_old_timer:
  assumes "timers_ok s" and "map_of (identity_index s) (ns, key) = Some d"
  shows "set (remove1 (TimerKey d ns key) (timers s)) = {t \<in> set (timers s). timer_id t \<noteq> (ns, key)}"
  using assms by (auto simp: timers_ok_def timer_eq_iff)

lemma insert_meets:
  assumes "timers_ok s" and "sorted ts" and "distinct ts"
    and "set ts = {x \<in> set (timers s). timer_id x \<noteq> timer_id t}"
  shows "timers_ok \<lparr>timers = btree_insert t ts,
    identity_index = amap_insert (timer_id t) (deadline_ms t) (identity_index s)\<rparr>"
proof -
  have "x \<in> insert t (set ts) \<longleftrightarrow>
      ((pending_timers s)(timer_id t \<mapsto> deadline_ms t)) (timer_id x) = Some (deadline_ms x)" for x
  proof (cases "timer_id x = timer_id t")
    case True
    then show ?thesis unfolding assms(4) by (simp add: timer_eq_iff eq_commute)
  next
    case False
    then show ?thesis
      using assms(1) unfolding assms(4) timers_ok_def by (auto simp: timer_eq_iff [of x t])
  qed
  then have "set (btree_insert t ts) =
      {x. map_of (amap_insert (timer_id t) (deadline_ms t) (identity_index s)) (timer_id x) = Some (deadline_ms x)}"
    unfolding map_of_amap_insert set_btree_insert by blast
  then show ?thesis using assms(1-3) by (simp add: timers_ok_def del: map_of_amap_insert set_btree_insert)
qed

lemma register_meets:
  assumes "timers_ok s"
  shows "\<exists>s'. register_event_time_timer s t = (s', Inr ()) \<and> timers_ok s'
    \<and> pending_timers s' = (pending_timers s)(timer_id t \<mapsto> deadline_ms t)"
proof (cases "pending_timers s (timer_id t)")
  case None
  have "set (timers s) = {x \<in> set (timers s). timer_id x \<noteq> timer_id t}"
    using assms None by (fastforce simp: timers_ok_def)
  with None assms show ?thesis
    using insert_meets [OF assms, of "timers s" t]
    by (simp add: register_event_time_timer_def timers_ok_def)
next
  case (Some d)
  let ?ts = "remove1 (TimerKey d (timer_ns t) (record_key t)) (timers s)"
  have "sorted ?ts" "distinct ?ts" using assms by (simp_all add: timers_ok_def sorted_remove1)
  from insert_meets [OF assms this remove_old_timer [OF assms Some]] Some show ?thesis
    by (simp add: register_event_time_timer_def)
qed

lemma cancel_meets:
  assumes "timers_ok s"
  shows "\<exists>s'. cancel_timer s ns key = (s', Inr ()) \<and> timers_ok s'
    \<and> pending_timers s' = (pending_timers s)((ns, key) := None)"
proof (cases "map_of (identity_index s) (ns, key)")
  case None
  with assms show ?thesis by (simp add: cancel_timer_def) (metis fun_upd_triv)
next
  case (Some d)
  with assms remove_old_timer [OF assms Some] show ?thesis
    by (auto simp: cancel_timer_def timers_ok_def sorted_remove1)
qed

lemma below_sentinel: "t < TimerKey b (Namespace [] []) [] \<longleftrightarrow> deadline_ms t < b"
  using namespace_empty_least [of "timer_ns t"] by (auto simp: less_timer_key_def)

lemma map_of_remove_all:
  "map_of (foldl (\<lambda>m t. amap_remove (timer_id t) m) m ts) =
     (\<lambda>i. if i \<in> timer_id ` set ts then None else map_of m i)"
  by (induction ts arbitrary: m) (auto simp: fun_eq_iff)

lemma amap_wf_remove_all: "amap_wf m \<Longrightarrow> amap_wf (foldl (\<lambda>m t. amap_remove (timer_id t) m) m ts)"
  by (induction ts arbitrary: m) auto

lemma drain_core:
  assumes "timers_ok s" and "split_off (TimerKey (w + 1) (Namespace [] []) []) (timers s) = (fired, rest)"
  shows "timers_ok \<lparr>timers = rest,
      identity_index = foldl (\<lambda>m t. amap_remove (timer_id t) m) (identity_index s) fired\<rparr>
    \<and> sorted fired \<and> distinct fired \<and> set fired = due (pending_timers s) w
    \<and> map_of (foldl (\<lambda>m t. amap_remove (timer_id t) m) (identity_index s) fired) =
        not_due (pending_timers s) w"
proof -
  have srt: "sorted (timers s)" using assms(1) by (simp add: timers_ok_def)
  have f: "fired = filter (\<lambda>t. deadline_ms t \<le> w) (timers s)"
    and r: "rest = filter (\<lambda>t. \<not> deadline_ms t \<le> w) (timers s)"
    using assms(2) unfolding split_off_def takeWhile_less_sorted [OF srt] dropWhile_less_sorted [OF srt]
    by (auto simp: below_sentinel)
  have fset: "set fired = due (pending_timers s) w"
    using assms(1) f by (auto simp: due_def timers_ok_def)
  have ids: "i \<in> timer_id ` set fired \<longleftrightarrow> (\<exists>d. pending_timers s i = Some d \<and> d \<le> w)" for i
    unfolding fset by (cases i) (force simp: due_def image_iff intro: exI [of _ "TimerKey _ _ _"])
  have nd: "map_of (foldl (\<lambda>m t. amap_remove (timer_id t) m) (identity_index s) fired) =
      not_due (pending_timers s) w"
    unfolding map_of_remove_all ids by (auto simp: not_due_def fun_eq_iff split: option.split)
  have "set rest = {t. not_due (pending_timers s) w (timer_id t) = Some (deadline_ms t)}"
    using assms(1) r by (auto simp: timers_ok_def not_due_def split: option.splits if_splits)
  then show ?thesis
    using assms(1) f r fset nd by (auto simp: timers_ok_def amap_wf_remove_all sorted_filter [of "\<lambda>x. x", simplified])
qed

lemma drain_meets:
  assumes "timers_ok s" and "i64_min \<le> w" and "w < i64_max"
  shows "\<exists>s' fired. drain_fired_timers s w = (s', fired) \<and> timers_ok s' \<and> sorted fired
    \<and> distinct fired \<and> set fired = due (pending_timers s) w
    \<and> pending_timers s' = not_due (pending_timers s) w"
proof -
  have "saturating_add_i64 w 1 = w + 1" using assms(2,3) by (simp add: saturating_add_i64_def)
  moreover obtain fired rest where
    "split_off (TimerKey (w + 1) (Namespace [] []) []) (timers s) = (fired, rest)" by fastforce
  ultimately show ?thesis
    using drain_core [OF assms(1)] by (simp add: drain_fired_timers_def Let_def)
qed

lemma drain_processing_eq:
  assumes "i64_min \<le> w" and "w < i64_max"
  shows "drain_fired_processing_time_timers s w = drain_fired_timers s w"
proof -
  have "wrap_i64 (w + 1) = w + 1" using assms by (intro wrap_i64_id) (simp add: in_i64_def)
  moreover have "saturating_add_i64 w 1 = w + 1" using assms by (simp add: saturating_add_i64_def)
  ultimately show ?thesis
    by (simp add: drain_fired_processing_time_timers_def drain_fired_timers_def)
qed

lemma processing_eqs:
  "register_processing_time_timer = register_event_time_timer"
  "cancel_processing_time_timer = cancel_timer"
  by (simp_all add: fun_eq_iff register_processing_time_timer_def register_event_time_timer_def
      cancel_processing_time_timer_def cancel_timer_def)

interpretation event_time: timer_contract register_event_time_timer cancel_timer drain_fired_timers
  timers_ok pending_timers
  by unfold_locales (rule register_meets cancel_meets drain_meets; assumption)+

interpretation processing_time: timer_contract register_processing_time_timer
  cancel_processing_time_timer drain_fired_processing_time_timers timers_ok pending_timers
  by unfold_locales
    (unfold processing_eqs, auto simp: drain_processing_eq intro: register_meets cancel_meets drain_meets)

section \<open>Properties\<close>

text \<open>
  C21. An event-time timer that is registered and then neither cancelled nor re-registered fires
  exactly once over any run of the service, in the first drain whose watermark reaches its
  deadline, and does not fire when no drain reaches it.
\<close>

theorem event_timer_fires_exactly_once:
  assumes "timers_ok s" and "list_all op_ok os" and "\<forall>op \<in> set os. \<not> op_touches (timer_id t) op"
  shows "count_list (snd (run_timers register_event_time_timer cancel_timer drain_fired_timers s
      (Register t # os))) t = (if \<exists>w. Drain w \<in> set os \<and> deadline_ms t \<le> w then 1 else 0)"
proof -
  from event_time.register_law [OF assms(1), of t] obtain s' where
    "register_event_time_timer s t = (s', Inr ())" "timers_ok s'"
    "pending_timers s' = (pending_timers s)(timer_id t \<mapsto> deadline_ms t)" by blast
  then show ?thesis using event_time.pending_timer_fires_once [OF _ assms(2,3), of s'] by simp
qed

theorem event_timer_fires_exactly_once_witness:
  "count_list (snd (run_timers register_event_time_timer cancel_timer drain_fired_timers
      timer_service_new
      [Register (TimerKey 10 (Namespace ''op'' ''s'') [1]), Drain 9,
       Register (TimerKey 3 (Namespace ''op'' ''s'') [2]), Drain 12, Drain 20]))
    (TimerKey 10 (Namespace ''op'' ''s'') [1]) = 1"
proof -
  let ?os = "[Drain 9, Register (TimerKey 3 (Namespace ''op'' ''s'') [2]), Drain 12, Drain 20]"
  let ?t = "TimerKey 10 (Namespace ''op'' ''s'') [1]"
  have "list_all op_ok ?os" by simp
  moreover have "\<forall>op \<in> set ?os. \<not> op_touches (timer_id ?t) op" by simp
  moreover have "\<exists>w. Drain w \<in> set ?os \<and> deadline_ms ?t \<le> w" by (intro exI [of _ 12]) simp
  ultimately show ?thesis
    using event_timer_fires_exactly_once [OF timers_ok_new, of ?os ?t] by (simp only: if_True)
qed

text \<open>
  A drain returns exactly the pending timers whose deadline the watermark has reached, in
  deadline order, and leaves exactly the others, with both indexes in step.
\<close>

theorem drain_fired_timers_exact:
  assumes "timers_ok s" and "i64_min \<le> w" and "w < i64_max"
    and "drain_fired_timers s w = (s', fired)"
  shows "timers_ok s' \<and> sorted fired \<and> distinct fired
    \<and> set fired = {t \<in> set (timers s). deadline_ms t \<le> w}
    \<and> set (timers s') = {t \<in> set (timers s). w < deadline_ms t}
    \<and> pending_count s' + length fired = pending_count s"
proof -
  from event_time.drain_law [OF assms(1-3)] assms(4) have ok: "timers_ok s'"
    and f: "sorted fired" "distinct fired" "set fired = due (pending_timers s) w"
    and p: "pending_timers s' = not_due (pending_timers s) w" by auto
  have fset: "set fired = {t \<in> set (timers s). deadline_ms t \<le> w}"
    using assms(1) f(3) by (auto simp: timers_ok_def due_def)
  have rest: "set (timers s') = {t \<in> set (timers s). w < deadline_ms t}"
    using ok assms(1) p by (auto simp: timers_ok_def not_due_def split: option.splits if_splits)
  have "length (timers s') + length fired = card (set (timers s')) + card (set fired)"
    using ok f(2) unfolding timers_ok_def by (metis distinct_card)
  also have "\<dots> = card (set (timers s') \<union> set fired)"
    using fset rest by (intro card_Un_disjoint [symmetric]) auto
  also have "set (timers s') \<union> set fired = set (timers s)" using fset rest by auto
  finally have "length (timers s') + length fired = length (timers s)"
    using assms(1) unfolding timers_ok_def by (metis distinct_card)
  with ok f fset rest show ?thesis by (simp add: pending_count_def)
qed

theorem drain_fired_timers_exact_witness:
  "drain_fired_timers
      \<lparr>timers = [TimerKey 5 (Namespace ''op'' ''s'') [1], TimerKey 8 (Namespace ''op'' ''s'') [2]],
       identity_index = [((Namespace ''op'' ''s'', [2]), 8), ((Namespace ''op'' ''s'', [1]), 5)]\<rparr> 7 =
    (\<lparr>timers = [TimerKey 8 (Namespace ''op'' ''s'') [2]],
      identity_index = [((Namespace ''op'' ''s'', [2]), 8)]\<rparr>, [TimerKey 5 (Namespace ''op'' ''s'') [1]])
   \<and> sorted [TimerKey 5 (Namespace ''op'' ''s'') [1]]"
proof -
  let ?s = "\<lparr>timers = [TimerKey 5 (Namespace ''op'' ''s'') [1], TimerKey 8 (Namespace ''op'' ''s'') [2]],
       identity_index = [((Namespace ''op'' ''s'', [2]), 8), ((Namespace ''op'' ''s'', [1]), 5)]\<rparr>"
  have d: "drain_fired_timers ?s 7 =
    (\<lparr>timers = [TimerKey 8 (Namespace ''op'' ''s'') [2]],
      identity_index = [((Namespace ''op'' ''s'', [2]), 8)]\<rparr>, [TimerKey 5 (Namespace ''op'' ''s'') [1]])"
    by (simp add: drain_fired_timers_def split_off_def saturating_add_i64_def below_sentinel
        amap_remove_def)
  moreover have "timers_ok ?s"
    by (auto simp: timers_ok_def amap_wf_def less_eq_timer_key_def timer_eq_iff split: if_splits)
  ultimately show ?thesis using drain_fired_timers_exact [of ?s 7] by auto
qed

text \<open>
  Processing-time timers: draining at \<open>v\<close> and then at a later \<open>w\<close> fires the same timers
  in the same order as draining at \<open>w\<close> alone, so the drain frequency is unobservable.
\<close>

theorem processing_drain_compose:
  assumes "timers_ok s" and "i64_min \<le> v" and "v \<le> w" and "w < i64_max"
    and "drain_fired_processing_time_timers s v = (s1, f1)"
    and "drain_fired_processing_time_timers s1 w = (s2, f2)"
    and "drain_fired_processing_time_timers s w = (s3, f3)"
  shows "f3 = f1 @ f2 \<and> pending_timers s3 = pending_timers s2"
  using processing_time.drain_compose [OF assms] .

theorem processing_drain_compose_witness:
  "\<exists>s1 f1 s2 f2. drain_fired_processing_time_timers timer_service_new 3 = (s1, f1)
     \<and> drain_fired_processing_time_timers s1 4 = (s2, f2)
     \<and> snd (drain_fired_processing_time_timers timer_service_new 4) = f1 @ f2"
proof -
  obtain s1 f1 where a: "drain_fired_processing_time_timers timer_service_new 3 = (s1, f1)" by fastforce
  obtain s2 f2 where b: "drain_fired_processing_time_timers s1 4 = (s2, f2)" by fastforce
  obtain s3 f3 where c: "drain_fired_processing_time_timers timer_service_new 4 = (s3, f3)" by fastforce
  have "i64_min \<le> 3" "(3::int) \<le> 4" "(4::int) < i64_max" by simp_all
  from processing_drain_compose [OF timers_ok_new this a b c] a b c show ?thesis by auto
qed

text \<open>
  The last representable instant is out of reach: at \<open>i64::MAX\<close> the event-time sentinel
  saturates, so a timer due exactly then stays pending, and the processing-time sentinel wraps
  around, so nothing fires at all.
\<close>

lemma drain_at_max_event:
  "drain_fired_timers \<lparr>timers = [TimerKey i64_max ns key], identity_index = [((ns, key), i64_max)]\<rparr> i64_max =
     (\<lparr>timers = [TimerKey i64_max ns key], identity_index = [((ns, key), i64_max)]\<rparr>, [])"
  by (simp add: drain_fired_timers_def saturating_add_i64_def split_off_def below_sentinel)

lemma drain_at_max_processing:
  "i64_min \<le> d \<Longrightarrow>
   drain_fired_processing_time_timers \<lparr>timers = [TimerKey d ns key], identity_index = [((ns, key), d)]\<rparr> i64_max =
     (\<lparr>timers = [TimerKey d ns key], identity_index = [((ns, key), d)]\<rparr>, [])"
  by (simp add: drain_fired_processing_time_timers_def wrap_i64_def split_off_def below_sentinel)

end
