(* ===== verification/CkptMetadata.thy ===== *)
theory CkptMetadata
  imports StateCore
begin

text \<open>
  The checkpoint vocabulary of \<open>krishiv-state/src/checkpoint\<close>: errors, the metadata record
  of a committed epoch and the SHA-256 integrity manifest (\<open>metadata.rs\<close>), and the layout of
  paths (\<open>paths.rs\<close>). The digest and the JSON codec of the metadata come from other packages
  and are parameters. The lemmas show that the manifest's text format is read back exactly,
  under the conditions on the recorded paths that the format needs.
\<close>

section \<open>Errors and records\<close>

datatype checkpoint_error =
    CkStorage string
  | CkCorrupt nat string
  | IncompatibleVersion nat
  | NoValidEpoch
  | StaleFencingToken nat nat
  | StaleEpoch nat nat
  | InvalidPath string

fun ckpt_error_display :: "checkpoint_error \<Rightarrow> string" where
  "ckpt_error_display (CkStorage message) = ''checkpoint storage error: '' @ message"
| "ckpt_error_display (CkCorrupt epoch message) =
     ''checkpoint epoch '' @ show_nat epoch @ '' is corrupt: '' @ message"
| "ckpt_error_display (IncompatibleVersion version) =
     ''unsupported checkpoint metadata version '' @ show_nat version"
| "ckpt_error_display NoValidEpoch = ''no valid committed checkpoint epoch found''"
| "ckpt_error_display (StaleFencingToken stored current) =
     ''stale fencing token: metadata token '' @ show_nat stored
     @ '' < current coordinator token '' @ show_nat current"
| "ckpt_error_display (StaleEpoch attempted latest) =
     ''stale checkpoint epoch '' @ show_nat attempted @ '': latest committed is '' @ show_nat latest"
| "ckpt_error_display (InvalidPath path) = ''path escapes storage base directory: '' @ path"

record source_offset_record =
  so_partition_id :: string
  so_offset :: int
  so_encoded_offset :: bytes

record operator_snapshot_ref =
  os_operator_id :: string
  os_task_id :: string
  os_snapshot_path :: string

record sink_transaction_ref =
  st_sink_id :: string
  st_epoch :: nat
  st_prepare_path :: string
  st_committed :: bool

record checkpoint_metadata =
  cm_version :: nat
  cm_epoch :: nat
  cm_job_id :: string
  cm_fencing_token :: nat
  cm_coordinator_id :: "string option"
  cm_timestamp_ms :: nat
  cm_source_offsets :: "source_offset_record list"
  cm_operator_snapshots :: "operator_snapshot_ref list"
  cm_is_savepoint :: bool
  cm_savepoint_label :: "string option"
  cm_iceberg_snapshot_id :: "nat option"
  cm_kafka_offsets :: "(string, int) amap option"
  cm_sink_transactions :: "sink_transaction_ref list"
  cm_streaming_profile :: "string option"

definition MIN_SUPPORTED_VERSION :: nat where
  "MIN_SUPPORTED_VERSION = 1"

definition METADATA_VERSION :: nat where
  "METADATA_VERSION = 3"

definition metadata_validate :: "checkpoint_metadata \<Rightarrow> checkpoint_error + unit" where
  "metadata_validate m =
     (if MIN_SUPPORTED_VERSION \<le> cm_version m \<and> cm_version m \<le> METADATA_VERSION then Inr ()
      else Inl (IncompatibleVersion (cm_version m)))"

text \<open>The JSON codec of the metadata; its errors are the parser's texts.\<close>

record json_codec =
  to_vec_pretty :: "checkpoint_metadata \<Rightarrow> string + bytes"
  from_slice :: "bytes \<Rightarrow> string + checkpoint_metadata"

section \<open>Paths\<close>

definition epoch_dir :: "string \<Rightarrow> nat \<Rightarrow> string" where
  "epoch_dir job_id epoch = job_id @ ''/checkpoints/'' @ pad20 epoch"

definition metadata_path :: "string \<Rightarrow> nat \<Rightarrow> string" where
  "metadata_path job_id epoch = epoch_dir job_id epoch @ ''/metadata.json''"

definition snapshot_path :: "string \<Rightarrow> nat \<Rightarrow> string \<Rightarrow> string \<Rightarrow> string" where
  "snapshot_path job_id epoch op_id task_id =
     epoch_dir job_id epoch @ ''/'' @ op_id @ ''/'' @ task_id @ ''/state.bin''"

definition manifest_path :: "string \<Rightarrow> nat \<Rightarrow> string" where
  "manifest_path job_id epoch = epoch_dir job_id epoch @ ''/manifest.sha256''"

definition latest_epoch_hint_path :: "string \<Rightarrow> string" where
  "latest_epoch_hint_path job_id = job_id @ ''/checkpoints/latest_epoch.json''"

section \<open>The integrity manifest\<close>

type_synonym integrity_manifest = "(string, string) amap"

definition hex_nibble :: "nat \<Rightarrow> char" where
  "hex_nibble d = char_of (if d < 10 then 48 + d else 87 + d)"

definition hex_encode :: "bytes \<Rightarrow> string" where
  "hex_encode bs = concat (map (\<lambda>b. [hex_nibble (unat b div 16), hex_nibble (unat b mod 16)]) bs)"

definition sha256_hex :: "(bytes \<Rightarrow> bytes) \<Rightarrow> bytes \<Rightarrow> string" where
  "sha256_hex sha256 data = hex_encode (sha256 data)"

definition manifest_new :: integrity_manifest where
  "manifest_new = []"

definition manifest_insert :: "string \<Rightarrow> string \<Rightarrow> integrity_manifest \<Rightarrow> integrity_manifest" where
  "manifest_insert relative_path hex m = bt_insert relative_path hex m"

definition manifest_insert_bytes ::
    "(bytes \<Rightarrow> bytes) \<Rightarrow> string \<Rightarrow> bytes \<Rightarrow> integrity_manifest \<Rightarrow> integrity_manifest" where
  "manifest_insert_bytes sha256 relative_path data m =
     bt_insert relative_path (sha256_hex sha256 data) m"

definition manifest_verify :: "(bytes \<Rightarrow> bytes) \<Rightarrow> integrity_manifest \<Rightarrow> string \<Rightarrow> bytes \<Rightarrow> bool" where
  "manifest_verify sha256 m relative_path data =
     (case map_of m relative_path of
        Some expected \<Rightarrow> sha256_hex sha256 data = expected
      | None \<Rightarrow> False)"

definition manifest_contains :: "integrity_manifest \<Rightarrow> string \<Rightarrow> bool" where
  "manifest_contains m relative_path \<longleftrightarrow> map_of m relative_path \<noteq> None"

definition manifest_line :: "string \<times> string \<Rightarrow> string" where
  "manifest_line e = ''sha256:'' @ snd e @ ''  '' @ fst e"

definition manifest_serialize :: "integrity_manifest \<Rightarrow> bytes" where
  "manifest_serialize m = as_bytes (concat (map (\<lambda>e. manifest_line e @ [newline]) m))"

fun manifest_parse :: "string list \<Rightarrow> integrity_manifest \<Rightarrow> checkpoint_error + integrity_manifest" where
  "manifest_parse [] m = Inr m"
| "manifest_parse (l # ls) m =
     (let line = trim l in
      if line = [] then manifest_parse ls m
      else (case strip_prefix ''sha256:'' line of
              None \<Rightarrow> Inl (CkStorage (''manifest line missing sha256 prefix: '' @ line))
            | Some rest \<Rightarrow>
                (case split_once2 rest of
                   None \<Rightarrow> Inl (CkStorage (''manifest line missing separator: '' @ line))
                 | Some (hex, path) \<Rightarrow> manifest_parse ls (manifest_insert (trim path) (trim hex) m))))"

definition manifest_deserialize :: "bytes \<Rightarrow> checkpoint_error + integrity_manifest" where
  "manifest_deserialize bs =
     (case from_utf8 bs of
        None \<Rightarrow> Inl (CkStorage ''manifest is not valid UTF-8'')
      | Some text \<Rightarrow>
          rbind (manifest_parse (lines text) manifest_new) (\<lambda>m.
            if manifest_serialize m \<noteq> bs then
              Inl (CkStorage ''manifest is not in canonical form (damaged or hand-edited)'')
            else Inr m))"

section \<open>The manifest is read back exactly\<close>

text \<open>
  What the line format needs of a recorded path: no line feed and no white space at either end.
  Hexadecimal digests never contain either.
\<close>

definition manifest_path_ok :: "string \<Rightarrow> bool" where
  "manifest_path_ok p \<longleftrightarrow> p \<noteq> [] \<and> rust_str p \<and> newline \<notin> set p \<and> ws_head p = 0 \<and> ws_last p = 0"

definition hex_ok :: "string \<Rightarrow> bool" where
  "hex_ok h \<longleftrightarrow> (\<forall>c \<in> set h. 48 \<le> code c \<and> code c \<le> 57 \<or> 97 \<le> code c \<and> code c \<le> 102)"

definition manifest_ok :: "integrity_manifest \<Rightarrow> bool" where
  "manifest_ok m \<longleftrightarrow> bt_wf m \<and> (\<forall>(path, hex) \<in> set m. manifest_path_ok path \<and> hex_ok hex)"

lemma hex_nibble_digit:
  "d < 16 \<Longrightarrow> hex_ok [hex_nibble d]"
  by (auto simp: hex_nibble_def hex_ok_def)

lemma hex_ok_sha256 [simp]: "hex_ok (sha256_hex sha256 data)"
proof -
  have "hex_ok [hex_nibble (unat b div 16), hex_nibble (unat b mod 16)]" for b :: u8
  proof -
    have "unat b < 256" using unsigned_less [of b] by simp
    then have "unat b div 16 < 16" by simp
    with hex_nibble_digit [of "unat b div 16"] hex_nibble_digit [of "unat b mod 16"]
    show ?thesis by (simp add: hex_ok_def)
  qed
  then have "\<forall>b \<in> set (sha256 data). hex_ok [hex_nibble (unat b div 16), hex_nibble (unat b mod 16)]"
    by blast
  then show ?thesis unfolding sha256_hex_def hex_encode_def by (auto simp: hex_ok_def)
qed

lemma hex_ok_no: "hex_ok h \<Longrightarrow> CHR '' '' \<notin> set h \<and> newline \<notin> set h"
  by (auto simp: hex_ok_def)

lemma ws_codes_digits:
  "ws_codes ns \<Longrightarrow> \<exists>n \<in> set ns. \<not> (48 \<le> n \<and> n \<le> 57 \<or> 97 \<le> n \<and> n \<le> 102)"
  by (induction ns rule: ws_codes.induct) auto

lemma hex_ok_trim: "hex_ok h \<Longrightarrow> trim h = h"
proof (rule trim_fixed)
  assume h: "hex_ok h"
  have no: "\<not> ws_codes (map code xs)" if "set xs \<subseteq> set h" for xs
    using ws_codes_digits [of "map code xs"] that h by (fastforce simp: hex_ok_def)
  have "\<not> ws_codes (map code (take n h))" "\<not> ws_codes (map code (drop n h))" for n
    by (intro no set_take_subset set_drop_subset)+
  then show "ws_head h = 0" "ws_last h = 0" by (simp_all add: ws_head_def ws_last_def)
qed

lemma ascii_rust_str: "\<forall>c \<in> set h. code c \<le> 127 \<Longrightarrow> rust_str h"
  unfolding rust_str_def as_bytes_def
  by (induction h) (auto simp: utf8_valid.simps(2) word_le_nat_alt unat_of_nat)

lemma hex_ok_rust_str: "hex_ok h \<Longrightarrow> rust_str h"
  by (rule ascii_rust_str) (fastforce simp: hex_ok_def)

lemma line_trim:
  assumes "manifest_path_ok p"
  shows "trim (manifest_line (p, h)) = manifest_line (p, h)"
    and "strip_cr (manifest_line (p, h)) = manifest_line (p, h)"
proof -
  have "ws_last (manifest_line (p, h)) = 0"
    using ws_last_space_append [of p "''sha256:'' @ h @ '' ''"] assms
    by (simp add: manifest_path_ok_def manifest_line_def)
  moreover have "ws_head (manifest_line (p, h)) = 0"
    by (simp add: ws_head_def manifest_line_def)
  ultimately show "trim (manifest_line (p, h)) = manifest_line (p, h)"
    "strip_cr (manifest_line (p, h)) = manifest_line (p, h)"
    by (simp_all add: trim_fixed ws_last_strip_cr)
qed

lemma manifest_parse_line:
  assumes "manifest_path_ok p" and "hex_ok h"
  shows "manifest_parse (manifest_line (p, h) # ls) m = manifest_parse ls (bt_insert p h m)"
proof -
  have "manifest_line (p, h) = ''sha256:'' @ h @ CHR '' '' # CHR '' '' # p"
    by (simp add: manifest_line_def)
  moreover from this have "strip_prefix ''sha256:'' (manifest_line (p, h)) =
      Some (h @ CHR '' '' # CHR '' '' # p)"
    by (simp only: strip_prefix_append)
  moreover have "split_once2 (h @ CHR '' '' # CHR '' '' # p) = Some (h, p)"
    using split_once2_append hex_ok_no [OF assms(2)] by blast
  moreover have "trim p = p" using assms(1) by (simp add: manifest_path_ok_def trim_fixed)
  ultimately show ?thesis
    using line_trim(1) [OF assms(1), of h] hex_ok_trim [OF assms(2)]
    by (simp add: manifest_insert_def)
qed

lemma manifest_parse_lines:
  assumes "bt_wf (m0 @ m)" and "\<forall>(path, hex) \<in> set m. manifest_path_ok path \<and> hex_ok hex"
  shows "manifest_parse (map manifest_line m) m0 = Inr (m0 @ m)"
  using assms
proof (induction m arbitrary: m0)
  case (Cons e m)
  obtain p h where e: "e = (p, h)" by (cases e)
  have "\<forall>k \<in> fst ` set m0. k < p"
    using Cons.prems(1) e by (auto simp: bt_wf_def sorted_wrt_append)
  then have "bt_insert p h m0 = m0 @ [(p, h)]" by (rule bt_insert_snoc)
  moreover have "manifest_path_ok p" "hex_ok h" using Cons.prems(2) e by auto
  ultimately show ?case
    using Cons.IH [of "m0 @ [(p, h)]"] Cons.prems e
    by (simp add: manifest_parse_line del: manifest_parse.simps)
qed simp

lemma manifest_line_ok:
  assumes "manifest_path_ok p" and "hex_ok h"
  shows "rust_str (manifest_line (p, h) @ [newline])"
    and "newline \<notin> set (manifest_line (p, h))"
proof -
  have "rust_str ''sha256:''" "rust_str ''  ''" "rust_str [newline]" by code_simp+
  then show "rust_str (manifest_line (p, h) @ [newline])"
    using assms hex_ok_rust_str [OF assms(2)] unfolding manifest_line_def manifest_path_ok_def fst_conv snd_conv
    by (intro rust_str_append) simp_all
  show "newline \<notin> set (manifest_line (p, h))"
    using assms hex_ok_no [OF assms(2)] by (simp add: manifest_line_def manifest_path_ok_def)
qed

lemma manifest_text_ok:
  assumes "\<forall>(path, hex) \<in> set m. manifest_path_ok path \<and> hex_ok hex"
  shows "rust_str (concat (map (\<lambda>e. manifest_line e @ [newline]) m))"
  using assms
proof (induction m)
  case Nil
  then show ?case by (simp add: rust_str_def as_bytes_def)
next
  case (Cons e m)
  obtain p h where e: "e = (p, h)" by (cases e)
  have "rust_str (manifest_line e @ [newline])"
    unfolding e by (rule manifest_line_ok) (use Cons.prems e in auto)
  with Cons show ?case by (simp del: append_assoc add: rust_str_append)
qed

lemma manifest_roundtrip:
  assumes "manifest_ok m"
  shows "manifest_deserialize (manifest_serialize m) = Inr m"
proof -
  let ?text = "concat (map (\<lambda>e. manifest_line e @ [newline]) m)"
  have ok: "\<forall>(path, hex) \<in> set m. manifest_path_ok path \<and> hex_ok hex" and wf: "bt_wf m"
    using assms by (simp_all add: manifest_ok_def)
  have utf: "from_utf8 (manifest_serialize m) = Some ?text"
    using manifest_text_ok [OF ok] by (simp add: manifest_serialize_def)
  have "newline \<notin> set l \<and> strip_cr l = l" if l: "l \<in> set (map manifest_line m)" for l
  proof -
    from l obtain p h where "(p, h) \<in> set m" and l: "l = manifest_line (p, h)" by auto
    with ok have "manifest_path_ok p" "hex_ok h" by auto
    then show ?thesis unfolding l using manifest_line_ok(2) line_trim(2) by blast
  qed
  then have "lines ?text = map manifest_line m"
    using lines_concat [of "map manifest_line m"] by (simp add: comp_def)
  then show ?thesis
    using utf manifest_parse_lines [of "[]" m] wf ok
    by (simp add: manifest_deserialize_def manifest_new_def)
qed

lemma manifest_deserialize_canonical:
  "manifest_deserialize bs = Inr m \<Longrightarrow> manifest_serialize m = bs"
  by (auto simp: manifest_deserialize_def rbind_Inr_iff split: option.splits if_splits)

lemma manifest_parse_wf: "manifest_parse ls m = Inr m' \<Longrightarrow> bt_wf m \<Longrightarrow> bt_wf m'"
  by (induction ls m rule: manifest_parse.induct)
    (auto simp: Let_def manifest_insert_def split: if_splits option.splits prod.splits)

lemma manifest_deserialize_wf: "manifest_deserialize bs = Inr m \<Longrightarrow> bt_wf m"
  by (auto simp: manifest_deserialize_def rbind_Inr_iff manifest_new_def
      split: option.splits if_splits intro: manifest_parse_wf)

section \<open>Properties\<close>

text \<open>
  C22. The manifest's text format: what the writer serialises is read back as the same manifest,
  and the reader accepts no other bytes for a manifest than the ones the writer produces.
\<close>

theorem manifest_codec:
  "(manifest_ok m \<longrightarrow> manifest_deserialize (manifest_serialize m) = Inr m)
   \<and> (manifest_deserialize bs = Inr m \<longrightarrow> bs = manifest_serialize m \<and> bt_wf m)"
  using manifest_roundtrip manifest_deserialize_canonical manifest_deserialize_wf by blast

theorem manifest_codec_witness:
  "manifest_deserialize (manifest_serialize [(''metadata.json'', ''ab01'')]) =
     Inr [(''metadata.json'', ''ab01'')]"
proof -
  have "rust_str ''metadata.json''" by code_simp
  then have "manifest_ok [(''metadata.json'', ''ab01'')]"
    by (simp add: manifest_ok_def manifest_path_ok_def hex_ok_def bt_wf_def ws_head_def ws_last_def)
  then show ?thesis using manifest_codec [of "[(''metadata.json'', ''ab01'')]"] by simp
qed

text \<open>
  The condition on the paths is needed: an operator identifier that starts with a space gives a
  manifest the reader refuses, although the writer stored it without complaint.
\<close>

lemma manifest_leading_space_refused:
  "manifest_deserialize (manifest_serialize [('' op/t/state.bin'', ''ab01'')]) =
     Inl (CkStorage ''manifest is not in canonical form (damaged or hand-edited)'')"
  by code_simp

end
