(* ===== verification/CkptStorage.thy ===== *)
theory CkptStorage
  imports CkptMetadata
begin

text \<open>
  Checkpoint storage: the trait \<open>CheckpointStorage\<close> (\<open>storage_trait.rs\<close>) as a record of its
  methods over the state of the storage, and its file-system implementation
  (\<open>local_fs.rs\<close>, \<open>ephemeral.rs\<close>). The file system is a map from component lists to
  contents with the set of existing directories; symbolic links are left out. Every failing
  system call of a write is a branch: a schedule of faults in the state decides which call of a
  write or a delete fails, and how much a failing directory creation, file write or delete did
  before. Reads and listings fail only for what the tree holds (a directory read as a file, a
  file on the way). The path and system-error texts inside messages are reduced to the name of the failing
  call. The locale \<open>ckpt_storage\<close> is the contract the checkpoint protocol relies on; above all
  a write either leaves the old content or installs the new one.
\<close>

section \<open>The trait\<close>

record 's storage_ops =
  s_write :: "'s \<Rightarrow> string \<Rightarrow> bytes \<Rightarrow> 's \<times> (checkpoint_error + unit)"
  s_read :: "'s \<Rightarrow> string \<Rightarrow> checkpoint_error + bytes option"
  s_list :: "'s \<Rightarrow> string \<Rightarrow> checkpoint_error + string list"
  s_delete :: "'s \<Rightarrow> string \<Rightarrow> 's \<times> (checkpoint_error + unit)"

section \<open>The file-system implementation\<close>

datatype io_fault = IoNone | IoMkdir nat | IoCreate | IoWrite nat | IoFsync | IoRename | IoDirSync | IoDelete nat

record local_fs =
  fs_files :: "(string list, bytes) amap"
  fs_dirs :: "string list list"
  fs_counter :: nat
  fs_faults :: "io_fault list"

abbreviation slash :: char where
  "slash \<equiv> CHR ''/''"

text \<open>
  \<open>full_path\<close>: empty and parent components are dropped by the code, current-directory
  components by the path type. Without symbolic links the resolved parent is the cleaned one,
  and the only candidate outside the base directory is the base directory itself.
\<close>

definition clean_path :: "string \<Rightarrow> string list" where
  "clean_path p = filter (\<lambda>c. c \<noteq> [] \<and> c \<noteq> ''..'' \<and> c \<noteq> ''.'') (split_on slash p)"

definition full_path :: "string \<Rightarrow> checkpoint_error + string list" where
  "full_path p = (let c = clean_path p in if c = [] then Inl (InvalidPath p) else Inr c)"

definition next_fault :: "local_fs \<Rightarrow> io_fault \<times> local_fs" where
  "next_fault s = (case fs_faults s of [] \<Rightarrow> (IoNone, s) | f # fs \<Rightarrow> (f, s\<lparr>fs_faults := fs\<rparr>))"

text \<open>A directory creation and a file write can fail half way; the number says how far they got.\<close>

fun fault_at :: "io_fault \<Rightarrow> nat" where
  "fault_at (IoMkdir n) = n"
| "fault_at (IoWrite n) = n"
| "fault_at (IoDelete n) = n"
| "fault_at _ = 0"

definition faulty_mkdir :: "io_fault \<Rightarrow> bool" where
  "faulty_mkdir f \<longleftrightarrow> (case f of IoMkdir _ \<Rightarrow> True | _ \<Rightarrow> False)"

definition faulty_write :: "io_fault \<Rightarrow> bool" where
  "faulty_write f \<longleftrightarrow> (case f of IoWrite _ \<Rightarrow> True | _ \<Rightarrow> False)"

definition is_file :: "local_fs \<Rightarrow> string list \<Rightarrow> bool" where
  "is_file s c \<longleftrightarrow> c \<in> set (amap_keys (fs_files s))"

definition is_dir :: "local_fs \<Rightarrow> string list \<Rightarrow> bool" where
  "is_dir s c \<longleftrightarrow> c = [] \<or> c \<in> set (fs_dirs s)"

definition ancestors :: "string list \<Rightarrow> string list list" where
  "ancestors c = map (\<lambda>n. take n c) [1..<Suc (length c)]"

text \<open>\<open>Path::with_extension\<close>: what follows the last dot of the file name is replaced.\<close>

definition file_stem :: "string \<Rightarrow> string" where
  "file_stem name =
     (let r = dropWhile (\<lambda>c. c \<noteq> CHR ''.'') (rev name)
      in if length r \<le> 1 then name else rev (tl r))"

definition with_extension :: "string \<Rightarrow> string \<Rightarrow> string" where
  "with_extension name ext = file_stem name @ ''.'' @ ext"

definition tmp_path :: "local_fs \<Rightarrow> string list \<Rightarrow> string list" where
  "tmp_path s c = butlast c @ [with_extension (last c) (''tmp.'' @ show_nat (fs_counter s))]"

definition fs_write :: "local_fs \<Rightarrow> string \<Rightarrow> bytes \<Rightarrow> local_fs \<times> (checkpoint_error + unit)" where
  "fs_write s path data =
     (case full_path path of
        Inl e \<Rightarrow> (s, Inl e)
      | Inr c \<Rightarrow>
          (let (fault, s0) = next_fault s in
           if \<exists>d \<in> set (ancestors (butlast c)). is_file s0 d then (s0, Inl (CkStorage ''mkdir''))
           else if faulty_mkdir fault
           then (s0\<lparr>fs_dirs := fs_dirs s0 @ take (fault_at fault) (ancestors (butlast c))\<rparr>, Inl (CkStorage ''mkdir''))
           else let tmp = tmp_path s0 c;
                    s1 = s0\<lparr>fs_dirs := fs_dirs s0 @ ancestors (butlast c), fs_counter := fs_counter s0 + 1\<rparr>
           in if fault = IoCreate \<or> is_dir s1 tmp then (s1, Inl (CkStorage ''create''))
           else if faulty_write fault
           then (s1\<lparr>fs_files := amap_insert tmp (take (fault_at fault) data) (fs_files s1)\<rparr>, Inl (CkStorage ''write''))
           else let s2 = s1\<lparr>fs_files := amap_insert tmp data (fs_files s1)\<rparr>
           in if fault = IoFsync then (s2, Inl (CkStorage ''fsync''))
           else if fault = IoRename \<or> is_dir s2 c then (s2, Inl (CkStorage ''rename to''))
           else let s3 = s2\<lparr>fs_files := amap_insert c data (amap_remove tmp (fs_files s2))\<rparr>
           in if fault = IoDirSync then (s3, Inl (CkStorage ''fsync dir'')) else (s3, Inr ())))"

definition fs_read :: "local_fs \<Rightarrow> string \<Rightarrow> checkpoint_error + bytes option" where
  "fs_read s path =
     rbind (full_path path) (\<lambda>c.
       case map_of (fs_files s) c of
         Some b \<Rightarrow> Inr (Some b)
       | None \<Rightarrow> if is_dir s c \<or> (\<exists>d \<in> set (ancestors (butlast c)). is_file s d)
                 then Inl (CkStorage ''read'') else Inr None)"

definition fs_list :: "local_fs \<Rightarrow> string \<Rightarrow> checkpoint_error + string list" where
  "fs_list s prefix =
     rbind (full_path prefix) (\<lambda>c.
       if \<exists>d \<in> set (ancestors c). is_file s d then Inl (CkStorage ''list_dir'')
       else Inr (remdups (map last
              (filter (\<lambda>x. x \<noteq> [] \<and> butlast x = c) (amap_keys (fs_files s) @ fs_dirs s)))))"

definition under :: "string list \<Rightarrow> string list \<Rightarrow> bool" where
  "under c x \<longleftrightarrow> take (length c) x = c"

definition fs_delete :: "local_fs \<Rightarrow> string \<Rightarrow> local_fs \<times> (checkpoint_error + unit)" where
  "fs_delete s prefix =
     (case full_path prefix of
        Inl e \<Rightarrow> (s, Inl e)
      | Inr c \<Rightarrow>
          (let (fault, s0) = next_fault s in
           if \<exists>d \<in> set (ancestors c). is_file s0 d then (s0, Inl (CkStorage ''delete_prefix''))
           else case fault of
             IoDelete n \<Rightarrow>
               (let gone = take n (filter (under c) (amap_keys (fs_files s0))) in
                (s0\<lparr>fs_files := filter (\<lambda>(x, _). x \<notin> set gone) (fs_files s0)\<rparr>,
                 Inl (CkStorage ''delete_prefix'')))
           | _ \<Rightarrow>
               (s0\<lparr>fs_files := filter (\<lambda>(x, _). \<not> under c x) (fs_files s0),
                   fs_dirs := filter (\<lambda>x. \<not> under c x) (fs_dirs s0)\<rparr>, Inr ())))"

definition fs_ops :: "local_fs storage_ops" where
  "fs_ops = \<lparr>s_write = fs_write, s_read = fs_read, s_list = fs_list, s_delete = fs_delete\<rparr>"

definition fs_empty :: "io_fault list \<Rightarrow> local_fs" where
  "fs_empty faults = \<lparr>fs_files = [], fs_dirs = [], fs_counter = 1, fs_faults = faults\<rparr>"

section \<open>The contract\<close>

definition path_ok :: "string \<Rightarrow> bool" where
  "path_ok p \<longleftrightarrow> (\<forall>c \<in> set (split_on slash p). c \<noteq> [] \<and> c \<noteq> ''..'' \<and> c \<noteq> ''.'')"

definition tmp_name :: "string \<Rightarrow> bool" where
  "tmp_name n \<longleftrightarrow> (\<exists>a b. n = a @ ''.tmp.'' @ b)"

text \<open>The paths the protocol uses: clean, and not the name of a temporary file.\<close>

definition proper :: "string \<Rightarrow> bool" where
  "proper p \<longleftrightarrow> path_ok p \<and> \<not> tmp_name (last (split_on slash p))"

fun is_corrupt :: "checkpoint_error \<Rightarrow> bool" where
  "is_corrupt (CkCorrupt _ _) = True"
| "is_corrupt _ = False"

text \<open>A path at or under a directory, and the directory of a path.\<close>

definition below :: "string \<Rightarrow> string \<Rightarrow> bool" where
  "below dir q \<longleftrightarrow> q = dir \<or> take (length dir + 1) q = dir @ ''/''"

definition dir_of :: "string \<Rightarrow> string list" where
  "dir_of p = butlast (split_on slash p)"

locale ckpt_storage =
  fixes ops :: "'s storage_ops"
    and ok :: "'s \<Rightarrow> bool"
    and files :: "'s \<Rightarrow> string \<Rightarrow> bytes option"
  assumes read_present: "ok s \<Longrightarrow> files s p = Some b \<Longrightarrow> s_read ops s p = Inr (Some b)"
    and read_absent: "ok s \<Longrightarrow> files s p = None \<Longrightarrow> s_read ops s p = Inr content \<Longrightarrow> content = None"
    and read_error: "ok s \<Longrightarrow> s_read ops s p = Inl e \<Longrightarrow> e \<noteq> NoValidEpoch"
    and list_error: "ok s \<Longrightarrow> s_list ops s p = Inl e \<Longrightarrow> e \<noteq> NoValidEpoch"
    and write_atomic: "ok s \<Longrightarrow> proper p \<Longrightarrow> s_write ops s p d = (s', r) \<Longrightarrow> ok s'
      \<and> (\<forall>q. proper q \<longrightarrow> q \<noteq> p \<longrightarrow> files s' q = files s q)
      \<and> (files s' p = files s p \<or> files s' p = Some d) \<and> (r = Inr () \<longrightarrow> files s' p = Some d)"
    and write_local: "ok s \<Longrightarrow> proper p \<Longrightarrow> s_write ops s p d = (s', r) \<Longrightarrow> path_ok q \<Longrightarrow>
      dir_of q \<noteq> dir_of p \<Longrightarrow> files s' q = files s q"
    and list_children: "ok s \<Longrightarrow> proper (dir @ ''/'' @ name @ ''/'' @ rest) \<Longrightarrow> slash \<notin> set name \<Longrightarrow>
      files s (dir @ ''/'' @ name @ ''/'' @ rest) \<noteq> None \<Longrightarrow> \<exists>ns. s_list ops s dir = Inr ns \<and> name \<in> set ns"
    and delete_frame: "ok s \<Longrightarrow> path_ok dir \<Longrightarrow> s_delete ops s dir = (s', r) \<Longrightarrow> ok s'
      \<and> (\<forall>q. path_ok q \<longrightarrow> files s' q \<noteq> files s q \<longrightarrow> files s' q = None \<and> below dir q)
      \<and> (r = Inr () \<longrightarrow> (\<forall>q. path_ok q \<longrightarrow> below dir q \<longrightarrow> files s' q = None))"

section \<open>Component lists and strings\<close>

fun join_on :: "char \<Rightarrow> string list \<Rightarrow> string" where
  "join_on c [] = []"
| "join_on c [x] = x"
| "join_on c (x # y # r) = x @ c # join_on c (y # r)"

lemma join_on_Cons: "r \<noteq> [] \<Longrightarrow> join_on c (x # r) = x @ c # join_on c r"
  by (cases r) simp_all

lemma join_split [simp]: "join_on c (split_on c s) = s"
proof (induction c s rule: split_on.induct)
  case (2 c x xs)
  show ?case
  proof (cases "x = c")
    case True
    with 2 show ?thesis by (simp add: join_on_Cons)
  next
    case False
    obtain y ys where ys: "split_on c xs = y # ys" by (cases "split_on c xs") auto
    with False 2 show ?thesis by (cases ys) auto
  qed
qed simp

lemma split_on_inj: "split_on c s = split_on c t \<longleftrightarrow> s = t"
  by (metis join_split)

lemma split_on_slash_append: "split_on c (s @ c # t) = split_on c s @ split_on c t"
proof (induction s)
  case (Cons x s)
  then show ?case by (cases "split_on c s") auto
qed simp

lemma join_on_append: "xs \<noteq> [] \<Longrightarrow> ys \<noteq> [] \<Longrightarrow> join_on c (xs @ ys) = join_on c xs @ c # join_on c ys"
proof (induction xs)
  case (Cons x xs)
  then show ?case by (cases "xs = []") (simp_all add: join_on_Cons)
qed simp

lemma below_iff: "below dir q \<longleftrightarrow> q = dir \<or> (\<exists>t. q = dir @ slash # t)"
proof -
  have "take (length dir + 1) q = dir @ ''/'' \<longleftrightarrow> (\<exists>t. q = dir @ slash # t)"
  proof
    assume "take (length dir + 1) q = dir @ ''/''"
    then have "q = (dir @ ''/'') @ drop (length dir + 1) q" by (metis append_take_drop_id)
    then show "\<exists>t. q = dir @ slash # t" by auto
  qed auto
  then show ?thesis unfolding below_def by blast
qed

lemma under_iff_below: "under (split_on slash dir) (split_on slash q) \<longleftrightarrow> below dir q"
proof
  assume "under (split_on slash dir) (split_on slash q)"
  then obtain zs where zs: "split_on slash q = split_on slash dir @ zs"
    unfolding under_def by (metis append_take_drop_id)
  show "below dir q"
  proof (cases "zs = []")
    case True
    with zs show ?thesis by (simp add: split_on_inj below_iff)
  next
    case False
    have "q = join_on slash (split_on slash q)" by simp
    also have "\<dots> = dir @ slash # join_on slash zs" unfolding zs by (simp add: join_on_append False)
    finally show ?thesis unfolding below_iff by blast
  qed
next
  assume "below dir q"
  then show "under (split_on slash dir) (split_on slash q)"
    by (auto simp: below_iff under_def split_on_slash_append)
qed

lemma path_ok_clean: "path_ok p \<Longrightarrow> clean_path p = split_on slash p"
  by (auto simp: path_ok_def clean_path_def intro!: filter_True)

lemma path_ok_full: "path_ok p \<Longrightarrow> full_path p = Inr (split_on slash p)"
  by (simp add: full_path_def path_ok_clean)

lemma path_ok_append: "path_ok (p @ slash # q) \<longleftrightarrow> path_ok p \<and> path_ok q"
  by (auto simp: path_ok_def split_on_slash_append)

section \<open>The file system meets the contract\<close>

definition tree_ok :: "(string list, bytes) amap \<Rightarrow> string list list \<Rightarrow> bool" where
  "tree_ok fs ds \<longleftrightarrow> amap_wf fs
     \<and> (\<forall>c \<in> fst ` set fs. set (ancestors (butlast c)) \<subseteq> set ds \<and> c \<notin> set ds)"

definition fs_inv :: "local_fs \<Rightarrow> bool" where
  "fs_inv s \<longleftrightarrow> tree_ok (fs_files s) (fs_dirs s)"

definition fs_view :: "local_fs \<Rightarrow> string \<Rightarrow> bytes option" where
  "fs_view s p = (case full_path p of Inl _ \<Rightarrow> None | Inr c \<Rightarrow> map_of (fs_files s) c)"

lemma fs_inv_empty: "fs_inv (fs_empty faults)"
  by (simp add: fs_inv_def tree_ok_def fs_empty_def)

lemma fs_view_ok: "path_ok p \<Longrightarrow> fs_view s p = map_of (fs_files s) (split_on slash p)"
  by (simp add: fs_view_def path_ok_full)

lemma tmp_name_tmp_path: "c \<noteq> [] \<Longrightarrow> tmp_name (last (tmp_path s c))"
  by (auto simp: tmp_path_def with_extension_def tmp_name_def)

lemma tmp_path_not_proper: "proper q \<Longrightarrow> c \<noteq> [] \<Longrightarrow> tmp_path s c \<noteq> split_on slash q"
  using tmp_name_tmp_path [of c s] by (auto simp: proper_def)

lemma next_fault_frame:
  "next_fault s = (f, s0) \<Longrightarrow> fs_files s0 = fs_files s \<and> fs_dirs s0 = fs_dirs s \<and> fs_counter s0 = fs_counter s"
  by (auto simp: next_fault_def split: list.splits)

lemma butlast_tmp_path: "c \<noteq> [] \<Longrightarrow> butlast (tmp_path s c) = butlast c"
  by (simp add: tmp_path_def)

lemma tree_ok_mkdir:
  "tree_ok fs ds \<Longrightarrow> \<forall>d \<in> set new. d \<notin> fst ` set fs \<Longrightarrow> tree_ok fs (ds @ new)"
  unfolding tree_ok_def set_append by blast

lemma tree_ok_put:
  "tree_ok fs ds \<Longrightarrow> set (ancestors (butlast c)) \<subseteq> set ds \<Longrightarrow> c \<notin> set ds \<Longrightarrow> tree_ok (amap_insert c d fs) ds"
  by (simp add: tree_ok_def)

lemma tree_ok_rm: "tree_ok fs ds \<Longrightarrow> tree_ok (amap_remove c fs) ds"
  by (auto simp: tree_ok_def)

text \<open>The states a write can end in.\<close>

lemma fs_write_cases:
  assumes "fs_write s p d = (s', r)" and "path_ok p" and "fs_inv s"
  defines "c \<equiv> split_on slash p"
  obtains (same) "fs_files s' = fs_files s" "r \<noteq> Inr ()" "fs_inv s'"
  | (temp) b where "fs_files s' = amap_insert (tmp_path s c) b (fs_files s)" "r \<noteq> Inr ()" "fs_inv s'"
  | (installed) "fs_files s' = amap_insert c d (amap_remove (tmp_path s c) (amap_insert (tmp_path s c) d (fs_files s)))"
      "fs_inv s'"
proof -
  obtain f s0 where nf: "next_fault s = (f, s0)" by fastforce
  note fr = next_fault_frame [OF nf]
  have tmp: "tmp_path s0 c = tmp_path s c" using fr by (simp add: tmp_path_def)
  have c: "c \<noteq> []" by (simp add: c_def)
  let ?anc = "ancestors (butlast c)" and ?tmp = "tmp_path s c"
  let ?ds = "fs_dirs s @ ?anc"
  have w: "fs_write s p d = (if \<exists>d \<in> set ?anc. is_file s0 d then (s0, Inl (CkStorage ''mkdir''))
      else if faulty_mkdir f then (s0\<lparr>fs_dirs := fs_dirs s0 @ take (fault_at f) ?anc\<rparr>, Inl (CkStorage ''mkdir''))
      else let s1 = s0\<lparr>fs_dirs := fs_dirs s0 @ ?anc, fs_counter := fs_counter s0 + 1\<rparr>
        in if f = IoCreate \<or> is_dir s1 ?tmp then (s1, Inl (CkStorage ''create''))
        else if faulty_write f
        then (s1\<lparr>fs_files := amap_insert ?tmp (take (fault_at f) d) (fs_files s1)\<rparr>, Inl (CkStorage ''write''))
        else let s2 = s1\<lparr>fs_files := amap_insert ?tmp d (fs_files s1)\<rparr>
        in if f = IoFsync then (s2, Inl (CkStorage ''fsync''))
        else if f = IoRename \<or> is_dir s2 c then (s2, Inl (CkStorage ''rename to''))
        else let s3 = s2\<lparr>fs_files := amap_insert c d (amap_remove ?tmp (fs_files s2))\<rparr>
        in if f = IoDirSync then (s3, Inl (CkStorage ''fsync dir'')) else (s3, Inr ()))"
    using assms(2) nf tmp by (simp add: fs_write_def path_ok_full c_def Let_def)
  have ok0: "tree_ok (fs_files s) (fs_dirs s)" using assms(3) by (simp add: fs_inv_def)
  show thesis
  proof (cases "\<exists>d \<in> set ?anc. is_file s0 d")
    case True
    with w assms(1) have "s' = s0" "r \<noteq> Inr ()" by auto
    with same ok0 fr show ?thesis by (simp add: fs_inv_def)
  next
    case False
    then have okn: "tree_ok (fs_files s) (fs_dirs s @ take n ?anc)" for n
      using ok0 fr by (intro tree_ok_mkdir) (auto simp: is_file_def dest: in_set_takeD)
    from okn [of "length ?anc"] have ok1: "tree_ok (fs_files s) ?ds" by simp
    have tne: "?tmp \<noteq> []" by (simp add: tmp_path_def)
    consider "faulty_mkdir f" | "\<not> faulty_mkdir f" "f = IoCreate \<or> ?tmp \<in> set ?ds"
      | "\<not> faulty_mkdir f" "f \<noteq> IoCreate" "?tmp \<notin> set ?ds" "faulty_write f \<or> f = IoFsync \<or> f = IoRename \<or> c \<in> set ?ds"
      | "\<not> faulty_mkdir f" "f \<noteq> IoCreate" "?tmp \<notin> set ?ds" "\<not> faulty_write f" "f \<noteq> IoFsync" "f \<noteq> IoRename" "c \<notin> set ?ds"
      by blast
    then show ?thesis
    proof cases
      case 1
      with False w assms(1) fr have "fs_files s' = fs_files s" "fs_dirs s' = fs_dirs s @ take (fault_at f) ?anc" "r \<noteq> Inr ()"
        by auto
      with same okn show ?thesis by (simp add: fs_inv_def)
    next
      case 2
      with False w assms(1) fr have "fs_files s' = fs_files s" "fs_dirs s' = ?ds" "r \<noteq> Inr ()"
        by (auto simp: is_dir_def Let_def)
      with same ok1 show ?thesis by (simp add: fs_inv_def)
    next
      case 3
      let ?b = "if faulty_write f then take (fault_at f) d else d"
      have ok2: "tree_ok (amap_insert ?tmp ?b (fs_files s)) ?ds"
        using ok1 3 c by (intro tree_ok_put) (auto simp: butlast_tmp_path)
      from 3 False tne c w assms(1) fr
      have "fs_files s' = amap_insert ?tmp ?b (fs_files s)" "fs_dirs s' = ?ds" "r \<noteq> Inr ()"
        by (auto simp: is_dir_def Let_def split: if_splits)
      with temp ok2 show ?thesis by (simp add: fs_inv_def)
    next
      case 4
      have ok2: "tree_ok (amap_insert ?tmp d (fs_files s)) ?ds"
        using ok1 4 c by (intro tree_ok_put) (auto simp: butlast_tmp_path)
      from 4 False tne c w assms(1) fr
      have "fs_files s' = amap_insert c d (amap_remove ?tmp (amap_insert ?tmp d (fs_files s)))" "fs_dirs s' = ?ds"
        by (auto simp: is_dir_def Let_def split: if_splits)
      moreover have "tree_ok (amap_insert c d (amap_remove ?tmp (amap_insert ?tmp d (fs_files s)))) ?ds"
        using 4 by (intro tree_ok_put [OF tree_ok_rm [OF ok2]]) auto
      ultimately show ?thesis using installed by (simp add: fs_inv_def)
    qed
  qed
qed

lemma fs_write_atomic:
  assumes "fs_inv s" and "proper p" and "fs_write s p d = (s', r)"
  shows "fs_inv s' \<and> (\<forall>q. proper q \<longrightarrow> q \<noteq> p \<longrightarrow> fs_view s' q = fs_view s q)
    \<and> (fs_view s' p = fs_view s p \<or> fs_view s' p = Some d) \<and> (r = Inr () \<longrightarrow> fs_view s' p = Some d)"
proof -
  have ok: "path_ok q" if "proper q" for q using that by (simp add: proper_def)
  have ne: "tmp_path s (split_on slash p) \<noteq> split_on slash q" if "proper q" for q
    using tmp_path_not_proper [OF that] by simp
  show ?thesis
    using assms(3) ok [OF assms(2)] assms(1)
  proof (cases rule: fs_write_cases)
    case same
    then show ?thesis by (auto simp: fs_view_ok ok assms(2))
  next
    case temp
    then show ?thesis by (simp add: fs_view_ok ok assms(2) ne [THEN not_sym])
  next
    case installed
    then show ?thesis by (simp add: fs_view_ok ok assms(2) split_on_inj ne [THEN not_sym])
  qed
qed

lemma fs_write_local:
  assumes "fs_inv s" and "proper p" and "fs_write s p d = (s', r)" and "path_ok q" and "dir_of q \<noteq> dir_of p"
  shows "fs_view s' q = fs_view s q"
proof -
  let ?c = "split_on slash p"
  have ok: "path_ok p" using assms(2) by (simp add: proper_def)
  have ne: "split_on slash q \<noteq> tmp_path s ?c" "split_on slash q \<noteq> ?c"
    using assms(5) butlast_tmp_path [of ?c s] by (auto simp: dir_of_def)
  show ?thesis
    using assms(3) ok assms(1)
    by (cases rule: fs_write_cases) (simp_all add: fs_view_ok assms(4) ne)
qed

lemma under_take: "under c (take m x) \<Longrightarrow> under c x"
proof -
  assume u: "under c (take m x)"
  then have "length (take (length c) (take m x)) = length c" by (simp add: under_def)
  then have "length c \<le> m" by simp
  with u show ?thesis by (simp add: under_def)
qed

lemma map_of_filter_keys: "map_of (filter (\<lambda>(x, _). P x) fs) k = (if P k then map_of fs k else None)"
  by (induction fs) auto

lemma tree_ok_filter:
  assumes "tree_ok fs ds" and "set ds' \<subseteq> set ds"
    and "\<And>x. P x \<Longrightarrow> x \<in> fst ` set fs \<Longrightarrow> set (ancestors (butlast x)) \<subseteq> set ds'"
  shows "tree_ok (filter (\<lambda>(x, _). P x) fs) ds'"
  unfolding tree_ok_def
proof (intro conjI ballI)
  show "amap_wf (filter (\<lambda>(x, _). P x) fs)" using assms(1) by (simp add: tree_ok_def)
  fix c assume "c \<in> fst ` set (filter (\<lambda>(x, _). P x) fs)"
  then have c: "c \<in> fst ` set fs" "P c" by auto
  then show "set (ancestors (butlast c)) \<subseteq> set ds'" by (rule assms(3) [rotated])
  show "c \<notin> set ds'" using assms(1,2) c(1) unfolding tree_ok_def by blast
qed

lemma fs_delete_frame:
  assumes "fs_inv s" and "path_ok dir" and "fs_delete s dir = (s', r)"
  shows "fs_inv s' \<and> (\<forall>q. path_ok q \<longrightarrow> fs_view s' q \<noteq> fs_view s q \<longrightarrow> fs_view s' q = None \<and> below dir q)
    \<and> (r = Inr () \<longrightarrow> (\<forall>q. path_ok q \<longrightarrow> below dir q \<longrightarrow> fs_view s' q = None))"
proof -
  obtain f s0 where nf: "next_fault s = (f, s0)" by fastforce
  note fr = next_fault_frame [OF nf]
  let ?c = "split_on slash dir"
  have ok0: "tree_ok (fs_files s) (fs_dirs s)" using assms(1) by (simp add: fs_inv_def)
  have anc_under: "\<not> under ?c y" if "\<not> under ?c x" "y \<in> set (ancestors (butlast x))" for x y
  proof
    assume u: "under ?c y"
    from that(2) obtain n where "y = take n (butlast x)" by (auto simp: ancestors_def)
    with u have "under ?c x"
      unfolding butlast_conv_take using under_take by blast
    with that(1) show False by blast
  qed
  have view: "fs_view t q = map_of (fs_files t) (split_on slash q)" if "path_ok q" for t q
    using that by (simp add: fs_view_ok)
  have del: "fs_delete s dir = (if \<exists>d \<in> set (ancestors ?c). is_file s0 d then (s0, Inl (CkStorage ''delete_prefix''))
      else case f of
        IoDelete n \<Rightarrow>
          (let gone = take n (filter (under ?c) (amap_keys (fs_files s0))) in
           (s0\<lparr>fs_files := filter (\<lambda>(x, _). x \<notin> set gone) (fs_files s0)\<rparr>, Inl (CkStorage ''delete_prefix'')))
      | _ \<Rightarrow> (s0\<lparr>fs_files := filter (\<lambda>(x, _). \<not> under ?c x) (fs_files s0),
              fs_dirs := filter (\<lambda>x. \<not> under ?c x) (fs_dirs s0)\<rparr>, Inr ()))"
    using assms(2) nf by (simp add: fs_delete_def path_ok_full)
  consider (none) "fs_files s' = fs_files s" "fs_dirs s' = fs_dirs s" "r \<noteq> Inr ()"
    | (part) P where "fs_files s' = filter (\<lambda>(x, _). P x) (fs_files s)" "fs_dirs s' = fs_dirs s" "r \<noteq> Inr ()"
        "\<And>x. \<not> P x \<Longrightarrow> under ?c x"
    | (all) "fs_files s' = filter (\<lambda>(x, _). \<not> under ?c x) (fs_files s)"
        "fs_dirs s' = filter (\<lambda>x. \<not> under ?c x) (fs_dirs s)"
  proof (cases "\<exists>d \<in> set (ancestors ?c). is_file s0 d")
    case True
    with assms(3) have "s' = s0" "r \<noteq> Inr ()" by (auto simp: del)
    with fr show ?thesis by (intro none) simp_all
  next
    case False
    show ?thesis
    proof (cases "\<exists>n. f = IoDelete n")
      case True
      then obtain n where n: "f = IoDelete n" by blast
      let ?gone = "take n (filter (under ?c) (amap_keys (fs_files s)))"
      have "s' = s0\<lparr>fs_files := filter (\<lambda>(x, _). x \<notin> set ?gone) (fs_files s0)\<rparr>" "r = Inl (CkStorage ''delete_prefix'')"
        using assms(3) False fr by (simp_all add: del n Let_def)
      with fr have "fs_files s' = filter (\<lambda>(x, _). x \<notin> set ?gone) (fs_files s)" "fs_dirs s' = fs_dirs s" "r \<noteq> Inr ()"
        by simp_all
      then show ?thesis by (rule part) (auto dest: in_set_takeD)
    next
      case other: False
      have "s' = s0\<lparr>fs_files := filter (\<lambda>(x, _). \<not> under ?c x) (fs_files s0),
          fs_dirs := filter (\<lambda>x. \<not> under ?c x) (fs_dirs s0)\<rparr>"
        using assms(3) False other by (cases f) (simp_all add: del)
      with fr show ?thesis by (intro all) simp_all
    qed
  qed
  then show ?thesis
  proof cases
    case none
    with ok0 show ?thesis by (simp add: fs_inv_def view)
  next
    case (part P)
    have "tree_ok (fs_files s') (fs_dirs s')"
      unfolding part(1,2) by (rule tree_ok_filter [OF ok0]) (use ok0 in \<open>auto simp: tree_ok_def\<close>)
    moreover have "fs_view s' q = None \<and> below dir q"
      if "path_ok q" "fs_view s' q \<noteq> fs_view s q" for q
      using that part(1) part(4) [of "split_on slash q"] under_iff_below [of dir q]
      by (simp add: view map_of_filter_keys split: if_splits)
    ultimately show ?thesis using part(3) by (simp add: fs_inv_def)
  next
    case all
    have "tree_ok (fs_files s') (fs_dirs s')"
      unfolding all
    proof (rule tree_ok_filter [OF ok0])
      fix x assume x: "\<not> under ?c x" "x \<in> fst ` set (fs_files s)"
      then have "set (ancestors (butlast x)) \<subseteq> set (fs_dirs s)"
        using ok0 unfolding tree_ok_def by blast
      then show "set (ancestors (butlast x)) \<subseteq> set (filter (\<lambda>x. \<not> under ?c x) (fs_dirs s))"
        using anc_under [OF x(1)] by auto
    qed simp
    moreover have "fs_view s' q = None \<and> below dir q"
      if "path_ok q" "fs_view s' q \<noteq> fs_view s q" for q
      using that all(1) under_iff_below [of dir q] by (simp add: view map_of_filter_keys split: if_splits)
    moreover have "fs_view s' q = None" if "path_ok q" "below dir q" for q
      using that all(1) under_iff_below [of dir q] by (simp add: view map_of_filter_keys)
    ultimately show ?thesis by (simp add: fs_inv_def)
  qed
qed

lemma take_in_ancestors: "n < length x \<Longrightarrow> 0 < n \<Longrightarrow> take n x \<in> set (ancestors (butlast x))"
  unfolding ancestors_def set_map by (rule image_eqI [of _ _ n]) (auto simp: take_butlast)

lemma ancestors_take: "d \<in> set (ancestors c) \<Longrightarrow> \<exists>n. 0 < n \<and> n \<le> length c \<and> d = take n c"
proof -
  assume "d \<in> set (ancestors c)"
  then obtain n where "d = take n c" "n \<in> set [1..<Suc (length c)]"
    unfolding ancestors_def set_map by (rule imageE)
  then show ?thesis by (intro exI [of _ n]) auto
qed

lemma fs_list_children:
  assumes "fs_inv s" and "proper (dir @ ''/'' @ name @ ''/'' @ rest)" and "slash \<notin> set name"
    and "fs_view s (dir @ ''/'' @ name @ ''/'' @ rest) \<noteq> None"
  shows "\<exists>ns. fs_list s dir = Inr ns \<and> name \<in> set ns"
proof -
  let ?p = "dir @ ''/'' @ name @ ''/'' @ rest"
  let ?c = "split_on slash dir"
  have split: "split_on slash ?p = ?c @ name # split_on slash rest"
    using split_on_slash_append [of slash dir "name @ slash # rest"] split_on_append [OF assms(3), of rest]
    by simp
  have ok: "path_ok ?p" using assms(2) by (simp add: proper_def)
  then have okd: "path_ok dir" using path_ok_append [of dir "name @ ''/'' @ rest"] by simp
  have "split_on slash ?p \<in> fst ` set (fs_files s)"
    using assms(4) fs_view_ok [OF ok] by (metis map_of_eq_None_iff)
  then have anc: "set (ancestors (butlast (split_on slash ?p))) \<subseteq> set (fs_dirs s)"
    using assms(1) unfolding fs_inv_def tree_ok_def by blast
  have take: "take n (split_on slash ?p) \<in> set (fs_dirs s)" if "0 < n" "n \<le> Suc (length ?c)" for n
  proof -
    have "split_on slash rest \<noteq> []" by simp
    then have "n < length (split_on slash ?p)" using that(2) unfolding split by (cases "split_on slash rest") auto
    then have "take n (split_on slash ?p) \<in> set (ancestors (butlast (split_on slash ?p)))"
      using that(1) by (rule take_in_ancestors)
    with anc show ?thesis by blast
  qed
  have "\<not> (\<exists>d \<in> set (ancestors ?c). is_file s d)"
  proof
    assume "\<exists>d \<in> set (ancestors ?c). is_file s d"
    then obtain d where d: "d \<in> set (ancestors ?c)" "d \<in> fst ` set (fs_files s)"
      by (auto simp: is_file_def)
    from ancestors_take [OF d(1)] obtain n where "0 < n" "n \<le> length ?c" "d = take n ?c" by (elim exE conjE)
    with d(2) have n: "0 < n" "n \<le> length ?c" "take n ?c \<in> fst ` set (fs_files s)" by simp_all
    have "take n ?c = take n (split_on slash ?p)" using n(2) unfolding split by simp
    with take [of n] n have "take n ?c \<in> set (fs_dirs s)" by simp
    with n(3) assms(1) show False unfolding fs_inv_def tree_ok_def by blast
  qed
  moreover have "take (Suc (length ?c)) (split_on slash ?p) = ?c @ [name]" unfolding split by simp
  with take [of "Suc (length ?c)"] have "?c @ [name] \<in> set (fs_dirs s)" by simp
  then have "name \<in> set (map last (filter (\<lambda>x. x \<noteq> [] \<and> butlast x = ?c) (amap_keys (fs_files s) @ fs_dirs s)))"
    unfolding set_map by (intro image_eqI [of _ _ "?c @ [name]"]) simp_all
  ultimately show ?thesis by (simp add: fs_list_def path_ok_full [OF okd])
qed

interpretation fs: ckpt_storage fs_ops fs_inv fs_view
proof
  fix s p b assume "fs_inv s" and "fs_view s p = Some b"
  then show "s_read fs_ops s p = Inr (Some b)"
    by (auto simp: fs_ops_def fs_read_def fs_view_def rbind_Inr_iff split: sum.splits)
next
  fix s p content assume "fs_inv s" and "fs_view s p = None" and "s_read fs_ops s p = Inr content"
  then show "content = None"
    by (auto simp: fs_ops_def fs_read_def fs_view_def rbind_Inr_iff split: sum.splits option.splits if_splits)
next
  fix s p e assume "s_read fs_ops s p = Inl e"
  then show "e \<noteq> NoValidEpoch"
    by (auto simp: fs_ops_def fs_read_def full_path_def rbind_Inl_iff Let_def split: option.splits if_splits)
next
  fix s p e assume "s_list fs_ops s p = Inl e"
  then show "e \<noteq> NoValidEpoch"
    by (auto simp: fs_ops_def fs_list_def full_path_def rbind_Inl_iff Let_def split: if_splits)
next
  fix s p d s' r assume "fs_inv s" "proper p" "s_write fs_ops s p d = (s', r)"
  then show "fs_inv s' \<and> (\<forall>q. proper q \<longrightarrow> q \<noteq> p \<longrightarrow> fs_view s' q = fs_view s q)
    \<and> (fs_view s' p = fs_view s p \<or> fs_view s' p = Some d) \<and> (r = Inr () \<longrightarrow> fs_view s' p = Some d)"
    by (intro fs_write_atomic) (simp_all add: fs_ops_def)
next
  fix s p d s' r q assume "fs_inv s" "proper p" "s_write fs_ops s p d = (s', r)" "path_ok q" "dir_of q \<noteq> dir_of p"
  then show "fs_view s' q = fs_view s q" by (intro fs_write_local) (simp_all add: fs_ops_def)
next
  fix s dir name rest assume "fs_inv s" "proper (dir @ ''/'' @ name @ ''/'' @ rest)" "slash \<notin> set name"
    "fs_view s (dir @ ''/'' @ name @ ''/'' @ rest) \<noteq> None"
  then show "\<exists>ns. s_list fs_ops s dir = Inr ns \<and> name \<in> set ns"
    using fs_list_children by (simp add: fs_ops_def)
next
  fix s dir s' r assume "fs_inv s" "path_ok dir" "s_delete fs_ops s dir = (s', r)"
  then show "fs_inv s' \<and> (\<forall>q. path_ok q \<longrightarrow> fs_view s' q \<noteq> fs_view s q \<longrightarrow> fs_view s' q = None \<and> below dir q)
    \<and> (r = Inr () \<longrightarrow> (\<forall>q. path_ok q \<longrightarrow> below dir q \<longrightarrow> fs_view s' q = None))"
    by (intro fs_delete_frame) (simp_all add: fs_ops_def)
qed

section \<open>Properties\<close>

text \<open>
  C23. A write to the file-system storage is atomic under every schedule of failing system calls,
  also when the write of the bytes fails after a prefix of them: the target afterwards holds its
  old content or the whole new one, a reported success means the new one, and no other path
  changes.
\<close>

theorem local_fs_write_atomic:
  assumes "fs_inv s" and "proper p" and "fs_write s p d = (s', r)"
  shows "fs_inv s' \<and> (\<forall>q. proper q \<longrightarrow> q \<noteq> p \<longrightarrow> fs_view s' q = fs_view s q)
    \<and> (fs_view s' p = fs_view s p \<or> fs_view s' p = Some d) \<and> (r = Inr () \<longrightarrow> fs_view s' p = Some d)"
  using assms by (rule fs_write_atomic)

lemma proper_metadata_json: "proper ''j/metadata.json''"
proof -
  have "split_on slash ''j/metadata.json'' = [''j'', ''metadata.json'']" by code_simp
  moreover have "\<not> tmp_name ''metadata.json''"
    by (auto simp: tmp_name_def Cons_eq_append_conv)
  ultimately show ?thesis by (simp add: proper_def path_ok_def)
qed

text \<open>The old metadata is on disk; the write of the new one stops after its first byte.\<close>

definition demo_torn :: local_fs where
  "demo_torn = (fst (fs_write (fs_empty []) ''j/metadata.json'' [7]))\<lparr>fs_faults := [IoWrite 1]\<rparr>"

theorem local_fs_write_atomic_witness:
  "map_of (fs_files (fst (fs_write demo_torn ''j/metadata.json'' [1, 2]))) [''j'', ''metadata.tmp.2''] = Some [1]
   \<and> fs_view (fst (fs_write demo_torn ''j/metadata.json'' [1, 2])) ''j/metadata.json'' \<in> {Some [7], Some [1, 2]}"
proof
  show "map_of (fs_files (fst (fs_write demo_torn ''j/metadata.json'' [1, 2]))) [''j'', ''metadata.tmp.2''] = Some [1]"
    by code_simp
  have "fs_inv demo_torn"
    using fs_write_atomic [OF fs_inv_empty proper_metadata_json, of "[]" "[7]"]
    by (cases "fs_write (fs_empty []) ''j/metadata.json'' [7]") (simp add: demo_torn_def fs_inv_def)
  moreover have "fs_view demo_torn ''j/metadata.json'' = Some [7]" by code_simp
  ultimately show "fs_view (fst (fs_write demo_torn ''j/metadata.json'' [1, 2])) ''j/metadata.json'' \<in> {Some [7], Some [1, 2]}"
    using local_fs_write_atomic [OF _ proper_metadata_json, of demo_torn "[1, 2]"]
    by (cases "fs_write demo_torn ''j/metadata.json'' [1, 2]") auto
qed

end
