(* ===== verification/CkptIO.thy ===== *)
theory CkptIO
  imports CkptStorage
begin

text \<open>
  The checkpoint operations of \<open>krishiv-state/src/checkpoint/io.rs\<close>: writing and validating
  epochs, finding the newest valid one, fencing, savepoints. The storage methods, the JSON
  codec, the digest and the width of the hashing pool are gathered in one environment record.
  The asynchronous variants run the same storage calls; the one that differs, the validation of
  the manifest entries, is modelled on its own. Log lines are left out; of the message about a
  control character only the fixed text is kept.
\<close>

section \<open>Environment and helpers\<close>

record 's ckpt_env =
  env_ops :: "'s storage_ops"
  env_json :: json_codec
  env_sha :: "bytes \<Rightarrow> bytes"
  env_width :: nat

text \<open>What the code relies on of the JSON codec: it reads back what it wrote.\<close>

definition codec_ok :: "json_codec \<Rightarrow> bool" where
  "codec_ok js \<longleftrightarrow> (\<forall>m b. to_vec_pretty js m = Inr b \<longrightarrow> from_slice js b = Inr m)"

lemma codec_okD: "codec_ok js \<Longrightarrow> to_vec_pretty js m = Inr b \<Longrightarrow> from_slice js b = Inr m"
  by (simp add: codec_ok_def)

abbreviation rd :: "'s ckpt_env \<Rightarrow> 's \<Rightarrow> string \<Rightarrow> checkpoint_error + bytes option" where
  "rd E \<equiv> s_read (env_ops E)"

abbreviation wr :: "'s ckpt_env \<Rightarrow> 's \<Rightarrow> string \<Rightarrow> bytes \<Rightarrow> 's \<times> (checkpoint_error + unit)" where
  "wr E \<equiv> s_write (env_ops E)"

text \<open>A sequence of writes with \<open>?\<close> after each.\<close>

fun write_all :: "'s ckpt_env \<Rightarrow> 's \<Rightarrow> (string \<times> bytes) list \<Rightarrow> 's \<times> (checkpoint_error + unit)" where
  "write_all E s [] = (s, Inr ())"
| "write_all E s ((p, d) # ws) =
     (case wr E s p d of (s', Inl e) \<Rightarrow> (s', Inl e) | (s', Inr _) \<Rightarrow> write_all E s' ws)"

section \<open>Validation\<close>

definition read_optional_manifest :: "'s ckpt_env \<Rightarrow> 's \<Rightarrow> string \<Rightarrow> nat \<Rightarrow>
    checkpoint_error + integrity_manifest option" where
  "read_optional_manifest E s path epoch =
     rbind (rd E s path) (\<lambda>r. case r of
       None \<Rightarrow> Inr None
     | Some manifest_bytes \<Rightarrow>
         (case manifest_deserialize manifest_bytes of
            Inl e \<Rightarrow> Inl (CkCorrupt epoch (''manifest parse: '' @ ckpt_error_display e))
          | Inr m \<Rightarrow> Inr (Some m)))"

definition read_required_manifest :: "'s ckpt_env \<Rightarrow> 's \<Rightarrow> string \<Rightarrow> nat \<Rightarrow>
    checkpoint_error + integrity_manifest" where
  "read_required_manifest E s path epoch =
     rbind (read_optional_manifest E s path epoch) (\<lambda>r.
       case r of None \<Rightarrow> Inl NoValidEpoch | Some m \<Rightarrow> Inr m)"

definition validate_manifest_relative_path :: "string \<Rightarrow> nat \<Rightarrow> checkpoint_error + unit" where
  "validate_manifest_relative_path path epoch =
     (if path = [] \<or> take 1 path = ''/'' \<or> CHR 0x5C \<in> set path then
        Inl (CkCorrupt epoch (''manifest path '' @ debug_str path @ '' is not a relative checkpoint path''))
      else if path = ''manifest.sha256'' then
        Inl (CkCorrupt epoch ''manifest must not include itself'')
      else if has_control path then
        Inl (CkCorrupt epoch (''manifest path '' @ debug_str path
          @ '' contains control character; the manifest is damaged''))
      else if \<exists>component \<in> set (split_on slash path).
                component = [] \<or> component = ''.'' \<or> component = ''..'' then
        Inl (CkCorrupt epoch (''manifest path '' @ debug_str path @ '' contains an invalid component''))
      else Inr ())"

definition validate_metadata_identity :: "checkpoint_metadata \<Rightarrow> string \<Rightarrow> nat \<Rightarrow> checkpoint_error + unit" where
  "validate_metadata_identity metadata job_id epoch =
     rbind (metadata_validate metadata) (\<lambda>_.
       if cm_job_id metadata \<noteq> job_id then
         Inl (CkCorrupt epoch (''metadata job_id '' @ cm_job_id metadata
           @ '' does not match requested job_id '' @ job_id))
       else if cm_epoch metadata \<noteq> epoch then
         Inl (CkCorrupt epoch (''metadata epoch '' @ show_nat (cm_epoch metadata)
           @ '' does not match requested epoch '' @ show_nat epoch))
       else Inr ())"

definition snapshot_relative_path :: "string \<Rightarrow> nat \<Rightarrow> operator_snapshot_ref \<Rightarrow> checkpoint_error + string" where
  "snapshot_relative_path job_id epoch snapshot =
     (case strip_prefix (epoch_dir job_id epoch @ ''/'') (os_snapshot_path snapshot) of
        Some rel \<Rightarrow> Inr rel
      | None \<Rightarrow> Inl (CkCorrupt epoch (''snapshot path '' @ os_snapshot_path snapshot
          @ '' is not under checkpoint epoch '' @ epoch_dir job_id epoch)))"

fun check_snapshots :: "string \<Rightarrow> nat \<Rightarrow> integrity_manifest \<Rightarrow> operator_snapshot_ref list \<Rightarrow>
    checkpoint_error + bool" where
  "check_snapshots job_id epoch manifest [] = Inr True"
| "check_snapshots job_id epoch manifest (snapshot # snapshots) =
     rbind (snapshot_relative_path job_id epoch snapshot) (\<lambda>relative_path.
       rbind (validate_manifest_relative_path relative_path epoch) (\<lambda>_.
         if \<not> manifest_contains manifest relative_path then Inr False
         else check_snapshots job_id epoch manifest snapshots))"

definition validate_checkpoint_metadata_contract :: "'s ckpt_env \<Rightarrow> bytes \<Rightarrow> string \<Rightarrow> nat \<Rightarrow>
    integrity_manifest \<Rightarrow> checkpoint_error + bool" where
  "validate_checkpoint_metadata_contract E metadata_bytes job_id epoch manifest =
     (case from_slice (env_json E) metadata_bytes of
        Inl e \<Rightarrow> Inl (CkCorrupt epoch (''metadata JSON parse: '' @ e))
      | Inr metadata \<Rightarrow>
          rbind (validate_metadata_identity metadata job_id epoch) (\<lambda>_.
            check_snapshots job_id epoch manifest (cm_operator_snapshots metadata)))"

text \<open>One chunk of manifest entries: the reads, which may find a file missing.\<close>

fun read_chunk :: "'s ckpt_env \<Rightarrow> 's \<Rightarrow> string \<Rightarrow> nat \<Rightarrow> (string \<times> string) list \<Rightarrow>
    (bytes \<times> string) list \<Rightarrow> checkpoint_error + (bytes \<times> string) list option" where
  "read_chunk E s base epoch [] reads = Inr (Some reads)"
| "read_chunk E s base epoch ((path, expected_hex) # es) reads =
     rbind (validate_manifest_relative_path path epoch) (\<lambda>_.
       rbind (rd E s (base @ ''/'' @ path)) (\<lambda>r. case r of
         None \<Rightarrow> Inr None
       | Some data \<Rightarrow> read_chunk E s base epoch es (reads @ [(data, expected_hex)])))"

definition digests_match :: "'s ckpt_env \<Rightarrow> (bytes \<times> string) list \<Rightarrow> bool" where
  "digests_match E reads \<longleftrightarrow> (\<forall>(data, expected_hex) \<in> set reads. sha256_hex (env_sha E) data = expected_hex)"

function check_chunks :: "'s ckpt_env \<Rightarrow> 's \<Rightarrow> string \<Rightarrow> nat \<Rightarrow> (string \<times> string) list \<Rightarrow>
    checkpoint_error + bool" where
  "check_chunks E s base epoch entries =
     (if entries = [] then Inr True
      else rbind (read_chunk E s base epoch (take (max (env_width E) 1) entries) []) (\<lambda>r. case r of
             None \<Rightarrow> Inr False
           | Some reads \<Rightarrow>
               if \<not> digests_match E reads then Inr False
               else check_chunks E s base epoch (drop (max (env_width E) 1) entries)))"
  by pat_completeness auto
termination
  by (relation "measure (\<lambda>(E, s, base, epoch, entries). length entries)") auto

declare check_chunks.simps [simp del]

definition validate_manifest_entries :: "'s ckpt_env \<Rightarrow> 's \<Rightarrow> string \<Rightarrow> nat \<Rightarrow> integrity_manifest \<Rightarrow>
    checkpoint_error + bool" where
  "validate_manifest_entries E s base epoch manifest =
     (if \<not> manifest_contains manifest ''metadata.json'' then Inr False
      else check_chunks E s base epoch manifest)"

definition validate_manifest_entries_async :: "'s ckpt_env \<Rightarrow> 's \<Rightarrow> string \<Rightarrow> nat \<Rightarrow> integrity_manifest \<Rightarrow>
    checkpoint_error + bool" where
  "validate_manifest_entries_async E s base epoch manifest =
     (if \<not> manifest_contains manifest ''metadata.json'' then Inr False
      else rbind (read_chunk E s base epoch manifest []) (\<lambda>r. case r of
             None \<Rightarrow> Inr False
           | Some reads \<Rightarrow> Inr (digests_match E reads)))"

definition validate_checkpoint_manifest :: "'s ckpt_env \<Rightarrow> 's \<Rightarrow> string \<Rightarrow> nat \<Rightarrow> integrity_manifest \<Rightarrow>
    checkpoint_error + bool" where
  "validate_checkpoint_manifest E s job_id epoch manifest =
     rbind (validate_manifest_entries E s (epoch_dir job_id epoch) epoch manifest) (\<lambda>good.
       if \<not> good then Inr False
       else rbind (rd E s (metadata_path job_id epoch)) (\<lambda>r. case r of
              None \<Rightarrow> Inr False
            | Some metadata_bytes \<Rightarrow>
                validate_checkpoint_metadata_contract E metadata_bytes job_id epoch manifest))"

definition validate_checkpoint_manifest_async :: "'s ckpt_env \<Rightarrow> 's \<Rightarrow> string \<Rightarrow> nat \<Rightarrow>
    integrity_manifest \<Rightarrow> checkpoint_error + bool" where
  "validate_checkpoint_manifest_async E s job_id epoch manifest =
     rbind (validate_manifest_entries_async E s (epoch_dir job_id epoch) epoch manifest) (\<lambda>good.
       if \<not> good then Inr False
       else rbind (rd E s (metadata_path job_id epoch)) (\<lambda>r. case r of
              None \<Rightarrow> Inr False
            | Some metadata_bytes \<Rightarrow>
                validate_checkpoint_metadata_contract E metadata_bytes job_id epoch manifest))"

definition validate_epoch :: "'s ckpt_env \<Rightarrow> 's \<Rightarrow> string \<Rightarrow> nat \<Rightarrow> checkpoint_error + bool" where
  "validate_epoch E s job_id epoch =
     rbind (read_optional_manifest E s (manifest_path job_id epoch) epoch) (\<lambda>r. case r of
       None \<Rightarrow> Inr False
     | Some manifest \<Rightarrow> validate_checkpoint_manifest E s job_id epoch manifest)"

definition validate_epoch_async :: "'s ckpt_env \<Rightarrow> 's \<Rightarrow> string \<Rightarrow> nat \<Rightarrow> checkpoint_error + bool" where
  "validate_epoch_async E s job_id epoch =
     rbind (rd E s (manifest_path job_id epoch)) (\<lambda>r. case r of
       None \<Rightarrow> Inr False
     | Some manifest_bytes \<Rightarrow>
         (case manifest_deserialize manifest_bytes of
            Inl e \<Rightarrow> Inl (CkCorrupt epoch (''manifest parse: '' @ ckpt_error_display e))
          | Inr manifest \<Rightarrow> validate_checkpoint_manifest_async E s job_id epoch manifest))"

section \<open>Finding epochs\<close>

definition checkpoints_prefix :: "string \<Rightarrow> string" where
  "checkpoints_prefix job_id = job_id @ ''/checkpoints''"

fun collect_valid :: "(nat \<Rightarrow> checkpoint_error + bool) \<Rightarrow> string list \<Rightarrow> nat list \<Rightarrow> nat list" where
  "collect_valid validate [] valid = valid"
| "collect_valid validate (name # names) valid =
     (case parse_u64 name of
        None \<Rightarrow> collect_valid validate names valid
      | Some epoch \<Rightarrow>
          (case validate epoch of
             Inr True \<Rightarrow> collect_valid validate names (valid @ [epoch])
           | _ \<Rightarrow> collect_valid validate names valid))"

definition list_valid_epochs :: "'s ckpt_env \<Rightarrow> 's \<Rightarrow> string \<Rightarrow> checkpoint_error + nat list" where
  "list_valid_epochs E s job_id =
     rbind (s_list (env_ops E) s (job_id @ ''/checkpoints'')) (\<lambda>names.
       Inr (sort (collect_valid (validate_epoch E s job_id) names [])))"

definition list_valid_epochs_async :: "'s ckpt_env \<Rightarrow> 's \<Rightarrow> string \<Rightarrow> checkpoint_error + nat list" where
  "list_valid_epochs_async E s job_id =
     rbind (s_list (env_ops E) s (job_id @ ''/checkpoints'')) (\<lambda>names.
       Inr (sort (collect_valid (validate_epoch_async E s job_id) names [])))"

definition epoch_candidates_newest_first :: "string list \<Rightarrow> nat list" where
  "epoch_candidates_newest_first names = rev (sort (List.map_filter parse_u64 names))"

fun first_valid :: "(nat \<Rightarrow> checkpoint_error + bool) \<Rightarrow> nat list \<Rightarrow> checkpoint_error + nat" where
  "first_valid validate [] = Inl NoValidEpoch"
| "first_valid validate (epoch # epochs) =
     (case validate epoch of
        Inr True \<Rightarrow> Inr epoch
      | Inr False \<Rightarrow> first_valid validate epochs
      | Inl (CkCorrupt _ _) \<Rightarrow> first_valid validate epochs
      | Inl e \<Rightarrow> Inl e)"

definition latest_valid_epoch :: "'s ckpt_env \<Rightarrow> 's \<Rightarrow> string \<Rightarrow> checkpoint_error + nat" where
  "latest_valid_epoch E s job_id =
     rbind (s_list (env_ops E) s (checkpoints_prefix job_id)) (\<lambda>names.
       first_valid (validate_epoch E s job_id) (epoch_candidates_newest_first names))"

definition latest_valid_epoch_async :: "'s ckpt_env \<Rightarrow> 's \<Rightarrow> string \<Rightarrow> checkpoint_error + nat" where
  "latest_valid_epoch_async E s job_id =
     rbind (s_list (env_ops E) s (checkpoints_prefix job_id)) (\<lambda>names.
       first_valid (validate_epoch_async E s job_id) (epoch_candidates_newest_first names))"

section \<open>Reading and writing epochs\<close>

definition write_metadata_json :: "'s ckpt_env \<Rightarrow> 's \<Rightarrow> string \<Rightarrow> nat \<Rightarrow> checkpoint_metadata \<Rightarrow>
    's \<times> (checkpoint_error + unit)" where
  "write_metadata_json E s job_id epoch metadata =
     (case to_vec_pretty (env_json E) metadata of
        Inl e \<Rightarrow> (s, Inl (CkStorage (''metadata serialize: '' @ e)))
      | Inr json \<Rightarrow> wr E s (metadata_path job_id epoch) json)"

definition write_epoch_metadata :: "'s ckpt_env \<Rightarrow> 's \<Rightarrow> string \<Rightarrow> nat \<Rightarrow> checkpoint_metadata \<Rightarrow>
    's \<times> (checkpoint_error + unit)" where
  "write_epoch_metadata E s job_id epoch metadata =
     (case validate_metadata_identity metadata job_id epoch of
        Inl e \<Rightarrow> (s, Inl e)
      | Inr _ \<Rightarrow>
          (case latest_valid_epoch E s job_id of
             Inr latest \<Rightarrow> if epoch \<le> latest then (s, Inl (StaleEpoch epoch latest))
                           else write_metadata_json E s job_id epoch metadata
           | Inl NoValidEpoch \<Rightarrow> write_metadata_json E s job_id epoch metadata
           | Inl e \<Rightarrow> (s, Inl e)))"

definition write_epoch_metadata_async :: "'s ckpt_env \<Rightarrow> 's \<Rightarrow> string \<Rightarrow> nat \<Rightarrow> checkpoint_metadata \<Rightarrow>
    's \<times> (checkpoint_error + unit)" where
  "write_epoch_metadata_async E s job_id epoch metadata =
     (case validate_metadata_identity metadata job_id epoch of
        Inl e \<Rightarrow> (s, Inl e)
      | Inr _ \<Rightarrow>
          (case latest_valid_epoch_async E s job_id of
             Inr latest \<Rightarrow> if epoch \<le> latest then (s, Inl (StaleEpoch epoch latest))
                           else write_metadata_json E s job_id epoch metadata
           | Inl NoValidEpoch \<Rightarrow> write_metadata_json E s job_id epoch metadata
           | Inl e \<Rightarrow> (s, Inl e)))"

definition write_epoch_hint :: "'s ckpt_env \<Rightarrow> 's \<Rightarrow> string \<Rightarrow> nat \<Rightarrow> 's \<times> (checkpoint_error + unit)" where
  "write_epoch_hint E s job_id epoch = wr E s (latest_epoch_hint_path job_id) (as_bytes (show_nat epoch))"

definition write_epoch_hint_async :: "'s ckpt_env \<Rightarrow> 's \<Rightarrow> string \<Rightarrow> nat \<Rightarrow> 's \<times> (checkpoint_error + unit)" where
  "write_epoch_hint_async E s job_id epoch = wr E s (latest_epoch_hint_path job_id) (as_bytes (show_nat epoch))"

definition read_epoch_metadata :: "'s ckpt_env \<Rightarrow> 's \<Rightarrow> string \<Rightarrow> nat \<Rightarrow>
    checkpoint_error + checkpoint_metadata option" where
  "read_epoch_metadata E s job_id epoch =
     rbind (rd E s (metadata_path job_id epoch)) (\<lambda>r. case r of
       None \<Rightarrow> Inr None
     | Some bs \<Rightarrow>
         (case from_slice (env_json E) bs of
            Inl e \<Rightarrow> Inl (CkCorrupt epoch (''metadata JSON parse: '' @ e))
          | Inr meta \<Rightarrow> Inr (Some meta)))"

definition read_epoch_metadata_async :: "'s ckpt_env \<Rightarrow> 's \<Rightarrow> string \<Rightarrow> nat \<Rightarrow>
    checkpoint_error + checkpoint_metadata option" where
  "read_epoch_metadata_async E s job_id epoch =
     rbind (rd E s (metadata_path job_id epoch)) (\<lambda>r. case r of
       None \<Rightarrow> Inr None
     | Some bs \<Rightarrow>
         (case from_slice (env_json E) bs of
            Inl e \<Rightarrow> Inl (CkCorrupt epoch (''metadata JSON parse: '' @ e))
          | Inr meta \<Rightarrow> Inr (Some meta)))"

definition write_operator_snapshot :: "'s ckpt_env \<Rightarrow> 's \<Rightarrow> string \<Rightarrow> nat \<Rightarrow> string \<Rightarrow> string \<Rightarrow> bytes \<Rightarrow>
    's \<times> (checkpoint_error + unit)" where
  "write_operator_snapshot E s job_id epoch op_id task_id bs =
     wr E s (snapshot_path job_id epoch op_id task_id) bs"

definition write_operator_snapshot_async :: "'s ckpt_env \<Rightarrow> 's \<Rightarrow> string \<Rightarrow> nat \<Rightarrow> string \<Rightarrow> string \<Rightarrow> bytes \<Rightarrow>
    's \<times> (checkpoint_error + unit)" where
  "write_operator_snapshot_async E s job_id epoch op_id task_id bs =
     wr E s (snapshot_path job_id epoch op_id task_id) bs"

definition read_operator_snapshot :: "'s ckpt_env \<Rightarrow> 's \<Rightarrow> string \<Rightarrow> nat \<Rightarrow> string \<Rightarrow> string \<Rightarrow>
    checkpoint_error + bytes option" where
  "read_operator_snapshot E s job_id epoch op_id task_id =
     rd E s (snapshot_path job_id epoch op_id task_id)"

definition read_operator_snapshot_async :: "'s ckpt_env \<Rightarrow> 's \<Rightarrow> string \<Rightarrow> nat \<Rightarrow> string \<Rightarrow> string \<Rightarrow>
    checkpoint_error + bytes option" where
  "read_operator_snapshot_async E s job_id epoch op_id task_id =
     rd E s (snapshot_path job_id epoch op_id task_id)"

definition write_manifest :: "'s ckpt_env \<Rightarrow> 's \<Rightarrow> string \<Rightarrow> nat \<Rightarrow> integrity_manifest \<Rightarrow>
    's \<times> (checkpoint_error + unit)" where
  "write_manifest E s job_id epoch manifest =
     wr E s (manifest_path job_id epoch) (manifest_serialize manifest)"

definition write_manifest_async :: "'s ckpt_env \<Rightarrow> 's \<Rightarrow> string \<Rightarrow> nat \<Rightarrow> integrity_manifest \<Rightarrow>
    's \<times> (checkpoint_error + unit)" where
  "write_manifest_async E s job_id epoch manifest =
     wr E s (manifest_path job_id epoch) (manifest_serialize manifest)"

definition delete_epoch :: "'s ckpt_env \<Rightarrow> 's \<Rightarrow> string \<Rightarrow> nat \<Rightarrow> 's \<times> (checkpoint_error + unit)" where
  "delete_epoch E s job_id epoch = s_delete (env_ops E) s (epoch_dir job_id epoch)"

definition delete_epoch_async :: "'s ckpt_env \<Rightarrow> 's \<Rightarrow> string \<Rightarrow> nat \<Rightarrow> 's \<times> (checkpoint_error + unit)" where
  "delete_epoch_async E s job_id epoch = s_delete (env_ops E) s (epoch_dir job_id epoch)"

section \<open>Fencing\<close>

definition validate_fencing_token :: "checkpoint_metadata \<Rightarrow> nat \<Rightarrow> checkpoint_error + unit" where
  "validate_fencing_token metadata current =
     (if cm_fencing_token metadata \<noteq> current
      then Inl (StaleFencingToken (cm_fencing_token metadata) current) else Inr ())"

definition validate_fencing_token_for_restore :: "checkpoint_metadata \<Rightarrow> nat \<Rightarrow> checkpoint_error + unit" where
  "validate_fencing_token_for_restore metadata current =
     (if cm_fencing_token metadata > current
      then Inl (StaleFencingToken (cm_fencing_token metadata) current) else Inr ())"

section \<open>Savepoints\<close>

definition savepoint_prefix :: "string \<Rightarrow> string" where
  "savepoint_prefix job_id = job_id @ ''/savepoints''"

definition savepoint_epoch_dir :: "string \<Rightarrow> nat \<Rightarrow> string" where
  "savepoint_epoch_dir job_id epoch = savepoint_prefix job_id @ ''/'' @ pad20 epoch"

definition cleanup_partial_prefix :: "'s ckpt_env \<Rightarrow> 's \<Rightarrow> string \<Rightarrow> 's" where
  "cleanup_partial_prefix E s prefix = fst (s_delete (env_ops E) s prefix)"

fun copy_for_savepoint :: "'s ckpt_env \<Rightarrow> 's \<Rightarrow> string \<Rightarrow> nat \<Rightarrow> integrity_manifest \<Rightarrow>
    operator_snapshot_ref list \<Rightarrow> integrity_manifest \<Rightarrow> (string \<times> bytes) list \<Rightarrow>
    checkpoint_error + (integrity_manifest \<times> (string \<times> bytes) list)" where
  "copy_for_savepoint E s job_id epoch source_manifest [] m snapshot_files = Inr (m, snapshot_files)"
| "copy_for_savepoint E s job_id epoch source_manifest (snap # snaps) m snapshot_files =
     rbind (snapshot_relative_path job_id epoch snap) (\<lambda>rel.
       rbind (rd E s (os_snapshot_path snap)) (\<lambda>r. case r of
         None \<Rightarrow> Inl (CkCorrupt epoch (''snapshot '' @ os_snapshot_path snap
           @ '' referenced by metadata is missing''))
       | Some data \<Rightarrow>
           if \<not> manifest_verify (env_sha E) source_manifest rel data then
             Inl (CkCorrupt epoch (''snapshot '' @ os_snapshot_path snap
               @ '' is not covered by the source checkpoint manifest''))
           else copy_for_savepoint E s job_id epoch source_manifest snaps
                  (manifest_insert_bytes (env_sha E) rel data m) (snapshot_files @ [(rel, data)])))"

text \<open>The read phase of savepoint creation, before anything is written.\<close>

definition savepoint_plan :: "'s ckpt_env \<Rightarrow> 's \<Rightarrow> string \<Rightarrow> nat \<Rightarrow> string option \<Rightarrow>
    checkpoint_error + checkpoint_metadata \<times> bytes \<times> integrity_manifest \<times> (string \<times> bytes) list" where
  "savepoint_plan E s job_id epoch label =
     rbind (read_required_manifest E s (manifest_path job_id epoch) epoch) (\<lambda>source_manifest.
       rbind (read_epoch_metadata E s job_id epoch) (\<lambda>r. case r of
         None \<Rightarrow> Inl NoValidEpoch
       | Some metadata0 \<Rightarrow>
           rbind (validate_metadata_identity metadata0 job_id epoch) (\<lambda>_.
             let metadata = metadata0\<lparr>cm_is_savepoint := True, cm_savepoint_label := label\<rparr> in
             (case to_vec_pretty (env_json E) metadata of
                Inl e \<Rightarrow> Inl (CkStorage (''savepoint metadata serialize: '' @ e))
              | Inr metadata_json \<Rightarrow>
                  rbind (copy_for_savepoint E s job_id epoch source_manifest
                           (cm_operator_snapshots metadata)
                           (manifest_insert_bytes (env_sha E) ''metadata.json'' metadata_json manifest_new) [])
                    (\<lambda>(m, snapshot_files). Inr (metadata, metadata_json, m, snapshot_files))))))"

definition create_savepoint_at_epoch :: "'s ckpt_env \<Rightarrow> 's \<Rightarrow> string \<Rightarrow> nat \<Rightarrow> string option \<Rightarrow>
    's \<times> (checkpoint_error + nat \<times> checkpoint_metadata)" where
  "create_savepoint_at_epoch E s job_id epoch label =
     (case savepoint_plan E s job_id epoch label of
        Inl e \<Rightarrow> (s, Inl e)
      | Inr (metadata, metadata_json, m, snapshot_files) \<Rightarrow>
          (let dir = savepoint_epoch_dir job_id epoch in
           case write_all E s
                  ([(dir @ ''/metadata.json'', metadata_json)]
                   @ map (\<lambda>(rel, data). (dir @ ''/'' @ rel, data)) snapshot_files
                   @ [(dir @ ''/manifest.sha256'', manifest_serialize m)]) of
             (s', Inl e) \<Rightarrow> (cleanup_partial_prefix E s' dir, Inl e)
           | (s', Inr _) \<Rightarrow> (s', Inr (epoch, metadata))))"

definition create_savepoint :: "'s ckpt_env \<Rightarrow> 's \<Rightarrow> string \<Rightarrow> string option \<Rightarrow>
    's \<times> (checkpoint_error + nat \<times> checkpoint_metadata)" where
  "create_savepoint E s job_id label =
     (case latest_valid_epoch E s job_id of
        Inl e \<Rightarrow> (s, Inl e)
      | Inr epoch \<Rightarrow> create_savepoint_at_epoch E s job_id epoch label)"

fun copy_for_restore :: "'s ckpt_env \<Rightarrow> 's \<Rightarrow> string \<Rightarrow> nat \<Rightarrow> integrity_manifest \<Rightarrow>
    operator_snapshot_ref list \<Rightarrow> integrity_manifest \<Rightarrow> (string \<times> bytes) list \<Rightarrow>
    checkpoint_error + (integrity_manifest \<times> (string \<times> bytes) list)" where
  "copy_for_restore E s job_id epoch savepoint_manifest [] m snapshot_files = Inr (m, snapshot_files)"
| "copy_for_restore E s job_id epoch savepoint_manifest (snap # snaps) m snapshot_files =
     rbind (snapshot_relative_path job_id epoch snap) (\<lambda>rel.
       if \<not> manifest_contains savepoint_manifest rel then
         Inl (CkCorrupt epoch (''savepoint snapshot '' @ rel
           @ '' is declared by metadata but not covered by the savepoint manifest''))
       else rbind (rd E s (savepoint_epoch_dir job_id epoch @ ''/'' @ rel)) (\<lambda>r. case r of
         None \<Rightarrow> Inl (CkCorrupt epoch (''savepoint snapshot ''
           @ (savepoint_epoch_dir job_id epoch @ ''/'' @ rel) @ '' is missing''))
       | Some data \<Rightarrow> copy_for_restore E s job_id epoch savepoint_manifest snaps
                        (manifest_insert_bytes (env_sha E) rel data m) (snapshot_files @ [(rel, data)])))"

text \<open>The read phase of a savepoint restore.\<close>

definition restore_plan :: "'s ckpt_env \<Rightarrow> 's \<Rightarrow> string \<Rightarrow> nat \<Rightarrow> nat \<Rightarrow>
    checkpoint_error + checkpoint_metadata \<times> bytes \<times> integrity_manifest \<times> (string \<times> bytes) list" where
  "restore_plan E s job_id epoch current_fencing_token =
     (let dir = savepoint_epoch_dir job_id epoch in
      rbind (case read_required_manifest E s (dir @ ''/manifest.sha256'') epoch of
               Inl NoValidEpoch \<Rightarrow> Inl (CkCorrupt epoch ''savepoint manifest is missing'')
             | r \<Rightarrow> r) (\<lambda>savepoint_manifest.
        rbind (validate_manifest_entries E s dir epoch savepoint_manifest) (\<lambda>good.
          if \<not> good then Inl (CkCorrupt epoch ''savepoint manifest validation failed'')
          else rbind (rd E s (dir @ ''/metadata.json'')) (\<lambda>r. case r of
            None \<Rightarrow> Inl NoValidEpoch
          | Some metadata_bytes \<Rightarrow>
              (case from_slice (env_json E) metadata_bytes of
                 Inl e \<Rightarrow> Inl (CkCorrupt epoch (''savepoint metadata JSON parse: '' @ e))
               | Inr metadata \<Rightarrow>
                   rbind (validate_metadata_identity metadata job_id epoch) (\<lambda>_.
                     rbind (validate_fencing_token_for_restore metadata current_fencing_token) (\<lambda>_.
                       rbind (copy_for_restore E s job_id epoch savepoint_manifest
                                (cm_operator_snapshots metadata)
                                (manifest_insert_bytes (env_sha E) ''metadata.json'' metadata_bytes manifest_new) [])
                         (\<lambda>(m, snapshot_files). Inr (metadata, metadata_bytes, m, snapshot_files)))))))))"

definition restore_savepoint :: "'s ckpt_env \<Rightarrow> 's \<Rightarrow> string \<Rightarrow> nat \<Rightarrow> nat \<Rightarrow>
    's \<times> (checkpoint_error + checkpoint_metadata)" where
  "restore_savepoint E s job_id epoch current_fencing_token =
     (case restore_plan E s job_id epoch current_fencing_token of
        Inl e \<Rightarrow> (s, Inl e)
      | Inr (metadata, metadata_bytes, m, snapshot_files) \<Rightarrow>
          (case write_all E s
                  ([(epoch_dir job_id epoch @ ''/metadata.json'', metadata_bytes)]
                   @ map (\<lambda>(rel, data). (epoch_dir job_id epoch @ ''/'' @ rel, data)) snapshot_files
                   @ [(manifest_path job_id epoch, manifest_serialize m)]) of
             (s', Inl e) \<Rightarrow> (s', Inl e)
           | (s', Inr _) \<Rightarrow> (s', Inr metadata)))"

definition list_savepoints :: "'s ckpt_env \<Rightarrow> 's \<Rightarrow> string \<Rightarrow> checkpoint_error + nat list" where
  "list_savepoints E s job_id =
     rbind (s_list (env_ops E) s (savepoint_prefix job_id)) (\<lambda>names.
       Inr (sort (List.map_filter parse_u64 names)))"

definition delete_savepoint :: "'s ckpt_env \<Rightarrow> 's \<Rightarrow> string \<Rightarrow> nat \<Rightarrow> 's \<times> (checkpoint_error + unit)" where
  "delete_savepoint E s job_id epoch = s_delete (env_ops E) s (savepoint_epoch_dir job_id epoch)"

section \<open>Sealed epochs\<close>

text \<open>
  What validation is about, as a condition on the visible files: the manifest parses and names
  the metadata, every entry is a clean path with a file of the recorded digest, the metadata
  has the requested identity, and every snapshot it declares is in the manifest.
\<close>

definition rel_path_ok :: "string \<Rightarrow> bool" where
  "rel_path_ok p \<longleftrightarrow> p \<noteq> [] \<and> take 1 p \<noteq> ''/'' \<and> CHR 0x5C \<notin> set p \<and> p \<noteq> ''manifest.sha256''
     \<and> \<not> has_control p \<and> path_ok p"

definition entry_ok :: "'s ckpt_env \<Rightarrow> (string \<Rightarrow> bytes option) \<Rightarrow> string \<Rightarrow> string \<times> string \<Rightarrow> bool" where
  "entry_ok E f base e \<longleftrightarrow> rel_path_ok (fst e)
     \<and> (case f (base @ ''/'' @ fst e) of None \<Rightarrow> False | Some d \<Rightarrow> sha256_hex (env_sha E) d = snd e)"

definition snapshot_covered :: "string \<Rightarrow> nat \<Rightarrow> integrity_manifest \<Rightarrow> operator_snapshot_ref \<Rightarrow> bool" where
  "snapshot_covered job_id epoch m snap \<longleftrightarrow>
     (case strip_prefix (epoch_dir job_id epoch @ ''/'') (os_snapshot_path snap) of
        None \<Rightarrow> False | Some rel \<Rightarrow> rel_path_ok rel \<and> manifest_contains m rel)"

definition metadata_sealed :: "'s ckpt_env \<Rightarrow> string \<Rightarrow> nat \<Rightarrow> integrity_manifest \<Rightarrow> bytes \<Rightarrow> bool" where
  "metadata_sealed E job_id epoch m b \<longleftrightarrow>
     (case from_slice (env_json E) b of
        Inl _ \<Rightarrow> False
      | Inr metadata \<Rightarrow> validate_metadata_identity metadata job_id epoch = Inr ()
          \<and> (\<forall>snap \<in> set (cm_operator_snapshots metadata). snapshot_covered job_id epoch m snap))"

definition sealed :: "'s ckpt_env \<Rightarrow> (string \<Rightarrow> bytes option) \<Rightarrow> string \<Rightarrow> nat \<Rightarrow> bool" where
  "sealed E f job_id epoch \<longleftrightarrow>
     (case f (manifest_path job_id epoch) of
        None \<Rightarrow> False
      | Some mb \<Rightarrow>
          (case manifest_deserialize mb of
             Inl _ \<Rightarrow> False
           | Inr m \<Rightarrow> manifest_contains m ''metadata.json''
               \<and> (\<forall>e \<in> set m. entry_ok E f (epoch_dir job_id epoch) e)
               \<and> (case f (metadata_path job_id epoch) of
                    None \<Rightarrow> False | Some b \<Rightarrow> metadata_sealed E job_id epoch m b)))"

lemma validate_rel_iff:
  "validate_manifest_relative_path p epoch = Inr u \<longleftrightarrow> rel_path_ok p"
  by (auto simp: validate_manifest_relative_path_def rel_path_ok_def path_ok_def)

lemma validate_rel_corrupt:
  "validate_manifest_relative_path p epoch = Inl e \<Longrightarrow> is_corrupt e"
  by (auto simp: validate_manifest_relative_path_def split: if_splits)

lemma check_snapshots_iff:
  "check_snapshots job_id epoch m snaps = Inr True \<longleftrightarrow> (\<forall>snap \<in> set snaps. snapshot_covered job_id epoch m snap)"
proof (induction snaps)
  case (Cons snap snaps)
  then show ?case
    by (auto simp: rbind_Inr_iff snapshot_relative_path_def snapshot_covered_def validate_rel_iff split: option.splits)
qed simp

lemma contract_iff:
  "validate_checkpoint_metadata_contract E b job_id epoch m = Inr True \<longleftrightarrow> metadata_sealed E job_id epoch m b"
  by (auto simp: validate_checkpoint_metadata_contract_def metadata_sealed_def rbind_Inr_iff check_snapshots_iff
      split: sum.splits)

section \<open>Paths\<close>

lemma tmp_name_const:
  "\<not> tmp_name ''manifest.sha256''" "\<not> tmp_name ''metadata.json''" "\<not> tmp_name ''state.bin''"
  "\<not> tmp_name ''latest_epoch.json''"
  by (auto simp: tmp_name_def Cons_eq_append_conv)

lemma split_on_single: "c \<notin> set s \<Longrightarrow> split_on c s = [s]"
  by (induction s) auto

lemma path_ok_single: "slash \<notin> set s \<Longrightarrow> s \<noteq> [] \<Longrightarrow> s \<noteq> ''.'' \<Longrightarrow> s \<noteq> ''..'' \<Longrightarrow> path_ok s"
  by (simp add: path_ok_def split_on_single)

lemma pad20_no_slash: "slash \<notin> set (pad20 n)"
  using set_pad20 [of slash n] by auto

lemma path_ok_pad20: "path_ok (pad20 n)"
proof (rule path_ok_single [OF pad20_no_slash])
  show "pad20 n \<noteq> ''.''" using set_pad20 [of "CHR ''.''" n] by auto
  show "pad20 n \<noteq> ''..''" using set_pad20 [of "CHR ''.''" n] by auto
qed simp

lemma split_epoch_dir: "split_on slash (epoch_dir job e) = split_on slash job @ [''checkpoints'', pad20 e]"
proof -
  have "epoch_dir job e = job @ slash # (''checkpoints'' @ slash # pad20 e)" by (simp add: epoch_dir_def)
  then show ?thesis by (simp only: split_on_slash_append) (simp add: split_on_single pad20_no_slash)
qed

lemma split_savepoint_dir:
  "split_on slash (savepoint_epoch_dir job e) = split_on slash job @ [''savepoints'', pad20 e]"
proof -
  have "savepoint_epoch_dir job e = job @ slash # (''savepoints'' @ slash # pad20 e)"
    by (simp add: savepoint_epoch_dir_def savepoint_prefix_def)
  then show ?thesis by (simp only: split_on_slash_append) (simp add: split_on_single pad20_no_slash)
qed

lemma path_ok_epoch_dir: "path_ok job \<Longrightarrow> path_ok (epoch_dir job epoch)"
  using path_ok_pad20 [of epoch] by (simp add: path_ok_def split_epoch_dir split_on_single pad20_no_slash)

lemma path_ok_savepoint_dir: "path_ok job \<Longrightarrow> path_ok (savepoint_epoch_dir job epoch)"
  using path_ok_pad20 [of epoch] by (simp add: path_ok_def split_savepoint_dir split_on_single pad20_no_slash)

lemma proper_append: "path_ok p \<Longrightarrow> proper q \<Longrightarrow> proper (p @ slash # q)"
  by (simp add: proper_def path_ok_append split_on_slash_append)

lemma proper_const:
  "proper ''manifest.sha256''" "proper ''metadata.json''" "proper ''latest_epoch.json''" "proper ''state.bin''"
  by (simp_all add: proper_def path_ok_single split_on_single tmp_name_const)

lemma proper_file:
  assumes "path_ok dir"
  shows "proper (dir @ ''/manifest.sha256'')" and "proper (dir @ ''/metadata.json'')"
  using proper_append [OF assms proper_const(1)] proper_append [OF assms proper_const(2)] by simp_all

lemma below_append [simp]: "below dir (dir @ slash # t)"
  by (auto simp: below_iff)

lemma below_trans: "below a b \<Longrightarrow> below b c \<Longrightarrow> below a c"
  by (auto simp: below_iff)

lemma dir_of_below: "below dir q" if "dir_of q = dir_of (dir @ slash # t)"
proof -
  have "butlast (split_on slash q) = split_on slash dir @ butlast (split_on slash t)"
    using that by (simp add: dir_of_def split_on_slash_append butlast_append)
  then have "under (split_on slash dir) (butlast (split_on slash q))" by (simp add: under_def)
  then have "under (split_on slash dir) (split_on slash q)"
    unfolding butlast_conv_take by (rule under_take)
  then show ?thesis by (simp add: under_iff_below)
qed

text \<open>Directories of different epochs, and of savepoints, do not overlap.\<close>

lemma below_split: "below dir q \<longleftrightarrow> (\<exists>zs. split_on slash q = split_on slash dir @ zs)"
proof -
  have "under (split_on slash dir) (split_on slash q) \<longleftrightarrow> (\<exists>zs. split_on slash q = split_on slash dir @ zs)"
    unfolding under_def by (metis append_eq_conv_conj append_take_drop_id)
  then show ?thesis by (simp add: under_iff_below)
qed

lemma epoch_dirs_apart:
  "below (epoch_dir job e) q \<Longrightarrow> e \<le> u64_max \<Longrightarrow> e' \<le> u64_max \<Longrightarrow> e \<noteq> e' \<Longrightarrow> \<not> below (epoch_dir job e') q"
  by (auto simp: below_split split_epoch_dir pad20_inj)

lemma savepoint_dir_apart: "below (savepoint_epoch_dir job e) q \<Longrightarrow> \<not> below (epoch_dir job e') q"
  by (auto simp: below_split split_epoch_dir split_savepoint_dir)

lemma sealed_cong:
  assumes "path_ok job" and "\<And>q. path_ok q \<Longrightarrow> below (epoch_dir job e) q \<Longrightarrow> f q = g q"
  shows "sealed E f job e \<longleftrightarrow> sealed E g job e"
proof -
  let ?d = "epoch_dir job e"
  have "f (?d @ slash # t) = g (?d @ slash # t)" if "path_ok t" for t
    using assms(2) [of "?d @ slash # t"] that by (simp add: path_ok_append path_ok_epoch_dir [OF assms(1)])
  note t = this
  have "entry_ok E f ?d x = entry_ok E g ?d x" for x
    using t [of "fst x"] by (auto simp: entry_ok_def rel_path_ok_def split: option.splits)
  moreover have "f (manifest_path job e) = g (manifest_path job e)" "f (metadata_path job e) = g (metadata_path job e)"
    using t [of "''manifest.sha256''"] t [of "''metadata.json''"] proper_const
    by (simp_all add: manifest_path_def metadata_path_def proper_def)
  ultimately show ?thesis by (simp add: sealed_def cong: option.case_cong sum.case_cong)
qed

section \<open>Validation decides sealedness\<close>

lemma rbind_good_iff:
  "rbind r (\<lambda>good. if \<not> good then Inr False else x) = Inr True \<longleftrightarrow> r = Inr True \<and> x = Inr True"
  by (cases r) auto

lemma validate_epoch_read:
  "validate_epoch E s job epoch =
     rbind (rd E s (manifest_path job epoch)) (\<lambda>r. case r of
       None \<Rightarrow> Inr False
     | Some manifest_bytes \<Rightarrow>
         (case manifest_deserialize manifest_bytes of
            Inl e \<Rightarrow> Inl (CkCorrupt epoch (''manifest parse: '' @ ckpt_error_display e))
          | Inr manifest \<Rightarrow> validate_checkpoint_manifest E s job epoch manifest))"
  unfolding validate_epoch_def read_optional_manifest_def
  by (cases "rd E s (manifest_path job epoch)") (simp_all split: option.split sum.split)

locale ckpt_io = ckpt_storage "env_ops E" ok files
  for E :: "'s ckpt_env" and ok :: "'s \<Rightarrow> bool" and files :: "'s \<Rightarrow> string \<Rightarrow> bytes option"

begin

lemma read_iff: "ok s \<Longrightarrow> rd E s p = Inr (Some b) \<longleftrightarrow> files s p = Some b"
  using read_present read_absent [of s p "Some b"] by (cases "files s p") auto

lemma read_chunk_iff:
  assumes "ok s"
  shows "read_chunk E s base epoch es acc = Inr (Some reads) \<longleftrightarrow>
    (\<forall>e \<in> set es. rel_path_ok (fst e) \<and> files s (base @ ''/'' @ fst e) \<noteq> None)
    \<and> reads = acc @ map (\<lambda>e. (the (files s (base @ ''/'' @ fst e)), snd e)) es"
proof (induction es arbitrary: acc)
  case (Cons e es)
  obtain p h where e: "e = (p, h)" by fastforce
  show ?case
  proof (cases "files s (base @ ''/'' @ p)")
    case None
    then have "rd E s (base @ ''/'' @ p) = Inr r \<Longrightarrow> r = None" for r using read_absent [OF assms] by blast
    with None show ?thesis by (force simp: e rbind_Inr_iff split: option.splits)
  next
    case (Some d)
    then have r: "rd E s (base @ ''/'' @ p) = Inr (Some d)" using read_present [OF assms] by blast
    have v: "validate_manifest_relative_path p epoch = Inr () \<longleftrightarrow> rel_path_ok p" by (rule validate_rel_iff)
    show ?thesis
    proof (cases "rel_path_ok p")
      case True
      with v have "validate_manifest_relative_path p epoch = Inr ()" by blast
      with r Some True Cons.IH [of "acc @ [(d, h)]"] show ?thesis by (simp add: e)
    next
      case False
      with v obtain x where "validate_manifest_relative_path p epoch = Inl x"
        by (cases "validate_manifest_relative_path p epoch") auto
      with False show ?thesis by (simp add: e)
    qed
  qed
qed auto

lemma digests_reads:
  "\<forall>e \<in> set es. rel_path_ok (fst e) \<and> files s (base @ ''/'' @ fst e) \<noteq> None \<Longrightarrow>
   digests_match E (map (\<lambda>e. (the (files s (base @ ''/'' @ fst e)), snd e)) es) \<longleftrightarrow>
   (\<forall>e \<in> set es. entry_ok E (files s) base e)"
  by (force simp: digests_match_def entry_ok_def split: option.splits)

lemma entry_ok_present:
  "entry_ok E (files s) base e \<Longrightarrow> rel_path_ok (fst e) \<and> files s (base @ ''/'' @ fst e) \<noteq> None"
  by (auto simp: entry_ok_def split: option.splits)

lemma chunk_iff:
  assumes "ok s"
  shows "(\<exists>reads. read_chunk E s base epoch es [] = Inr (Some reads) \<and> digests_match E reads) \<longleftrightarrow>
    (\<forall>e \<in> set es. entry_ok E (files s) base e)"
proof
  assume "\<forall>e \<in> set es. entry_ok E (files s) base e"
  moreover from this have "\<forall>e \<in> set es. rel_path_ok (fst e) \<and> files s (base @ ''/'' @ fst e) \<noteq> None"
    using entry_ok_present by blast
  ultimately show "\<exists>reads. read_chunk E s base epoch es [] = Inr (Some reads) \<and> digests_match E reads"
    unfolding read_chunk_iff [OF assms] using digests_reads by auto
next
  assume "\<exists>reads. read_chunk E s base epoch es [] = Inr (Some reads) \<and> digests_match E reads"
  then show "\<forall>e \<in> set es. entry_ok E (files s) base e"
    unfolding read_chunk_iff [OF assms] using digests_reads by auto
qed

lemma check_chunks_iff:
  assumes "ok s"
  shows "check_chunks E s base epoch es = Inr True \<longleftrightarrow> (\<forall>e \<in> set es. entry_ok E (files s) base e)"
proof (induction "length es" arbitrary: es rule: less_induct)
  case less
  show ?case
  proof (cases "es = []")
    case True
    then show ?thesis by (simp add: check_chunks.simps)
  next
    case False
    let ?n = "max (env_width E) 1"
    have "check_chunks E s base epoch es = Inr True \<longleftrightarrow>
        (\<exists>reads. read_chunk E s base epoch (take ?n es) [] = Inr (Some reads) \<and> digests_match E reads)
        \<and> check_chunks E s base epoch (drop ?n es) = Inr True"
      using False by (subst check_chunks.simps) (auto simp: rbind_Inr_iff split: option.splits if_splits)
    also have "\<dots> \<longleftrightarrow> (\<forall>e \<in> set (take ?n es) \<union> set (drop ?n es). entry_ok E (files s) base e)"
      using less [of "drop ?n es"] False chunk_iff [OF assms, of base epoch "take ?n es"] by auto
    also have "set (take ?n es) \<union> set (drop ?n es) = set es" by (metis append_take_drop_id set_append)
    finally show ?thesis .
  qed
qed

lemma entries_iff:
  assumes "ok s"
  shows "validate_manifest_entries E s base epoch m = Inr True \<longleftrightarrow>
      manifest_contains m ''metadata.json'' \<and> (\<forall>e \<in> set m. entry_ok E (files s) base e)"
    and "validate_manifest_entries_async E s base epoch m = Inr True \<longleftrightarrow>
      manifest_contains m ''metadata.json'' \<and> (\<forall>e \<in> set m. entry_ok E (files s) base e)"
proof -
  have "rbind (read_chunk E s base epoch m []) (\<lambda>r. case r of None \<Rightarrow> Inr False
      | Some reads \<Rightarrow> Inr (digests_match E reads)) = Inr True \<longleftrightarrow>
    (\<exists>reads. read_chunk E s base epoch m [] = Inr (Some reads) \<and> digests_match E reads)"
    by (auto simp: rbind_Inr_iff split: option.splits)
  then show "validate_manifest_entries_async E s base epoch m = Inr True \<longleftrightarrow>
      manifest_contains m ''metadata.json'' \<and> (\<forall>e \<in> set m. entry_ok E (files s) base e)"
    unfolding chunk_iff [OF assms] by (simp add: validate_manifest_entries_async_def)
  show "validate_manifest_entries E s base epoch m = Inr True \<longleftrightarrow>
      manifest_contains m ''metadata.json'' \<and> (\<forall>e \<in> set m. entry_ok E (files s) base e)"
    by (simp add: validate_manifest_entries_def check_chunks_iff [OF assms])
qed

lemma optional_read_iff:
  assumes "ok s"
  shows "rbind (rd E s p) (\<lambda>r. case r of None \<Rightarrow> Inr False | Some b \<Rightarrow> g b) = Inr True \<longleftrightarrow>
    (case files s p of None \<Rightarrow> False | Some b \<Rightarrow> g b = Inr True)"
  using read_iff [OF assms, of p] by (auto simp: rbind_Inr_iff split: option.splits)

lemma checkpoint_manifest_iff:
  assumes "ok s"
  shows "validate_checkpoint_manifest E s job epoch m = Inr True \<longleftrightarrow>
      manifest_contains m ''metadata.json'' \<and> (\<forall>e \<in> set m. entry_ok E (files s) (epoch_dir job epoch) e)
      \<and> (case files s (metadata_path job epoch) of None \<Rightarrow> False | Some b \<Rightarrow> metadata_sealed E job epoch m b)"
    and "validate_checkpoint_manifest_async E s job epoch m = Inr True \<longleftrightarrow>
      manifest_contains m ''metadata.json'' \<and> (\<forall>e \<in> set m. entry_ok E (files s) (epoch_dir job epoch) e)
      \<and> (case files s (metadata_path job epoch) of None \<Rightarrow> False | Some b \<Rightarrow> metadata_sealed E job epoch m b)"
  unfolding validate_checkpoint_manifest_def validate_checkpoint_manifest_async_def
    rbind_good_iff entries_iff [OF assms] optional_read_iff [OF assms] contract_iff
  by (rule conj_assoc)+

lemma validate_epoch_iff:
  assumes "ok s"
  shows "validate_epoch E s job epoch = Inr True \<longleftrightarrow> sealed E (files s) job epoch"
    and "validate_epoch_async E s job epoch = Inr True \<longleftrightarrow> sealed E (files s) job epoch"
  unfolding validate_epoch_read validate_epoch_async_def optional_read_iff [OF assms] sealed_def
  by (simp_all add: checkpoint_manifest_iff [OF assms] split: option.split sum.split)

end

section \<open>The newest valid epoch\<close>

lemma first_valid_Inr:
  "first_valid v cs = Inr e \<Longrightarrow> sorted (rev cs) \<Longrightarrow>
   e \<in> set cs \<and> v e = Inr True \<and> (\<forall>x \<in> set cs. v x = Inr True \<longrightarrow> x \<le> e)"
proof (induction cs)
  case (Cons c cs)
  show ?case
  proof (cases "v c = Inr True")
    case True
    with Cons.prems show ?thesis by (auto simp: sorted_append)
  next
    case False
    with Cons.prems(1) have "first_valid v cs = Inr e"
      by (auto split: sum.splits bool.splits checkpoint_error.splits)
    moreover have "sorted (rev cs)" using Cons.prems(2) by (simp add: sorted_append)
    ultimately show ?thesis using Cons.IH False by auto
  qed
qed simp

lemma first_valid_Inl:
  "first_valid v cs = Inl NoValidEpoch \<Longrightarrow> \<forall>x \<in> set cs. v x \<noteq> Inl NoValidEpoch \<Longrightarrow>
   \<forall>x \<in> set cs. v x \<noteq> Inr True"
  by (induction cs) (auto split: sum.splits bool.splits checkpoint_error.splits)

lemma candidates_sorted: "sorted (rev (epoch_candidates_newest_first names))"
  by (simp add: epoch_candidates_newest_first_def)

lemma in_candidates: "e \<le> u64_max \<Longrightarrow> pad20 e \<in> set names \<Longrightarrow> e \<in> set (epoch_candidates_newest_first names)"
  using parse_pad20 [of e] by (force simp: epoch_candidates_newest_first_def List.map_filter_def)

lemma candidates_u64: "e \<in> set (epoch_candidates_newest_first names) \<Longrightarrow> e \<le> u64_max"
  by (auto simp: epoch_candidates_newest_first_def List.map_filter_def dest: parse_u64_le)

lemma sealed_manifest: "sealed E f job e \<Longrightarrow> f (manifest_path job e) \<noteq> None"
  by (auto simp: sealed_def split: option.splits)

context ckpt_io
begin

lemma check_snapshots_error: "check_snapshots job e m snaps = Inl x \<Longrightarrow> is_corrupt x"
proof (induction snaps)
  case (Cons snap snaps)
  then show ?case
    by (auto simp: rbind_Inl_iff snapshot_relative_path_def dest: validate_rel_corrupt
        split: option.splits if_splits)
qed simp

lemma identity_error:
  "validate_metadata_identity m job e = Inl x \<Longrightarrow> x \<noteq> NoValidEpoch"
  by (auto simp: validate_metadata_identity_def metadata_validate_def rbind_Inl_iff split: if_splits)

lemma contract_error:
  "validate_checkpoint_metadata_contract E b job e m = Inl x \<Longrightarrow> x \<noteq> NoValidEpoch"
  using check_snapshots_error [of job e m _ x] identity_error [of _ job e x]
  by (auto simp: validate_checkpoint_metadata_contract_def rbind_Inl_iff split: sum.splits)

lemma read_chunk_error:
  "ok s \<Longrightarrow> read_chunk E s base e es acc = Inl x \<Longrightarrow> x \<noteq> NoValidEpoch"
proof (induction es arbitrary: acc)
  case (Cons en es)
  obtain p h where "en = (p, h)" by fastforce
  with Cons show ?case
    using validate_rel_corrupt [of p e x] read_error [of s "base @ ''/'' @ p" x]
    by (auto simp: rbind_Inl_iff split: option.splits)
qed simp

lemma check_chunks_error:
  "ok s \<Longrightarrow> check_chunks E s base e es = Inl x \<Longrightarrow> x \<noteq> NoValidEpoch"
proof (induction "length es" arbitrary: es rule: less_induct)
  case less
  then have "es \<noteq> []" by (auto simp: check_chunks.simps)
  with less(3) have "read_chunk E s base e (take (max (env_width E) 1) es) [] = Inl x
      \<or> check_chunks E s base e (drop (max (env_width E) 1) es) = Inl x"
    by (subst (asm) check_chunks.simps) (auto simp: rbind_Inl_iff split: option.splits if_splits)
  with less(1) [of "drop (max (env_width E) 1) es"] \<open>es \<noteq> []\<close> show ?case
    using read_chunk_error [OF less(2), of base e "take (max (env_width E) 1) es" "[]" x] less(2) by auto
qed

lemma validate_epoch_error:
  assumes "ok s"
  shows "validate_epoch E s job e \<noteq> Inl NoValidEpoch"
    and "validate_epoch_async E s job e \<noteq> Inl NoValidEpoch"
proof -
  have r: "rd E s p \<noteq> Inl NoValidEpoch" for p using read_error [OF assms] by blast
  have c: "validate_checkpoint_metadata_contract E b job e m \<noteq> Inl NoValidEpoch" for b m
    using contract_error by blast
  have "validate_manifest_entries E s base e m \<noteq> Inl NoValidEpoch" for base m
    using check_chunks_error [OF assms] by (auto simp: validate_manifest_entries_def)
  with r c have "validate_checkpoint_manifest E s job e m \<noteq> Inl NoValidEpoch" for m
    by (auto simp: validate_checkpoint_manifest_def rbind_Inl_iff split: option.splits if_splits)
  with r show "validate_epoch E s job e \<noteq> Inl NoValidEpoch"
    by (auto simp: validate_epoch_read rbind_Inl_iff split: option.splits sum.splits)
  have "validate_manifest_entries_async E s base e m \<noteq> Inl NoValidEpoch" for base m
    using read_chunk_error [OF assms, of base e m "[]" NoValidEpoch]
    by (auto simp: validate_manifest_entries_async_def rbind_Inl_iff split: option.splits)
  with r c have "validate_checkpoint_manifest_async E s job e m \<noteq> Inl NoValidEpoch" for m
    by (auto simp: validate_checkpoint_manifest_async_def rbind_Inl_iff split: option.splits if_splits)
  with r show "validate_epoch_async E s job e \<noteq> Inl NoValidEpoch"
    by (auto simp: validate_epoch_async_def rbind_Inl_iff split: option.splits sum.splits)
qed

lemma sealed_listed:
  assumes "ok s" and "path_ok job" and "sealed E (files s) job e" and "e \<le> u64_max"
  shows "\<exists>names. s_list (env_ops E) s (checkpoints_prefix job) = Inr names
    \<and> e \<in> set (epoch_candidates_newest_first names)"
proof -
  let ?p = "checkpoints_prefix job @ ''/'' @ pad20 e @ ''/'' @ ''manifest.sha256''"
  have eq: "?p = manifest_path job e"
    by (simp add: checkpoints_prefix_def manifest_path_def epoch_dir_def)
  have "proper ?p" using proper_file(1) [OF path_ok_epoch_dir [OF assms(2)], of e]
    unfolding eq by (simp add: manifest_path_def)
  moreover have "files s ?p \<noteq> None" using sealed_manifest [OF assms(3)] by (simp only: eq) simp
  ultimately obtain names where "s_list (env_ops E) s (checkpoints_prefix job) = Inr names" "pad20 e \<in> set names"
    using list_children [OF assms(1)] pad20_no_slash by blast
  with in_candidates [OF assms(4)] show ?thesis by blast
qed

lemma latest_max:
  assumes "ok s" and "path_ok job"
    and "latest_valid_epoch E s job = Inr e \<or> latest_valid_epoch_async E s job = Inr e"
  shows "e \<le> u64_max \<and> sealed E (files s) job e \<and> (\<forall>x \<le> u64_max. sealed E (files s) job x \<longrightarrow> x \<le> e)"
proof -
  obtain v names where l: "s_list (env_ops E) s (checkpoints_prefix job) = Inr names"
    and f: "first_valid v (epoch_candidates_newest_first names) = Inr e"
    and v: "\<And>x. v x = Inr True \<longleftrightarrow> sealed E (files s) job x"
    using assms(3) validate_epoch_iff [OF assms(1)]
    by (auto simp: latest_valid_epoch_def latest_valid_epoch_async_def rbind_Inr_iff)
  from first_valid_Inr [OF f candidates_sorted] v candidates_u64 sealed_listed [OF assms(1,2)] l
  show ?thesis by auto
qed

lemma latest_none:
  assumes "ok s" and "path_ok job" and "x \<le> u64_max"
    and "latest_valid_epoch E s job = Inl NoValidEpoch \<or> latest_valid_epoch_async E s job = Inl NoValidEpoch"
  shows "\<not> sealed E (files s) job x"
proof
  assume "sealed E (files s) job x"
  then obtain names where l: "s_list (env_ops E) s (checkpoints_prefix job) = Inr names"
    and x: "x \<in> set (epoch_candidates_newest_first names)"
    and t: "validate_epoch E s job x = Inr True" "validate_epoch_async E s job x = Inr True"
    using sealed_listed assms validate_epoch_iff [OF assms(1)] by blast
  from l assms(4) have "first_valid (validate_epoch E s job) (epoch_candidates_newest_first names) = Inl NoValidEpoch
      \<or> first_valid (validate_epoch_async E s job) (epoch_candidates_newest_first names) = Inl NoValidEpoch"
    by (auto simp: latest_valid_epoch_def latest_valid_epoch_async_def)
  with first_valid_Inl validate_epoch_error [OF assms(1)] x t show False by blast
qed

text \<open>The monotonicity guard of the metadata write, in its synchronous and asynchronous form.\<close>

lemma write_epoch_metadata_cases:
  assumes "ok s" and "path_ok job"
    and "write_epoch_metadata E s job epoch m = (s', r) \<or> write_epoch_metadata_async E s job epoch m = (s', r)"
  shows "(s' = s \<and> r \<noteq> Inr ()) \<or>
    (validate_metadata_identity m job epoch = Inr () \<and> (\<forall>x \<le> u64_max. sealed E (files s) job x \<longrightarrow> x < epoch)
     \<and> (\<exists>json. to_vec_pretty (env_json E) m = Inr json \<and> wr E s (metadata_path job epoch) json = (s', r)))"
proof -
  have none: "\<forall>x \<le> u64_max. sealed E (files s) job x \<longrightarrow> x < epoch"
    if "latest_valid_epoch E s job = Inl NoValidEpoch \<or> latest_valid_epoch_async E s job = Inl NoValidEpoch"
    using latest_none [OF assms(1,2) _ that] by blast
  have some: "\<forall>x \<le> u64_max. sealed E (files s) job x \<longrightarrow> x < epoch"
    if "latest_valid_epoch E s job = Inr l \<or> latest_valid_epoch_async E s job = Inr l" "\<not> epoch \<le> l" for l
    using latest_max [OF assms(1,2) that(1)] that(2) by fastforce
  from assms(3) show ?thesis
    using none some
    by (auto simp: write_epoch_metadata_def write_epoch_metadata_async_def write_metadata_json_def
        split: sum.splits checkpoint_error.splits if_splits)
qed

end

section \<open>Snapshot paths of the engine\<close>

text \<open>The identifiers the engine writes into paths: printable ASCII without separators.\<close>

definition printable :: "string \<Rightarrow> bool" where
  "printable s \<longleftrightarrow> (\<forall>c \<in> set s. 33 \<le> code c \<and> code c \<le> 126 \<and> c \<noteq> CHR 0x5C)"

definition plain_id :: "string \<Rightarrow> bool" where
  "plain_id s \<longleftrightarrow> s \<noteq> [] \<and> printable s \<and> slash \<notin> set s \<and> s \<noteq> ''.'' \<and> s \<noteq> ''..''"

definition plain_rel :: "string \<Rightarrow> bool" where
  "plain_rel rel \<longleftrightarrow> (\<exists>op task. plain_id op \<and> plain_id task \<and> rel = op @ ''/'' @ task @ ''/state.bin'')"

definition snapshots_plain :: "string \<Rightarrow> nat \<Rightarrow> checkpoint_metadata \<Rightarrow> bool" where
  "snapshots_plain job epoch metadata \<longleftrightarrow>
     (\<forall>snap \<in> set (cm_operator_snapshots metadata).
        \<exists>rel. plain_rel rel \<and> os_snapshot_path snap = epoch_dir job epoch @ ''/'' @ rel)"

lemma ws_codes_printable: "\<forall>x \<in> set xs. 33 \<le> x \<and> x \<le> 126 \<Longrightarrow> \<not> ws_codes xs"
  by (induction xs rule: ws_codes.induct) auto

lemma printable_path_ok:
  assumes "printable p" and "p \<noteq> []"
  shows "manifest_path_ok p" and "\<not> has_control p"
proof -
  have ws: "\<not> ws_codes (map code q)" if "set q \<subseteq> set p" for q
  proof (rule ws_codes_printable)
    show "\<forall>x \<in> set (map code q). 33 \<le> x \<and> x \<le> 126"
      using assms(1) that unfolding printable_def set_map by blast
  qed
  have "ws_head p = 0" "ws_last p = 0"
    unfolding ws_head_def ws_last_def using ws [OF set_take_subset] ws [OF set_drop_subset] by simp_all
  moreover have "rust_str p"
  proof (rule ascii_rust_str, rule ballI)
    fix c assume "c \<in> set p"
    with assms(1) have "code c \<le> 126" unfolding printable_def by blast
    then show "code c \<le> 127" by linarith
  qed
  moreover have "newline \<notin> set p"
  proof
    assume "newline \<in> set p"
    with assms(1) have "33 \<le> code newline" unfolding printable_def by blast
    then show False by simp
  qed
  ultimately show "manifest_path_ok p" using assms(2) by (simp add: manifest_path_ok_def)
  have "\<not> has_control q" if "\<forall>c \<in> set q. 33 \<le> code c \<and> code c \<le> 126" for q
    using that by (induction q) auto
  then show "\<not> has_control p" using assms(1) unfolding printable_def by blast
qed

lemma plain_id_path_ok: "plain_id s \<Longrightarrow> path_ok s"
  by (auto simp: plain_id_def intro: path_ok_single)

lemma plain_rel_props:
  assumes "plain_rel rel"
  shows "rel_path_ok rel" and "manifest_path_ok rel" and "proper rel"
    and "rel \<noteq> ''metadata.json''" and "rel \<noteq> ''manifest.sha256''"
proof -
  obtain op task where ids: "plain_id op" "plain_id task" and rel: "rel = op @ slash # (task @ slash # ''state.bin'')"
    using assms by (auto simp: plain_rel_def)
  have "printable rel" using ids unfolding rel plain_id_def printable_def by (simp add: ball_Un)
  moreover have ne: "rel \<noteq> []" by (simp add: rel)
  ultimately show "manifest_path_ok rel" by (rule printable_path_ok(1))
  have nc: "\<not> has_control rel" using \<open>printable rel\<close> ne by (rule printable_path_ok(2))
  show pr: "proper rel"
    unfolding rel by (intro proper_append plain_id_path_ok ids proper_const(4))
  have "slash \<in> set rel" by (simp add: rel)
  then show nm: "rel \<noteq> ''metadata.json''" "rel \<noteq> ''manifest.sha256''" by auto
  have "take 1 rel \<noteq> ''/''" using ids(1) by (cases op) (auto simp: rel plain_id_def)
  then show "rel_path_ok rel"
    using nc nm ne pr \<open>printable rel\<close> by (auto simp: rel_path_ok_def proper_def printable_def)
qed

section \<open>Sealing an epoch\<close>

definition insert_all :: "(bytes \<Rightarrow> bytes) \<Rightarrow> (string \<times> bytes) list \<Rightarrow> integrity_manifest \<Rightarrow> integrity_manifest" where
  "insert_all sha fs m = fold (\<lambda>(rel, data). manifest_insert_bytes sha rel data) fs m"

lemma insert_all_simps [simp]:
  "insert_all sha [] m = m"
  "insert_all sha ((rel, data) # fs) m = insert_all sha fs (manifest_insert_bytes sha rel data m)"
  by (simp_all add: insert_all_def)

lemma insert_bytes_map_of:
  "bt_wf m \<Longrightarrow> map_of (manifest_insert_bytes sha rel data m) = (map_of m)(rel \<mapsto> sha256_hex sha data)"
  "bt_wf m \<Longrightarrow> bt_wf (manifest_insert_bytes sha rel data m)"
  by (simp_all add: manifest_insert_bytes_def manifest_insert_def)

lemma insert_all_wf: "bt_wf m \<Longrightarrow> bt_wf (insert_all sha fs m)"
  by (induction fs arbitrary: m) (auto simp: insert_bytes_map_of)

lemma insert_all_keys:
  "bt_wf m \<Longrightarrow> map_of (insert_all sha fs m) p \<noteq> None \<longleftrightarrow> p \<in> fst ` set fs \<or> map_of m p \<noteq> None"
proof (induction fs arbitrary: m)
  case (Cons x fs)
  obtain rel data where x: "x = (rel, data)" by fastforce
  have "map_of (insert_all sha fs (manifest_insert_bytes sha rel data m)) p \<noteq> None \<longleftrightarrow>
      p \<in> fst ` set fs \<or> map_of (manifest_insert_bytes sha rel data m) p \<noteq> None"
    by (rule Cons.IH) (simp add: insert_bytes_map_of Cons.prems)
  with Cons.prems show ?case by (auto simp: x insert_bytes_map_of)
qed simp

lemma insert_all_entry:
  assumes "(p, h) \<in> set (insert_all sha fs manifest_new)"
  shows "\<exists>d. (p, d) \<in> set fs \<and> h = sha256_hex sha d"
proof -
  have *: "map_of (insert_all sha fs m) p = Some h \<Longrightarrow> bt_wf m \<Longrightarrow>
      map_of m p = Some h \<or> (\<exists>d. (p, d) \<in> set fs \<and> h = sha256_hex sha d)" for m
  proof (induction fs arbitrary: m)
    case (Cons x fs)
    obtain rel data where x: "x = (rel, data)" by fastforce
    with Cons.prems have "map_of (manifest_insert_bytes sha rel data m) p = Some h
        \<or> (\<exists>d. (p, d) \<in> set fs \<and> h = sha256_hex sha d)"
      by (intro Cons.IH) (simp_all add: insert_bytes_map_of)
    with Cons.prems(2) show ?case by (auto simp: x insert_bytes_map_of split: if_splits)
  qed simp
  have wf: "bt_wf manifest_new" by (simp add: manifest_new_def)
  have "distinct (map fst (insert_all sha fs manifest_new))"
    using bt_wf_amap_wf [OF insert_all_wf [OF wf]] by (simp add: amap_wf_def)
  then have "map_of (insert_all sha fs manifest_new) p = Some h" using assms by simp
  from * [OF this wf] show ?thesis by (simp add: manifest_new_def)
qed

definition files_good :: "(string \<Rightarrow> bytes option) \<Rightarrow> string \<Rightarrow> (string \<times> bytes) list \<Rightarrow> bool" where
  "files_good f base fs \<longleftrightarrow> ''metadata.json'' \<in> fst ` set fs
     \<and> (\<forall>(rel, d) \<in> set fs. rel_path_ok rel \<and> manifest_path_ok rel \<and> f (base @ ''/'' @ rel) = Some d)"

lemma files_good_entries:
  fixes E :: "'s ckpt_env"
  assumes "files_good f base fs"
  defines "m \<equiv> insert_all (env_sha E) fs manifest_new"
  shows "manifest_contains m ''metadata.json''" and "\<forall>e \<in> set m. entry_ok E f base e"
    and "manifest_deserialize (manifest_serialize m) = Inr m"
proof -
  have wf: "bt_wf manifest_new" by (simp add: manifest_new_def)
  show "manifest_contains m ''metadata.json''"
    using assms insert_all_keys [OF wf] by (simp add: manifest_contains_def m_def files_good_def)
  have e: "rel_path_ok p \<and> manifest_path_ok p \<and> hex_ok h \<and> (\<exists>d. f (base @ ''/'' @ p) = Some d \<and> h = sha256_hex (env_sha E) d)"
    if "(p, h) \<in> set m" for p h
    using insert_all_entry [of p h "env_sha E" fs] that assms(1) unfolding m_def files_good_def by auto
  then show "\<forall>e \<in> set m. entry_ok E f base e" by (fastforce simp: entry_ok_def)
  have "manifest_ok m"
    unfolding manifest_ok_def using e insert_all_wf [OF wf] by (auto simp: m_def)
  then show "manifest_deserialize (manifest_serialize m) = Inr m" by (rule manifest_roundtrip)
qed

lemma seal_intro:
  assumes good: "files_good f (epoch_dir job epoch) fs"
    and man: "f (manifest_path job epoch) = Some (manifest_serialize (insert_all (env_sha E) fs manifest_new))"
    and meta: "f (metadata_path job epoch) = Some b" "from_slice (env_json E) b = Inr md"
      "validate_metadata_identity md job epoch = Inr ()"
    and snaps: "\<And>snap. snap \<in> set (cm_operator_snapshots md) \<Longrightarrow>
      \<exists>rel. rel \<in> fst ` set fs \<and> os_snapshot_path snap = epoch_dir job epoch @ ''/'' @ rel"
  shows "sealed E f job epoch"
proof -
  let ?m = "insert_all (env_sha E) fs manifest_new"
  have "snapshot_covered job epoch ?m snap" if s: "snap \<in> set (cm_operator_snapshots md)" for snap
  proof -
    from snaps [OF s] obtain rel where rel: "rel \<in> fst ` set fs"
      and p: "os_snapshot_path snap = (epoch_dir job epoch @ ''/'') @ rel" by auto
    have "rel_path_ok rel" using rel good by (auto simp: files_good_def)
    moreover have "manifest_contains ?m rel"
      using rel insert_all_keys [of manifest_new] by (simp add: manifest_contains_def manifest_new_def)
    ultimately show ?thesis unfolding snapshot_covered_def p strip_prefix_append by simp
  qed
  then show ?thesis
    using files_good_entries [OF good, of E] man meta by (simp add: sealed_def metadata_sealed_def)
qed

section \<open>Sequences of writes and savepoints\<close>

definition in_dir :: "string \<Rightarrow> (string \<times> bytes) list \<Rightarrow> (string \<times> bytes) list" where
  "in_dir dir fs = map (\<lambda>(rel, data). (dir @ ''/'' @ rel, data)) fs"

text \<open>Files written for an epoch: clean names, and one content for each name.\<close>

definition writes_ok :: "(string \<times> bytes) list \<Rightarrow> bool" where
  "writes_ok fs \<longleftrightarrow> (\<forall>(rel, d) \<in> set fs. proper rel \<and> (\<forall>(rel', d') \<in> set fs. rel = rel' \<longrightarrow> d = d'))"

definition rel_of :: "string \<Rightarrow> nat \<Rightarrow> operator_snapshot_ref \<Rightarrow> string" where
  "rel_of job epoch snap = drop (length (epoch_dir job epoch) + 1) (os_snapshot_path snap)"

definition copies :: "string \<Rightarrow> nat \<Rightarrow> (string \<Rightarrow> bytes option) \<Rightarrow> string \<Rightarrow> operator_snapshot_ref list \<Rightarrow>
    (string \<times> bytes) list" where
  "copies job epoch f base snaps =
     map (\<lambda>snap. (rel_of job epoch snap, the (f (base @ ''/'' @ rel_of job epoch snap)))) snaps"

lemma snapshot_rel_iff:
  "snapshot_relative_path job epoch snap = Inr rel \<longleftrightarrow>
   os_snapshot_path snap = epoch_dir job epoch @ ''/'' @ rel \<and> rel = rel_of job epoch snap"
proof -
  have "snapshot_relative_path job epoch snap = Inr rel \<longleftrightarrow>
      strip_prefix (epoch_dir job epoch @ ''/'') (os_snapshot_path snap) = Some rel"
    by (auto simp: snapshot_relative_path_def split: option.splits)
  then show ?thesis unfolding strip_prefix_Some by (auto simp: rel_of_def)
qed

lemma insert_all_append: "insert_all sha (xs @ ys) m = insert_all sha ys (insert_all sha xs m)"
  by (simp add: insert_all_def)

context ckpt_io
begin

lemma write_all_frame:
  assumes "ok s" and "write_all E s (in_dir dir fs) = (s', r)" and "path_ok dir" and "\<forall>(rel, d) \<in> set fs. proper rel"
  shows "ok s' \<and> (\<forall>q. path_ok q \<longrightarrow> \<not> below dir q \<longrightarrow> files s' q = files s q)
    \<and> (\<forall>q. proper q \<longrightarrow> q \<notin> fst ` set (in_dir dir fs) \<longrightarrow> files s' q = files s q)"
  using assms
proof (induction fs arbitrary: s)
  case (Cons x fs)
  obtain rel d where x: "x = (rel, d)" by fastforce
  let ?p = "dir @ slash # rel"
  have pr: "proper ?p" using Cons.prems(3,4) by (auto simp: x intro: proper_append)
  obtain s1 r1 where w: "wr E s ?p d = (s1, r1)" by fastforce
  note at = write_atomic [OF Cons.prems(1) pr w] and loc = write_local [OF Cons.prems(1) pr w]
  have out: "files s1 q = files s q" if "path_ok q" "\<not> below dir q" for q
    using loc [OF that(1)] dir_of_below [of q dir rel] that(2) by metis
  show ?case
  proof (cases r1)
    case (Inl e)
    with w Cons.prems(2) have "s' = s1" by (simp add: x in_dir_def)
    with at out show ?thesis by (auto simp: x in_dir_def)
  next
    case (Inr u)
    with w Cons.prems(2) have "write_all E s1 (in_dir dir fs) = (s', r)" by (simp add: x in_dir_def)
    with Cons.IH [of s1] Cons.prems at have ih: "ok s' \<and> (\<forall>q. path_ok q \<longrightarrow> \<not> below dir q \<longrightarrow> files s' q = files s1 q)
      \<and> (\<forall>q. proper q \<longrightarrow> q \<notin> fst ` set (in_dir dir fs) \<longrightarrow> files s' q = files s1 q)" by simp
    have "files s' q = files s q" if "proper q" "q \<notin> fst ` set (in_dir dir (x # fs))" for q
    proof -
      have "q \<noteq> ?p" "q \<notin> fst ` set (in_dir dir fs)" using that(2) by (simp_all add: x in_dir_def)
      with ih at that(1) show ?thesis by auto
    qed
    with ih out show ?thesis by simp
  qed
qed (simp add: in_dir_def)

lemma write_all_done:
  assumes "ok s" and "write_all E s (in_dir dir fs) = (s', Inr ())" and "path_ok dir" and "writes_ok fs"
  shows "\<forall>(rel, d) \<in> set fs. files s' (dir @ ''/'' @ rel) = Some d"
  using assms
proof (induction fs arbitrary: s)
  case (Cons x fs)
  obtain rel d where x: "x = (rel, d)" by fastforce
  let ?p = "dir @ slash # rel"
  have pr: "proper rel" using Cons.prems(4) by (auto simp: x writes_ok_def)
  then have pp: "proper ?p" using Cons.prems(3) by (rule proper_append [rotated])
  obtain s1 r1 where w: "wr E s ?p d = (s1, r1)" by fastforce
  with Cons.prems(2) have r1: "r1 = Inr ()" and rest: "write_all E s1 (in_dir dir fs) = (s', Inr ())"
    by (auto simp: x in_dir_def split: sum.splits)
  note at = write_atomic [OF Cons.prems(1) pp w]
  have wok: "writes_ok fs" using Cons.prems(4) by (auto simp: writes_ok_def)
  have ih: "\<forall>(rel, d) \<in> set fs. files s' (dir @ ''/'' @ rel) = Some d"
    using Cons.IH rest at Cons.prems(3) wok by blast
  have "files s' ?p = Some d"
  proof (cases "rel \<in> fst ` set fs")
    case True
    then obtain d' where d': "(rel, d') \<in> set fs" by auto
    with Cons.prems(4) have "d = d'" by (fastforce simp: x writes_ok_def)
    with ih d' show ?thesis by auto
  next
    case False
    then have "?p \<notin> fst ` set (in_dir dir fs)" by (force simp: in_dir_def)
    moreover have "\<forall>(rel, d) \<in> set fs. proper rel" using wok by (auto simp: writes_ok_def)
    ultimately have "files s' ?p = files s1 ?p"
      using write_all_frame [OF _ rest Cons.prems(3)] at pp by blast
    then show ?thesis using at r1 by simp
  qed
  with ih show ?case by (auto simp: x)
qed simp

lemma copy_for_restore_iff:
  assumes "ok s"
  shows "copy_for_restore E s job epoch sm snaps m fl = Inr (m', fl') \<longleftrightarrow>
    (\<forall>snap \<in> set snaps. os_snapshot_path snap = epoch_dir job epoch @ ''/'' @ rel_of job epoch snap
       \<and> manifest_contains sm (rel_of job epoch snap)
       \<and> files s (savepoint_epoch_dir job epoch @ ''/'' @ rel_of job epoch snap) \<noteq> None)
    \<and> m' = insert_all (env_sha E) (copies job epoch (files s) (savepoint_epoch_dir job epoch) snaps) m
    \<and> fl' = fl @ copies job epoch (files s) (savepoint_epoch_dir job epoch) snaps"
proof (induction snaps arbitrary: m fl)
  case (Cons snap snaps)
  let ?rel = "rel_of job epoch snap" and ?f = "files s (savepoint_epoch_dir job epoch @ ''/'' @ rel_of job epoch snap)"
  have "copy_for_restore E s job epoch sm (snap # snaps) m fl = Inr (m', fl') \<longleftrightarrow>
     os_snapshot_path snap = epoch_dir job epoch @ ''/'' @ ?rel \<and> manifest_contains sm ?rel
     \<and> (\<exists>data. ?f = Some data \<and>
         copy_for_restore E s job epoch sm snaps (manifest_insert_bytes (env_sha E) ?rel data m) (fl @ [(?rel, data)])
         = Inr (m', fl'))"
    using read_iff [OF assms, of "savepoint_epoch_dir job epoch @ ''/'' @ ?rel"]
    by (auto simp: rbind_Inr_iff snapshot_rel_iff split: if_splits option.splits)
  then show ?case unfolding Cons.IH by (cases ?f) (auto simp: copies_def)
qed (auto simp: copies_def)

lemma copy_for_savepoint_iff:
  assumes "ok s"
  shows "copy_for_savepoint E s job epoch sm snaps m fl = Inr (m', fl') \<longleftrightarrow>
    (\<forall>snap \<in> set snaps. os_snapshot_path snap = epoch_dir job epoch @ ''/'' @ rel_of job epoch snap
       \<and> (\<exists>d. files s (epoch_dir job epoch @ ''/'' @ rel_of job epoch snap) = Some d
            \<and> manifest_verify (env_sha E) sm (rel_of job epoch snap) d))
    \<and> m' = insert_all (env_sha E) (copies job epoch (files s) (epoch_dir job epoch) snaps) m
    \<and> fl' = fl @ copies job epoch (files s) (epoch_dir job epoch) snaps"
proof (induction snaps arbitrary: m fl)
  case (Cons snap snaps)
  let ?rel = "rel_of job epoch snap" and ?f = "files s (epoch_dir job epoch @ ''/'' @ rel_of job epoch snap)"
  have "copy_for_savepoint E s job epoch sm (snap # snaps) m fl = Inr (m', fl') \<longleftrightarrow>
     os_snapshot_path snap = epoch_dir job epoch @ ''/'' @ ?rel
     \<and> (\<exists>data. ?f = Some data \<and> manifest_verify (env_sha E) sm ?rel data \<and>
         copy_for_savepoint E s job epoch sm snaps (manifest_insert_bytes (env_sha E) ?rel data m) (fl @ [(?rel, data)])
         = Inr (m', fl'))"
    using read_iff [OF assms, of "epoch_dir job epoch @ ''/'' @ ?rel"]
    by (auto simp: rbind_Inr_iff snapshot_rel_iff split: if_splits option.splits)
  then show ?case unfolding Cons.IH by (cases ?f) (auto simp: copies_def)
qed (auto simp: copies_def)

end

section \<open>What a savepoint restores\<close>

definition savepoint_manifest_ok :: "'s ckpt_env \<Rightarrow> (string \<Rightarrow> bytes option) \<Rightarrow> string \<Rightarrow>
    integrity_manifest \<Rightarrow> bool" where
  "savepoint_manifest_ok E f dir m \<longleftrightarrow>
     (\<exists>b. f (dir @ ''/manifest.sha256'') = Some b \<and> manifest_deserialize b = Inr m)
     \<and> manifest_contains m ''metadata.json'' \<and> (\<forall>e \<in> set m. entry_ok E f dir e)"

definition restorable :: "'s ckpt_env \<Rightarrow> (string \<Rightarrow> bytes option) \<Rightarrow> string \<Rightarrow> nat \<Rightarrow> nat \<Rightarrow>
    checkpoint_metadata \<Rightarrow> bytes \<Rightarrow> bool" where
  "restorable E f job epoch token md b \<longleftrightarrow>
     (\<exists>m. savepoint_manifest_ok E f (savepoint_epoch_dir job epoch) m
        \<and> (\<forall>snap \<in> set (cm_operator_snapshots md).
             os_snapshot_path snap = epoch_dir job epoch @ ''/'' @ rel_of job epoch snap
             \<and> manifest_contains m (rel_of job epoch snap)))
     \<and> f (savepoint_epoch_dir job epoch @ ''/metadata.json'') = Some b \<and> from_slice (env_json E) b = Inr md
     \<and> validate_metadata_identity md job epoch = Inr () \<and> cm_fencing_token md \<le> token"

definition epoch_files :: "string \<Rightarrow> nat \<Rightarrow> (string \<Rightarrow> bytes option) \<Rightarrow> string \<Rightarrow> bytes \<Rightarrow>
    checkpoint_metadata \<Rightarrow> (string \<times> bytes) list" where
  "epoch_files job epoch f base b md =
     (''metadata.json'', b) # copies job epoch f base (cm_operator_snapshots md)"

definition with_manifest :: "(bytes \<Rightarrow> bytes) \<Rightarrow> (string \<times> bytes) list \<Rightarrow> (string \<times> bytes) list" where
  "with_manifest sha fs = fs @ [(''manifest.sha256'', manifest_serialize (insert_all sha fs manifest_new))]"

lemma rbind_check_iff:
  "rbind r (\<lambda>good. if \<not> good then Inl e else x) = Inr v \<longleftrightarrow> r = Inr True \<and> x = Inr v"
  by (cases r) auto

lemma case_sum_Inr_iff:
  "(case x of Inl e \<Rightarrow> Inl (f e) | Inr a \<Rightarrow> g a) = Inr v \<longleftrightarrow> (\<exists>a. x = Inr a \<and> g a = Inr v)"
  by (cases x) auto

lemma rbind_unit_iff: "rbind r (\<lambda>_. x) = Inr v \<longleftrightarrow> r = Inr () \<and> x = Inr v"
  by (cases r) auto

lemma restore_token_iff:
  "validate_fencing_token_for_restore md token = Inr () \<longleftrightarrow> cm_fencing_token md \<le> token"
  by (auto simp: validate_fencing_token_for_restore_def)

lemma metadata_json_ok: "rel_path_ok ''metadata.json''" "manifest_path_ok ''metadata.json''"
proof -
  have p: "printable ''metadata.json''" by (simp add: printable_def)
  show m: "manifest_path_ok ''metadata.json''" using printable_path_ok(1) [OF p] by simp
  have "\<not> has_control ''metadata.json''" using printable_path_ok(2) [OF p] by simp
  moreover have "path_ok ''metadata.json''" using proper_const(2) by (simp add: proper_def)
  ultimately show "rel_path_ok ''metadata.json''" by (simp add: rel_path_ok_def del: has_control.simps)
qed

lemma plain_rel_of:
  assumes "snapshots_plain job epoch md" and "snap \<in> set (cm_operator_snapshots md)"
  shows "plain_rel (rel_of job epoch snap)"
    and "os_snapshot_path snap = epoch_dir job epoch @ ''/'' @ rel_of job epoch snap"
proof -
  obtain rel where "plain_rel rel" "os_snapshot_path snap = epoch_dir job epoch @ ''/'' @ rel"
    using assms by (auto simp: snapshots_plain_def)
  moreover from this have "rel_of job epoch snap = rel" by (simp add: rel_of_def)
  ultimately show "plain_rel (rel_of job epoch snap)"
    and "os_snapshot_path snap = epoch_dir job epoch @ ''/'' @ rel_of job epoch snap" by simp_all
qed

lemma copies_elem:
  "(rel, d) \<in> set (copies job epoch f base snaps) \<Longrightarrow>
   \<exists>snap \<in> set snaps. rel = rel_of job epoch snap \<and> d = the (f (base @ ''/'' @ rel))"
  by (auto simp: copies_def)

lemma with_manifest_elem:
  assumes "snapshots_plain job epoch md"
    and "(rel, d) \<in> set (with_manifest sha (epoch_files job epoch f base b md))"
  shows "rel = ''metadata.json'' \<and> d = b
    \<or> rel = ''manifest.sha256'' \<and> d = manifest_serialize (insert_all sha (epoch_files job epoch f base b md) manifest_new)
    \<or> plain_rel rel \<and> d = the (f (base @ ''/'' @ rel))"
  using assms(2) copies_elem [of rel d job epoch f base "cm_operator_snapshots md"] plain_rel_of(1) [OF assms(1)]
  by (auto simp: with_manifest_def epoch_files_def)

lemma writes_ok_with_manifest:
  assumes "snapshots_plain job epoch md"
  shows "writes_ok (with_manifest sha (epoch_files job epoch f base b md))"
proof -
  let ?fs = "with_manifest sha (epoch_files job epoch f base b md)"
  have "proper rel" if "(rel, d) \<in> set ?fs" for rel d
    using with_manifest_elem [OF assms that] plain_rel_props(3) proper_const by blast
  moreover have "d = d'" if "(rel, d) \<in> set ?fs" "(rel, d') \<in> set ?fs" for rel d d'
    using with_manifest_elem [OF assms that(1)] with_manifest_elem [OF assms that(2)]
      plain_rel_props(4,5) [of rel] by auto
  ultimately show ?thesis unfolding writes_ok_def by blast
qed

context ckpt_io
begin

lemma installed:
  assumes "ok s" and "path_ok dir" and "snapshots_plain job epoch md"
    and "write_all E s (in_dir dir (with_manifest (env_sha E) (epoch_files job epoch f base b md))) = (s', Inr ())"
  shows "files_good (files s') dir (epoch_files job epoch f base b md)"
    and "files s' (dir @ ''/manifest.sha256'') =
      Some (manifest_serialize (insert_all (env_sha E) (epoch_files job epoch f base b md) manifest_new))"
    and "files s' (dir @ ''/metadata.json'') = Some b"
    and "\<forall>snap \<in> set (cm_operator_snapshots md).
      files s' (dir @ ''/'' @ rel_of job epoch snap) = Some (the (f (base @ ''/'' @ rel_of job epoch snap)))"
proof -
  let ?fs = "epoch_files job epoch f base b md"
  have d: "\<forall>(rel, d) \<in> set (with_manifest (env_sha E) ?fs). files s' (dir @ ''/'' @ rel) = Some d"
    using write_all_done [OF assms(1,4,2) writes_ok_with_manifest [OF assms(3)]] .
  then show "files s' (dir @ ''/manifest.sha256'') = Some (manifest_serialize (insert_all (env_sha E) ?fs manifest_new))"
    "files s' (dir @ ''/metadata.json'') = Some b"
    "\<forall>snap \<in> set (cm_operator_snapshots md).
      files s' (dir @ ''/'' @ rel_of job epoch snap) = Some (the (f (base @ ''/'' @ rel_of job epoch snap)))"
    by (auto simp: with_manifest_def epoch_files_def copies_def)
  have "rel_path_ok rel \<and> manifest_path_ok rel" if r: "(rel, d) \<in> set ?fs" for rel d
  proof -
    have "rel = ''metadata.json'' \<or> plain_rel rel"
      using r copies_elem [of rel d job epoch f base "cm_operator_snapshots md"] plain_rel_of(1) [OF assms(3)]
      by (auto simp: epoch_files_def)
    then show ?thesis using metadata_json_ok plain_rel_props by blast
  qed
  moreover have "''metadata.json'' \<in> fst ` set ?fs" by (simp add: epoch_files_def)
  moreover have "files s' (dir @ ''/'' @ rel) = Some x" if "(rel, x) \<in> set ?fs" for rel x
    using d that unfolding with_manifest_def set_append by blast
  ultimately show "files_good (files s') dir ?fs" unfolding files_good_def by blast
qed

lemma needed_read_iff:
  assumes "ok s"
  shows "rbind (rd E s p) (\<lambda>r. case r of None \<Rightarrow> Inl e | Some b \<Rightarrow> g b) = Inr v \<longleftrightarrow>
    (\<exists>b. files s p = Some b \<and> g b = Inr v)"
proof (cases "files s p")
  case None
  then have "rd E s p = Inr r \<Longrightarrow> r = None" for r using read_absent [OF assms] by blast
  with None show ?thesis by (cases "rd E s p") auto
next
  case (Some b)
  then have "rd E s p = Inr (Some b)" using read_present [OF assms] by blast
  with Some show ?thesis by simp
qed

lemma required_manifest_iff:
  assumes "ok s"
  shows "read_required_manifest E s p epoch = Inr m \<longleftrightarrow>
    (\<exists>b. files s p = Some b \<and> manifest_deserialize b = Inr m)"
proof (cases "files s p")
  case None
  then have "rd E s p = Inr r \<Longrightarrow> r = None" for r using read_absent [OF assms] by blast
  with None show ?thesis
    by (cases "rd E s p") (auto simp: read_required_manifest_def read_optional_manifest_def)
next
  case (Some b)
  then have "rd E s p = Inr (Some b)" using read_present [OF assms] by blast
  with Some show ?thesis
    by (auto simp: read_required_manifest_def read_optional_manifest_def split: sum.splits)
qed

lemma manifest_missing_iff:
  "(case r of Inl NoValidEpoch \<Rightarrow> Inl e | x \<Rightarrow> x) = Inr m \<longleftrightarrow> r = Inr m"
  by (auto split: sum.splits checkpoint_error.splits)

lemma restore_plan_iff:
  assumes "ok s"
  shows "restore_plan E s job epoch token = Inr (md, b, m, fl) \<longleftrightarrow>
    restorable E (files s) job epoch token md b
    \<and> (''metadata.json'', b) # fl = epoch_files job epoch (files s) (savepoint_epoch_dir job epoch) b md
    \<and> m = insert_all (env_sha E) ((''metadata.json'', b) # fl) manifest_new"
proof -
  let ?dir = "savepoint_epoch_dir job epoch"
  have present: "files s (?dir @ ''/'' @ rel) \<noteq> None"
    if en: "\<forall>e \<in> set sm. entry_ok E (files s) ?dir e" and co: "manifest_contains sm rel" for sm rel
  proof -
    obtain h where "(rel, h) \<in> set sm" using co by (auto simp: manifest_contains_def dest: map_of_SomeD)
    with en show ?thesis using entry_ok_present by fastforce
  qed
  have "restore_plan E s job epoch token = Inr (md, b, m, fl) \<longleftrightarrow>
    (\<exists>sm. savepoint_manifest_ok E (files s) ?dir sm \<and> files s (?dir @ ''/metadata.json'') = Some b
      \<and> from_slice (env_json E) b = Inr md \<and> validate_metadata_identity md job epoch = Inr ()
      \<and> cm_fencing_token md \<le> token
      \<and> copy_for_restore E s job epoch sm (cm_operator_snapshots md)
          (manifest_insert_bytes (env_sha E) ''metadata.json'' b manifest_new) [] = Inr (m, fl))"
    unfolding restore_plan_def Let_def rbind_Inr_iff [of "case_sum _ _ _"] manifest_missing_iff
      required_manifest_iff [OF assms] rbind_check_iff entries_iff(1) [OF assms] needed_read_iff [OF assms]
      case_sum_Inr_iff rbind_unit_iff restore_token_iff rbind_Inr_iff [of "copy_for_restore _ _ _ _ _ _ _ _"]
      savepoint_manifest_ok_def
    by auto
  then show ?thesis
    unfolding copy_for_restore_iff [OF assms] restorable_def epoch_files_def savepoint_manifest_ok_def
    using present by auto
qed

end

lemma identity_iff:
  "validate_metadata_identity m job epoch = Inr () \<longleftrightarrow>
   MIN_SUPPORTED_VERSION \<le> cm_version m \<and> cm_version m \<le> METADATA_VERSION \<and> cm_job_id m = job \<and> cm_epoch m = epoch"
  by (auto simp: validate_metadata_identity_def metadata_validate_def)

lemma writes_ok_proper: "writes_ok fs \<Longrightarrow> \<forall>(rel, d) \<in> set fs. proper rel"
  by (auto simp: writes_ok_def)

lemma rbind_needed_iff:
  "rbind x (\<lambda>r. case r of None \<Rightarrow> Inl e | Some a \<Rightarrow> g a) = Inr v \<longleftrightarrow> (\<exists>a. x = Inr (Some a) \<and> g a = Inr v)"
  by (auto simp: rbind_Inr_iff split: option.splits)

context ckpt_io
begin

lemma epoch_metadata_iff:
  assumes "ok s"
  shows "read_epoch_metadata E s job epoch = Inr (Some md) \<longleftrightarrow>
    (\<exists>b. files s (metadata_path job epoch) = Some b \<and> from_slice (env_json E) b = Inr md)"
proof (cases "files s (metadata_path job epoch)")
  case None
  then have "rd E s (metadata_path job epoch) = Inr r \<Longrightarrow> r = None" for r using read_absent [OF assms] by blast
  with None show ?thesis by (cases "rd E s (metadata_path job epoch)") (auto simp: read_epoch_metadata_def)
next
  case (Some b)
  then have "rd E s (metadata_path job epoch) = Inr (Some b)" using read_present [OF assms] by blast
  with Some show ?thesis by (auto simp: read_epoch_metadata_def split: sum.splits)
qed

lemma savepoint_plan_elim:
  assumes "ok s" and "savepoint_plan E s job epoch label = Inr (md, b, m, fl)"
  obtains sm md0 where
    "md = md0\<lparr>cm_is_savepoint := True, cm_savepoint_label := label\<rparr>"
    "validate_metadata_identity md0 job epoch = Inr ()" "to_vec_pretty (env_json E) md = Inr b"
    "read_epoch_metadata E s job epoch = Inr (Some md0)"
    "\<forall>snap \<in> set (cm_operator_snapshots md). os_snapshot_path snap = epoch_dir job epoch @ ''/'' @ rel_of job epoch snap
       \<and> (\<exists>d. files s (epoch_dir job epoch @ ''/'' @ rel_of job epoch snap) = Some d
            \<and> manifest_verify (env_sha E) sm (rel_of job epoch snap) d)"
    "(''metadata.json'', b) # fl = epoch_files job epoch (files s) (epoch_dir job epoch) b md"
    "m = insert_all (env_sha E) ((''metadata.json'', b) # fl) manifest_new"
proof -
  from assms(2) obtain sm md0 where
    md0: "read_epoch_metadata E s job epoch = Inr (Some md0)" "validate_metadata_identity md0 job epoch = Inr ()"
      "to_vec_pretty (env_json E) (md0\<lparr>cm_is_savepoint := True, cm_savepoint_label := label\<rparr>) = Inr b"
      "md = md0\<lparr>cm_is_savepoint := True, cm_savepoint_label := label\<rparr>"
      "copy_for_savepoint E s job epoch sm (cm_operator_snapshots md)
         (manifest_insert_bytes (env_sha E) ''metadata.json'' b manifest_new) [] = Inr (m, fl)"
    unfolding savepoint_plan_def Let_def rbind_Inr_iff [of "read_required_manifest _ _ _ _"] rbind_needed_iff
      rbind_unit_iff case_sum_Inr_iff rbind_Inr_iff [of "copy_for_savepoint _ _ _ _ _ _ _ _"]
    by auto
  with that [of md0 sm] show thesis
    unfolding copy_for_savepoint_iff [OF assms(1)] epoch_files_def by simp
qed

lemma write_list:
  "[(dir @ ''/metadata.json'', b)] @ map (\<lambda>(rel, data). (dir @ ''/'' @ rel, data)) fl
    @ [(dir @ ''/manifest.sha256'', manifest_serialize (insert_all sha ((''metadata.json'', b) # fl) manifest_new))]
   = in_dir dir (with_manifest sha ((''metadata.json'', b) # fl))"
  by (simp add: in_dir_def with_manifest_def)

lemma restore_savepoint_run:
  assumes "ok s" and "restorable E (files s) job epoch token md b"
  shows "restore_savepoint E s job epoch token =
    (case write_all E s (in_dir (epoch_dir job epoch)
        (with_manifest (env_sha E) (epoch_files job epoch (files s) (savepoint_epoch_dir job epoch) b md))) of
       (s', Inl e) \<Rightarrow> (s', Inl e) | (s', Inr _) \<Rightarrow> (s', Inr md))"
proof -
  let ?fl = "copies job epoch (files s) (savepoint_epoch_dir job epoch) (cm_operator_snapshots md)"
  have "restore_plan E s job epoch token =
      Inr (md, b, insert_all (env_sha E) ((''metadata.json'', b) # ?fl) manifest_new, ?fl)"
    unfolding restore_plan_iff [OF assms(1)] using assms(2) by (simp add: epoch_files_def)
  then show ?thesis
    unfolding restore_savepoint_def manifest_path_def epoch_files_def
    by (simp only: sum.case prod.case write_list)
qed

lemma restore_savepoint_inv:
  assumes "ok s" and "restore_savepoint E s job epoch token = (s', Inr md)"
  shows "\<exists>b. restorable E (files s) job epoch token md b"
proof -
  obtain md' b m fl where p: "restore_plan E s job epoch token = Inr (md', b, m, fl)"
    using assms(2) by (cases "restore_plan E s job epoch token") (auto simp: restore_savepoint_def)
  with assms(2) have "md' = md" by (auto simp: restore_savepoint_def split: prod.splits sum.splits)
  with p show ?thesis unfolding restore_plan_iff [OF assms(1)] by blast
qed

lemma restore_sealed:
  assumes "ok s" and "path_ok job" and "epoch \<le> u64_max"
    and "restore_savepoint E s job epoch token = (s', Inr md)" and "snapshots_plain job epoch md"
  shows "ok s'" and "sealed E (files s') job epoch" and "cm_fencing_token md \<le> token"
    and "read_epoch_metadata E s' job epoch = Inr (Some md)"
    and "\<forall>snap \<in> set (cm_operator_snapshots md). files s' (os_snapshot_path snap) \<noteq> None
      \<and> files s' (os_snapshot_path snap) = files s (savepoint_epoch_dir job epoch @ ''/'' @ rel_of job epoch snap)"
    and "x \<le> u64_max \<Longrightarrow> x \<noteq> epoch \<Longrightarrow> sealed E (files s') job x \<longleftrightarrow> sealed E (files s) job x"
proof -
  let ?sp = "savepoint_epoch_dir job epoch" and ?dir = "epoch_dir job epoch"
  obtain b where r: "restorable E (files s) job epoch token md b"
    using restore_savepoint_inv [OF assms(1,4)] by blast
  let ?fs = "epoch_files job epoch (files s) ?sp b md"
  from assms(4) restore_savepoint_run [OF assms(1) r]
  have w: "write_all E s (in_dir ?dir (with_manifest (env_sha E) ?fs)) = (s', Inr ())"
    by (auto split: prod.splits sum.splits)
  have dir: "path_ok ?dir" using assms(2) by (rule path_ok_epoch_dir)
  have pr: "\<forall>(rel, d) \<in> set (with_manifest (env_sha E) ?fs). proper rel"
    by (rule writes_ok_proper [OF writes_ok_with_manifest [OF assms(5)]])
  note fr = write_all_frame [OF assms(1) w dir pr]
  show ok': "ok s'" using fr by blast
  note inst = installed [OF assms(1) dir assms(5) w]
  have md: "from_slice (env_json E) b = Inr md" "validate_metadata_identity md job epoch = Inr ()"
    using r by (simp_all add: restorable_def)
  show "cm_fencing_token md \<le> token" using r by (simp add: restorable_def)
  show "read_epoch_metadata E s' job epoch = Inr (Some md)"
    unfolding epoch_metadata_iff [OF ok'] metadata_path_def using inst(3) md(1) by blast
  show "sealed E (files s') job epoch"
  proof (rule seal_intro [OF inst(1)])
    show "\<exists>rel. rel \<in> fst ` set ?fs \<and> os_snapshot_path snap = ?dir @ ''/'' @ rel"
      if "snap \<in> set (cm_operator_snapshots md)" for snap
      using plain_rel_of(2) [OF assms(5) that] that
      by (intro exI [of _ "rel_of job epoch snap"]) (force simp: epoch_files_def copies_def)
  qed (use inst md in \<open>simp_all add: manifest_path_def metadata_path_def\<close>)
  show "\<forall>snap \<in> set (cm_operator_snapshots md). files s' (os_snapshot_path snap) \<noteq> None
      \<and> files s' (os_snapshot_path snap) = files s (?sp @ ''/'' @ rel_of job epoch snap)"
  proof
    fix snap assume sn: "snap \<in> set (cm_operator_snapshots md)"
    obtain sm where sm: "savepoint_manifest_ok E (files s) ?sp sm" "manifest_contains sm (rel_of job epoch snap)"
      using r sn unfolding restorable_def by blast
    then obtain h where "(rel_of job epoch snap, h) \<in> set sm"
      by (auto simp: manifest_contains_def dest: map_of_SomeD)
    with sm(1) have "files s (?sp @ ''/'' @ rel_of job epoch snap) \<noteq> None"
      using entry_ok_present [of s ?sp] by (fastforce simp: savepoint_manifest_ok_def)
    with inst(4) sn plain_rel_of(2) [OF assms(5) sn]
    show "files s' (os_snapshot_path snap) \<noteq> None
      \<and> files s' (os_snapshot_path snap) = files s (?sp @ ''/'' @ rel_of job epoch snap)" by auto
  qed
  show "sealed E (files s') job x \<longleftrightarrow> sealed E (files s) job x" if "x \<le> u64_max" "x \<noteq> epoch"
    using fr epoch_dirs_apart [of job x _ epoch] that assms(3) by (intro sealed_cong [OF assms(2)]) blast
qed

end

context ckpt_io
begin

lemma create_savepoint_inv:
  assumes "ok s" and "path_ok job" and "create_savepoint_at_epoch E s job epoch label = (s1, Inr (e', md))"
    and "snapshots_plain job epoch md"
    and json: "codec_ok (env_json E)"
  shows "e' = epoch" and "cm_is_savepoint md" and "cm_savepoint_label md = label"
    and "\<exists>b. restorable E (files s1) job epoch (cm_fencing_token md) md b"
    and "\<forall>snap \<in> set (cm_operator_snapshots md).
      files s1 (savepoint_epoch_dir job epoch @ ''/'' @ rel_of job epoch snap) = files s (os_snapshot_path snap)"
    and "x \<le> u64_max \<Longrightarrow> sealed E (files s1) job x \<longleftrightarrow> sealed E (files s) job x" and "ok s1"
proof -
  let ?sp = "savepoint_epoch_dir job epoch" and ?dir = "epoch_dir job epoch"
  obtain md' b m fl where p: "savepoint_plan E s job epoch label = Inr (md', b, m, fl)"
    using assms(3) by (cases "savepoint_plan E s job epoch label") (auto simp: create_savepoint_at_epoch_def)
  with assms(3) have md': "md' = md" and e': "e' = epoch"
    by (auto simp: create_savepoint_at_epoch_def Let_def split: prod.splits sum.splits)
  from e' show "e' = epoch" .
  from p [unfolded md'] obtain sm md0 where pl:
    "md = md0\<lparr>cm_is_savepoint := True, cm_savepoint_label := label\<rparr>"
    "validate_metadata_identity md0 job epoch = Inr ()" "to_vec_pretty (env_json E) md = Inr b"
    "\<forall>snap \<in> set (cm_operator_snapshots md). os_snapshot_path snap = ?dir @ ''/'' @ rel_of job epoch snap
       \<and> (\<exists>d. files s (?dir @ ''/'' @ rel_of job epoch snap) = Some d
            \<and> manifest_verify (env_sha E) sm (rel_of job epoch snap) d)"
    "(''metadata.json'', b) # fl = epoch_files job epoch (files s) ?dir b md"
    "m = insert_all (env_sha E) ((''metadata.json'', b) # fl) manifest_new"
    by (rule savepoint_plan_elim [OF assms(1)])
  let ?fs = "epoch_files job epoch (files s) ?dir b md"
  have "create_savepoint_at_epoch E s job epoch label =
      (case write_all E s (in_dir ?sp (with_manifest (env_sha E) ?fs)) of
         (s', Inl e) \<Rightarrow> (cleanup_partial_prefix E s' ?sp, Inl e) | (s', Inr _) \<Rightarrow> (s', Inr (epoch, md)))"
    using p unfolding create_savepoint_at_epoch_def md' pl(5) [symmetric] write_list [symmetric] Let_def
    by (simp only: sum.case prod.case pl(6) write_list)
  with assms(3) have w: "write_all E s (in_dir ?sp (with_manifest (env_sha E) ?fs)) = (s1, Inr ())"
    by (auto split: prod.splits sum.splits)
  have dir: "path_ok ?sp" using assms(2) by (rule path_ok_savepoint_dir)
  have pr: "\<forall>(rel, d) \<in> set (with_manifest (env_sha E) ?fs). proper rel"
    by (rule writes_ok_proper [OF writes_ok_with_manifest [OF assms(4)]])
  note fr = write_all_frame [OF assms(1) w dir pr] and inst = installed [OF assms(1) dir assms(4) w]
  show "ok s1" using fr by blast
  show "cm_is_savepoint md" "cm_savepoint_label md = label" using pl(1) by simp_all
  show "sealed E (files s1) job x \<longleftrightarrow> sealed E (files s) job x" if "x \<le> u64_max"
    using fr savepoint_dir_apart by (intro sealed_cong [OF assms(2)]) blast
  show "\<forall>snap \<in> set (cm_operator_snapshots md).
      files s1 (?sp @ ''/'' @ rel_of job epoch snap) = files s (os_snapshot_path snap)"
    using inst(4) pl(4) by fastforce
  have "validate_metadata_identity md job epoch = Inr ()"
    using pl(2) by (simp add: pl(1) identity_iff)
  moreover have "manifest_contains (insert_all (env_sha E) ?fs manifest_new) (rel_of job epoch snap)"
    if "snap \<in> set (cm_operator_snapshots md)" for snap
    using that insert_all_keys [of manifest_new "env_sha E" ?fs "rel_of job epoch snap"]
    by (force simp: manifest_contains_def manifest_new_def epoch_files_def copies_def)
  moreover have "savepoint_manifest_ok E (files s1) ?sp (insert_all (env_sha E) ?fs manifest_new)"
    unfolding savepoint_manifest_ok_def using inst(2) files_good_entries [OF inst(1), of E] by blast
  ultimately show "\<exists>b. restorable E (files s1) job epoch (cm_fencing_token md) md b"
    unfolding restorable_def using inst(3) codec_okD [OF json pl(3)] plain_rel_of(2) [OF assms(4)] by blast
qed

lemma restorable_cong:
  assumes "restorable E (files s1) job epoch t md b" and "path_ok job" and "t \<le> token"
    and "\<And>q. path_ok q \<Longrightarrow> below (savepoint_epoch_dir job epoch) q \<Longrightarrow> files s2 q = files s1 q"
  shows "restorable E (files s2) job epoch token md b"
proof -
  let ?d = "savepoint_epoch_dir job epoch"
  have t: "files s2 (?d @ slash # t) = files s1 (?d @ slash # t)" if "path_ok t" for t
    using assms(4) [of "?d @ slash # t"] that by (simp add: path_ok_append path_ok_savepoint_dir [OF assms(2)])
  have "entry_ok E (files s2) ?d x = entry_ok E (files s1) ?d x" for x
    using t [of "fst x"] by (auto simp: entry_ok_def rel_path_ok_def split: option.splits)
  moreover have "files s2 (?d @ ''/manifest.sha256'') = files s1 (?d @ ''/manifest.sha256'')"
    "files s2 (?d @ ''/metadata.json'') = files s1 (?d @ ''/metadata.json'')"
    using t [of "''manifest.sha256''"] t [of "''metadata.json''"] proper_const by (simp_all add: proper_def)
  ultimately show ?thesis
    using assms(1,3) unfolding restorable_def savepoint_manifest_ok_def by auto
qed

end

section \<open>Over the file system\<close>

definition fs_env :: "json_codec \<Rightarrow> (bytes \<Rightarrow> bytes) \<Rightarrow> nat \<Rightarrow> local_fs ckpt_env" where
  "fs_env json sha width = \<lparr>env_ops = fs_ops, env_json = json, env_sha = sha, env_width = width\<rparr>"

interpretation fs_io: ckpt_io "fs_env json sha width" fs_inv fs_view
  for json :: json_codec and sha :: "bytes \<Rightarrow> bytes" and width :: nat
proof -
  have "env_ops (fs_env json sha width) = fs_ops" by (simp add: fs_env_def)
  then show "ckpt_io (fs_env json sha width) fs_inv fs_view"
    using fs.ckpt_storage_axioms by (simp add: ckpt_io_def)
qed

section \<open>Properties\<close>

text \<open>
  C24. Validation is the same predicate of the stored files in both implementations: the
  synchronous one, which hashes the entries a pool width at a time, and the asynchronous one,
  which reads every entry before hashing, accept an epoch exactly when it is sealed.
\<close>

theorem validate_epoch_exact:
  assumes "fs_inv s"
  shows "(validate_epoch (fs_env json sha width) s job epoch = Inr True \<longleftrightarrow>
      sealed (fs_env json sha width) (fs_view s) job epoch)
    \<and> (validate_epoch_async (fs_env json sha width) s job epoch = Inr True \<longleftrightarrow>
      sealed (fs_env json sha width) (fs_view s) job epoch)"
  using fs_io.validate_epoch_iff [OF assms] by blast

definition no_json :: json_codec where
  "no_json = \<lparr>to_vec_pretty = (\<lambda>_. Inl ''x''), from_slice = (\<lambda>_. Inl ''x'')\<rparr>"

theorem validate_epoch_exact_witness:
  "fs_inv (fs_empty []) \<and> \<not> sealed (fs_env no_json id 2) (fs_view (fs_empty [])) ''j'' 1
   \<and> validate_epoch (fs_env no_json id 2) (fs_empty []) ''j'' 1 \<noteq> Inr True"
proof -
  have "fs_view (fs_empty []) p = None" for p
    by (simp add: fs_view_def fs_empty_def split: sum.split)
  then have "\<not> sealed (fs_env no_json id 2) (fs_view (fs_empty [])) ''j'' 1" by (simp add: sealed_def)
  with validate_epoch_exact [OF fs_inv_empty, of no_json id 2 "[]" "''j''" 1] fs_inv_empty
  show ?thesis by blast
qed

text \<open>
  C25. Recovery finds the newest sealed epoch: when \<open>latest_valid_epoch\<close> (or its asynchronous
  variant) returns an epoch, that epoch is sealed and no sealed epoch is newer; when it reports
  that there is no valid epoch, no epoch is sealed.
\<close>

theorem latest_valid_epoch_is_max:
  assumes "fs_inv s" and "path_ok job"
    and "r = latest_valid_epoch (fs_env json sha width) s job \<or> r = latest_valid_epoch_async (fs_env json sha width) s job"
  shows "(\<forall>e. r = Inr e \<longrightarrow> sealed (fs_env json sha width) (fs_view s) job e
      \<and> (\<forall>x \<le> u64_max. sealed (fs_env json sha width) (fs_view s) job x \<longrightarrow> x \<le> e))
    \<and> (r = Inl NoValidEpoch \<longrightarrow> (\<forall>x \<le> u64_max. \<not> sealed (fs_env json sha width) (fs_view s) job x))"
  using assms(3) fs_io.latest_max [OF assms(1,2), of json sha width] fs_io.latest_none [OF assms(1,2), of _ json sha width]
  by metis

lemma path_ok_j: "path_ok ''j''"
  by (rule path_ok_single) simp_all

theorem latest_valid_epoch_is_max_witness:
  "latest_valid_epoch (fs_env no_json id 2) (fs_empty []) ''j'' = Inl NoValidEpoch
   \<and> \<not> sealed (fs_env no_json id 2) (fs_view (fs_empty [])) ''j'' 7"
proof -
  have "latest_valid_epoch (fs_env no_json id 2) (fs_empty []) ''j'' = Inl NoValidEpoch" by code_simp
  moreover from this have "\<not> sealed (fs_env no_json id 2) (fs_view (fs_empty [])) ''j'' 7"
    using latest_valid_epoch_is_max [OF fs_inv_empty path_ok_j, of "Inl NoValidEpoch" no_json id 2 "[]"]
    by simp
  ultimately show ?thesis by blast
qed

text \<open>
  Restoring a savepoint seals its epoch in the checkpoint directory: on success the restored
  epoch validates, its metadata reads back as returned, every snapshot holds the bytes of the
  savepoint, the recorded fencing token is not newer than the caller's, and every other epoch
  keeps its validity.
\<close>

theorem restore_savepoint_seals:
  assumes "fs_inv s" and "path_ok job" and "epoch \<le> u64_max"
    and "restore_savepoint (fs_env json sha width) s job epoch token = (s', Inr md)"
    and "snapshots_plain job epoch md"
  shows "sealed (fs_env json sha width) (fs_view s') job epoch
    \<and> read_epoch_metadata (fs_env json sha width) s' job epoch = Inr (Some md)
    \<and> cm_fencing_token md \<le> token
    \<and> (\<forall>snap \<in> set (cm_operator_snapshots md). fs_view s' (os_snapshot_path snap) \<noteq> None
         \<and> fs_view s' (os_snapshot_path snap) =
           fs_view s (savepoint_epoch_dir job epoch @ ''/'' @ rel_of job epoch snap))
    \<and> (\<forall>x \<le> u64_max. x \<noteq> epoch \<longrightarrow>
         sealed (fs_env json sha width) (fs_view s') job x = sealed (fs_env json sha width) (fs_view s) job x)"
  using fs_io.restore_sealed [OF assms] by blast

text \<open>A concrete epoch with one snapshot, and a codec for its metadata and its savepoint form.\<close>

definition demo_md :: "string option \<Rightarrow> checkpoint_metadata" where
  "demo_md label = \<lparr>cm_version = 3, cm_epoch = 1, cm_job_id = ''j'', cm_fencing_token = 4, cm_coordinator_id = None,
     cm_timestamp_ms = 0, cm_source_offsets = [],
     cm_operator_snapshots = [\<lparr>os_operator_id = ''op'', os_task_id = ''t'', os_snapshot_path = snapshot_path ''j'' 1 ''op'' ''t''\<rparr>],
     cm_is_savepoint = (label \<noteq> None), cm_savepoint_label = label, cm_iceberg_snapshot_id = None,
     cm_kafka_offsets = None, cm_sink_transactions = [], cm_streaming_profile = None\<rparr>"

definition demo_json :: json_codec where
  "demo_json = \<lparr>to_vec_pretty = (\<lambda>m. if m = demo_md None then Inr [0] else if m = demo_md (Some ''s'') then Inr [1] else Inl ''x''),
     from_slice = (\<lambda>b. if b = [0] then Inr (demo_md None) else if b = [1] then Inr (demo_md (Some ''s'')) else Inl ''x'')\<rparr>"

definition demo_env :: "local_fs ckpt_env" where
  "demo_env = fs_env demo_json (take 1) 2"

definition demo_s0 :: local_fs where
  "demo_s0 = fst (write_all demo_env (fs_empty []) (in_dir (epoch_dir ''j'' 1)
     (with_manifest (take 1) [(''metadata.json'', [0]), (''op/t/state.bin'', [9, 8])])))"

definition demo_s1 :: local_fs where
  "demo_s1 = fst (create_savepoint_at_epoch demo_env demo_s0 ''j'' 1 (Some ''s''))"

definition demo_s2 :: local_fs where
  "demo_s2 = fst (delete_epoch demo_env demo_s1 ''j'' 1)"

lemma demo_plain: "snapshots_plain ''j'' 1 (demo_md label)"
proof -
  have "plain_id ''op''" "plain_id ''t''" by (simp_all add: plain_id_def printable_def)
  then have "plain_rel (''op'' @ ''/'' @ ''t'' @ ''/state.bin'')" unfolding plain_rel_def by blast
  then show ?thesis
    by (auto simp: snapshots_plain_def demo_md_def snapshot_path_def intro!: exI [of _ "''op/t/state.bin''"])
qed

lemma demo_json_ok: "codec_ok demo_json"
  by (auto simp: codec_ok_def demo_json_def split: if_splits)

lemma demo_inv: "fs_inv demo_s0" "fs_inv demo_s1" "fs_inv demo_s2"
  by code_simp+

lemma demo_create: "create_savepoint_at_epoch demo_env demo_s0 ''j'' 1 (Some ''s'') = (demo_s1, Inr (1, demo_md (Some ''s'')))"
proof -
  have "snd (create_savepoint_at_epoch demo_env demo_s0 ''j'' 1 (Some ''s'')) = Inr (1, demo_md (Some ''s''))"
    by code_simp
  then show ?thesis unfolding demo_s1_def by (metis prod.collapse)
qed

lemma demo_restore: "snd (restore_savepoint demo_env demo_s2 ''j'' 1 4) = Inr (demo_md (Some ''s''))"
  by code_simp

theorem restore_savepoint_seals_witness:
  "\<not> sealed demo_env (fs_view demo_s2) ''j'' 1
   \<and> sealed demo_env (fs_view (fst (restore_savepoint demo_env demo_s2 ''j'' 1 4))) ''j'' 1"
proof -
  have "restore_savepoint demo_env demo_s2 ''j'' 1 4 =
      (fst (restore_savepoint demo_env demo_s2 ''j'' 1 4), Inr (demo_md (Some ''s'')))"
    using demo_restore by (metis prod.collapse)
  from restore_savepoint_seals [OF demo_inv(3) path_ok_j _ this [unfolded demo_env_def] demo_plain]
  have "sealed demo_env (fs_view (fst (restore_savepoint demo_env demo_s2 ''j'' 1 4))) ''j'' 1"
    by (simp add: demo_env_def)
  moreover have "\<not> sealed demo_env (fs_view demo_s2) ''j'' 1" by code_simp
  ultimately show ?thesis by blast
qed

text \<open>
  C26. A savepoint outlives its checkpoint: after a successful \<open>create_savepoint_at_epoch\<close>, in
  every later state that kept the savepoint's files (whatever happened to the checkpoint
  directory), a restore passes all its checks; it can only fail in one of its writes, and
  otherwise brings back the recorded metadata and every snapshot as it was at creation.
\<close>

theorem savepoint_roundtrip:
  assumes "fs_inv s" and "path_ok job" and "epoch \<le> u64_max"
    and json: "codec_ok json"
    and "create_savepoint_at_epoch (fs_env json sha width) s job epoch label = (s1, Inr (e', md))"
    and "snapshots_plain job epoch md" and "cm_fencing_token md \<le> token"
    and "fs_inv s2" and keep: "\<And>q. path_ok q \<Longrightarrow> below (savepoint_epoch_dir job epoch) q \<Longrightarrow> fs_view s2 q = fs_view s1 q"
  shows "cm_savepoint_label md = label \<and> (case restore_savepoint (fs_env json sha width) s2 job epoch token of
      (s3, Inl x) \<Rightarrow> (\<exists>ws. write_all (fs_env json sha width) s2 ws = (s3, Inl x))
    | (s3, Inr md') \<Rightarrow> md' = md \<and> sealed (fs_env json sha width) (fs_view s3) job epoch
        \<and> (\<forall>snap \<in> set (cm_operator_snapshots md).
             fs_view s3 (os_snapshot_path snap) = fs_view s (os_snapshot_path snap)))"
proof -
  let ?E = "fs_env json sha width"
  have j: "codec_ok (env_json ?E)"
    using json by (simp add: fs_env_def)
  note c = fs_io.create_savepoint_inv [OF assms(1,2,5,6) j]
  obtain b where "restorable ?E (fs_view s1) job epoch (cm_fencing_token md) md b" using c(4) by blast
  from fs_io.restorable_cong [OF this assms(2,7) keep]
  have "restorable ?E (fs_view s2) job epoch token md b" by blast
  note run = fs_io.restore_savepoint_run [OF assms(8) this]
  have kept: "fs_view s2 (savepoint_epoch_dir job epoch @ ''/'' @ rel_of job epoch snap) = fs_view s (os_snapshot_path snap)"
    if sn: "snap \<in> set (cm_operator_snapshots md)" for snap
  proof -
    have "path_ok (rel_of job epoch snap)"
      using plain_rel_props(3) [OF plain_rel_of(1) [OF assms(6) sn]] by (simp add: proper_def)
    then have "path_ok (savepoint_epoch_dir job epoch @ slash # rel_of job epoch snap)"
      using path_ok_savepoint_dir [OF assms(2)] by (simp add: path_ok_append)
    then show ?thesis using keep c(5) sn by simp
  qed
  show ?thesis
  proof (cases "restore_savepoint ?E s2 job epoch token")
    case (Pair s3 r)
    show ?thesis
    proof (cases r)
      case (Inl x)
      with Pair run show ?thesis using c(3) by (auto split: prod.splits sum.splits)
    next
      case (Inr md')
      with Pair run have "md' = md" by (auto split: prod.splits sum.splits)
      with Pair Inr have rs: "restore_savepoint ?E s2 job epoch token = (s3, Inr md)" by simp
      note rs' = fs_io.restore_sealed [OF assms(8,2,3) rs assms(6)]
      show ?thesis using Pair Inr \<open>md' = md\<close> rs'(2,5) kept c(3) by simp
    qed
  qed
qed

lemma demo_kept:
  assumes "path_ok q" and "below (savepoint_epoch_dir ''j'' 1) q"
  shows "fs_view demo_s2 q = fs_view demo_s1 q"
proof -
  obtain r where "fs_delete demo_s1 (epoch_dir ''j'' 1) = (demo_s2, r)"
    unfolding demo_s2_def delete_epoch_def demo_env_def fs_env_def fs_ops_def
    by (cases "fs_delete demo_s1 (epoch_dir ''j'' 1)") simp
  from fs_delete_frame [OF demo_inv(2) path_ok_epoch_dir [OF path_ok_j] this]
  show ?thesis using assms savepoint_dir_apart by blast
qed

theorem savepoint_roundtrip_witness:
  "\<exists>s3. restore_savepoint demo_env demo_s2 ''j'' 1 4 = (s3, Inr (demo_md (Some ''s'')))
     \<and> fs_view demo_s2 (snapshot_path ''j'' 1 ''op'' ''t'') = None
     \<and> fs_view s3 (snapshot_path ''j'' 1 ''op'' ''t'') = Some [9, 8]"
proof -
  obtain s3 where r: "restore_savepoint demo_env demo_s2 ''j'' 1 4 = (s3, Inr (demo_md (Some ''s'')))"
    using demo_restore by (metis prod.collapse)
  have "cm_fencing_token (demo_md (Some ''s'')) \<le> 4" by (simp add: demo_md_def)
  from savepoint_roundtrip [OF demo_inv(1) path_ok_j _ demo_json_ok demo_create [unfolded demo_env_def]
      demo_plain this demo_inv(3) demo_kept]
  have "fs_view s3 (snapshot_path ''j'' 1 ''op'' ''t'') = fs_view demo_s0 (snapshot_path ''j'' 1 ''op'' ''t'')"
    using r [unfolded demo_env_def] by (simp add: demo_md_def)
  moreover have "fs_view demo_s0 (snapshot_path ''j'' 1 ''op'' ''t'') = Some [9, 8]" by code_simp
  moreover have "fs_view demo_s2 (snapshot_path ''j'' 1 ''op'' ''t'') = None" by code_simp
  ultimately show ?thesis using r by auto
qed

end
