(* ===== verification/Ids.thy ===== *)
theory Ids
  imports RustStr
begin

text \<open>
  The identifiers and counters of \<open>krishiv-proto/src/ids.rs\<close> and the checkpoint messages of
  \<open>krishiv-proto/src/checkpoint.rs\<close>. The string newtypes are strings; the numeric ones are
  natural numbers within their width.
\<close>

section \<open>Identifiers\<close>

abbreviation u32_max :: nat where
  "u32_max \<equiv> 4294967295"

record id_error =
  ie_kind :: string
  ie_reason :: string

definition id_empty :: "string \<Rightarrow> id_error" where
  "id_empty kind = \<lparr>ie_kind = kind, ie_reason = ''cannot be empty''\<rparr>"

definition id_zero :: "string \<Rightarrow> id_error" where
  "id_zero kind = \<lparr>ie_kind = kind, ie_reason = ''must be greater than zero''\<rparr>"

definition id_error_display :: "id_error \<Rightarrow> string" where
  "id_error_display e = ie_kind e @ '' '' @ ie_reason e"

text \<open>\<open>try_new\<close> of the string identifiers, for the kind named by the macro.\<close>

definition id_try_new :: "string \<Rightarrow> string \<Rightarrow> id_error + string" where
  "id_try_new kind value = (if trim value = [] then Inl (id_empty kind) else Inr value)"

definition attempt_try_new :: "nat \<Rightarrow> id_error + nat" where
  "attempt_try_new value = (if value = 0 then Inl (id_zero ''attempt id'') else Inr value)"

definition attempt_initial :: nat where
  "attempt_initial = 1"

definition attempt_next :: "nat \<Rightarrow> nat" where
  "attempt_next a = (if a = u32_max then a else a + 1)"

definition lease_try_new :: "nat \<Rightarrow> id_error + nat" where
  "lease_try_new value = (if value = 0 then Inl (id_zero ''lease generation'') else Inr value)"

definition lease_initial :: nat where
  "lease_initial = 1"

definition lease_next :: "nat \<Rightarrow> nat" where
  "lease_next g = (if g = u64_max then g else g + 1)"

definition fencing_try_new :: "nat \<Rightarrow> id_error + nat" where
  "fencing_try_new value = (if value = 0 then Inl (id_zero ''fencing token'') else Inr value)"

definition fencing_initial :: nat where
  "fencing_initial = 1"

definition fencing_next :: "nat \<Rightarrow> nat" where
  "fencing_next t = (if t = u64_max then t else t + 1)"

record transport_version =
  tv_major :: nat
  tv_minor :: nat

definition is_compatible_with :: "transport_version \<Rightarrow> transport_version \<Rightarrow> bool" where
  "is_compatible_with v required \<longleftrightarrow> tv_major v = tv_major required \<and> tv_minor v \<ge> tv_minor required"

section \<open>Checkpoint messages\<close>

record checkpoint_source_offset =
  cs_partition_id :: string
  cs_offset :: int
  cs_encoded_offset :: bytes

record prepared_sink_ref =
  ps_sink_id :: string
  ps_epoch :: nat
  ps_prepare_path :: string
  ps_committed :: bool

record checkpoint_ack_request =
  ack_job_id :: string
  ack_operator_id :: string
  ack_task_id :: string
  ack_epoch :: nat
  ack_fencing_token :: nat
  ack_source_offsets :: "checkpoint_source_offset list"
  ack_snapshot_path :: "string option"
  ack_sink_transactions :: "prepared_sink_ref list"

record sink_recovery_plan =
  plan_commit :: "prepared_sink_ref list"
  plan_abort :: "prepared_sink_ref list"

fun plan_loop :: "prepared_sink_ref list \<Rightarrow> nat \<Rightarrow> sink_recovery_plan \<Rightarrow> sink_recovery_plan" where
  "plan_loop [] restored_epoch plan = plan"
| "plan_loop (txn # txns) restored_epoch plan =
     plan_loop txns restored_epoch
       (if ps_epoch txn > restored_epoch then plan\<lparr>plan_abort := plan_abort plan @ [txn]\<rparr>
        else if \<not> ps_committed txn then plan\<lparr>plan_commit := plan_commit plan @ [txn]\<rparr>
        else plan)"

definition plan_sink_transaction_recovery :: "prepared_sink_ref list \<Rightarrow> nat \<Rightarrow> sink_recovery_plan" where
  "plan_sink_transaction_recovery prepared restored_epoch =
     plan_loop prepared restored_epoch \<lparr>plan_commit = [], plan_abort = []\<rparr>"

section \<open>Laws\<close>

lemma plan_loop_eq:
  "plan_loop txns e plan =
     \<lparr>plan_commit = plan_commit plan @ filter (\<lambda>t. ps_epoch t \<le> e \<and> \<not> ps_committed t) txns,
      plan_abort = plan_abort plan @ filter (\<lambda>t. ps_epoch t > e) txns\<rparr>"
  by (induction txns arbitrary: plan) auto

text \<open>
  A saturating counter whose values start at one: the contract of the three numeric
  identifiers.
\<close>

locale saturating_counter =
  fixes try_new :: "nat \<Rightarrow> id_error + nat"
    and initial :: nat
    and nxt :: "nat \<Rightarrow> nat"
    and top :: nat
  assumes try_new_iff: "try_new v = Inr x \<longleftrightarrow> v \<noteq> 0 \<and> x = v"
    and initial_one: "initial = 1" and top_pos: "1 \<le> top"
    and next_below: "v < top \<Longrightarrow> nxt v = v + 1" and next_top: "nxt top = top"

begin

lemma iterate: "(nxt ^^ n) initial = min (n + 1) top"
proof (induction n)
  case 0
  then show ?case using initial_one top_pos by simp
next
  case (Suc n)
  then show ?case
    using next_below [of "n + 1"] next_top by (cases "n + 1 < top") (auto simp: min_def)
qed

lemma iterates_valid: "(nxt ^^ n) initial \<le> top \<and> try_new ((nxt ^^ n) initial) = Inr ((nxt ^^ n) initial)"
  using top_pos by (simp add: iterate try_new_iff)

lemma iterates_fresh: "m < n \<Longrightarrow> n < top \<Longrightarrow> (nxt ^^ m) initial < (nxt ^^ n) initial"
  by (simp add: iterate)

end

interpretation attempt: saturating_counter attempt_try_new attempt_initial attempt_next u32_max
  by unfold_locales (auto simp: attempt_try_new_def attempt_initial_def attempt_next_def split: if_splits)

interpretation lease: saturating_counter lease_try_new lease_initial lease_next u64_max
  by unfold_locales (auto simp: lease_try_new_def lease_initial_def lease_next_def split: if_splits)

interpretation fencing: saturating_counter fencing_try_new fencing_initial fencing_next u64_max
  by unfold_locales (auto simp: fencing_try_new_def fencing_initial_def fencing_next_def split: if_splits)

section \<open>Properties\<close>

text \<open>
  The counters never leave their width and never repeat before saturation: every attempt
  id, lease generation and fencing token reached from the initial one is accepted by its
  constructor, stays within its width, and is strictly larger than all earlier ones until the
  maximum is reached.
\<close>

theorem counters_monotone:
  "(attempt_next ^^ n) attempt_initial \<le> u32_max
   \<and> attempt_try_new ((attempt_next ^^ n) attempt_initial) = Inr ((attempt_next ^^ n) attempt_initial)
   \<and> (m < n \<longrightarrow> n < u32_max \<longrightarrow> (attempt_next ^^ m) attempt_initial < (attempt_next ^^ n) attempt_initial)
   \<and> (lease_next ^^ n) lease_initial \<le> u64_max
   \<and> (m < n \<longrightarrow> n < u64_max \<longrightarrow> (lease_next ^^ m) lease_initial < (lease_next ^^ n) lease_initial)
   \<and> (fencing_next ^^ n) fencing_initial \<le> u64_max
   \<and> fencing_try_new ((fencing_next ^^ n) fencing_initial) = Inr ((fencing_next ^^ n) fencing_initial)
   \<and> (m < n \<longrightarrow> n < u64_max \<longrightarrow> (fencing_next ^^ m) fencing_initial < (fencing_next ^^ n) fencing_initial)"
  using attempt.iterates_valid attempt.iterates_fresh lease.iterates_valid lease.iterates_fresh
    fencing.iterates_valid fencing.iterates_fresh by blast

theorem counters_monotone_witness:
  "(fencing_next ^^ 2) fencing_initial < (fencing_next ^^ 5) fencing_initial"
  using counters_monotone [of 5 2] by simp

text \<open>
  The recovery plan partitions the recorded transactions: those after the restored epoch
  are aborted whatever their flag, those at or before it that are not yet committed are
  committed, in the recorded order, and the committed ones at or before it are left alone;
  replaying the plan after the commits have been recorded plans no commit again.
\<close>

theorem sink_recovery_partition:
  "plan_sink_transaction_recovery prepared restored =
     \<lparr>plan_commit = filter (\<lambda>t. ps_epoch t \<le> restored \<and> \<not> ps_committed t) prepared,
      plan_abort = filter (\<lambda>t. ps_epoch t > restored) prepared\<rparr>
   \<and> length (plan_commit (plan_sink_transaction_recovery prepared restored))
       + length (plan_abort (plan_sink_transaction_recovery prepared restored))
       + length (filter (\<lambda>t. ps_epoch t \<le> restored \<and> ps_committed t) prepared) = length prepared
   \<and> plan_commit (plan_sink_transaction_recovery (map (\<lambda>t. t\<lparr>ps_committed := True\<rparr>) prepared) restored) = []"
proof -
  have "length (filter (\<lambda>t. ps_epoch t \<le> restored \<and> \<not> ps_committed t) prepared)
      + length (filter (\<lambda>t. ps_epoch t > restored) prepared)
      + length (filter (\<lambda>t. ps_epoch t \<le> restored \<and> ps_committed t) prepared) = length prepared"
    by (induction prepared) auto
  then show ?thesis
    by (simp add: plan_sink_transaction_recovery_def plan_loop_eq filter_empty_conv)
qed

end
