(* ===== verification/CkptCoordinator.thy ===== *)
theory CkptCoordinator
  imports CkptIO Ids
begin

text \<open>
  The per-job checkpoint coordinator of \<open>krishiv-scheduler/src/checkpoint.rs\<close>: epochs are
  initiated by a clock or a savepoint request, executor acks are collected, and on quorum the
  metadata and manifest are written. The storage behind the shared handle is threaded as a
  separate state, so that it may change between operations. The wall clock is an argument.
  The hash map of acks iterates in insertion order here; the theorems do not use the order.
\<close>

section \<open>State\<close>

datatype coordinator_state =
    Idle
  | AwaitingAcks (aw_epoch: nat) (aw_initiated_at_ms: nat)
  | Committing nat
  | Committed nat
  | Failed nat string

record pending_commit =
  pc_job_id :: string
  pc_epoch :: nat
  pc_metadata :: checkpoint_metadata
  pc_operator_snapshots :: "operator_snapshot_ref list"

record checkpoint_coordinator =
  cc_job_id :: string
  cc_coordinator_id :: string
  cc_interval_ms :: nat
  cc_current_epoch :: nat
  cc_fencing_token :: nat
  cc_pending_acks :: "(string, checkpoint_ack_request) amap"
  cc_expected_task_count :: nat
  cc_state :: coordinator_state
  cc_pending_savepoint_label :: "string option"
  cc_pending_is_savepoint :: bool
  cc_pending_commit :: "pending_commit option"
  cc_elapsed_ms :: nat
  cc_awaiting_elapsed_ms :: nat

text \<open>The derived \<open>Debug\<close> of the state, which one message prints.\<close>

fun state_debug :: "coordinator_state \<Rightarrow> string" where
  "state_debug Idle = ''Idle''"
| "state_debug (AwaitingAcks e t) =
     ''AwaitingAcks { epoch: '' @ show_nat e @ '', initiated_at_ms: '' @ show_nat t @ '' }''"
| "state_debug (Committing e) = ''Committing { epoch: '' @ show_nat e @ '' }''"
| "state_debug (Committed e) = ''Committed { epoch: '' @ show_nat e @ '' }''"
| "state_debug (Failed e reason) =
     ''Failed { epoch: '' @ show_nat e @ '', reason: '' @ debug_str reason @ '' }''"

definition now_u64 :: "int \<Rightarrow> nat" where
  "now_u64 unix_now_ms = (if unix_now_ms < 0 then 0 else nat unix_now_ms)"

fun is_awaiting :: "coordinator_state \<Rightarrow> bool" where
  "is_awaiting (AwaitingAcks _ _) = True"
| "is_awaiting _ = False"

section \<open>Operations\<close>

definition merge_sink_tx :: "prepared_sink_ref \<Rightarrow> (string, sink_transaction_ref) amap \<Rightarrow>
    (string, sink_transaction_ref) amap" where
  "merge_sink_tx tx by_key =
     (let entry = (case map_of by_key (ps_prepare_path tx) of
                     Some e \<Rightarrow> e
                   | None \<Rightarrow> \<lparr>st_sink_id = ps_sink_id tx, st_epoch = ps_epoch tx,
                       st_prepare_path = ps_prepare_path tx, st_committed = ps_committed tx\<rparr>)
      in bt_insert (ps_prepare_path tx) (entry\<lparr>st_committed := st_committed entry \<or> ps_committed tx\<rparr>) by_key)"

definition collect_sink_transactions :: "checkpoint_ack_request list \<Rightarrow> sink_transaction_ref list" where
  "collect_sink_transactions acks = map snd (fold merge_sink_tx (concat (map ack_sink_transactions acks)) [])"

definition coordinator_new :: "string \<Rightarrow> string \<Rightarrow> nat \<Rightarrow> nat \<Rightarrow> checkpoint_coordinator" where
  "coordinator_new job_id coordinator_id interval_ms expected_task_count =
     \<lparr>cc_job_id = job_id, cc_coordinator_id = coordinator_id, cc_interval_ms = interval_ms,
      cc_current_epoch = 0, cc_fencing_token = fencing_initial, cc_pending_acks = [],
      cc_expected_task_count = expected_task_count, cc_state = Idle, cc_pending_savepoint_label = None,
      cc_pending_is_savepoint = False, cc_pending_commit = None, cc_elapsed_ms = 0, cc_awaiting_elapsed_ms = 0\<rparr>"

definition set_expected_task_count :: "nat \<Rightarrow> checkpoint_coordinator \<Rightarrow> checkpoint_coordinator" where
  "set_expected_task_count n c = c\<lparr>cc_expected_task_count := n\<rparr>"

definition initiate :: "int \<Rightarrow> checkpoint_coordinator \<Rightarrow> checkpoint_coordinator \<times> (string + nat)" where
  "initiate now c =
     (if is_awaiting (cc_state c) then
        (c, Inl (''checkpoint coordinator for job '' @ cc_job_id c @ '' is already awaiting acks''))
      else case checked_add_u64 (cc_current_epoch c) 1 of
        None \<Rightarrow> (c, Inl (''checkpoint epoch overflowed for job '' @ cc_job_id c))
      | Some epoch \<Rightarrow>
          (c\<lparr>cc_current_epoch := epoch, cc_elapsed_ms := 0, cc_awaiting_elapsed_ms := 0,
             cc_pending_acks := [], cc_state := AwaitingAcks epoch (now_u64 now)\<rparr>, Inr epoch))"

definition abort_epoch :: "string \<Rightarrow> checkpoint_coordinator \<Rightarrow> checkpoint_coordinator" where
  "abort_epoch reason c =
     (let fail = \<lambda>epoch. c\<lparr>cc_pending_acks := [], cc_pending_is_savepoint := False,
            cc_pending_savepoint_label := None, cc_pending_commit := None, cc_elapsed_ms := 0,
            cc_awaiting_elapsed_ms := 0, cc_state := Failed epoch reason\<rparr>
      in case cc_state c of
           AwaitingAcks epoch _ \<Rightarrow> fail epoch
         | Committing epoch \<Rightarrow> fail epoch
         | _ \<Rightarrow> c)"

definition try_tick :: "int \<Rightarrow> nat \<Rightarrow> nat \<Rightarrow> checkpoint_coordinator \<Rightarrow> checkpoint_coordinator \<times> nat option" where
  "try_tick now elapsed_ms ack_timeout_ms c =
     (case cc_state c of
        AwaitingAcks _ _ \<Rightarrow>
          (let c' = c\<lparr>cc_awaiting_elapsed_ms := saturating_add_u64 (cc_awaiting_elapsed_ms c) elapsed_ms\<rparr> in
           (if cc_awaiting_elapsed_ms c' \<ge> ack_timeout_ms
            then abort_epoch ''timed out waiting for checkpoint acknowledgements'' c' else c', None))
      | Committing _ \<Rightarrow> (c, None)
      | _ \<Rightarrow>
          if cc_expected_task_count c = 0 then (c, None)
          else (let c' = c\<lparr>cc_elapsed_ms := saturating_add_u64 (cc_elapsed_ms c) elapsed_ms\<rparr> in
                if cc_elapsed_ms c' \<ge> cc_interval_ms c'
                then (case initiate now c' of (c'', Inr e) \<Rightarrow> (c'', Some e) | (c'', Inl _) \<Rightarrow> (c'', None))
                else (c', None)))"

definition initiate_savepoint :: "int \<Rightarrow> string option \<Rightarrow> checkpoint_coordinator \<Rightarrow>
    checkpoint_coordinator \<times> (string + nat)" where
  "initiate_savepoint now label c =
     initiate now (c\<lparr>cc_pending_is_savepoint := True, cc_pending_savepoint_label := label\<rparr>)"

definition validate_ack_contract :: "checkpoint_coordinator \<Rightarrow> checkpoint_ack_request \<Rightarrow> nat \<Rightarrow> string + unit" where
  "validate_ack_contract c ack current_epoch =
     (if ack_job_id ack \<noteq> cc_job_id c then
        Inl (''checkpoint ack job_id '' @ ack_job_id ack @ '' does not match coordinator job_id '' @ cc_job_id c)
      else case ack_snapshot_path ack of
        None \<Rightarrow> Inr ()
      | Some path \<Rightarrow>
          (let expected = snapshot_path (cc_job_id c) current_epoch (ack_operator_id ack) (ack_task_id ack) in
           if path \<noteq> expected then
             Inl (''checkpoint ack snapshot path '' @ path @ '' does not match expected path '' @ expected)
           else Inr ()))"

text \<open>Source offsets, last report per partition; snapshots of the tasks that have state.\<close>

definition collect_source_offsets :: "checkpoint_ack_request list \<Rightarrow> source_offset_record list" where
  "collect_source_offsets acks =
     map (\<lambda>(p, offset, encoded). \<lparr>so_partition_id = p, so_offset = offset, so_encoded_offset = encoded\<rparr>)
       (fold (\<lambda>so m. amap_insert (cs_partition_id so) (cs_offset so, cs_encoded_offset so) m)
          (concat (map ack_source_offsets acks)) [])"

definition collect_operator_snapshots :: "checkpoint_ack_request list \<Rightarrow> operator_snapshot_ref list" where
  "collect_operator_snapshots acks =
     List.map_filter (\<lambda>ack. map_option (\<lambda>path.
       \<lparr>os_operator_id = ack_operator_id ack, os_task_id = ack_task_id ack, os_snapshot_path = path\<rparr>)
       (ack_snapshot_path ack)) acks"

definition commit_metadata :: "int \<Rightarrow> checkpoint_coordinator \<Rightarrow> nat \<Rightarrow> checkpoint_metadata" where
  "commit_metadata now c epoch =
     (let acks = map snd (cc_pending_acks c) in
      \<lparr>cm_version = METADATA_VERSION, cm_epoch = epoch, cm_job_id = cc_job_id c,
       cm_fencing_token = cc_fencing_token c, cm_coordinator_id = Some (cc_coordinator_id c),
       cm_timestamp_ms = now_u64 now, cm_source_offsets = collect_source_offsets acks,
       cm_operator_snapshots = collect_operator_snapshots acks, cm_is_savepoint = cc_pending_is_savepoint c,
       cm_savepoint_label = cc_pending_savepoint_label c, cm_iceberg_snapshot_id = None, cm_kafka_offsets = None,
       cm_sink_transactions = collect_sink_transactions acks, cm_streaming_profile = None\<rparr>)"

definition extract_commit_data :: "int \<Rightarrow> checkpoint_coordinator \<Rightarrow> string + pending_commit" where
  "extract_commit_data now c =
     (case cc_state c of
        AwaitingAcks epoch _ \<Rightarrow>
          (let metadata = commit_metadata now c epoch in
           case validate_fencing_token metadata (cc_fencing_token c) of
             Inl e \<Rightarrow> Inl (''fencing token mismatch for job '' @ cc_job_id c @ '': '' @ ckpt_error_display e)
           | Inr _ \<Rightarrow> Inr \<lparr>pc_job_id = cc_job_id c, pc_epoch = epoch, pc_metadata = metadata,
                       pc_operator_snapshots = cm_operator_snapshots metadata\<rparr>)
      | _ \<Rightarrow> Inl (''checkpoint coordinator for job '' @ cc_job_id c
               @ '' must be awaiting acks to extract commit data''))"

definition take_pending_commit :: "checkpoint_coordinator \<Rightarrow> checkpoint_coordinator \<times> pending_commit option" where
  "take_pending_commit c = (c\<lparr>cc_pending_commit := None\<rparr>, cc_pending_commit c)"

text \<open>The manifest over the metadata and the snapshots read back from storage.\<close>

fun build_manifest :: "'s ckpt_env \<Rightarrow> 's \<Rightarrow> string \<Rightarrow> nat \<Rightarrow> operator_snapshot_ref list \<Rightarrow>
    integrity_manifest \<Rightarrow> checkpoint_error + integrity_manifest" where
  "build_manifest E s job_id epoch [] m = Inr m"
| "build_manifest E s job_id epoch (snap # snaps) m =
     rbind (read_operator_snapshot E s job_id epoch (os_operator_id snap) (os_task_id snap)) (\<lambda>r. case r of
       Some bs \<Rightarrow> build_manifest E s job_id epoch snaps
         (manifest_insert_bytes (env_sha E) (os_operator_id snap @ ''/'' @ os_task_id snap @ ''/state.bin'') bs m)
     | None \<Rightarrow> Inl (CkCorrupt epoch (''snapshot '' @ os_snapshot_path snap
         @ '' referenced by checkpoint ack is missing'')))"

definition commit_manifest :: "'s ckpt_env \<Rightarrow> 's \<Rightarrow> string \<Rightarrow> nat \<Rightarrow> checkpoint_metadata \<Rightarrow>
    operator_snapshot_ref list \<Rightarrow> checkpoint_error + integrity_manifest" where
  "commit_manifest E s job_id epoch metadata snaps =
     (case to_vec_pretty (env_json E) metadata of
        Inl e \<Rightarrow> Inl (CkStorage (''metadata serialize for manifest: '' @ e))
      | Inr meta_json \<Rightarrow> build_manifest E s job_id epoch snaps
          (manifest_insert_bytes (env_sha E) ''metadata.json'' meta_json manifest_new))"

text \<open>The three writes, in their order.\<close>

definition seal_epoch :: "'s ckpt_env \<Rightarrow> 's \<Rightarrow> string \<Rightarrow> nat \<Rightarrow> checkpoint_metadata \<Rightarrow> integrity_manifest \<Rightarrow>
    's \<times> (checkpoint_error + unit)" where
  "seal_epoch E s job_id epoch metadata manifest =
     (case write_epoch_metadata E s job_id epoch metadata of
        (s1, Inl e) \<Rightarrow> (s1, Inl e)
      | (s1, Inr _) \<Rightarrow>
          (case write_manifest E s1 job_id epoch manifest of
             (s2, Inl e) \<Rightarrow> (s2, Inl e)
           | (s2, Inr _) \<Rightarrow> write_epoch_hint E s2 job_id epoch))"

definition seal_epoch_async :: "'s ckpt_env \<Rightarrow> 's \<Rightarrow> string \<Rightarrow> nat \<Rightarrow> checkpoint_metadata \<Rightarrow>
    integrity_manifest \<Rightarrow> 's \<times> (checkpoint_error + unit)" where
  "seal_epoch_async E s job_id epoch metadata manifest =
     (case write_epoch_metadata_async E s job_id epoch metadata of
        (s1, Inl e) \<Rightarrow> (s1, Inl e)
      | (s1, Inr _) \<Rightarrow>
          (case write_manifest_async E s1 job_id epoch manifest of
             (s2, Inl e) \<Rightarrow> (s2, Inl e)
           | (s2, Inr _) \<Rightarrow> write_epoch_hint_async E s2 job_id epoch))"

definition commit_storage :: "'s ckpt_env \<Rightarrow> 's \<Rightarrow> pending_commit \<Rightarrow> 's \<times> (checkpoint_error + nat)" where
  "commit_storage E s commit =
     (case commit_manifest E s (pc_job_id commit) (pc_epoch commit) (pc_metadata commit)
             (pc_operator_snapshots commit) of
        Inl e \<Rightarrow> (s, Inl e)
      | Inr manifest \<Rightarrow>
          (case seal_epoch_async E s (pc_job_id commit) (pc_epoch commit) (pc_metadata commit) manifest of
             (s', Inl e) \<Rightarrow> (s', Inl e)
           | (s', Inr _) \<Rightarrow> (s', Inr (pc_epoch commit))))"

definition finalize_commit :: "nat \<Rightarrow> checkpoint_coordinator \<Rightarrow>
    checkpoint_coordinator \<times> (checkpoint_error + unit)" where
  "finalize_commit epoch c =
     (case cc_state c of
        Committing committing_epoch \<Rightarrow>
          if committing_epoch = epoch then
            (c\<lparr>cc_state := Committed epoch, cc_pending_is_savepoint := False, cc_pending_savepoint_label := None,
               cc_awaiting_elapsed_ms := 0, cc_pending_commit := None\<rparr>, Inr ())
          else (c, Inl (CkStorage (''cannot finalize checkpoint epoch '' @ show_nat epoch @ '' for job ''
                 @ cc_job_id c @ '': coordinator is committing epoch '' @ show_nat committing_epoch)))
      | state \<Rightarrow> (c, Inl (CkStorage (''cannot finalize checkpoint epoch '' @ show_nat epoch @ '' for job ''
                 @ cc_job_id c @ '': coordinator state is '' @ state_debug state))))"

definition activate_restored_epoch :: "checkpoint_metadata \<Rightarrow> nat option \<Rightarrow> checkpoint_coordinator \<Rightarrow>
    checkpoint_coordinator \<times> (checkpoint_error + unit)" where
  "activate_restored_epoch metadata active_fencing_token c =
     (case metadata_validate metadata of
        Inl e \<Rightarrow> (c, Inl e)
      | Inr _ \<Rightarrow>
          if cm_job_id metadata \<noteq> cc_job_id c then
            (c, Inl (CkCorrupt (cm_epoch metadata) (''checkpoint metadata job_id '' @ cm_job_id metadata
               @ '' does not match coordinator job_id '' @ cc_job_id c)))
          else
            (let token = (case active_fencing_token of None \<Rightarrow> cm_fencing_token metadata | Some t \<Rightarrow> t) in
             case fencing_try_new token of
               Inl error \<Rightarrow> (c, Inl (CkStorage (''invalid active fencing token '' @ show_nat token @ '': ''
                   @ id_error_display error)))
             | Inr t \<Rightarrow>
                 (c\<lparr>cc_fencing_token := t, cc_current_epoch := cm_epoch metadata, cc_pending_acks := [],
                    cc_pending_is_savepoint := False, cc_pending_savepoint_label := None,
                    cc_pending_commit := None, cc_elapsed_ms := 0, cc_awaiting_elapsed_ms := 0,
                    cc_state := Committed (cm_epoch metadata)\<rparr>, Inr ())))"

definition commit_epoch :: "'s ckpt_env \<Rightarrow> int \<Rightarrow> 's \<Rightarrow> checkpoint_coordinator \<Rightarrow>
    's \<times> checkpoint_coordinator \<times> (checkpoint_error + nat)" where
  "commit_epoch E now s c =
     (case cc_state c of
        AwaitingAcks epoch _ \<Rightarrow>
          (let metadata = commit_metadata now c epoch in
           case validate_fencing_token metadata (cc_fencing_token c) of
             Inl e \<Rightarrow> (s, c, Inl (CkStorage (''fencing token mismatch for job '' @ cc_job_id c @ '': ''
                 @ ckpt_error_display e)))
           | Inr _ \<Rightarrow>
               (case commit_manifest E s (cc_job_id c) epoch metadata (cm_operator_snapshots metadata) of
                  Inl e \<Rightarrow> (s, c, Inl e)
                | Inr manifest \<Rightarrow>
                    (case seal_epoch E s (cc_job_id c) epoch metadata manifest of
                       (s', Inl e) \<Rightarrow> (s', c, Inl e)
                     | (s', Inr _) \<Rightarrow>
                         (s', c\<lparr>cc_state := Committed epoch, cc_pending_is_savepoint := False,
                            cc_pending_savepoint_label := None, cc_awaiting_elapsed_ms := 0\<rparr>, Inr epoch))))
      | _ \<Rightarrow> (s, c, Inl (CkStorage (''commit_epoch called but coordinator for job '' @ cc_job_id c
               @ '' is not awaiting acks''))))"

definition commit_epoch_async :: "'s ckpt_env \<Rightarrow> int \<Rightarrow> 's \<Rightarrow> checkpoint_coordinator \<Rightarrow>
    's \<times> checkpoint_coordinator \<times> (checkpoint_error + nat)" where
  "commit_epoch_async E now s c =
     (case extract_commit_data now c of
        Inl e \<Rightarrow> (s, c, Inl (CkStorage e))
      | Inr commit \<Rightarrow>
          (case commit_storage E s commit of
             (s', Inl e) \<Rightarrow> (s', c, Inl e)
           | (s', Inr _) \<Rightarrow>
               (case finalize_commit (pc_epoch commit) c of
                  (c', Inl e) \<Rightarrow> (s', c', Inl e)
                | (c', Inr _) \<Rightarrow> (s', c', Inr (pc_epoch commit)))))"

text \<open>The checks every ack passes before it is recorded.\<close>

definition accept_ack :: "checkpoint_coordinator \<Rightarrow> nat \<Rightarrow> checkpoint_ack_request \<Rightarrow>
    string + checkpoint_coordinator" where
  "accept_ack c current_epoch ack =
     (if ack_epoch ack \<noteq> current_epoch then
        Inl (''stale checkpoint ack for job '' @ cc_job_id c @ '': expected epoch '' @ show_nat current_epoch
          @ '', got epoch '' @ show_nat (ack_epoch ack))
      else rbind (validate_ack_contract c ack current_epoch) (\<lambda>_.
        if ack_fencing_token ack \<noteq> cc_fencing_token c then
          Inl (''stale fencing token in ack for job '' @ cc_job_id c @ '': expected ''
            @ show_nat (cc_fencing_token c) @ '', got '' @ show_nat (ack_fencing_token ack))
        else Inr (c\<lparr>cc_pending_acks := amap_insert (ack_task_id ack) ack (cc_pending_acks c)\<rparr>)))"

definition receive_ack :: "'s ckpt_env \<Rightarrow> int \<Rightarrow> 's \<Rightarrow> checkpoint_coordinator \<Rightarrow> checkpoint_ack_request \<Rightarrow>
    's \<times> checkpoint_coordinator \<times> (string + bool)" where
  "receive_ack E now s c ack =
     (case cc_state c of
        AwaitingAcks epoch _ \<Rightarrow>
          (case accept_ack c epoch ack of
             Inl e \<Rightarrow> (s, c, Inl e)
           | Inr c1 \<Rightarrow>
               if length (cc_pending_acks c1) \<ge> cc_expected_task_count c1 then
                 (case commit_epoch E now s c1 of
                    (s', c', Inl e) \<Rightarrow> (s', c', Inl (ckpt_error_display e))
                  | (s', c', Inr _) \<Rightarrow> (s', c', Inr True))
               else (s, c1, Inr False))
      | _ \<Rightarrow> (s, c, Inl (''checkpoint coordinator for job '' @ cc_job_id c @ '' is not awaiting acks'')))"

definition receive_ack_async :: "int \<Rightarrow> checkpoint_coordinator \<Rightarrow> checkpoint_ack_request \<Rightarrow>
    checkpoint_coordinator \<times> (string + bool)" where
  "receive_ack_async now c ack =
     (case cc_state c of
        AwaitingAcks epoch _ \<Rightarrow>
          (case accept_ack c epoch ack of
             Inl e \<Rightarrow> (c, Inl e)
           | Inr c1 \<Rightarrow>
               if length (cc_pending_acks c1) \<ge> cc_expected_task_count c1 then
                 (case extract_commit_data now c1 of
                    Inl e \<Rightarrow> (c1, Inl e)
                  | Inr commit \<Rightarrow> (c1\<lparr>cc_pending_commit := Some commit, cc_state := Committing epoch\<rparr>, Inr True))
               else (c1, Inr False))
      | Committing epoch \<Rightarrow> (c, Inl (''checkpoint coordinator for job '' @ cc_job_id c
          @ '' is already committing epoch '' @ show_nat epoch))
      | _ \<Rightarrow> (c, Inl (''checkpoint coordinator for job '' @ cc_job_id c @ '' is not awaiting acks'')))"

definition recover_from_storage :: "'s ckpt_env \<Rightarrow> 's \<Rightarrow> checkpoint_coordinator \<Rightarrow>
    checkpoint_coordinator \<times> (checkpoint_error + nat option)" where
  "recover_from_storage E s c =
     (case latest_valid_epoch E s (cc_job_id c) of
        Inr epoch \<Rightarrow>
          (case read_epoch_metadata E s (cc_job_id c) epoch of
             Inl e \<Rightarrow> (c, Inl e)
           | Inr _ \<Rightarrow> (c\<lparr>cc_current_epoch := epoch, cc_state := Committed epoch\<rparr>, Inr (Some epoch)))
      | Inl NoValidEpoch \<Rightarrow> (c, Inr None)
      | Inl e \<Rightarrow> (c, Inl e))"

definition recover_from_storage_async :: "'s ckpt_env \<Rightarrow> 's \<Rightarrow> checkpoint_coordinator \<Rightarrow>
    checkpoint_coordinator \<times> (checkpoint_error + nat option)" where
  "recover_from_storage_async E s c =
     (case latest_valid_epoch_async E s (cc_job_id c) of
        Inr epoch \<Rightarrow>
          (case read_epoch_metadata_async E s (cc_job_id c) epoch of
             Inl e \<Rightarrow> (c, Inl e)
           | Inr _ \<Rightarrow> (c\<lparr>cc_current_epoch := epoch, cc_state := Committed epoch\<rparr>, Inr (Some epoch)))
      | Inl NoValidEpoch \<Rightarrow> (c, Inr None)
      | Inl e \<Rightarrow> (c, Inl e))"

definition list_epochs :: "'s ckpt_env \<Rightarrow> 's \<Rightarrow> checkpoint_coordinator \<Rightarrow> checkpoint_error + nat list" where
  "list_epochs E s c = list_valid_epochs E s (cc_job_id c)"

definition is_awaiting_acks :: "checkpoint_coordinator \<Rightarrow> bool" where
  "is_awaiting_acks c = is_awaiting (cc_state c)"

definition committed_epoch :: "checkpoint_coordinator \<Rightarrow> nat option" where
  "committed_epoch c = (case cc_state c of Committed epoch \<Rightarrow> Some epoch | _ \<Rightarrow> None)"

text \<open>The leader's token, pushed into a job's coordinator.\<close>

definition sync_fencing_token :: "nat \<Rightarrow> checkpoint_coordinator \<Rightarrow> checkpoint_coordinator" where
  "sync_fencing_token token c =
     (case fencing_try_new token of Inl _ \<Rightarrow> c | Inr t \<Rightarrow> c\<lparr>cc_fencing_token := t\<rparr>)"

section \<open>Reachable coordinators\<close>

text \<open>One step of a coordinator, with the storage in any state.\<close>

inductive coord_step :: "'s ckpt_env \<Rightarrow> checkpoint_coordinator \<Rightarrow> checkpoint_coordinator \<Rightarrow> bool" for E where
  expected: "coord_step E c (set_expected_task_count n c)"
| initiated: "initiate now c = (c', r) \<Longrightarrow> coord_step E c c'"
| savepoint: "initiate_savepoint now label c = (c', r) \<Longrightarrow> coord_step E c c'"
| ticked: "try_tick now ms timeout c = (c', e) \<Longrightarrow> coord_step E c c'"
| aborted: "coord_step E c (abort_epoch reason c)"
| acked: "receive_ack E now s c ack = (s', c', r) \<Longrightarrow> coord_step E c c'"
| acked_async: "receive_ack_async now c ack = (c', r') \<Longrightarrow> coord_step E c c'"
| taken: "take_pending_commit c = (c', pc) \<Longrightarrow> coord_step E c c'"
| finalized: "finalize_commit e c = (c', r'') \<Longrightarrow> coord_step E c c'"
| committed: "commit_epoch E now s c = (s', c', rc) \<Longrightarrow> coord_step E c c'"
| committed_async: "commit_epoch_async E now s c = (s', c', rc) \<Longrightarrow> coord_step E c c'"
| restored: "cm_epoch md \<le> u64_max \<Longrightarrow> activate_restored_epoch md token c = (c', r'') \<Longrightarrow> coord_step E c c'"
| recovered: "recover_from_storage E s c = (c', ro) \<Longrightarrow> coord_step E c c'"
| recovered_async: "recover_from_storage_async E s c = (c', ro) \<Longrightarrow> coord_step E c c'"
| synced: "coord_step E c (sync_fencing_token t c)"

fun state_epoch :: "coordinator_state \<Rightarrow> nat option" where
  "state_epoch Idle = None"
| "state_epoch (AwaitingAcks e _) = Some e"
| "state_epoch (Committing e) = Some e"
| "state_epoch (Committed e) = Some e"
| "state_epoch (Failed e _) = Some e"

definition in_flight :: "coordinator_state \<Rightarrow> bool" where
  "in_flight st \<longleftrightarrow> is_awaiting st \<or> (\<exists>e. st = Committing e)"

text \<open>An ack that belongs to an epoch of a job, under its own task's key.\<close>

definition ack_matches :: "string \<Rightarrow> nat \<Rightarrow> string \<times> checkpoint_ack_request \<Rightarrow> bool" where
  "ack_matches job epoch ka \<longleftrightarrow> fst ka = ack_task_id (snd ka) \<and> ack_job_id (snd ka) = job
     \<and> ack_epoch (snd ka) = epoch
     \<and> (\<forall>path. ack_snapshot_path (snd ka) = Some path \<longrightarrow>
          path = snapshot_path job epoch (ack_operator_id (snd ka)) (ack_task_id (snd ka)))"

definition coord_inv :: "checkpoint_coordinator \<Rightarrow> bool" where
  "coord_inv c \<longleftrightarrow> cc_current_epoch c \<le> u64_max
     \<and> (state_epoch (cc_state c) = None \<or> state_epoch (cc_state c) = Some (cc_current_epoch c))
     \<and> 1 \<le> cc_fencing_token c
     \<and> amap_wf (cc_pending_acks c)
     \<and> (in_flight (cc_state c) \<longrightarrow>
          (\<forall>ka \<in> set (cc_pending_acks c). ack_matches (cc_job_id c) (cc_current_epoch c) ka))"

lemma coord_inv_new: "coord_inv (coordinator_new job cid interval n)"
  by (simp add: coord_inv_def coordinator_new_def fencing_initial_def in_flight_def)

lemma initiate_inv: "initiate now c = (c', r) \<Longrightarrow> coord_inv c \<Longrightarrow> coord_inv c'"
  by (auto simp: initiate_def coord_inv_def checked_add_u64_def in_flight_def split: if_splits)

lemma abort_inv: "coord_inv c \<Longrightarrow> coord_inv (abort_epoch reason c)"
  by (auto simp: abort_epoch_def coord_inv_def in_flight_def Let_def split: coordinator_state.splits)

lemma coord_inv_timers:
  "coord_inv c \<Longrightarrow> coord_inv (c\<lparr>cc_elapsed_ms := x\<rparr>)"
  "coord_inv c \<Longrightarrow> coord_inv (c\<lparr>cc_awaiting_elapsed_ms := x\<rparr>)"
  "coord_inv c \<Longrightarrow> coord_inv (c\<lparr>cc_pending_commit := pc\<rparr>)"
  "coord_inv c \<Longrightarrow> coord_inv (c\<lparr>cc_expected_task_count := n\<rparr>)"
  "coord_inv c \<Longrightarrow> coord_inv (c\<lparr>cc_pending_is_savepoint := b, cc_pending_savepoint_label := l\<rparr>)"
  by (simp_all add: coord_inv_def)

lemma try_tick_inv: "try_tick now ms timeout c = (c', e) \<Longrightarrow> coord_inv c \<Longrightarrow> coord_inv c'"
  by (auto simp: try_tick_def Let_def coord_inv_timers abort_inv
      split: coordinator_state.splits if_splits prod.splits sum.splits
      dest!: initiate_inv [OF _ coord_inv_timers(1)])

lemma validate_contract_iff:
  "validate_ack_contract c ack epoch = Inr () \<longleftrightarrow> ack_job_id ack = cc_job_id c
     \<and> (\<forall>path. ack_snapshot_path ack = Some path \<longrightarrow>
          path = snapshot_path (cc_job_id c) epoch (ack_operator_id ack) (ack_task_id ack))"
  by (auto simp: validate_ack_contract_def Let_def split: option.splits)

lemma accept_ack_iff:
  "accept_ack c epoch ack = Inr c1 \<longleftrightarrow> ack_matches (cc_job_id c) epoch (ack_task_id ack, ack)
     \<and> ack_fencing_token ack = cc_fencing_token c
     \<and> c1 = c\<lparr>cc_pending_acks := amap_insert (ack_task_id ack) ack (cc_pending_acks c)\<rparr>"
proof -
  have "accept_ack c epoch ack = Inr c1 \<longleftrightarrow> ack_epoch ack = epoch \<and> validate_ack_contract c ack epoch = Inr ()
     \<and> ack_fencing_token ack = cc_fencing_token c
     \<and> c1 = c\<lparr>cc_pending_acks := amap_insert (ack_task_id ack) ack (cc_pending_acks c)\<rparr>"
    by (auto simp: accept_ack_def rbind_Inr_iff)
  then show ?thesis unfolding validate_contract_iff ack_matches_def by auto
qed

lemma accept_ack_inv:
  assumes "accept_ack c epoch ack = Inr c1" and "coord_inv c" and "cc_state c = AwaitingAcks epoch t"
  shows "coord_inv c1"
  using assms unfolding accept_ack_iff
  by (auto simp: coord_inv_def in_flight_def set_amap_insert)

lemma commit_epoch_inv: "commit_epoch E now s c = (s', c', r) \<Longrightarrow> coord_inv c \<Longrightarrow> coord_inv c'"
  by (auto simp: commit_epoch_def coord_inv_def in_flight_def Let_def
      split: coordinator_state.splits sum.splits prod.splits)

lemma finalize_inv: "finalize_commit e c = (c', r) \<Longrightarrow> coord_inv c \<Longrightarrow> coord_inv c'"
  by (auto simp: finalize_commit_def coord_inv_def in_flight_def split: coordinator_state.splits if_splits)

lemma receive_ack_inv:
  assumes "receive_ack E now s c ack = (s', c', r)" and "coord_inv c"
  shows "coord_inv c'"
proof (cases "\<exists>epoch t c1. cc_state c = AwaitingAcks epoch t \<and> accept_ack c epoch ack = Inr c1")
  case True
  then obtain epoch t c1 where st: "cc_state c = AwaitingAcks epoch t" and a: "accept_ack c epoch ack = Inr c1"
    by blast
  have i1: "coord_inv c1" using accept_ack_inv [OF a assms(2) st] .
  from assms(1) st a have "c' = c1 \<or> (\<exists>rc. commit_epoch E now s c1 = (s', c', rc))"
    by (auto simp: receive_ack_def split: if_splits prod.splits sum.splits)
  with i1 show ?thesis by (auto dest: commit_epoch_inv)
next
  case False
  with assms(1) have "c' = c" by (auto simp: receive_ack_def split: coordinator_state.splits sum.splits)
  with assms(2) show ?thesis by simp
qed

lemma receive_ack_async_inv:
  assumes "receive_ack_async now c ack = (c', r)" and "coord_inv c"
  shows "coord_inv c'"
proof (cases "\<exists>epoch t c1. cc_state c = AwaitingAcks epoch t \<and> accept_ack c epoch ack = Inr c1")
  case True
  then obtain epoch t c1 where st: "cc_state c = AwaitingAcks epoch t" and a: "accept_ack c epoch ack = Inr c1"
    by blast
  have i1: "coord_inv c1" using accept_ack_inv [OF a assms(2) st] .
  have st1: "cc_state c1 = AwaitingAcks epoch t" using a st by (auto simp: accept_ack_iff)
  from assms(1) st a have "c' = c1 \<or> (\<exists>pc. c' = c1\<lparr>cc_pending_commit := Some pc, cc_state := Committing epoch\<rparr>)"
    by (auto simp: receive_ack_async_def split: if_splits sum.splits)
  with i1 st1 show ?thesis by (auto simp: coord_inv_def in_flight_def)
next
  case False
  with assms(1) have "c' = c" by (auto simp: receive_ack_async_def split: coordinator_state.splits sum.splits)
  with assms(2) show ?thesis by simp
qed

lemma commit_epoch_async_inv: "commit_epoch_async E now s c = (s', c', r) \<Longrightarrow> coord_inv c \<Longrightarrow> coord_inv c'"
  by (auto simp: commit_epoch_async_def split: sum.splits prod.splits dest: finalize_inv)

lemma restore_inv:
  "activate_restored_epoch md token c = (c', r) \<Longrightarrow> cm_epoch md \<le> u64_max \<Longrightarrow> coord_inv c \<Longrightarrow> coord_inv c'"
  by (auto simp: activate_restored_epoch_def coord_inv_def in_flight_def Let_def fencing_try_new_def
      split: sum.splits if_splits)

lemma latest_u64:
  "latest_valid_epoch E s job = Inr e \<Longrightarrow> e \<le> u64_max"
  "latest_valid_epoch_async E s job = Inr e \<Longrightarrow> e \<le> u64_max"
  by (auto simp: latest_valid_epoch_def latest_valid_epoch_async_def rbind_Inr_iff
      dest!: first_valid_Inr [OF _ candidates_sorted] dest: candidates_u64)

lemma recover_inv:
  "recover_from_storage E s c = (c', r) \<Longrightarrow> coord_inv c \<Longrightarrow> coord_inv c'"
  "recover_from_storage_async E s c = (c', r) \<Longrightarrow> coord_inv c \<Longrightarrow> coord_inv c'"
  by (auto simp: recover_from_storage_def recover_from_storage_async_def coord_inv_def in_flight_def
      split: sum.splits checkpoint_error.splits dest: latest_u64)

lemma coord_step_inv: "coord_step E c c' \<Longrightarrow> coord_inv c \<Longrightarrow> coord_inv c'"
proof (induction rule: coord_step.induct)
  case (savepoint now label c c' r)
  then show ?case
    using initiate_inv coord_inv_timers(5) unfolding initiate_savepoint_def by blast
next
  case (taken c c' pc)
  then show ?case by (auto simp: take_pending_commit_def coord_inv_timers)
next
  case (synced c t)
  then show ?case by (auto simp: sync_fencing_token_def coord_inv_def fencing_try_new_def)
qed (auto simp: set_expected_task_count_def coord_inv_timers
    intro: initiate_inv try_tick_inv abort_inv receive_ack_inv receive_ack_async_inv finalize_inv
      commit_epoch_inv commit_epoch_async_inv restore_inv recover_inv)

lemma reachable_inv: "(coord_step E)\<^sup>*\<^sup>* (coordinator_new job cid interval n) c \<Longrightarrow> coord_inv c"
  by (induction rule: rtranclp_induct) (auto intro: coord_inv_new coord_step_inv)

section \<open>Committing to storage\<close>

definition snap_rel :: "operator_snapshot_ref \<Rightarrow> string" where
  "snap_rel snap = os_operator_id snap @ ''/'' @ os_task_id snap @ ''/state.bin''"

definition snap_files :: "(string \<Rightarrow> bytes option) \<Rightarrow> string \<Rightarrow> nat \<Rightarrow> operator_snapshot_ref list \<Rightarrow>
    (string \<times> bytes) list" where
  "snap_files f job epoch snaps = map (\<lambda>snap. (snap_rel snap, the (f (epoch_dir job epoch @ ''/'' @ snap_rel snap)))) snaps"

definition snaps_plain :: "string \<Rightarrow> nat \<Rightarrow> operator_snapshot_ref list \<Rightarrow> bool" where
  "snaps_plain job epoch snaps \<longleftrightarrow>
     (\<forall>snap \<in> set snaps. plain_id (os_operator_id snap) \<and> plain_id (os_task_id snap)
        \<and> os_snapshot_path snap = snapshot_path job epoch (os_operator_id snap) (os_task_id snap))"

lemma snap_path: "snapshot_path job epoch (os_operator_id snap) (os_task_id snap) = epoch_dir job epoch @ ''/'' @ snap_rel snap"
  by (simp add: snapshot_path_def snap_rel_def)

lemma plain_snap_rel: "snaps_plain job epoch snaps \<Longrightarrow> snap \<in> set snaps \<Longrightarrow> plain_rel (snap_rel snap)"
  unfolding snaps_plain_def plain_rel_def snap_rel_def by blast

lemma split_hint_path: "split_on slash (latest_epoch_hint_path job) = split_on slash job @ [''checkpoints'', ''latest_epoch.json'']"
proof -
  have "latest_epoch_hint_path job = job @ slash # (''checkpoints'' @ slash # ''latest_epoch.json'')"
    by (simp add: latest_epoch_hint_path_def)
  then show ?thesis by (simp only: split_on_slash_append) (simp add: split_on_single)
qed

lemma proper_hint: "path_ok job \<Longrightarrow> proper (latest_epoch_hint_path job)"
  by (simp add: proper_def path_ok_def split_hint_path tmp_name_const)

lemma pad20_not_tmp: "\<not> tmp_name (pad20 e)"
proof
  assume "tmp_name (pad20 e)"
  then have "CHR ''.'' \<in> set (pad20 e)" by (auto simp: tmp_name_def)
  then show False using set_pad20 by fastforce
qed

context ckpt_io
begin

lemma build_manifest_iff:
  assumes "ok s"
  shows "build_manifest E s job epoch snaps m = Inr m' \<longleftrightarrow>
    (\<forall>snap \<in> set snaps. files s (epoch_dir job epoch @ ''/'' @ snap_rel snap) \<noteq> None)
    \<and> m' = insert_all (env_sha E) (snap_files (files s) job epoch snaps) m"
proof (induction snaps arbitrary: m)
  case (Cons snap snaps)
  let ?f = "files s (epoch_dir job epoch @ ''/'' @ snap_rel snap)"
  have "build_manifest E s job epoch (snap # snaps) m = Inr m' \<longleftrightarrow> (\<exists>data. ?f = Some data \<and>
      build_manifest E s job epoch snaps (manifest_insert_bytes (env_sha E) (snap_rel snap) data m) = Inr m')"
    unfolding build_manifest.simps read_operator_snapshot_def snap_path snap_rel_def [symmetric]
      needed_read_iff [OF assms] by (rule refl)
  then show ?case unfolding Cons.IH by (cases ?f) (auto simp: snap_files_def)
qed (auto simp: snap_files_def)

lemma commit_manifest_iff:
  assumes "ok s"
  shows "commit_manifest E s job epoch md snaps = Inr m \<longleftrightarrow>
    (\<exists>b. to_vec_pretty (env_json E) md = Inr b
       \<and> (\<forall>snap \<in> set snaps. files s (epoch_dir job epoch @ ''/'' @ snap_rel snap) \<noteq> None)
       \<and> m = insert_all (env_sha E) ((''metadata.json'', b) # snap_files (files s) job epoch snaps) manifest_new)"
  by (simp add: commit_manifest_def case_sum_Inr_iff build_manifest_iff [OF assms])

lemma epoch_write_frame:
  assumes "ok s" and "path_ok job" and "wr E s (epoch_dir job epoch @ slash # rel) d = (s', r)" and "proper rel"
    and "epoch \<le> u64_max"
  shows "ok s'" and "x \<le> u64_max \<Longrightarrow> x \<noteq> epoch \<Longrightarrow> sealed E (files s') job x \<longleftrightarrow> sealed E (files s) job x"
proof -
  let ?p = "epoch_dir job epoch @ slash # rel"
  have pr: "proper ?p" using assms(4) path_ok_epoch_dir [OF assms(2)] by (rule proper_append [rotated])
  show "ok s'" using write_atomic [OF assms(1) pr assms(3)] by blast
  show "sealed E (files s') job x \<longleftrightarrow> sealed E (files s) job x" if "x \<le> u64_max" "x \<noteq> epoch"
  proof (rule sealed_cong [OF assms(2)])
    fix q assume q: "path_ok q" "below (epoch_dir job x) q"
    then have "\<not> below (epoch_dir job epoch) q" using epoch_dirs_apart that assms(5) by blast
    then have "dir_of q \<noteq> dir_of ?p" using dir_of_below by blast
    then show "files s' q = files s q" using write_local [OF assms(1) pr assms(3) q(1)] by blast
  qed
qed

lemma hint_frame:
  assumes "ok s" and "path_ok job" and "wr E s (latest_epoch_hint_path job) d = (s', r)"
  shows "ok s'" and "sealed E (files s') job x \<longleftrightarrow> sealed E (files s) job x"
    and "path_ok q \<Longrightarrow> below (epoch_dir job x) q \<Longrightarrow> files s' q = files s q"
proof -
  note pr = proper_hint [OF assms(2)]
  note at = write_atomic [OF assms(1) pr assms(3)]
  show "ok s'" using at by blast
  show fr: "files s' q = files s q" if q: "path_ok q" "below (epoch_dir job x) q" for q
  proof -
    from q(2) obtain zs where zs: "split_on slash q = split_on slash job @ [''checkpoints'', pad20 x] @ zs"
      by (auto simp: below_split split_epoch_dir)
    show ?thesis
    proof (cases "zs = []")
      case True
      with zs have "proper q" "split_on slash q \<noteq> split_on slash (latest_epoch_hint_path job)"
        using q(1) pad20_not_tmp set_pad20 [of "CHR ''l''" x] by (auto simp: proper_def split_hint_path)
      then show ?thesis using at by (metis split_on_inj)
    next
      case False
      then have "dir_of q \<noteq> dir_of (latest_epoch_hint_path job)"
        by (simp add: dir_of_def zs split_hint_path butlast_append)
      then show ?thesis using write_local [OF assms(1) pr assms(3) q(1)] by blast
    qed
  qed
  show "sealed E (files s') job x \<longleftrightarrow> sealed E (files s) job x"
    by (rule sealed_cong [OF assms(2)]) (rule fr)
qed

lemma seal_elim:
  assumes "ok s" and "path_ok job" and "epoch \<le> u64_max"
    and "seal_epoch E s job epoch md m = (s', r) \<or> seal_epoch_async E s job epoch md m = (s', r)"
  obtains (refused) "s' = s" "r \<noteq> Inr ()"
  | (metadata) json where "validate_metadata_identity md job epoch = Inr ()"
      "\<forall>x \<le> u64_max. sealed E (files s) job x \<longrightarrow> x < epoch" "to_vec_pretty (env_json E) md = Inr json"
      "wr E s (metadata_path job epoch) json = (s', r)" "r \<noteq> Inr ()"
  | (manifest) json s1 where "validate_metadata_identity md job epoch = Inr ()"
      "\<forall>x \<le> u64_max. sealed E (files s) job x \<longrightarrow> x < epoch" "to_vec_pretty (env_json E) md = Inr json"
      "wr E s (metadata_path job epoch) json = (s1, Inr ())"
      "wr E s1 (manifest_path job epoch) (manifest_serialize m) = (s', r)" "r \<noteq> Inr ()"
  | (hint) json s1 s2 where "validate_metadata_identity md job epoch = Inr ()"
      "\<forall>x \<le> u64_max. sealed E (files s) job x \<longrightarrow> x < epoch" "to_vec_pretty (env_json E) md = Inr json"
      "wr E s (metadata_path job epoch) json = (s1, Inr ())"
      "wr E s1 (manifest_path job epoch) (manifest_serialize m) = (s2, Inr ())"
      "wr E s2 (latest_epoch_hint_path job) (as_bytes (show_nat epoch)) = (s', r)"
proof -
  obtain s1 r1 where w: "write_epoch_metadata E s job epoch md = (s1, r1) \<or> write_epoch_metadata_async E s job epoch md = (s1, r1)"
    and rest: "(case r1 of Inl e \<Rightarrow> (s1, Inl e) | Inr _ \<Rightarrow>
      (case wr E s1 (manifest_path job epoch) (manifest_serialize m) of (s2, Inl e) \<Rightarrow> (s2, Inl e)
       | (s2, Inr _) \<Rightarrow> wr E s2 (latest_epoch_hint_path job) (as_bytes (show_nat epoch)))) = (s', r)"
    using assms(4)
    unfolding seal_epoch_def seal_epoch_async_def write_manifest_def write_manifest_async_def
        write_epoch_hint_def write_epoch_hint_async_def
    by (cases "write_epoch_metadata E s job epoch md"; cases "write_epoch_metadata_async E s job epoch md") auto
  from write_epoch_metadata_cases [OF assms(1,2) w] show thesis
  proof (elim disjE conjE exE)
    assume "s1 = s" "r1 \<noteq> Inr ()"
    with rest have "s' = s" "r \<noteq> Inr ()" by (cases r1; auto)+
    then show thesis by (rule refused)
  next
    fix json
    assume a: "validate_metadata_identity md job epoch = Inr ()" "\<forall>x \<le> u64_max. sealed E (files s) job x \<longrightarrow> x < epoch"
      "to_vec_pretty (env_json E) md = Inr json" "wr E s (metadata_path job epoch) json = (s1, r1)"
    show thesis
    proof (cases r1)
      case (Inl e)
      with rest have "s' = s1" "r = r1" "r \<noteq> Inr ()" by auto
      with a show thesis by (intro metadata) auto
    next
      case (Inr u)
      obtain s2 r2 where w2: "wr E s1 (manifest_path job epoch) (manifest_serialize m) = (s2, r2)" by fastforce
      show thesis
      proof (cases r2)
        case (Inl e)
        with rest Inr w2 have "s' = s2" "r = r2" "r \<noteq> Inr ()" by auto
        with a Inr w2 show thesis by (intro manifest) auto
      next
        case (Inr u2)
        with rest \<open>r1 = Inr u\<close> w2 show thesis using a by (intro hint) auto
      qed
    qed
  qed
qed

end

context ckpt_io
begin

lemma epoch_paths:
  "metadata_path job epoch = epoch_dir job epoch @ slash # ''metadata.json''"
  "manifest_path job epoch = epoch_dir job epoch @ slash # ''manifest.sha256''"
  by (simp_all add: metadata_path_def manifest_path_def)

lemma seal_safe:
  assumes "ok s" and "path_ok job" and "epoch \<le> u64_max"
    and "seal_epoch E s job epoch md m = (s', r) \<or> seal_epoch_async E s job epoch md m = (s', r)"
  shows "ok s' \<and> (\<forall>x \<le> u64_max. x \<noteq> epoch \<longrightarrow> sealed E (files s') job x = sealed E (files s) job x)
    \<and> (s' \<noteq> s \<or> r = Inr () \<longrightarrow> (\<forall>x \<le> u64_max. sealed E (files s) job x \<longrightarrow> x < epoch))"
proof -
  have md: "ok s1 \<and> (\<forall>x \<le> u64_max. x \<noteq> epoch \<longrightarrow> sealed E (files s1) job x = sealed E (files s) job x)"
    if "wr E s (metadata_path job epoch) json = (s1, r1)" for json s1 r1
    using epoch_write_frame [OF assms(1,2) that [unfolded epoch_paths] proper_const(2) assms(3)] by blast
  have mf: "ok s2 \<and> (\<forall>x \<le> u64_max. x \<noteq> epoch \<longrightarrow> sealed E (files s2) job x = sealed E (files s1) job x)"
    if "ok s1" "wr E s1 (manifest_path job epoch) d = (s2, r1)" for s1 d s2 r1
    using epoch_write_frame [OF that(1) assms(2) that(2) [unfolded epoch_paths] proper_const(1) assms(3)] by blast
  show ?thesis
  proof (rule seal_elim [OF assms])
    assume "s' = s" "r \<noteq> Inr ()"
    then show ?thesis using assms(1) by simp
  next
    fix json assume "\<forall>x \<le> u64_max. sealed E (files s) job x \<longrightarrow> x < epoch"
      "wr E s (metadata_path job epoch) json = (s', r)"
    then show ?thesis using md by blast
  next
    fix json s1 assume a: "\<forall>x \<le> u64_max. sealed E (files s) job x \<longrightarrow> x < epoch"
      "wr E s (metadata_path job epoch) json = (s1, Inr ())"
      "wr E s1 (manifest_path job epoch) (manifest_serialize m) = (s', r)"
    have "ok s1" using md [OF a(2)] by blast
    with a md [OF a(2)] mf [OF _ a(3)] show ?thesis by simp
  next
    fix json s1 s2 assume a: "\<forall>x \<le> u64_max. sealed E (files s) job x \<longrightarrow> x < epoch"
      "wr E s (metadata_path job epoch) json = (s1, Inr ())"
      "wr E s1 (manifest_path job epoch) (manifest_serialize m) = (s2, Inr ())"
      "wr E s2 (latest_epoch_hint_path job) (as_bytes (show_nat epoch)) = (s', r)"
    have o1: "ok s1" using md [OF a(2)] by blast
    have o2: "ok s2" using mf [OF o1 a(3)] by blast
    from a(1) md [OF a(2)] mf [OF o1 a(3)] hint_frame [OF o2 assms(2) a(4)] show ?thesis by simp
  qed
qed

lemma seal_done:
  assumes "ok s" and "path_ok job" and "epoch \<le> u64_max"
    and run: "seal_epoch E s job epoch md m = (s', Inr ()) \<or> seal_epoch_async E s job epoch md m = (s', Inr ())"
    and m: "commit_manifest E s job epoch md (cm_operator_snapshots md) = Inr m"
    and plain: "snaps_plain job epoch (cm_operator_snapshots md)"
    and json: "codec_ok (env_json E)"
  shows "sealed E (files s') job epoch \<and> read_epoch_metadata E s' job epoch = Inr (Some md)"
proof (rule seal_elim [OF assms(1-3) run])
  let ?snaps = "cm_operator_snapshots md" and ?dir = "epoch_dir job epoch"
  fix j s1 s2 assume a: "validate_metadata_identity md job epoch = Inr ()" "to_vec_pretty (env_json E) md = Inr j"
    "wr E s (metadata_path job epoch) j = (s1, Inr ())"
    "wr E s1 (manifest_path job epoch) (manifest_serialize m) = (s2, Inr ())"
    "wr E s2 (latest_epoch_hint_path job) (as_bytes (show_nat epoch)) = (s', Inr ())"
  let ?fs = "(''metadata.json'', j) # snap_files (files s) job epoch ?snaps"
  have dir: "path_ok ?dir" using assms(2) by (rule path_ok_epoch_dir)
  have pr: "proper (metadata_path job epoch)" "proper (manifest_path job epoch)"
    unfolding epoch_paths by (intro proper_append dir proper_const)+
  note w1 = write_atomic [OF assms(1) pr(1) a(3)]
  then have o1: "ok s1" by blast
  note w2 = write_atomic [OF o1 pr(2) a(4)]
  then have o2: "ok s2" by blast
  from m a(2) have m': "m = insert_all (env_sha E) ?fs manifest_new"
    and present: "\<forall>snap \<in> set ?snaps. files s (?dir @ ''/'' @ snap_rel snap) \<noteq> None"
    unfolding commit_manifest_iff [OF assms(1)] by auto
  have meta: "files s2 (metadata_path job epoch) = Some j"
  proof -
    have "files s2 (metadata_path job epoch) = files s1 (metadata_path job epoch)"
      using w2 pr(1) by (simp add: epoch_paths)
    then show ?thesis using w1 by simp
  qed
  have man: "files s2 (manifest_path job epoch) = Some (manifest_serialize m)" using w2 by simp
  have snap: "files s2 (?dir @ ''/'' @ snap_rel snap) = files s (?dir @ ''/'' @ snap_rel snap)"
    if "snap \<in> set ?snaps" for snap
  proof -
    note p = plain_rel_props [OF plain_snap_rel [OF plain that]]
    have "proper (?dir @ slash # snap_rel snap)" using dir p(3) by (rule proper_append)
    moreover have "?dir @ slash # snap_rel snap \<noteq> metadata_path job epoch" "?dir @ slash # snap_rel snap \<noteq> manifest_path job epoch"
      using p(4,5) by (simp_all add: epoch_paths)
    ultimately show ?thesis using w1 w2 by simp
  qed
  have "rel_path_ok rel \<and> manifest_path_ok rel \<and> files s2 (?dir @ ''/'' @ rel) = Some d" if "(rel, d) \<in> set ?fs" for rel d
  proof (cases "rel = ''metadata.json'' \<and> d = j")
    case True
    then show ?thesis using metadata_json_ok meta by (simp add: epoch_paths)
  next
    case False
    with that obtain snap where sn: "snap \<in> set ?snaps" "rel = snap_rel snap"
      "d = the (files s (?dir @ ''/'' @ snap_rel snap))" by (auto simp: snap_files_def)
    with present snap [OF sn(1)] plain_rel_props [OF plain_snap_rel [OF plain sn(1)]] show ?thesis by auto
  qed
  then have good: "files_good (files s2) ?dir ?fs" unfolding files_good_def by auto
  have js: "from_slice (env_json E) j = Inr md" by (rule codec_okD [OF json a(2)])
  have "sealed E (files s2) job epoch"
  proof (rule seal_intro [OF good man [unfolded m'] meta js a(1)])
    show "\<exists>rel. rel \<in> fst ` set ?fs \<and> os_snapshot_path snap = ?dir @ ''/'' @ rel" if "snap \<in> set ?snaps" for snap
      using that plain unfolding snaps_plain_def snap_files_def
      by (intro exI [of _ "snap_rel snap"]) (simp add: snap_path image_image)
  qed
  then have "sealed E (files s') job epoch" using hint_frame(2) [OF o2 assms(2) a(5)] by blast
  moreover have "files s' (metadata_path job epoch) = Some j"
    using hint_frame(3) [OF o2 assms(2) a(5), of "metadata_path job epoch" epoch] meta pr(1)
    by (simp add: epoch_paths proper_def)
  ultimately show ?thesis
    unfolding epoch_metadata_iff [OF hint_frame(1) [OF o2 assms(2) a(5)]] using js by blast
qed simp_all

text \<open>Recovery after a commit attempt: no step back, and the new epoch as soon as it is sealed.\<close>

lemma latest_after:
  assumes "ok s" and "ok s'" and "path_ok job" and "epoch \<le> u64_max"
    and same: "\<forall>x \<le> u64_max. x \<noteq> epoch \<longrightarrow> sealed E (files s') job x = sealed E (files s) job x"
    and older: "s' \<noteq> s \<longrightarrow> (\<forall>x \<le> u64_max. sealed E (files s) job x \<longrightarrow> x < epoch)"
    and l: "latest_valid_epoch E s job = Inr old" and l': "latest_valid_epoch E s' job = Inr new"
  shows "new = old \<or> new = epoch \<and> old < epoch"
proof (cases "s' = s")
  case True
  with l l' show ?thesis by simp
next
  case False
  have o: "old \<le> u64_max" "sealed E (files s) job old" "\<forall>x \<le> u64_max. sealed E (files s) job x \<longrightarrow> x \<le> old"
    using latest_max [OF assms(1,3)] l by blast+
  have n: "new \<le> u64_max" "sealed E (files s') job new" "\<forall>x \<le> u64_max. sealed E (files s') job x \<longrightarrow> x \<le> new"
    using latest_max [OF assms(2,3)] l' by blast+
  have lt: "old < epoch" using older False o by blast
  then have "sealed E (files s') job old" using same o by auto
  then have "old \<le> new" using n o by blast
  moreover have "new \<le> old" if "new \<noteq> epoch" using same n o that by blast
  ultimately show ?thesis using lt by auto
qed

end

section \<open>Acks, quorum and clocks\<close>

lemma commit_metadata_snaps_plain:
  assumes "coord_inv c" and "in_flight (cc_state c)"
    and "\<forall>(k, a) \<in> set (cc_pending_acks c). ack_snapshot_path a \<noteq> None \<longrightarrow>
      plain_id (ack_operator_id a) \<and> plain_id (ack_task_id a)"
  shows "snaps_plain (cc_job_id c) (cc_current_epoch c) (cm_operator_snapshots (commit_metadata now c (cc_current_epoch c)))"
proof -
  have "snaps_plain (cc_job_id c) (cc_current_epoch c) (collect_operator_snapshots (map snd (cc_pending_acks c)))"
    unfolding snaps_plain_def
  proof
    fix snap assume "snap \<in> set (collect_operator_snapshots (map snd (cc_pending_acks c)))"
    then obtain k a path where ka: "(k, a) \<in> set (cc_pending_acks c)" "ack_snapshot_path a = Some path"
      "snap = \<lparr>os_operator_id = ack_operator_id a, os_task_id = ack_task_id a, os_snapshot_path = path\<rparr>"
      by (auto simp: collect_operator_snapshots_def List.map_filter_def)
    have "ack_matches (cc_job_id c) (cc_current_epoch c) (k, a)" using assms(1,2) ka(1) unfolding coord_inv_def by blast
    with ka assms(3) show "plain_id (os_operator_id snap) \<and> plain_id (os_task_id snap)
      \<and> os_snapshot_path snap = snapshot_path (cc_job_id c) (cc_current_epoch c) (os_operator_id snap) (os_task_id snap)"
      by (auto simp: ack_matches_def)
  qed
  then show ?thesis by (simp add: commit_metadata_def Let_def)
qed

lemma awaiting_epoch: "coord_inv c \<Longrightarrow> cc_state c = AwaitingAcks epoch t \<Longrightarrow> epoch = cc_current_epoch c"
  by (simp add: coord_inv_def)

lemma extract_eq:
  "cc_state c = AwaitingAcks epoch t \<Longrightarrow> extract_commit_data now c =
    Inr \<lparr>pc_job_id = cc_job_id c, pc_epoch = epoch, pc_metadata = commit_metadata now c epoch,
      pc_operator_snapshots = cm_operator_snapshots (commit_metadata now c epoch)\<rparr>"
  by (simp add: extract_commit_data_def Let_def validate_fencing_token_def commit_metadata_def)

lemma commit_epoch_run:
  assumes "cc_state c = AwaitingAcks epoch t"
  shows "commit_epoch E now s c =
    (case commit_manifest E s (cc_job_id c) epoch (commit_metadata now c epoch)
            (cm_operator_snapshots (commit_metadata now c epoch)) of
       Inl e \<Rightarrow> (s, c, Inl e)
     | Inr manifest \<Rightarrow>
         (case seal_epoch E s (cc_job_id c) epoch (commit_metadata now c epoch) manifest of
            (s', Inl e) \<Rightarrow> (s', c, Inl e)
          | (s', Inr _) \<Rightarrow> (s', c\<lparr>cc_state := Committed epoch, cc_pending_is_savepoint := False,
                 cc_pending_savepoint_label := None, cc_awaiting_elapsed_ms := 0\<rparr>, Inr epoch)))"
proof -
  have "validate_fencing_token (commit_metadata now c epoch) (cc_fencing_token c) = Inr ()"
    by (simp add: validate_fencing_token_def commit_metadata_def Let_def)
  then show ?thesis by (simp add: commit_epoch_def assms Let_def)
qed

lemma commit_epoch_error: "commit_epoch E now s c = (s', c', Inl e) \<Longrightarrow> c' = c"
  by (auto simp: commit_epoch_def Let_def split: coordinator_state.splits sum.splits prod.splits)

lemma commit_epoch_async_error: "commit_epoch_async E now s c = (s', c', r) \<Longrightarrow> c' = c \<and> (\<exists>e. r = Inl e)"
  by (cases "cc_state c")
    (auto simp: commit_epoch_async_def extract_eq extract_commit_data_def finalize_commit_def
      split: sum.splits prod.splits)

context ckpt_io
begin

lemma commit_epoch_storage:
  assumes "ok s" and "path_ok (cc_job_id c)" and "coord_inv c"
    and json: "codec_ok (env_json E)"
    and plain: "\<forall>(k, a) \<in> set (cc_pending_acks c). ack_snapshot_path a \<noteq> None \<longrightarrow>
      plain_id (ack_operator_id a) \<and> plain_id (ack_task_id a)"
    and run: "commit_epoch E now s c = (s', c', r)"
  shows "ok s' \<and> (\<forall>x \<le> u64_max. x \<noteq> cc_current_epoch c \<longrightarrow>
        sealed E (files s') (cc_job_id c) x = sealed E (files s) (cc_job_id c) x)
    \<and> (s' \<noteq> s \<or> (\<exists>e. r = Inr e) \<longrightarrow> (\<forall>x \<le> u64_max. sealed E (files s) (cc_job_id c) x \<longrightarrow> x < cc_current_epoch c))
    \<and> (\<forall>e. r = Inr e \<longrightarrow> e = cc_current_epoch c \<and> committed_epoch c' = Some e \<and> sealed E (files s') (cc_job_id c) e
         \<and> read_epoch_metadata E s' (cc_job_id c) e = Inr (Some (commit_metadata now c e)))"
proof (cases "\<exists>epoch t m. cc_state c = AwaitingAcks epoch t \<and> commit_manifest E s (cc_job_id c) epoch
    (commit_metadata now c epoch) (cm_operator_snapshots (commit_metadata now c epoch)) = Inr m")
  case False
  have "s' = s \<and> (\<exists>e. r = Inl e)"
  proof (cases "\<exists>epoch t. cc_state c = AwaitingAcks epoch t")
    case True
    then obtain epoch t where st: "cc_state c = AwaitingAcks epoch t" by blast
    with False obtain x where "commit_manifest E s (cc_job_id c) epoch (commit_metadata now c epoch)
        (cm_operator_snapshots (commit_metadata now c epoch)) = Inl x"
      by (meson sum.exhaust_sel)
    then show ?thesis using run by (auto simp: commit_epoch_run [OF st])
  next
    case False
    then show ?thesis using run by (cases "cc_state c") (auto simp: commit_epoch_def)
  qed
  then show ?thesis using assms(1) by auto
next
  case True
  then obtain epoch t m where st: "cc_state c = AwaitingAcks epoch t"
    and m: "commit_manifest E s (cc_job_id c) epoch (commit_metadata now c epoch)
      (cm_operator_snapshots (commit_metadata now c epoch)) = Inr m" by blast
  have e: "epoch = cc_current_epoch c" using awaiting_epoch [OF assms(3) st] .
  have le: "epoch \<le> u64_max" using assms(3) e by (simp add: coord_inv_def)
  obtain r1 where seal: "seal_epoch E s (cc_job_id c) epoch (commit_metadata now c epoch) m = (s', r1)"
    and r: "case r1 of Inl x \<Rightarrow> r = Inl x | Inr _ \<Rightarrow> r = Inr epoch \<and> cc_state c' = Committed epoch"
    using run m st by (auto simp: commit_epoch_run split: prod.splits sum.splits)
  note safe = seal_safe [OF assms(1,2) le disjI1 [OF seal]]
  show ?thesis
  proof (cases r1)
    case (Inl x)
    with r safe e show ?thesis by auto
  next
    case (Inr u)
    have "in_flight (cc_state c)" by (simp add: st in_flight_def)
    from commit_metadata_snaps_plain [OF assms(3) this plain] seal_done [OF assms(1,2) le _ m _ json] seal Inr
    have "sealed E (files s') (cc_job_id c) epoch
      \<and> read_epoch_metadata E s' (cc_job_id c) epoch = Inr (Some (commit_metadata now c epoch))" by (simp add: e)
    with r Inr safe e show ?thesis by (auto simp: committed_epoch_def)
  qed
qed

lemma commit_storage_safe:
  assumes "ok s" and "path_ok (pc_job_id pc)" and "pc_epoch pc \<le> u64_max"
    and run: "commit_storage E s pc = (s', r)"
  shows "ok s' \<and> (\<forall>x \<le> u64_max. x \<noteq> pc_epoch pc \<longrightarrow>
        sealed E (files s') (pc_job_id pc) x = sealed E (files s) (pc_job_id pc) x)
    \<and> (s' \<noteq> s \<or> (\<exists>e. r = Inr e) \<longrightarrow> (\<forall>x \<le> u64_max. sealed E (files s) (pc_job_id pc) x \<longrightarrow> x < pc_epoch pc))"
proof (cases "commit_manifest E s (pc_job_id pc) (pc_epoch pc) (pc_metadata pc) (pc_operator_snapshots pc)")
  case (Inl e)
  with run assms(1) show ?thesis by (auto simp: commit_storage_def)
next
  case (Inr m)
  obtain r1 where seal: "seal_epoch_async E s (pc_job_id pc) (pc_epoch pc) (pc_metadata pc) m = (s', r1)"
    and r: "(\<exists>e. r = Inr e) \<longrightarrow> r1 = Inr ()"
    using run Inr by (auto simp: commit_storage_def split: prod.splits sum.splits)
  from seal_safe [OF assms(1-3) disjI2 [OF seal]] r show ?thesis by blast
qed

lemma commit_storage_done:
  assumes "ok s" and "path_ok (pc_job_id pc)" and "pc_epoch pc \<le> u64_max"
    and "pc_operator_snapshots pc = cm_operator_snapshots (pc_metadata pc)"
    and "snaps_plain (pc_job_id pc) (pc_epoch pc) (pc_operator_snapshots pc)"
    and json: "codec_ok (env_json E)"
    and run: "commit_storage E s pc = (s', Inr e)"
  shows "e = pc_epoch pc \<and> sealed E (files s') (pc_job_id pc) e
    \<and> read_epoch_metadata E s' (pc_job_id pc) e = Inr (Some (pc_metadata pc))"
proof -
  obtain m where m: "commit_manifest E s (pc_job_id pc) (pc_epoch pc) (pc_metadata pc) (pc_operator_snapshots pc) = Inr m"
    and seal: "seal_epoch_async E s (pc_job_id pc) (pc_epoch pc) (pc_metadata pc) m = (s', Inr ())" and e: "e = pc_epoch pc"
    using run by (auto simp: commit_storage_def split: prod.splits sum.splits)
  from seal_done [OF assms(1-3) disjI2 [OF seal] m [unfolded assms(4)] assms(5) [unfolded assms(4)] json] e show ?thesis by simp
qed

end

section \<open>Sink transactions\<close>

lemma merge_sink_tx_wf: "bt_wf m \<Longrightarrow> bt_wf (merge_sink_tx tx m)"
  by (simp add: merge_sink_tx_def Let_def)

lemma merge_lookup:
  assumes "bt_wf m"
  shows "map_of (merge_sink_tx tx m) p = (if p = ps_prepare_path tx then Some (case map_of m p of
      Some e \<Rightarrow> e\<lparr>st_committed := st_committed e \<or> ps_committed tx\<rparr>
    | None \<Rightarrow> \<lparr>st_sink_id = ps_sink_id tx, st_epoch = ps_epoch tx, st_prepare_path = p, st_committed = ps_committed tx\<rparr>)
    else map_of m p)"
  using assms by (simp add: merge_sink_tx_def Let_def split: option.split)

lemma fold_merge_wf: "bt_wf m \<Longrightarrow> bt_wf (fold merge_sink_tx txs m)"
  by (induction txs arbitrary: m) (simp_all add: merge_sink_tx_wf)

lemma fold_merge_lookup:
  "map_of (fold merge_sink_tx txs []) p =
     map_option (\<lambda>f. \<lparr>st_sink_id = ps_sink_id f, st_epoch = ps_epoch f, st_prepare_path = p,
         st_committed = (\<exists>t \<in> set txs. ps_prepare_path t = p \<and> ps_committed t)\<rparr>)
       (List.find (\<lambda>t. ps_prepare_path t = p) txs)"
proof (induction txs rule: rev_induct)
  case (snoc x txs)
  let ?m = "fold merge_sink_tx txs []"
  have wf: "bt_wf ?m" by (simp add: fold_merge_wf)
  have fs: "List.find P (txs @ [x]) = (case List.find P txs of None \<Rightarrow> (if P x then Some x else None) | Some f \<Rightarrow> Some f)" for P
    by (induction txs) auto
  have m: "map_of (fold merge_sink_tx (txs @ [x]) []) p = map_of (merge_sink_tx x ?m) p" by simp
  have none: "List.find (\<lambda>t. ps_prepare_path t = p) txs = None \<Longrightarrow> \<forall>t \<in> set txs. ps_prepare_path t \<noteq> p"
    by (auto simp: find_None_iff)
  show ?case
    unfolding m merge_lookup [OF wf] fs snoc
    using none by (cases "List.find (\<lambda>t. ps_prepare_path t = p) txs") auto
qed simp

lemma fold_merge_entry:
  assumes "(k, v) \<in> set (fold merge_sink_tx txs [])"
  shows "st_prepare_path v = k \<and> (st_committed v \<longleftrightarrow> (\<exists>t \<in> set txs. ps_prepare_path t = k \<and> ps_committed t))"
proof -
  have "map_of (fold merge_sink_tx txs []) k = Some v"
    using assms bt_wf_amap_wf [OF fold_merge_wf [OF bt_wf_Nil]] by (simp add: amap_mem_iff)
  then show ?thesis unfolding fold_merge_lookup by auto
qed

section \<open>Clock ticks\<close>

primrec ticks :: "int \<Rightarrow> nat \<Rightarrow> nat \<Rightarrow> nat \<Rightarrow> checkpoint_coordinator \<Rightarrow> checkpoint_coordinator" where
  "ticks now ms timeout 0 c = c"
| "ticks now ms timeout (Suc n) c = ticks now ms timeout n (fst (try_tick now ms timeout c))"

lemma ticks_abort:
  assumes "cc_state c = AwaitingAcks e t" and "timeout \<le> u64_max"
    and "timeout \<le> cc_awaiting_elapsed_ms c + n * ms" and "0 < n"
  shows "\<exists>k. 0 < k \<and> k \<le> n \<and> cc_state (ticks now ms timeout k c) = Failed e ''timed out waiting for checkpoint acknowledgements''
    \<and> cc_elapsed_ms (ticks now ms timeout k c) = 0 \<and> cc_current_epoch (ticks now ms timeout k c) = cc_current_epoch c
    \<and> cc_expected_task_count (ticks now ms timeout k c) = cc_expected_task_count c
    \<and> cc_interval_ms (ticks now ms timeout k c) = cc_interval_ms c"
  using assms
proof (induction n arbitrary: c)
  case (Suc n)
  let ?c = "c\<lparr>cc_awaiting_elapsed_ms := saturating_add_u64 (cc_awaiting_elapsed_ms c) ms\<rparr>"
  show ?case
  proof (cases "cc_awaiting_elapsed_ms ?c \<ge> timeout")
    case True
    then have "fst (try_tick now ms timeout c) = abort_epoch ''timed out waiting for checkpoint acknowledgements'' ?c"
      using Suc.prems(1) by (simp add: try_tick_def)
    then show ?thesis using Suc.prems(1) by (intro exI [of _ 1]) (simp add: abort_epoch_def Let_def)
  next
    case False
    then have step: "fst (try_tick now ms timeout c) = ?c" using Suc.prems(1) by (simp add: try_tick_def)
    have a: "cc_awaiting_elapsed_ms ?c = cc_awaiting_elapsed_ms c + ms"
      using False Suc.prems(2) by (auto simp: saturating_add_u64_def min_def split: if_splits)
    have st: "cc_state ?c = AwaitingAcks e t" using Suc.prems(1) by simp
    have le: "timeout \<le> cc_awaiting_elapsed_ms ?c + n * ms" using Suc.prems(3) a by simp
    then have "0 < n" using False by (cases n) auto
    from Suc.IH [OF st Suc.prems(2) le this] obtain k where
      "0 < k" "k \<le> n" "cc_state (ticks now ms timeout k ?c) = Failed e ''timed out waiting for checkpoint acknowledgements''
        \<and> cc_elapsed_ms (ticks now ms timeout k ?c) = 0 \<and> cc_current_epoch (ticks now ms timeout k ?c) = cc_current_epoch ?c
        \<and> cc_expected_task_count (ticks now ms timeout k ?c) = cc_expected_task_count ?c
        \<and> cc_interval_ms (ticks now ms timeout k ?c) = cc_interval_ms ?c" by blast
    then show ?thesis by (intro exI [of _ "Suc k"]) (simp add: step)
  qed
qed simp

lemma ticks_initiate:
  assumes "\<not> in_flight (cc_state c)" and "0 < cc_expected_task_count c" and "cc_current_epoch c < u64_max"
    and "cc_interval_ms c \<le> u64_max" and "cc_interval_ms c \<le> cc_elapsed_ms c + n * ms" and "0 < n"
  shows "\<exists>k. 0 < k \<and> k \<le> n \<and> cc_state (ticks now ms timeout k c) = AwaitingAcks (cc_current_epoch c + 1) (now_u64 now)
    \<and> cc_awaiting_elapsed_ms (ticks now ms timeout k c) = 0"
  using assms
proof (induction n arbitrary: c)
  case (Suc n)
  let ?c = "c\<lparr>cc_elapsed_ms := saturating_add_u64 (cc_elapsed_ms c) ms\<rparr>"
  have tick: "try_tick now ms timeout c = (if cc_elapsed_ms ?c \<ge> cc_interval_ms ?c
      then (case initiate now ?c of (c'', Inr e) \<Rightarrow> (c'', Some e) | (c'', Inl _) \<Rightarrow> (c'', None)) else (?c, None))"
    using Suc.prems(1,2) by (cases "cc_state c") (auto simp: try_tick_def in_flight_def Let_def)
  show ?case
  proof (cases "cc_elapsed_ms ?c \<ge> cc_interval_ms ?c")
    case True
    have "\<not> is_awaiting (cc_state c)" using Suc.prems(1) by (simp add: in_flight_def)
    then have "fst (try_tick now ms timeout c) = fst (initiate now ?c)"
      unfolding tick using True by (auto split: prod.splits sum.splits)
    with \<open>\<not> is_awaiting (cc_state c)\<close> Suc.prems(3) show ?thesis
      by (intro exI [of _ 1]) (simp add: initiate_def checked_add_u64_def)
  next
    case False
    then have step: "fst (try_tick now ms timeout c) = ?c" unfolding tick by simp
    have a: "cc_elapsed_ms ?c = cc_elapsed_ms c + ms"
      using False Suc.prems(4) by (auto simp: saturating_add_u64_def min_def split: if_splits)
    have le: "cc_interval_ms ?c \<le> cc_elapsed_ms ?c + n * ms" using Suc.prems(5) a by simp
    then have "0 < n" using False by (cases n) auto
    with Suc.IH [of ?c] Suc.prems le obtain k where
      "0 < k" "k \<le> n" "cc_state (ticks now ms timeout k ?c) = AwaitingAcks (cc_current_epoch c + 1) (now_u64 now)
        \<and> cc_awaiting_elapsed_ms (ticks now ms timeout k ?c) = 0" by auto
    then show ?thesis by (intro exI [of _ "Suc k"]) (simp add: step)
  qed
qed simp

lemma ticks_add: "ticks now ms timeout (m + n) c = ticks now ms timeout n (ticks now ms timeout m c)"
  by (induction m arbitrary: c) simp_all

section \<open>Properties\<close>

text \<open>
  C29. In every reachable state of the coordinator, whatever the storage does, the epoch named by
  the state is the current epoch, the fencing token is positive, and while an epoch is in
  flight every recorded ack belongs to this job and this epoch, is filed under its own task,
  and names the snapshot path of that task.
\<close>

theorem coordinator_reachable_invariant:
  assumes "(coord_step E)\<^sup>*\<^sup>* (coordinator_new job cid interval n) c"
  shows "cc_current_epoch c \<le> u64_max \<and> 1 \<le> cc_fencing_token c
    \<and> (cc_state c = Idle \<or> state_epoch (cc_state c) = Some (cc_current_epoch c))
    \<and> distinct (map fst (cc_pending_acks c))
    \<and> (in_flight (cc_state c) \<longrightarrow>
         (\<forall>ka \<in> set (cc_pending_acks c). ack_matches (cc_job_id c) (cc_current_epoch c) ka))"
proof -
  have "coord_inv c" using assms by (rule reachable_inv)
  then show ?thesis by (cases "cc_state c") (auto simp: coord_inv_def amap_wf_def)
qed

definition demo_ack :: checkpoint_ack_request where
  "demo_ack = \<lparr>ack_job_id = ''j'', ack_operator_id = ''op'', ack_task_id = ''t'', ack_epoch = 1, ack_fencing_token = 1,
     ack_source_offsets = [], ack_snapshot_path = Some (snapshot_path ''j'' 1 ''op'' ''t''), ack_sink_transactions = []\<rparr>"

definition demo_c :: checkpoint_coordinator where
  "demo_c = (coordinator_new ''j'' ''c'' 10 1)\<lparr>cc_current_epoch := 1, cc_state := AwaitingAcks 1 0\<rparr>"

lemma demo_initiate: "initiate 0 (coordinator_new ''j'' ''c'' 10 1) = (demo_c, Inr 1)"
  by (simp add: initiate_def demo_c_def coordinator_new_def checked_add_u64_def now_u64_def)

lemma demo_c_step: "(coord_step E)\<^sup>*\<^sup>* (coordinator_new ''j'' ''c'' 10 1) demo_c"
  using initiated [OF demo_initiate] by (rule r_into_rtranclp)

theorem coordinator_reachable_invariant_witness:
  "cc_current_epoch demo_c = 1 \<and> state_epoch (cc_state demo_c) = Some (cc_current_epoch demo_c)"
proof -
  have "cc_state demo_c \<noteq> Idle" "cc_current_epoch demo_c = 1" by (simp_all add: demo_c_def)
  with coordinator_reachable_invariant [OF demo_c_step] show ?thesis by blast
qed

text \<open>
  C27. A commit attempt is crash safe. Under every schedule of failing system calls of the file
  system, \<open>commit_epoch\<close> leaves the validity of every other epoch alone and writes nothing when
  a valid epoch is as new as the one it commits; when it fails the coordinator is unchanged, so
  the epoch and its savepoint label can be retried; when it succeeds the epoch is sealed with
  the collected metadata and is newer than every epoch sealed before; and recovery afterwards
  finds the same epoch as before or the committed one.
\<close>

theorem commit_epoch_crash_safe:
  assumes "fs_inv s" and "path_ok (cc_job_id c)" and "coord_inv c"
    and json: "codec_ok json"
    and "\<forall>(k, a) \<in> set (cc_pending_acks c). ack_snapshot_path a \<noteq> None \<longrightarrow>
      plain_id (ack_operator_id a) \<and> plain_id (ack_task_id a)"
    and run: "commit_epoch (fs_env json sha width) now s c = (s', c', r)"
  shows "(\<forall>x \<le> u64_max. x \<noteq> cc_current_epoch c \<longrightarrow> sealed (fs_env json sha width) (fs_view s') (cc_job_id c) x
        = sealed (fs_env json sha width) (fs_view s) (cc_job_id c) x)
    \<and> (\<forall>x \<le> u64_max. sealed (fs_env json sha width) (fs_view s) (cc_job_id c) x \<longrightarrow> s' \<noteq> s \<longrightarrow> x < cc_current_epoch c)
    \<and> (\<forall>e. r = Inl e \<longrightarrow> c' = c)
    \<and> (\<forall>e. r = Inr e \<longrightarrow> e = cc_current_epoch c \<and> committed_epoch c' = Some e
         \<and> sealed (fs_env json sha width) (fs_view s') (cc_job_id c) e
         \<and> read_epoch_metadata (fs_env json sha width) s' (cc_job_id c) e = Inr (Some (commit_metadata now c e)))
    \<and> (\<forall>old new. latest_valid_epoch (fs_env json sha width) s (cc_job_id c) = Inr old \<longrightarrow>
         latest_valid_epoch (fs_env json sha width) s' (cc_job_id c) = Inr new \<longrightarrow>
         new = old \<or> new = cc_current_epoch c \<and> old < cc_current_epoch c)"
proof -
  let ?E = "fs_env json sha width"
  have j: "codec_ok (env_json ?E)"
    using json by (simp add: fs_env_def)
  note st = fs_io.commit_epoch_storage [OF assms(1-3) j assms(5) run]
  have le: "cc_current_epoch c \<le> u64_max" using assms(3) by (simp add: coord_inv_def)
  have inv': "fs_inv s'" using st by blast
  have latest: "new = old \<or> new = cc_current_epoch c \<and> old < cc_current_epoch c"
    if "latest_valid_epoch ?E s (cc_job_id c) = Inr old" "latest_valid_epoch ?E s' (cc_job_id c) = Inr new" for old new
    using fs_io.latest_after [OF assms(1) inv' assms(2) le _ _ that] st by blast
  have err: "c' = c" if "r = Inl e" for e using commit_epoch_error [of ?E now s c s' c' e] run that by simp
  note same = conjunct1 [OF conjunct2 [OF st]] and older = conjunct1 [OF conjunct2 [OF conjunct2 [OF st]]]
    and good = conjunct2 [OF conjunct2 [OF conjunct2 [OF st]]]
  show ?thesis
  proof (intro conjI)
    show "\<forall>x \<le> u64_max. sealed ?E (fs_view s) (cc_job_id c) x \<longrightarrow> s' \<noteq> s \<longrightarrow> x < cc_current_epoch c"
      using older by simp
    show "\<forall>e. r = Inl e \<longrightarrow> c' = c" using err by simp
    show "\<forall>old new. latest_valid_epoch ?E s (cc_job_id c) = Inr old \<longrightarrow>
         latest_valid_epoch ?E s' (cc_job_id c) = Inr new \<longrightarrow>
         new = old \<or> new = cc_current_epoch c \<and> old < cc_current_epoch c" using latest by simp
  qed (rule same, rule good)
qed

definition codec_for :: "checkpoint_metadata \<Rightarrow> json_codec" where
  "codec_for md = \<lparr>to_vec_pretty = (\<lambda>m. if m = md then Inr [0] else Inl ''x''),
     from_slice = (\<lambda>b. if b = [0] then Inr md else Inl ''x'')\<rparr>"

lemma codec_for_ok: "codec_ok (codec_for md)"
  by (auto simp: codec_ok_def codec_for_def split: if_splits)

definition demo_c1 :: checkpoint_coordinator where
  "demo_c1 = demo_c\<lparr>cc_pending_acks := [(''t'', demo_ack)]\<rparr>"

definition demo_fs :: local_fs where
  "demo_fs = fst (fs_write (fs_empty []) (snapshot_path ''j'' 1 ''op'' ''t'') [9])"

definition demo_cenv :: "local_fs ckpt_env" where
  "demo_cenv = fs_env (codec_for (commit_metadata 0 demo_c1 1)) (take 1) 2"

lemma demo_fs_inv: "fs_inv demo_fs"
  by code_simp

lemma demo_c1_state: "cc_state demo_c1 = AwaitingAcks 1 0" "cc_current_epoch demo_c1 = 1" "cc_job_id demo_c1 = ''j''"
  "cc_fencing_token demo_c1 = 1" "cc_pending_acks demo_c1 = [(''t'', demo_ack)]"
  by code_simp+

lemma demo_c1_inv: "coord_inv demo_c1"
  unfolding coord_inv_def demo_c1_state
  by (simp add: amap_wf_def ack_matches_def demo_ack_def)

lemma demo_c1_plain: "\<forall>(k, a) \<in> set (cc_pending_acks demo_c1). ack_snapshot_path a \<noteq> None \<longrightarrow>
    plain_id (ack_operator_id a) \<and> plain_id (ack_task_id a)"
  unfolding demo_c1_state by (simp add: demo_ack_def plain_id_def printable_def)

lemma demo_latest:
  "latest_valid_epoch demo_cenv demo_fs ''j'' = Inl NoValidEpoch"
  "latest_valid_epoch_async demo_cenv demo_fs ''j'' = Inl NoValidEpoch"
proof -
  have l: "s_list (env_ops demo_cenv) demo_fs (checkpoints_prefix ''j'') = Inr [pad20 1]" by code_simp
  have p: "parse_u64 (pad20 1) = Some 1" by (rule parse_pad20) simp
  have v: "validate_epoch demo_cenv demo_fs ''j'' 1 = Inr False" "validate_epoch_async demo_cenv demo_fs ''j'' 1 = Inr False"
    by code_simp+
  have "epoch_candidates_newest_first [pad20 1] = [1]"
    by (simp add: epoch_candidates_newest_first_def List.map_filter_def p del: One_nat_def)
  with v show "latest_valid_epoch demo_cenv demo_fs ''j'' = Inl NoValidEpoch"
    "latest_valid_epoch_async demo_cenv demo_fs ''j'' = Inl NoValidEpoch"
    by (simp_all add: latest_valid_epoch_def latest_valid_epoch_async_def l del: One_nat_def)
qed

definition demo_m :: integrity_manifest where
  "demo_m = insert_all (take 1) [(''metadata.json'', [0]), (''op/t/state.bin'', [9])] manifest_new"

definition demo_writes :: "local_fs \<times> (checkpoint_error + unit)" where
  "demo_writes = (case write_metadata_json demo_cenv demo_fs ''j'' 1 (commit_metadata 0 demo_c1 1) of
     (s1, Inl e) \<Rightarrow> (s1, Inl e)
   | (s1, Inr _) \<Rightarrow>
       (case write_manifest demo_cenv s1 ''j'' 1 demo_m of
          (s2, Inl e) \<Rightarrow> (s2, Inl e)
        | (s2, Inr _) \<Rightarrow> write_epoch_hint demo_cenv s2 ''j'' 1))"

lemma demo_seal:
  "seal_epoch demo_cenv demo_fs ''j'' 1 (commit_metadata 0 demo_c1 1)
     demo_m = demo_writes"
  "seal_epoch_async demo_cenv demo_fs ''j'' 1 (commit_metadata 0 demo_c1 1)
     demo_m = demo_writes"
proof -
  have "validate_metadata_identity (commit_metadata 0 demo_c1 1) ''j'' 1 = Inr ()" by code_simp
  then have "write_epoch_metadata demo_cenv demo_fs ''j'' 1 (commit_metadata 0 demo_c1 1) =
      write_metadata_json demo_cenv demo_fs ''j'' 1 (commit_metadata 0 demo_c1 1)"
    "write_epoch_metadata_async demo_cenv demo_fs ''j'' 1 (commit_metadata 0 demo_c1 1) =
      write_metadata_json demo_cenv demo_fs ''j'' 1 (commit_metadata 0 demo_c1 1)"
    by (simp_all add: write_epoch_metadata_def write_epoch_metadata_async_def demo_latest)
  then show "seal_epoch demo_cenv demo_fs ''j'' 1 (commit_metadata 0 demo_c1 1)
     demo_m = demo_writes"
    "seal_epoch_async demo_cenv demo_fs ''j'' 1 (commit_metadata 0 demo_c1 1)
     demo_m = demo_writes"
    unfolding seal_epoch_def seal_epoch_async_def demo_writes_def write_manifest_async_def write_manifest_def
      write_epoch_hint_async_def write_epoch_hint_def by simp_all
qed

lemma demo_writes_ok: "snd demo_writes = Inr ()"
  by code_simp

lemma demo_manifest:
  "commit_manifest demo_cenv demo_fs ''j'' 1 (commit_metadata 0 demo_c1 1) (cm_operator_snapshots (commit_metadata 0 demo_c1 1))
   = Inr demo_m"
  by code_simp

theorem commit_epoch_crash_safe_witness:
  "\<exists>s' c'. commit_epoch demo_cenv 0 demo_fs demo_c1 = (s', c', Inr 1) \<and> sealed demo_cenv (fs_view s') ''j'' 1"
proof -
  obtain s' c' r where run: "commit_epoch demo_cenv 0 demo_fs demo_c1 = (s', c', r)"
    by (cases "commit_epoch demo_cenv 0 demo_fs demo_c1") auto
  obtain s1 where w: "demo_writes = (s1, Inr ())" using demo_writes_ok by (metis prod.collapse)
  from run have r: "r = Inr 1"
    by (simp add: w commit_epoch_run [OF demo_c1_state(1)] demo_c1_state(3) demo_manifest demo_seal del: One_nat_def)
  have "path_ok (cc_job_id demo_c1)" using path_ok_j demo_c1_state by simp
  from commit_epoch_crash_safe [OF demo_fs_inv this demo_c1_inv codec_for_ok demo_c1_plain run [unfolded demo_cenv_def]] r
  have "sealed demo_cenv (fs_view s') ''j'' 1" unfolding demo_cenv_def demo_c1_state by blast
  with run r show ?thesis by blast
qed

text \<open>
  C28. The three-phase commit. When the quorum ack is accepted the extracted commit names the
  current epoch and its state is \<open>Committing\<close>; if the storage phase, run later on any storage,
  succeeds, the epoch is sealed with the extracted metadata and finalizing it succeeds.
\<close>

theorem three_phase_commit:
  assumes "coord_inv c" and "path_ok (cc_job_id c)"
    and json: "codec_ok json"
    and acked: "receive_ack_async now c ack = (c1, Inr True)"
    and plain: "\<forall>(k, a) \<in> set (cc_pending_acks c1). ack_snapshot_path a \<noteq> None \<longrightarrow>
      plain_id (ack_operator_id a) \<and> plain_id (ack_task_id a)"
    and taken: "take_pending_commit c1 = (c2, Some pc)"
    and "fs_inv s" and stored: "commit_storage (fs_env json sha width) s pc = (s', Inr e)"
  shows "e = cc_current_epoch c \<and> sealed (fs_env json sha width) (fs_view s') (cc_job_id c) e
    \<and> read_epoch_metadata (fs_env json sha width) s' (cc_job_id c) e = Inr (Some (pc_metadata pc))
    \<and> snd (finalize_commit e c2) = Inr () \<and> committed_epoch (fst (finalize_commit e c2)) = Some e"
proof -
  let ?E = "fs_env json sha width"
  obtain epoch t c0 pc0 where st: "cc_state c = AwaitingAcks epoch t" and acc: "accept_ack c epoch ack = Inr c0"
    and ex: "extract_commit_data now c0 = Inr pc0"
    and c1: "c1 = c0\<lparr>cc_pending_commit := Some pc0, cc_state := Committing epoch\<rparr>"
    using acked by (auto simp: receive_ack_async_def split: coordinator_state.splits sum.splits if_splits)
  have inv0: "coord_inv c0" using accept_ack_inv [OF acc assms(1) st] .
  have st0: "cc_state c0 = AwaitingAcks epoch t" "cc_job_id c0 = cc_job_id c" "cc_current_epoch c0 = cc_current_epoch c"
    using acc st by (auto simp: accept_ack_iff)
  have e: "epoch = cc_current_epoch c" using awaiting_epoch [OF assms(1) st] .
  let ?md = "commit_metadata now c0 (cc_current_epoch c0)"
  have pc: "pc = \<lparr>pc_job_id = cc_job_id c, pc_epoch = epoch, pc_metadata = ?md,
      pc_operator_snapshots = cm_operator_snapshots ?md\<rparr>" and c2: "c2 = c1\<lparr>cc_pending_commit := None\<rparr>"
    using taken st0 e ex by (auto simp: c1 take_pending_commit_def extract_eq)
  have pl: "snaps_plain (pc_job_id pc) (pc_epoch pc) (pc_operator_snapshots pc)"
    using commit_metadata_snaps_plain [OF inv0, of now] plain st0 e by (simp add: pc in_flight_def c1)
  have le: "pc_epoch pc \<le> u64_max" using assms(1) e by (simp add: pc coord_inv_def)
  have j: "codec_ok (env_json ?E)"
    using json by (simp add: fs_env_def)
  have "path_ok (pc_job_id pc)" using assms(2) by (simp add: pc)
  from fs_io.commit_storage_done [OF assms(7) this le _ pl j stored]
  have fin: "e = epoch" "sealed ?E (fs_view s') (cc_job_id c) e"
    "read_epoch_metadata ?E s' (cc_job_id c) e = Inr (Some (pc_metadata pc))" unfolding pc by auto
  moreover have "cc_state c2 = Committing epoch" by (simp add: c2 c1)
  ultimately show ?thesis using e by (simp add: finalize_commit_def committed_epoch_def)
qed

lemma demo_ack_async: "receive_ack_async 0 demo_c demo_ack =
  (demo_c1\<lparr>cc_pending_commit := Some \<lparr>pc_job_id = ''j'', pc_epoch = 1, pc_metadata = commit_metadata 0 demo_c1 1,
     pc_operator_snapshots = cm_operator_snapshots (commit_metadata 0 demo_c1 1)\<rparr>, cc_state := Committing 1\<rparr>, Inr True)"
proof -
  have c: "cc_state demo_c = AwaitingAcks 1 0" "cc_job_id demo_c = ''j''" "cc_pending_acks demo_c = []"
    "cc_expected_task_count demo_c = 1" by (simp_all add: demo_c_def coordinator_new_def)
  have "accept_ack demo_c 1 demo_ack = Inr demo_c1"
    unfolding accept_ack_iff
    by (simp add: ack_matches_def demo_ack_def demo_c1_def c) (simp add: demo_c_def coordinator_new_def fencing_initial_def)
  moreover have "cc_expected_task_count demo_c1 = 1" by (simp add: demo_c1_def c)
  ultimately show ?thesis
    by (simp add: receive_ack_async_def c extract_eq [OF demo_c1_state(1)] demo_c1_state)
qed

theorem three_phase_commit_witness:
  "\<exists>c1 c2 pc s'. receive_ack_async 0 demo_c demo_ack = (c1, Inr True) \<and> take_pending_commit c1 = (c2, Some pc)
     \<and> commit_storage demo_cenv demo_fs pc = (s', Inr 1) \<and> committed_epoch (fst (finalize_commit 1 c2)) = Some 1"
proof -
  obtain c1 c2 pc where a: "receive_ack_async 0 demo_c demo_ack = (c1, Inr True)" "take_pending_commit c1 = (c2, Some pc)"
    and pc: "pc = \<lparr>pc_job_id = ''j'', pc_epoch = 1, pc_metadata = commit_metadata 0 demo_c1 1,
     pc_operator_snapshots = cm_operator_snapshots (commit_metadata 0 demo_c1 1)\<rparr>"
    and acks: "cc_pending_acks c1 = cc_pending_acks demo_c1"
    unfolding demo_ack_async take_pending_commit_def by auto
  obtain s1 where w: "demo_writes = (s1, Inr ())" using demo_writes_ok by (metis prod.collapse)
  have s: "commit_storage demo_cenv demo_fs pc = (s1, Inr 1)"
    by (simp add: w commit_storage_def pc demo_manifest demo_seal del: One_nat_def)
  have inv: "coord_inv demo_c" using reachable_inv [OF demo_c_step] .
  have job: "path_ok (cc_job_id demo_c)" using path_ok_j by (simp add: demo_c_def coordinator_new_def)
  have "\<forall>(k, x) \<in> set (cc_pending_acks c1). ack_snapshot_path x \<noteq> None \<longrightarrow> plain_id (ack_operator_id x) \<and> plain_id (ack_task_id x)"
    using demo_c1_plain by (simp add: acks)
  from three_phase_commit [OF inv job codec_for_ok a(1) this a(2) demo_fs_inv s [unfolded demo_cenv_def]]
  have "committed_epoch (fst (finalize_commit 1 c2)) = Some 1" by blast
  with a s show ?thesis by blast
qed

text \<open>
  C30. Nothing is committed without a quorum of genuine acks: when an ack completes a commit (in
  the synchronous path) or moves the coordinator to \<open>Committing\<close> (in the asynchronous one), at
  least \<open>expected_task_count\<close> different tasks have acked, each for this job and the current
  epoch, and the ack itself carried the coordinator's fencing token.
\<close>

theorem commit_needs_quorum:
  assumes "coord_inv c"
    and "receive_ack E now s c ack = (s', c', Inr True) \<or> receive_ack_async now c ack = (c', Inr True)"
  shows "cc_expected_task_count c \<le> card (fst ` set (cc_pending_acks c'))
    \<and> (\<forall>ka \<in> set (cc_pending_acks c'). ack_matches (cc_job_id c) (cc_current_epoch c) ka)
    \<and> ack_fencing_token ack = cc_fencing_token c \<and> (ack_task_id ack, ack) \<in> set (cc_pending_acks c')
    \<and> (cc_state c' = Committed (cc_current_epoch c) \<or> cc_state c' = Committing (cc_current_epoch c))"
proof -
  obtain epoch t c1 where st: "cc_state c = AwaitingAcks epoch t" and a: "accept_ack c epoch ack = Inr c1"
    and q: "cc_expected_task_count c1 \<le> length (cc_pending_acks c1)" and acks: "cc_pending_acks c' = cc_pending_acks c1"
    and fin: "cc_state c' = Committed epoch \<or> cc_state c' = Committing epoch"
  proof -
    from assms(2) obtain epoch t c1 where st: "cc_state c = AwaitingAcks epoch t"
      and a: "accept_ack c epoch ack = Inr c1" and q: "cc_expected_task_count c1 \<le> length (cc_pending_acks c1)"
      and c': "(\<exists>e. commit_epoch E now s c1 = (s', c', Inr e)) \<or>
        (\<exists>pc. c' = c1\<lparr>cc_pending_commit := Some pc, cc_state := Committing epoch\<rparr>)"
      by (auto simp: receive_ack_def receive_ack_async_def split: coordinator_state.splits sum.splits if_splits prod.splits)
    have st1: "cc_state c1 = AwaitingAcks epoch t" using a st by (auto simp: accept_ack_iff)
    have "cc_pending_acks c' = cc_pending_acks c1 \<and> (cc_state c' = Committed epoch \<or> cc_state c' = Committing epoch)"
      using c' by (auto simp: commit_epoch_run [OF st1] split: sum.splits prod.splits)
    with that st a q show thesis by blast
  qed
  have i1: "coord_inv c1" using accept_ack_inv [OF a assms(1) st] .
  have c1: "cc_state c1 = AwaitingAcks epoch t" "cc_job_id c1 = cc_job_id c" "cc_current_epoch c1 = cc_current_epoch c"
    "cc_expected_task_count c1 = cc_expected_task_count c"
    "cc_pending_acks c1 = amap_insert (ack_task_id ack) ack (cc_pending_acks c)"
    using a st by (auto simp: accept_ack_iff)
  have wf: "amap_wf (cc_pending_acks c1)" using i1 by (simp add: coord_inv_def)
  then have "length (cc_pending_acks c1) = card (fst ` set (cc_pending_acks c1))"
    by (metis amap_wf_def distinct_card length_map set_map)
  moreover have "\<forall>ka \<in> set (cc_pending_acks c1). ack_matches (cc_job_id c) (cc_current_epoch c) ka"
    using i1 c1 by (simp add: coord_inv_def in_flight_def)
  moreover have "(ack_task_id ack, ack) \<in> set (cc_pending_acks c1)"
    using wf by (simp add: amap_mem_iff c1(5))
  moreover have "ack_fencing_token ack = cc_fencing_token c" using a by (simp add: accept_ack_iff)
  ultimately show ?thesis using q acks fin c1(4) awaiting_epoch [OF assms(1) st] by auto
qed

theorem commit_needs_quorum_witness:
  "\<exists>c'. receive_ack_async 0 demo_c demo_ack = (c', Inr True) \<and> 1 \<le> card (fst ` set (cc_pending_acks c'))"
proof -
  obtain c' where a: "receive_ack_async 0 demo_c demo_ack = (c', Inr True)" using demo_ack_async by blast
  from commit_needs_quorum [OF reachable_inv [OF demo_c_step] disjI2 [OF a]] a
  show ?thesis by (auto simp: demo_c_def coordinator_new_def)
qed

text \<open>
  C31. An ack that does not belong to the epoch in flight is refused and leaves the coordinator
  and the storage untouched: a wrong epoch, another job, another fencing token, a snapshot path
  that is not the task's own, or no epoch in flight.
\<close>

theorem stale_ack_refused:
  assumes "(\<forall>u. cc_state c \<noteq> AwaitingAcks (ack_epoch ack) u)
    \<or> ack_job_id ack \<noteq> cc_job_id c \<or> ack_fencing_token ack \<noteq> cc_fencing_token c
    \<or> (\<exists>path. ack_snapshot_path ack = Some path
         \<and> path \<noteq> snapshot_path (cc_job_id c) (ack_epoch ack) (ack_operator_id ack) (ack_task_id ack))"
  shows "(\<exists>e. receive_ack E now s c ack = (s, c, Inl e)) \<and> (\<exists>e. receive_ack_async now c ack = (c, Inl e))"
proof (cases "\<exists>epoch u. cc_state c = AwaitingAcks epoch u")
  case True
  then obtain epoch u where st: "cc_state c = AwaitingAcks epoch u" by blast
  have "accept_ack c epoch ack \<noteq> Inr c1" for c1
    unfolding accept_ack_iff using assms st by (auto simp: ack_matches_def)
  then obtain e where "accept_ack c epoch ack = Inl e" by (cases "accept_ack c epoch ack") auto
  then show ?thesis by (simp add: receive_ack_def receive_ack_async_def st)
next
  case False
  then show ?thesis by (cases "cc_state c") (auto simp: receive_ack_def receive_ack_async_def)
qed

theorem stale_ack_refused_witness:
  "\<exists>e. receive_ack demo_cenv 0 demo_fs demo_c (demo_ack\<lparr>ack_fencing_token := 7\<rparr>) = (demo_fs, demo_c, Inl e)"
proof -
  have "ack_fencing_token (demo_ack\<lparr>ack_fencing_token := 7\<rparr>) \<noteq> cc_fencing_token demo_c"
    by (simp add: demo_c_def coordinator_new_def fencing_initial_def)
  then show ?thesis using stale_ack_refused [of demo_c "demo_ack\<lparr>ack_fencing_token := 7\<rparr>" demo_cenv 0 demo_fs] by blast
qed

text \<open>
  C32. Checkpointing makes progress. An epoch whose acks never come is abandoned as soon as the
  ticks add up to the timeout, and after that enough further ticks start the next epoch, with
  the next number.
\<close>

theorem checkpoint_progress:
  assumes "cc_state c = AwaitingAcks e t" and "e = cc_current_epoch c" and "cc_current_epoch c < u64_max"
    and "0 < cc_expected_task_count c" and "timeout \<le> u64_max" and "cc_interval_ms c \<le> u64_max"
    and "timeout \<le> cc_awaiting_elapsed_ms c + n * ms" and "0 < n" and "cc_interval_ms c \<le> m * ms" and "0 < m"
  shows "\<exists>j k. j \<le> n \<and> k \<le> m
    \<and> cc_state (ticks now ms timeout j c) = Failed e ''timed out waiting for checkpoint acknowledgements''
    \<and> cc_state (ticks now ms timeout (j + k) c) = AwaitingAcks (e + 1) (now_u64 now)"
proof -
  obtain j where j: "j \<le> n" "cc_state (ticks now ms timeout j c) = Failed e ''timed out waiting for checkpoint acknowledgements''"
    "cc_elapsed_ms (ticks now ms timeout j c) = 0" "cc_current_epoch (ticks now ms timeout j c) = cc_current_epoch c"
    "cc_expected_task_count (ticks now ms timeout j c) = cc_expected_task_count c"
    "cc_interval_ms (ticks now ms timeout j c) = cc_interval_ms c"
    using ticks_abort [OF assms(1,5,7,8)] by blast
  have "\<not> in_flight (cc_state (ticks now ms timeout j c))" using j(2) by (simp add: in_flight_def)
  then obtain k where "k \<le> m" "cc_state (ticks now ms timeout k (ticks now ms timeout j c)) =
      AwaitingAcks (cc_current_epoch c + 1) (now_u64 now)"
    using ticks_initiate [of "ticks now ms timeout j c" m ms now timeout] assms(3,4,6,9,10) j by auto
  then show ?thesis using j(1,2) assms(2) by (auto simp: ticks_add)
qed

theorem checkpoint_progress_witness:
  "\<exists>j k. j \<le> 3 \<and> k \<le> 2 \<and> cc_state (ticks 0 5 12 (j + k) demo_c) = AwaitingAcks 2 0"
proof -
  have "cc_state demo_c = AwaitingAcks 1 0" "1 = cc_current_epoch demo_c" "cc_current_epoch demo_c < u64_max"
    "0 < cc_expected_task_count demo_c" "(12 :: nat) \<le> u64_max" "cc_interval_ms demo_c \<le> u64_max"
    "12 \<le> cc_awaiting_elapsed_ms demo_c + 3 * 5" "0 < (3 :: nat)" "cc_interval_ms demo_c \<le> 2 * 5" "0 < (2 :: nat)"
    by (simp_all add: demo_c_def coordinator_new_def)
  from checkpoint_progress [OF this] obtain j k where
    jk: "j \<le> 3" "k \<le> 2" "cc_state (ticks 0 5 12 (j + k) demo_c) = AwaitingAcks (1 + 1) (now_u64 0)" by blast
  have "AwaitingAcks (1 + 1) (now_u64 0) = AwaitingAcks 2 0" by (simp add: now_u64_def)
  with jk show ?thesis by metis
qed

text \<open>
  The recorded sink transactions are exactly the reported ones, one per prepare path and in
  path order, and each is marked committed exactly when some ack reported it committed.
\<close>

theorem collect_sink_transactions_exact:
  "sorted_wrt (<) (map st_prepare_path (collect_sink_transactions acks))
   \<and> st_prepare_path ` set (collect_sink_transactions acks) = (\<Union>a \<in> set acks. ps_prepare_path ` set (ack_sink_transactions a))
   \<and> (\<forall>r \<in> set (collect_sink_transactions acks).
        st_committed r \<longleftrightarrow> (\<exists>a \<in> set acks. \<exists>t \<in> set (ack_sink_transactions a).
          ps_prepare_path t = st_prepare_path r \<and> ps_committed t))"
proof -
  let ?txs = "concat (map ack_sink_transactions acks)"
  let ?m = "fold merge_sink_tx ?txs []"
  have wf: "bt_wf ?m" by (simp add: fold_merge_wf)
  have key: "st_prepare_path v = k \<and> (st_committed v \<longleftrightarrow> (\<exists>t \<in> set ?txs. ps_prepare_path t = k \<and> ps_committed t))"
    if "(k, v) \<in> set ?m" for k v using fold_merge_entry [OF that] .
  then have keys: "map st_prepare_path (map snd ?m) = map fst ?m" by auto
  have "sorted_wrt (<) (map fst ?m)" using wf by (simp add: bt_wf_def)
  then have s: "sorted_wrt (<) (map st_prepare_path (collect_sink_transactions acks))"
    unfolding collect_sink_transactions_def keys .
  have "p \<in> fst ` set ?m \<longleftrightarrow> p \<in> ps_prepare_path ` set ?txs" for p
  proof -
    have "p \<in> fst ` set ?m \<longleftrightarrow> map_of ?m p \<noteq> None" by (metis map_of_eq_None_iff)
    then show ?thesis unfolding fold_merge_lookup by (auto simp: find_None_iff)
  qed
  then have "set (map fst ?m) = ps_prepare_path ` set ?txs" unfolding set_map by blast
  then have "st_prepare_path ` set (map snd ?m) = ps_prepare_path ` set ?txs" using keys by (metis set_map)
  then have c: "st_prepare_path ` set (collect_sink_transactions acks) = (\<Union>a \<in> set acks. ps_prepare_path ` set (ack_sink_transactions a))"
    unfolding collect_sink_transactions_def by auto
  have "\<forall>r \<in> set (collect_sink_transactions acks).
        st_committed r \<longleftrightarrow> (\<exists>t \<in> set ?txs. ps_prepare_path t = st_prepare_path r \<and> ps_committed t)"
  proof
    fix r assume "r \<in> set (collect_sink_transactions acks)"
    then obtain k where "(k, r) \<in> set ?m" unfolding collect_sink_transactions_def by auto
    from key [OF this] show "st_committed r \<longleftrightarrow> (\<exists>t \<in> set ?txs. ps_prepare_path t = st_prepare_path r \<and> ps_committed t)"
      by blast
  qed
  with s c show ?thesis by simp
qed

theorem collect_sink_transactions_exact_witness:
  "st_committed (hd (collect_sink_transactions
     [demo_ack\<lparr>ack_sink_transactions := [\<lparr>ps_sink_id = ''s'', ps_epoch = 1, ps_prepare_path = ''p'', ps_committed = False\<rparr>]\<rparr>,
      demo_ack\<lparr>ack_sink_transactions := [\<lparr>ps_sink_id = ''s'', ps_epoch = 1, ps_prepare_path = ''p'', ps_committed = True\<rparr>]\<rparr>]))"
  (is "st_committed (hd (collect_sink_transactions ?acks))")
proof -
  have ne: "collect_sink_transactions ?acks \<noteq> []" and p: "st_prepare_path (hd (collect_sink_transactions ?acks)) = ''p''"
    by code_simp+
  have "hd (collect_sink_transactions ?acks) \<in> set (collect_sink_transactions ?acks)" by (rule hd_in_set [OF ne])
  with collect_sink_transactions_exact [of ?acks] p show ?thesis by auto
qed

text \<open>
  C33. \<open>commit_epoch_async\<close> never reports success and never changes the coordinator: it
  extracts the commit while the state is \<open>AwaitingAcks\<close> and then finalizes, which needs
  \<open>Committing\<close>, so even a commit whose storage phase sealed the epoch is reported as failed.
\<close>

theorem commit_epoch_async_never_succeeds:
  "fst (snd (commit_epoch_async E now s c)) = c \<and> (\<exists>e. snd (snd (commit_epoch_async E now s c)) = Inl e)"
  using commit_epoch_async_error [of E now s c] by (cases "commit_epoch_async E now s c") auto

text \<open>
  Two consequences of what \<open>initiate\<close> refuses: a refused savepoint request still marks the
  ordinary epoch in flight, and a new epoch started during the storage phase of another makes
  the finalize step of the stored one fail.
\<close>

lemma refused_savepoint_marks_epoch:
  assumes "cc_state c = AwaitingAcks e t" and "initiate_savepoint now label c = (c', r)"
  shows "(\<exists>msg. r = Inl msg) \<and> cm_is_savepoint (commit_metadata later c' e)
    \<and> cm_savepoint_label (commit_metadata later c' e) = label"
  using assms by (auto simp: initiate_savepoint_def initiate_def commit_metadata_def Let_def)

lemma superseded_commit_not_finalized:
  assumes "cc_state c = Committing e" and "cc_current_epoch c < u64_max"
  shows "\<exists>msg. snd (finalize_commit e (fst (initiate now c))) = Inl msg"
  using assms by (simp add: initiate_def finalize_commit_def checked_add_u64_def)

end
