(* ===== verification/TwoPhase.thy ===== *)
theory TwoPhase
  imports Ids
begin

text \<open>
  Two-phase commit sinks: the sink trait, its in-memory and Parquet implementations and the
  epoch transaction log of \<open>krishiv-connectors/src/two_phase.rs\<close>, and the per-job registry of
  \<open>krishiv-executor/src/transactions.rs\<close>. Record batches are an arbitrary type with a row
  count. The Parquet sink works on a map of files and a schedule of failing system calls, one
  entry per call of the sink; a file whose write did not complete has no known content. The
  compiled quality configuration is the function from a batch to its verdict, and filtering a
  batch by a mask is an argument. Mutexes are never poisoned.
\<close>

section \<open>The sink trait\<close>

datatype connector_error =
    ConfigError string
  | KafkaError string bool
  | ParquetError string
  | ObjectStoreError string "nat option"
  | CdcError string
  | IoError string
  | SchemaError string
  | OffsetError string
  | QualityError string
  | UnsupportedError string
  | CertificationFailed string
  | ProtocolError string

record ('s, 'b, 'h) sink_ops =
  sk_prepare :: "'s \<Rightarrow> nat \<Rightarrow> 'b \<Rightarrow> 's \<times> (connector_error + 'h)"
  sk_commit :: "'s \<Rightarrow> 'h \<Rightarrow> 's \<times> (connector_error + unit)"
  sk_abort :: "'s \<Rightarrow> 'h \<Rightarrow> 's \<times> (connector_error + unit)"
  sk_finalize_prepared :: "'s \<Rightarrow> string \<Rightarrow> bool \<Rightarrow> 's \<times> (connector_error + unit)"
  sk_prepare_path_of :: "'s \<Rightarrow> 'h \<Rightarrow> string option"

definition default_finalize_prepared :: "'s \<Rightarrow> string \<Rightarrow> bool \<Rightarrow> 's \<times> (connector_error + unit)" where
  "default_finalize_prepared s prepare_path commit =
     (s, Inl (UnsupportedError (''sink does not support prepared-transaction recovery (path '' @ prepare_path
        @ ''); it cannot deliver exactly-once output across a restart under a durable profile'')))"

definition default_prepare_path_of :: "'s \<Rightarrow> 'h \<Rightarrow> string option" where
  "default_prepare_path_of s handle = None"

section \<open>The in-memory sink\<close>

record 'b mem_sink =
  ms_staged :: "(nat, 'b list) amap"
  ms_committed :: "(nat \<times> 'b) list"
  ms_next_handle :: nat

record mem_handle =
  mh_epoch :: nat
  mh_handle_id :: nat

definition mem_sink_new :: "'b mem_sink" where
  "mem_sink_new = \<lparr>ms_staged = [], ms_committed = [], ms_next_handle = 0\<rparr>"

definition staged_count :: "'b mem_sink \<Rightarrow> nat" where
  "staged_count s = sum_list (map (length \<circ> snd) (ms_staged s))"

definition mem_prepare :: "'b mem_sink \<Rightarrow> nat \<Rightarrow> 'b \<Rightarrow> 'b mem_sink \<times> (connector_error + mem_handle)" where
  "mem_prepare s epoch batch =
     (let handle_id = ms_next_handle s;
          entry = (case map_of (ms_staged s) handle_id of None \<Rightarrow> [] | Some bs \<Rightarrow> bs)
      in (s\<lparr>ms_next_handle := (ms_next_handle s + 1) mod two64,
            ms_staged := bt_insert handle_id (entry @ [batch]) (ms_staged s)\<rparr>,
          Inr \<lparr>mh_epoch = epoch, mh_handle_id = handle_id\<rparr>))"

definition mem_commit :: "'b mem_sink \<Rightarrow> mem_handle \<Rightarrow> 'b mem_sink \<times> (connector_error + unit)" where
  "mem_commit s handle =
     (case map_of (ms_staged s) (mh_handle_id handle) of
        None \<Rightarrow> (s, Inr ())
      | Some batches \<Rightarrow>
          (s\<lparr>ms_staged := amap_remove (mh_handle_id handle) (ms_staged s),
             ms_committed := ms_committed s @ map (Pair (mh_epoch handle)) batches\<rparr>, Inr ()))"

definition mem_abort :: "'b mem_sink \<Rightarrow> mem_handle \<Rightarrow> 'b mem_sink \<times> (connector_error + unit)" where
  "mem_abort s handle = (s\<lparr>ms_staged := amap_remove (mh_handle_id handle) (ms_staged s)\<rparr>, Inr ())"

definition mem_sink_ops :: "('b mem_sink, 'b, mem_handle) sink_ops" where
  "mem_sink_ops = \<lparr>sk_prepare = mem_prepare, sk_commit = mem_commit, sk_abort = mem_abort,
     sk_finalize_prepared = default_finalize_prepared, sk_prepare_path_of = default_prepare_path_of\<rparr>"

section \<open>The Parquet sink\<close>

text \<open>The verdict of the quality checks; the rejected rows, which \<open>prepare\<close> does not read, are left out.\<close>

record quality_result =
  qr_accepted_indices :: "nat list"
  qr_failed :: bool

record 'b arrow_ops =
  ar_num_rows :: "'b \<Rightarrow> nat"
  ar_filter :: "'b \<Rightarrow> bool list \<Rightarrow> string + 'b"

datatype pq_fault = PqNone | PqCreate | PqWriter | PqWrite | PqClose | PqSync | PqRename | PqRemove

record 'b pq_sink =
  pq_dir :: string
  pq_next_handle :: nat
  pq_quality :: "('b \<Rightarrow> connector_error + quality_result) option"
  pq_files :: "(string, 'b option) amap"
  pq_faults :: "pq_fault list"

record pq_handle =
  ph_epoch :: nat
  ph_staging_path :: string
  ph_final_path :: string

definition pq_exists :: "'b pq_sink \<Rightarrow> string \<Rightarrow> bool" where
  "pq_exists s path \<longleftrightarrow> map_of (pq_files s) path \<noteq> None"

definition pq_fault_of :: "'b pq_sink \<Rightarrow> pq_fault \<times> 'b pq_sink" where
  "pq_fault_of s = (case pq_faults s of [] \<Rightarrow> (PqNone, s) | f # fs \<Rightarrow> (f, s\<lparr>pq_faults := fs\<rparr>))"

definition pq_final_name :: "string \<Rightarrow> nat \<Rightarrow> nat \<Rightarrow> string" where
  "pq_final_name dir epoch handle_id = dir @ ''/'' @ show_nat epoch @ ''-'' @ show_nat handle_id @ ''.parquet''"

definition pq_staging_name :: "string \<Rightarrow> nat \<Rightarrow> nat \<Rightarrow> string" where
  "pq_staging_name dir epoch handle_id = dir @ ''/'' @ show_nat epoch @ ''-'' @ show_nat handle_id @ ''.parquet.tmp''"

text \<open>The quality checks of \<open>prepare\<close>, and its search for a free pair of names.\<close>

definition pq_checked :: "'b arrow_ops \<Rightarrow> ('b \<Rightarrow> connector_error + quality_result) option \<Rightarrow> nat \<Rightarrow> 'b \<Rightarrow>
    connector_error + 'b" where
  "pq_checked ar qc epoch batch =
     (case qc of
        None \<Rightarrow> Inr batch
      | Some check \<Rightarrow>
          rbind (check batch) (\<lambda>result.
            if qr_failed result then
              Inl (QualityError (''data quality Fail action triggered at epoch '' @ show_nat epoch))
            else if length (qr_accepted_indices result) = ar_num_rows ar batch then Inr batch
            else (case ar_filter ar batch (map (\<lambda>i. i \<in> set (qr_accepted_indices result)) [0..<ar_num_rows ar batch]) of
                    Inl msg \<Rightarrow> Inl (SchemaError msg)
                  | Inr filtered \<Rightarrow> Inr filtered)))"

function pq_find :: "'b pq_sink \<Rightarrow> nat \<Rightarrow> nat \<Rightarrow> nat \<times> (connector_error + nat)" where
  "pq_find s epoch n =
     (if n \<ge> u64_max then (n, Inl (ParquetError ''parquet 2pc prepare: handle ID overflow''))
      else if pq_exists s (pq_final_name (pq_dir s) epoch n) \<or> pq_exists s (pq_staging_name (pq_dir s) epoch n)
      then pq_find s epoch (n + 1)
      else (n + 1, Inr n))"
  by pat_completeness auto
termination
  by (relation "measure (\<lambda>(s, epoch, n). u64_max - n)") auto

declare pq_find.simps [simp del]

definition pq_prepare :: "'b arrow_ops \<Rightarrow> 'b pq_sink \<Rightarrow> nat \<Rightarrow> 'b \<Rightarrow> 'b pq_sink \<times> (connector_error + pq_handle)" where
  "pq_prepare ar s epoch batch =
     (case pq_checked ar (pq_quality s) epoch batch of
        Inl e \<Rightarrow> (s, Inl e)
      | Inr batch' \<Rightarrow>
          (case pq_find s epoch (pq_next_handle s) of
             (n, Inl e) \<Rightarrow> (s\<lparr>pq_next_handle := n\<rparr>, Inl e)
           | (n, Inr handle_id) \<Rightarrow>
               (let staging = pq_staging_name (pq_dir s) epoch handle_id;
                    (fault, s0) = pq_fault_of (s\<lparr>pq_next_handle := n\<rparr>);
                    created = s0\<lparr>pq_files := amap_insert staging None (pq_files s0)\<rparr>
                in case fault of
                     PqCreate \<Rightarrow> (s0, Inl (ParquetError ''parquet 2pc prepare: cannot create''))
                   | PqWriter \<Rightarrow> (created, Inl (ParquetError ''parquet 2pc prepare: cannot create writer''))
                   | PqWrite \<Rightarrow> (created, Inl (ParquetError ''parquet 2pc prepare: write error''))
                   | PqClose \<Rightarrow> (created, Inl (ParquetError ''parquet 2pc prepare: close error''))
                   | PqSync \<Rightarrow> (created, Inl (ParquetError ''parquet 2pc prepare: fsync error''))
                   | _ \<Rightarrow> (s0\<lparr>pq_files := amap_insert staging (Some batch') (pq_files s0)\<rparr>,
                          Inr \<lparr>ph_epoch = epoch, ph_staging_path = staging,
                               ph_final_path = pq_final_name (pq_dir s) epoch handle_id\<rparr>))))"

definition pq_commit :: "'b pq_sink \<Rightarrow> pq_handle \<Rightarrow> 'b pq_sink \<times> (connector_error + unit)" where
  "pq_commit s handle =
     (let (fault, s0) = pq_fault_of s in
      case map_of (pq_files s0) (ph_staging_path handle) of
        None \<Rightarrow>
          (s0, if pq_exists s0 (ph_final_path handle) then Inr ()
               else Inl (IoError ''parquet 2pc commit: staging missing and final absent''))
      | Some content \<Rightarrow>
          if fault = PqRename then (s0, Inl (IoError ''parquet 2pc commit: rename''))
          else (s0\<lparr>pq_files := amap_insert (ph_final_path handle) content
                   (amap_remove (ph_staging_path handle) (pq_files s0))\<rparr>, Inr ()))"

definition pq_abort :: "'b pq_sink \<Rightarrow> pq_handle \<Rightarrow> 'b pq_sink \<times> (connector_error + unit)" where
  "pq_abort s handle =
     (let (fault, s0) = pq_fault_of s in
      if \<not> pq_exists s0 (ph_staging_path handle) then (s0, Inr ())
      else if fault = PqRemove then (s0, Inl (IoError ''parquet 2pc abort: remove''))
      else (s0\<lparr>pq_files := amap_remove (ph_staging_path handle) (pq_files s0)\<rparr>, Inr ()))"

definition strip_suffix :: "string \<Rightarrow> string \<Rightarrow> string option" where
  "strip_suffix suf s = map_option rev (strip_prefix (rev suf) (rev s))"

definition pq_finalize_prepared :: "'b pq_sink \<Rightarrow> string \<Rightarrow> bool \<Rightarrow> 'b pq_sink \<times> (connector_error + unit)" where
  "pq_finalize_prepared s prepare_path commit =
     (case strip_suffix ''.tmp'' prepare_path of
        None \<Rightarrow> (s, Inl (ParquetError (''parquet 2pc recovery: staging path '' @ prepare_path
                  @ '' does not end in .tmp'')))
      | Some final_str \<Rightarrow>
          (let handle = \<lparr>ph_epoch = 0, ph_staging_path = prepare_path, ph_final_path = final_str\<rparr> in
           if commit then pq_commit s handle else pq_abort s handle))"

definition pq_prepare_path_of :: "'b pq_sink \<Rightarrow> pq_handle \<Rightarrow> string option" where
  "pq_prepare_path_of s handle = Some (ph_staging_path handle)"

definition pq_sink_ops :: "'b arrow_ops \<Rightarrow> ('b pq_sink, 'b, pq_handle) sink_ops" where
  "pq_sink_ops ar = \<lparr>sk_prepare = pq_prepare ar, sk_commit = pq_commit, sk_abort = pq_abort,
     sk_finalize_prepared = pq_finalize_prepared, sk_prepare_path_of = pq_prepare_path_of\<rparr>"

definition pq_new :: "string \<Rightarrow> (string, 'b option) amap \<Rightarrow> pq_fault list \<Rightarrow> 'b pq_sink" where
  "pq_new dir files faults = \<lparr>pq_dir = dir, pq_next_handle = 0, pq_quality = None, pq_files = files,
     pq_faults = faults\<rparr>"

definition with_quality_config :: "'b pq_sink \<Rightarrow> connector_error + ('b \<Rightarrow> connector_error + quality_result) \<Rightarrow>
    connector_error + 'b pq_sink" where
  "with_quality_config s compiled = rbind compiled (\<lambda>check. Inr (s\<lparr>pq_quality := Some check\<rparr>))"

section \<open>The epoch transaction log\<close>

record ('s, 'b, 'h) txn_log =
  tl_sink :: 's
  tl_open :: "'b list"
  tl_prepared :: "(nat, 'h list) amap"

definition txn_log_new :: "'s \<Rightarrow> ('s, 'b, 'h) txn_log" where
  "txn_log_new sink = \<lparr>tl_sink = sink, tl_open = [], tl_prepared = []\<rparr>"

definition stage :: "('b \<Rightarrow> nat) \<Rightarrow> ('s, 'b, 'h) txn_log \<Rightarrow> 'b \<Rightarrow> ('s, 'b, 'h) txn_log" where
  "stage num_rows l batch = (if num_rows batch > 0 then l\<lparr>tl_open := tl_open l @ [batch]\<rparr> else l)"

fun abort_all :: "('s, 'b, 'h) sink_ops \<Rightarrow> 's \<Rightarrow> 'h list \<Rightarrow> 's" where
  "abort_all ops s [] = s"
| "abort_all ops s (h # hs) = abort_all ops (fst (sk_abort ops s h)) hs"

fun prepare_all :: "('s, 'b, 'h) sink_ops \<Rightarrow> nat \<Rightarrow> 's \<Rightarrow> 'b list \<Rightarrow> 'h list \<Rightarrow> 's \<times> (connector_error + 'h list)" where
  "prepare_all ops epoch s [] handles = (s, Inr handles)"
| "prepare_all ops epoch s (b # bs) handles =
     (case sk_prepare ops s epoch b of
        (s', Inr h) \<Rightarrow> prepare_all ops epoch s' bs (handles @ [h])
      | (s', Inl e) \<Rightarrow> (abort_all ops s' handles, Inl e))"

definition pre_commit :: "('s, 'b, 'h) sink_ops \<Rightarrow> ('s, 'b, 'h) txn_log \<Rightarrow> nat \<Rightarrow>
    ('s, 'b, 'h) txn_log \<times> (connector_error + unit)" where
  "pre_commit ops l epoch =
     (if tl_prepared l \<noteq> [] \<and> epoch \<le> fst (last (tl_prepared l)) then
        (l, Inl (ProtocolError (''pre_commit epoch '' @ show_nat epoch
           @ '' is not greater than already prepared epoch '' @ show_nat (fst (last (tl_prepared l)))
           @ ''; checkpoint epochs must be monotonic'')))
      else if tl_open l = [] then (l, Inr ())
      else case prepare_all ops epoch (tl_sink l) (tl_open l) [] of
             (s', Inl e) \<Rightarrow> (l\<lparr>tl_sink := s'\<rparr>, Inl e)
           | (s', Inr handles) \<Rightarrow>
               (l\<lparr>tl_sink := s', tl_open := [], tl_prepared := bt_insert epoch handles (tl_prepared l)\<rparr>, Inr ()))"

text \<open>
  One decision (commit or abort) applied to the handles of an epoch and then to the epochs in
  turn; on an error the failing handle, the rest of its epoch and the later epochs are put back.
\<close>

fun decide_handles :: "('s \<Rightarrow> 'h \<Rightarrow> 's \<times> (connector_error + unit)) \<Rightarrow> 's \<Rightarrow> 'h list \<Rightarrow> nat \<Rightarrow>
    's \<times> nat \<times> (connector_error \<times> 'h list) option" where
  "decide_handles decide s [] n = (s, n, None)"
| "decide_handles decide s (h # hs) n =
     (case decide s h of
        (s', Inl e) \<Rightarrow> (s', n, Some (e, h # hs))
      | (s', Inr _) \<Rightarrow> decide_handles decide s' hs (n + 1))"

fun decide_epochs :: "('s \<Rightarrow> 'h \<Rightarrow> 's \<times> (connector_error + unit)) \<Rightarrow> 's \<Rightarrow> (nat \<times> 'h list) list \<Rightarrow>
    (nat, 'h list) amap \<Rightarrow> nat \<Rightarrow> 's \<times> (nat, 'h list) amap \<times> (connector_error + nat)" where
  "decide_epochs decide s [] prepared n = (s, prepared, Inr n)"
| "decide_epochs decide s ((txn_epoch, handles) # epochs) prepared n =
     (case decide_handles decide s handles n of
        (s', n', None) \<Rightarrow> decide_epochs decide s' epochs prepared n'
      | (s', n', Some (e, requeue)) \<Rightarrow>
          (s', fold (\<lambda>(k, v). bt_insert k v) epochs (bt_insert txn_epoch requeue prepared), Inl e))"

definition commit_through :: "('s, 'b, 'h) sink_ops \<Rightarrow> ('s, 'b, 'h) txn_log \<Rightarrow> nat \<Rightarrow>
    ('s, 'b, 'h) txn_log \<times> (connector_error + nat)" where
  "commit_through ops l epoch =
     (let later = filter (\<lambda>(k, _). k \<ge> saturating_add_u64 epoch 1) (tl_prepared l);
          to_commit = filter (\<lambda>(k, _). k < saturating_add_u64 epoch 1) (tl_prepared l);
          (s', prepared, r) = decide_epochs (sk_commit ops) (tl_sink l) to_commit later 0
      in (l\<lparr>tl_sink := s', tl_prepared := prepared\<rparr>, r))"

definition abort_after :: "('s, 'b, 'h) sink_ops \<Rightarrow> ('s, 'b, 'h) txn_log \<Rightarrow> nat \<Rightarrow>
    ('s, 'b, 'h) txn_log \<times> (connector_error + nat)" where
  "abort_after ops l epoch =
     (let to_abort = filter (\<lambda>(k, _). k \<ge> saturating_add_u64 epoch 1) (tl_prepared l);
          kept = filter (\<lambda>(k, _). k < saturating_add_u64 epoch 1) (tl_prepared l);
          (s', prepared, r) = decide_epochs (sk_abort ops) (tl_sink l) to_abort kept 0
      in (l\<lparr>tl_sink := s', tl_open := [], tl_prepared := prepared\<rparr>, r))"

definition open_rows :: "('b \<Rightarrow> nat) \<Rightarrow> ('s, 'b, 'h) txn_log \<Rightarrow> nat" where
  "open_rows num_rows l = sum_list (map num_rows (tl_open l))"

definition prepared_epochs :: "('s, 'b, 'h) txn_log \<Rightarrow> nat list" where
  "prepared_epochs l = amap_keys (tl_prepared l)"

definition prepared_refs :: "('s, 'b, 'h) sink_ops \<Rightarrow> ('s, 'b, 'h) txn_log \<Rightarrow> (nat \<times> string) list" where
  "prepared_refs ops l =
     concat (map (\<lambda>(epoch, handles).
       List.map_filter (\<lambda>h. map_option (Pair epoch) (sk_prepare_path_of ops (tl_sink l) h)) handles) (tl_prepared l))"

definition log_finalize_prepared :: "('s, 'b, 'h) sink_ops \<Rightarrow> ('s, 'b, 'h) txn_log \<Rightarrow> string \<Rightarrow> bool \<Rightarrow>
    ('s, 'b, 'h) txn_log \<times> (connector_error + unit)" where
  "log_finalize_prepared ops l prepare_path commit =
     (let (s', r) = sk_finalize_prepared ops (tl_sink l) prepare_path commit in (l\<lparr>tl_sink := s'\<rparr>, r))"

section \<open>The registry\<close>

record ('s, 'b, 'h) sink_registry =
  sr_inner :: "(string, ('s, 'b, 'h) txn_log list) amap"
  sr_cycle_epochs :: "(string, nat) amap"

definition registry_new :: "('s, 'b, 'h) sink_registry" where
  "registry_new = \<lparr>sr_inner = [], sr_cycle_epochs = []\<rparr>"

definition reg_participants :: "('s, 'b, 'h) sink_registry \<Rightarrow> string \<Rightarrow> ('s, 'b, 'h) txn_log list option" where
  "reg_participants r job_id = map_of (sr_inner r) job_id"

text \<open>The shared handle of a participant: its job and its position there.\<close>

type_synonym participant_ref = "string \<times> nat"

definition reg_register :: "('s, 'b, 'h) sink_registry \<Rightarrow> string \<Rightarrow> ('s, 'b, 'h) txn_log \<Rightarrow>
    ('s, 'b, 'h) sink_registry \<times> participant_ref" where
  "reg_register r job_id participant =
     (let ps = (case reg_participants r job_id of None \<Rightarrow> [] | Some ps \<Rightarrow> ps)
      in (r\<lparr>sr_inner := amap_insert job_id (ps @ [participant]) (sr_inner r)\<rparr>, (job_id, length ps)))"

definition reg_get_or_register :: "('s, 'b, 'h) sink_registry \<Rightarrow> string \<Rightarrow> (connector_error + ('s, 'b, 'h) txn_log) \<Rightarrow>
    ('s, 'b, 'h) sink_registry \<times> (connector_error + participant_ref)" where
  "reg_get_or_register r job_id init =
     (case reg_participants r job_id of
        Some (first # _) \<Rightarrow> (r, Inr (job_id, 0))
      | _ \<Rightarrow> (case init of
                Inl e \<Rightarrow> (r, Inl e)
              | Inr participant \<Rightarrow> map_prod id Inr (reg_register r job_id participant)))"

definition reg_has_job :: "('s, 'b, 'h) sink_registry \<Rightarrow> string \<Rightarrow> bool" where
  "reg_has_job r job_id = (case reg_participants r job_id of None \<Rightarrow> False | Some ps \<Rightarrow> ps \<noteq> [])"

text \<open>One fallible operation on each participant in turn, stopping at the first error.\<close>

fun each_participant :: "('p \<Rightarrow> 'p \<times> (connector_error + nat)) \<Rightarrow> 'p list \<Rightarrow> nat \<Rightarrow>
    'p list \<times> (connector_error + nat)" where
  "each_participant f [] n = ([], Inr n)"
| "each_participant f (p # ps) n =
     (case f p of
        (p', Inl e) \<Rightarrow> (p' # ps, Inl e)
      | (p', Inr k) \<Rightarrow> (let (ps', r) = each_participant f ps (n + k) in (p' # ps', r)))"

definition reg_each :: "(('s, 'b, 'h) txn_log \<Rightarrow> ('s, 'b, 'h) txn_log \<times> (connector_error + nat)) \<Rightarrow>
    ('s, 'b, 'h) sink_registry \<Rightarrow> string \<Rightarrow> ('s, 'b, 'h) sink_registry \<times> (connector_error + nat)" where
  "reg_each f r job_id =
     (case reg_participants r job_id of
        None \<Rightarrow> (r, Inr 0)
      | Some ps \<Rightarrow> (let (ps', res) = each_participant f ps 0 in
                    (r\<lparr>sr_inner := amap_insert job_id ps' (sr_inner r)\<rparr>, res)))"

definition reg_pre_commit :: "('s, 'b, 'h) sink_ops \<Rightarrow> ('s, 'b, 'h) sink_registry \<Rightarrow> string \<Rightarrow> nat \<Rightarrow>
    ('s, 'b, 'h) sink_registry \<times> (connector_error + nat)" where
  "reg_pre_commit ops r job_id epoch =
     reg_each (\<lambda>p. case pre_commit ops p epoch of (p', Inl e) \<Rightarrow> (p', Inl e) | (p', Inr _) \<Rightarrow> (p', Inr 0)) r job_id"

definition reg_commit_through :: "('s, 'b, 'h) sink_ops \<Rightarrow> ('s, 'b, 'h) sink_registry \<Rightarrow> string \<Rightarrow> nat \<Rightarrow>
    ('s, 'b, 'h) sink_registry \<times> (connector_error + nat)" where
  "reg_commit_through ops r job_id epoch = reg_each (\<lambda>p. commit_through ops p epoch) r job_id"

text \<open>\<open>restore_to\<close>, with the two counts.\<close>

definition restore_participant :: "('s, 'b, 'h) sink_ops \<Rightarrow> nat \<Rightarrow> ('s, 'b, 'h) txn_log \<Rightarrow>
    ('s, 'b, 'h) txn_log \<times> (connector_error + nat \<times> nat)" where
  "restore_participant ops epoch p =
     (case commit_through ops p epoch of
        (p1, Inl e) \<Rightarrow> (p1, Inl e)
      | (p1, Inr c) \<Rightarrow>
          (case abort_after ops p1 epoch of
             (p2, Inl e) \<Rightarrow> (p2, Inl e)
           | (p2, Inr a) \<Rightarrow> (p2, Inr (c, a))))"

fun restore_each :: "('s, 'b, 'h) sink_ops \<Rightarrow> nat \<Rightarrow> ('s, 'b, 'h) txn_log list \<Rightarrow> nat \<Rightarrow> nat \<Rightarrow>
    ('s, 'b, 'h) txn_log list \<times> (connector_error + nat \<times> nat)" where
  "restore_each ops epoch [] c a = ([], Inr (c, a))"
| "restore_each ops epoch (p # ps) c a =
     (case restore_participant ops epoch p of
        (p', Inl e) \<Rightarrow> (p' # ps, Inl e)
      | (p', Inr (c', a')) \<Rightarrow> (let (ps', r) = restore_each ops epoch ps (c + c') (a + a') in (p' # ps', r)))"

definition reg_restore_to :: "('s, 'b, 'h) sink_ops \<Rightarrow> ('s, 'b, 'h) sink_registry \<Rightarrow> string \<Rightarrow> nat \<Rightarrow>
    ('s, 'b, 'h) sink_registry \<times> (connector_error + nat \<times> nat)" where
  "reg_restore_to ops r job_id epoch =
     (case reg_participants r job_id of
        None \<Rightarrow> (r, Inr (0, 0))
      | Some ps \<Rightarrow> (let (ps', res) = restore_each ops epoch ps 0 0 in
                    (r\<lparr>sr_inner := amap_insert job_id ps' (sr_inner r)\<rparr>, res)))"

definition reg_prepared_refs :: "('s, 'b, 'h) sink_ops \<Rightarrow> ('s, 'b, 'h) sink_registry \<Rightarrow> string \<Rightarrow> (nat \<times> string) list" where
  "reg_prepared_refs ops r job_id =
     (case reg_participants r job_id of None \<Rightarrow> [] | Some ps \<Rightarrow> concat (map (prepared_refs ops) ps))"

fun finalize_all :: "('s, 'b, 'h) sink_ops \<Rightarrow> ('s, 'b, 'h) txn_log \<Rightarrow> (string \<times> bool) list \<Rightarrow>
    ('s, 'b, 'h) txn_log \<times> (connector_error + unit)" where
  "finalize_all ops p [] = (p, Inr ())"
| "finalize_all ops p ((path, commit) # ds) =
     (case log_finalize_prepared ops p path commit of
        (p', Inl e) \<Rightarrow> (p', Inl e)
      | (p', Inr _) \<Rightarrow> finalize_all ops p' ds)"

definition reg_recover_prepared_refs :: "('s, 'b, 'h) sink_ops \<Rightarrow> ('s, 'b, 'h) sink_registry \<Rightarrow> string \<Rightarrow>
    string list \<Rightarrow> string list \<Rightarrow> ('s, 'b, 'h) sink_registry \<times> (connector_error + nat \<times> nat)" where
  "reg_recover_prepared_refs ops r job_id commit_paths abort_paths =
     (if commit_paths = [] \<and> abort_paths = [] then (r, Inr (0, 0))
      else case reg_participants r job_id of
        Some (first # ps) \<Rightarrow>
          (let (p', res) = finalize_all ops first
                 (map (\<lambda>p. (p, True)) commit_paths @ map (\<lambda>p. (p, False)) abort_paths);
               r' = r\<lparr>sr_inner := amap_insert job_id (p' # ps) (sr_inner r)\<rparr>
           in case res of Inl e \<Rightarrow> (r', Inl e) | Inr _ \<Rightarrow> (r', Inr (length commit_paths, length abort_paths)))
      | _ \<Rightarrow> (r, Inr (0, 0)))"

definition reg_commit_cycle :: "('s, 'b, 'h) sink_ops \<Rightarrow> ('s, 'b, 'h) sink_registry \<Rightarrow> string \<Rightarrow>
    ('s, 'b, 'h) sink_registry \<times> (connector_error + nat option)" where
  "reg_commit_cycle ops r job_id =
     (if \<not> reg_has_job r job_id then (r, Inr None)
      else (let epoch = ((case map_of (sr_cycle_epochs r) job_id of None \<Rightarrow> 0 | Some e \<Rightarrow> e) + 1) mod two64;
                r0 = r\<lparr>sr_cycle_epochs := amap_insert job_id epoch (sr_cycle_epochs r)\<rparr>
            in case reg_pre_commit ops r0 job_id epoch of
                 (r1, Inl e) \<Rightarrow> (r1, Inl e)
               | (r1, Inr _) \<Rightarrow>
                   (case reg_commit_through ops r1 job_id epoch of
                      (r2, Inl e) \<Rightarrow> (r2, Inl e)
                    | (r2, Inr _) \<Rightarrow> (r2, Inr (Some epoch)))))"

definition reg_remove_job :: "('s, 'b, 'h) sink_registry \<Rightarrow> string \<Rightarrow> ('s, 'b, 'h) sink_registry" where
  "reg_remove_job r job_id =
     r\<lparr>sr_inner := amap_remove job_id (sr_inner r), sr_cycle_epochs := amap_remove job_id (sr_cycle_epochs r)\<rparr>"

end
