(* ===== verification/SinkContract.thy ===== *)
theory SinkContract
  imports TwoPhase "HOL-Library.Multiset"
begin

text \<open>
  The contract of a two-phase commit sink as a locale, what a transaction log over any such sink
  guarantees for each of its operations, and the proofs that the in-memory and the Parquet sink
  keep the contract.
\<close>

section \<open>The contract of a sink\<close>

text \<open>
  A sink keeps staged batches under keys and a bag of visible ones. Preparing stages under a
  fresh key, a commit moves a staged batch to the visible ones, an abort drops it, and a failing
  call changes neither. \<open>stored\<close> is what the sink writes for a batch, and \<open>room\<close> bounds how
  many more prepares it can take.
\<close>

locale two_phase_sink =
  fixes ops :: "('s, 'b, 'h) sink_ops"
    and ok :: "'s \<Rightarrow> bool"
    and room :: "'s \<Rightarrow> nat \<Rightarrow> bool"
    and genuine :: "'h \<Rightarrow> bool"
    and key :: "'h \<Rightarrow> 'k"
    and staged :: "'s \<Rightarrow> 'k \<Rightarrow> 'b option"
    and visible :: "'s \<Rightarrow> 'b multiset"
    and stored :: "'b \<Rightarrow> 'b"
  assumes prepare_done: "ok s \<Longrightarrow> room s (Suc n) \<Longrightarrow> sk_prepare ops s e b = (s', Inr h) \<Longrightarrow>
      ok s' \<and> room s' n \<and> genuine h \<and> staged s (key h) = None \<and> staged s' = (staged s)(key h \<mapsto> stored b)
      \<and> visible s' = visible s"
    and prepare_failed: "ok s \<Longrightarrow> room s (Suc n) \<Longrightarrow> sk_prepare ops s e b = (s', Inl x) \<Longrightarrow>
      ok s' \<and> staged s' = staged s \<and> visible s' = visible s"
    and commit_done: "ok s \<Longrightarrow> genuine h \<Longrightarrow> staged s (key h) = Some b \<Longrightarrow> sk_commit ops s h = (s', Inr u) \<Longrightarrow>
      ok s' \<and> staged s' = (staged s)(key h := None) \<and> visible s' = add_mset b (visible s)"
    and commit_failed: "ok s \<Longrightarrow> genuine h \<Longrightarrow> staged s (key h) = Some b \<Longrightarrow> sk_commit ops s h = (s', Inl x) \<Longrightarrow>
      ok s' \<and> staged s' = staged s \<and> visible s' = visible s"
    and abort_done: "ok s \<Longrightarrow> genuine h \<Longrightarrow> staged s (key h) = Some b \<Longrightarrow> sk_abort ops s h = (s', Inr u) \<Longrightarrow>
      ok s' \<and> staged s' = (staged s)(key h := None) \<and> visible s' = visible s"
    and abort_failed: "ok s \<Longrightarrow> genuine h \<Longrightarrow> staged s (key h) = Some b \<Longrightarrow> sk_abort ops s h = (s', Inl x) \<Longrightarrow>
      ok s' \<and> staged s' = staged s \<and> visible s' = visible s"

definition all_handles :: "(nat, 'h list) amap \<Rightarrow> 'h list" where
  "all_handles m = concat (map snd m)"

lemma mset_all_handles_insert:
  "k \<notin> fst ` set m \<Longrightarrow> mset (all_handles (bt_insert k v m)) = mset v + mset (all_handles m)"
  by (induction k v m rule: bt_insert.induct) (auto simp: all_handles_def)

lemma mset_all_handles_requeue:
  "distinct (map fst eps) \<Longrightarrow> fst ` set eps \<inter> fst ` set m = {} \<Longrightarrow>
   mset (all_handles (fold (\<lambda>(k, v). bt_insert k v) eps m)) = mset (all_handles eps) + mset (all_handles m)"
proof (induction eps arbitrary: m)
  case (Cons x eps)
  obtain k v where x: "x = (k, v)" by fastforce
  have "mset (all_handles (fold (\<lambda>(k, v). bt_insert k v) eps (bt_insert k v m))) =
      mset (all_handles eps) + mset (all_handles (bt_insert k v m))"
    using Cons.prems by (intro Cons.IH) (auto simp: x)
  moreover have "k \<notin> fst ` set m" using Cons.prems(2) by (auto simp: x)
  ultimately show ?case by (simp add: x mset_all_handles_insert) (simp add: all_handles_def)
qed (simp add: all_handles_def)

lemma requeue_wf: "bt_wf m \<Longrightarrow> bt_wf (fold (\<lambda>(k, v). bt_insert k v) eps m)"
  by (induction eps arbitrary: m) auto

lemma all_handles_filter:
  "mset (all_handles (filter (\<lambda>(k, _). P k) m)) + mset (all_handles (filter (\<lambda>(k, _). \<not> P k) m)) = mset (all_handles m)"
  by (induction m) (auto simp: all_handles_def)

text \<open>Handles whose batches a sink holds, each under its own key.\<close>

context two_phase_sink
begin

definition pending :: "'s \<Rightarrow> 'h list \<Rightarrow> 'b multiset" where
  "pending s hs = mset (map (\<lambda>h. the (staged s (key h))) hs)"

definition held :: "'s \<Rightarrow> 'h list \<Rightarrow> bool" where
  "held s hs \<longleftrightarrow> ok s \<and> distinct (map key hs) \<and> (\<forall>h \<in> set hs. genuine h \<and> staged s (key h) \<noteq> None)"

lemma held_append: "held s (xs @ ys) \<Longrightarrow> held s xs \<and> held s ys \<and> key ` set xs \<inter> key ` set ys = {}"
  by (auto simp: held_def)

lemma held_perm: "mset xs = mset ys \<Longrightarrow> held s xs = held s ys"
proof -
  assume m: "mset xs = mset ys"
  then have "mset (map key xs) = mset (map key ys)" by (metis mset_map)
  then have "distinct (map key xs) = distinct (map key ys)" by (rule mset_eq_imp_distinct_iff)
  moreover have "set xs = set ys" using m by (metis set_mset_mset)
  ultimately show ?thesis by (simp add: held_def)
qed

lemma pending_perm: "mset xs = mset ys \<Longrightarrow> pending s xs = pending s ys"
  by (simp add: pending_def)

lemma pending_append: "pending s (xs @ ys) = pending s xs + pending s ys"
  by (simp add: pending_def)

text \<open>A decision: commit shows the batch, abort drops it.\<close>

definition decides :: "('s \<Rightarrow> 'h \<Rightarrow> 's \<times> (connector_error + unit)) \<Rightarrow> bool \<Rightarrow> bool" where
  "decides f vis \<longleftrightarrow> (\<forall>s h b s' r. ok s \<longrightarrow> genuine h \<longrightarrow> staged s (key h) = Some b \<longrightarrow> f s h = (s', r) \<longrightarrow>
     ok s' \<and> staged s' = (case r of Inl _ \<Rightarrow> staged s | Inr _ \<Rightarrow> (staged s)(key h := None))
     \<and> visible s' = (case r of Inl _ \<Rightarrow> visible s | Inr _ \<Rightarrow> (if vis then add_mset b (visible s) else visible s)))"

lemma commit_decides: "decides (sk_commit ops) True"
  unfolding decides_def
proof (intro allI impI)
  fix s h b s' r
  assume a: "ok s" "genuine h" "staged s (key h) = Some b" "sk_commit ops s h = (s', r)"
  show "ok s' \<and> staged s' = (case r of Inl _ \<Rightarrow> staged s | Inr _ \<Rightarrow> (staged s)(key h := None))
     \<and> visible s' = (case r of Inl _ \<Rightarrow> visible s | Inr _ \<Rightarrow> (if True then add_mset b (visible s) else visible s))"
    using commit_done [OF a(1-3)] commit_failed [OF a(1-3)] a(4) by (cases r) simp_all
qed

lemma abort_decides: "decides (sk_abort ops) False"
  unfolding decides_def
proof (intro allI impI)
  fix s h b s' r
  assume a: "ok s" "genuine h" "staged s (key h) = Some b" "sk_abort ops s h = (s', r)"
  show "ok s' \<and> staged s' = (case r of Inl _ \<Rightarrow> staged s | Inr _ \<Rightarrow> (staged s)(key h := None))
     \<and> visible s' = (case r of Inl _ \<Rightarrow> visible s | Inr _ \<Rightarrow> (if False then add_mset b (visible s) else visible s))"
    using abort_done [OF a(1-3)] abort_failed [OF a(1-3)] a(4) by (cases r) simp_all
qed

definition drop_keys :: "'h list \<Rightarrow> ('k \<Rightarrow> 'b option) \<Rightarrow> 'k \<Rightarrow> 'b option" where
  "drop_keys hs f = (\<lambda>k. if k \<in> key ` set hs then None else f k)"

lemma decide_handles_run:
  assumes "decides f vis" and "held s hs" and "decide_handles f s hs n = (s', n', r)"
  shows "\<exists>seen rest. hs = seen @ rest \<and> ok s' \<and> n' = n + length seen
    \<and> staged s' = drop_keys seen (staged s) \<and> visible s' = visible s + (if vis then pending s seen else {#})
    \<and> (case r of None \<Rightarrow> rest = [] | Some (_, requeue) \<Rightarrow> requeue = rest)"
  using assms(2,3)
proof (induction hs arbitrary: s n)
  case Nil
  then show ?case by (auto simp: held_def drop_keys_def pending_def)
next
  case (Cons h hs)
  from Cons.prems(1) obtain b where b: "staged s (key h) = Some b" and g: "ok s" "genuine h" "key h \<notin> key ` set hs"
    by (auto simp: held_def)
  obtain s1 r1 where d: "f s h = (s1, r1)" by fastforce
  note dec = assms(1) [unfolded decides_def, rule_format, OF g(1,2) b d]
  show ?case
  proof (cases r1)
    case (Inl e)
    with Cons.prems(2) d have "s' = s1" "n' = n" "r = Some (e, h # hs)" by simp_all
    with dec Inl show ?thesis by (intro exI [of _ "[]"] exI [of _ "h # hs"]) (simp add: drop_keys_def pending_def)
  next
    case (Inr u)
    with dec have d1: "ok s1" "staged s1 = (staged s)(key h := None)"
      "visible s1 = (if vis then add_mset b (visible s) else visible s)" by auto
    have other: "key x \<noteq> key h" if "x \<in> set hs" for x using g(3) that by (metis image_eqI)
    have h1: "held s1 hs" using Cons.prems(1) d1 other by (simp add: held_def)
    have "decide_handles f s1 hs (n + 1) = (s', n', r)" using Cons.prems(2) d Inr by simp
    from Cons.IH [OF h1 this] obtain seen rest where ih: "hs = seen @ rest" "ok s'" "n' = n + 1 + length seen"
      "staged s' = drop_keys seen (staged s1)" "visible s' = visible s1 + (if vis then pending s1 seen else {#})"
      "case r of None \<Rightarrow> rest = [] | Some (_, requeue) \<Rightarrow> requeue = rest" by blast
    have keep: "staged s1 (key x) = staged s (key x)" if "x \<in> set seen" for x
      using other [of x] that ih(1) d1(2) by simp
    have "pending s1 seen = pending s seen"
      unfolding pending_def using keep by (intro arg_cong [of _ _ mset] map_cong) auto
    moreover have "staged s' = drop_keys (h # seen) (staged s)"
      unfolding ih(4) d1(2) drop_keys_def by auto
    ultimately show ?thesis
      using ih d1(3) b by (intro exI [of _ "h # seen"] exI [of _ rest]) (auto simp: pending_def)
  qed
qed

end

context two_phase_sink
begin

lemma held_drop:
  assumes "held s (xs @ ys)" and "ok s'" and "staged s' = drop_keys xs (staged s)"
  shows "held s' ys" and "pending s' ys = pending s ys"
proof -
  note h = held_append [OF assms(1)]
  have keep: "staged s' (key y) = staged s (key y)" if "y \<in> set ys" for y
    using h that unfolding assms(3) drop_keys_def by auto
  show "held s' ys" using h keep assms(2) by (simp add: held_def)
  show "pending s' ys = pending s ys"
    unfolding pending_def using keep by (intro arg_cong [of _ _ mset] map_cong) auto
qed

lemma drop_keys_append: "drop_keys (xs @ ys) f = drop_keys ys (drop_keys xs f)"
  by (auto simp: drop_keys_def fun_eq_iff)

lemma decide_epochs_run:
  assumes "decides f vis" and "held s (all_handles eps)" and "decide_epochs f s eps m n = (s', m', r)"
    and "distinct (map fst eps)" and "fst ` set eps \<inter> fst ` set m = {}" and "bt_wf m"
  shows "\<exists>seen rest. mset (all_handles eps) = mset (seen @ rest) \<and> ok s' \<and> bt_wf m'
    \<and> staged s' = drop_keys seen (staged s) \<and> visible s' = visible s + (if vis then pending s seen else {#})
    \<and> mset (all_handles m') = mset (all_handles m) + mset rest
    \<and> (\<forall>k. r = Inr k \<longrightarrow> rest = [] \<and> m' = m \<and> k = n + length seen)"
  using assms(2-6)
proof (induction eps arbitrary: s n)
  case Nil
  then show ?case
    by (intro exI [of _ "[]"]) (auto simp: held_def drop_keys_def pending_def all_handles_def)
next
  case (Cons x eps)
  obtain k hs where x: "x = (k, hs)" by fastforce
  have hs: "held s (hs @ all_handles eps)" using Cons.prems(1) by (simp add: x all_handles_def)
  obtain s1 n1 r1 where d: "decide_handles f s hs n = (s1, n1, r1)" by (cases "decide_handles f s hs n") auto
  from decide_handles_run [OF assms(1) _ d] held_append [OF hs] obtain seen rest where
    run: "hs = seen @ rest" "ok s1" "n1 = n + length seen" "staged s1 = drop_keys seen (staged s)"
      "visible s1 = visible s + (if vis then pending s seen else {#})"
      "case r1 of None \<Rightarrow> rest = [] | Some (_, requeue) \<Rightarrow> requeue = rest" by blast
  show ?case
  proof (cases r1)
    case (Some er)
    obtain e requeue where er: "er = (e, requeue)" by fastforce
    with Some run(6) have rq: "requeue = rest" by simp
    have res: "s' = s1" "r = Inl e" "m' = fold (\<lambda>(k, v). bt_insert k v) eps (bt_insert k rest m)"
      using Cons.prems(2) d Some er rq by (auto simp: x)
    have "mset (all_handles m') = mset (all_handles eps) + mset (all_handles (bt_insert k rest m))"
      unfolding res(3) using Cons.prems(3,4) by (intro mset_all_handles_requeue) (auto simp: x)
    moreover have "mset (all_handles (bt_insert k rest m)) = mset rest + mset (all_handles m)"
      using Cons.prems(4) by (intro mset_all_handles_insert) (auto simp: x)
    moreover have "mset (all_handles (x # eps)) = mset (seen @ rest @ all_handles eps)"
      by (simp add: x run(1) all_handles_def)
    ultimately show ?thesis
      using run res Cons.prems(5) requeue_wf
      by (intro exI [of _ seen] exI [of _ "rest @ all_handles eps"]) (auto simp: ac_simps)
  next
    case None
    with run have hs_eq: "hs = seen" by simp
    have cont: "decide_epochs f s1 eps m n1 = (s', m', r)" using Cons.prems(2) d None by (simp add: x)
    have hd: "held s1 (all_handles eps)" "pending s1 (all_handles eps) = pending s (all_handles eps)"
      using held_drop [of s seen "all_handles eps" s1] hs hs_eq run(2,4) by blast+
    have "distinct (map fst eps)" "fst ` set eps \<inter> fst ` set m = {}" using Cons.prems(3,4) by auto
    from Cons.IH [OF hd(1) cont this Cons.prems(5)] obtain seen' rest' where
      ih: "mset (all_handles eps) = mset (seen' @ rest')" "ok s'" "bt_wf m'" "staged s' = drop_keys seen' (staged s1)"
      "visible s' = visible s1 + (if vis then pending s1 seen' else {#})"
      "mset (all_handles m') = mset (all_handles m) + mset rest'"
      "\<forall>k. r = Inr k \<longrightarrow> rest' = [] \<and> m' = m \<and> k = n1 + length seen'" by blast
    have sub: "set seen' \<subseteq> set (all_handles eps)" using ih(1) by (metis set_append set_mset_mset sup_ge1)
    have "pending s1 seen' = pending s seen'"
    proof -
      have "key h \<notin> key ` set seen" if "h \<in> set seen'" for h
        using held_append [OF hs [unfolded hs_eq]] sub that by blast
      then show ?thesis unfolding pending_def run(4) drop_keys_def
        by (intro arg_cong [of _ _ mset] map_cong) auto
    qed
    then have v: "visible s' = visible s + (if vis then pending s (seen @ seen') else {#})"
      using ih(5) run(5) by (cases vis) (simp_all add: pending_append)
    have st: "staged s' = drop_keys (seen @ seen') (staged s)" by (simp add: ih(4) run(4) drop_keys_append)
    have ms: "mset (all_handles (x # eps)) = mset ((seen @ seen') @ rest')"
      using ih(1) by (simp add: x hs_eq all_handles_def)
    have k: "\<forall>k. r = Inr k \<longrightarrow> rest' = [] \<and> m' = m \<and> k = n + length (seen @ seen')"
      using ih(7) run(3) by (simp add: add.assoc)
    show ?thesis
      by (rule exI [of _ "seen @ seen'"], rule exI [of _ rest'], intro conjI) (rule ms ih(2,3) st v ih(6) k)+
  qed
qed

lemma abort_all_frame:
  assumes "held s hs"
  shows "ok (abort_all ops s hs) \<and> visible (abort_all ops s hs) = visible s
    \<and> (\<forall>k. k \<notin> key ` set hs \<longrightarrow> staged (abort_all ops s hs) k = staged s k)"
  using assms
proof (induction hs arbitrary: s)
  case Nil
  then show ?case by (simp add: held_def)
next
  case (Cons h hs)
  from Cons.prems obtain b where b: "ok s" "genuine h" "staged s (key h) = Some b" "key h \<notin> key ` set hs"
    by (auto simp: held_def)
  obtain s1 r where a: "sk_abort ops s h = (s1, r)" by fastforce
  have s1: "ok s1" "visible s1 = visible s" "\<forall>k. k \<noteq> key h \<longrightarrow> staged s1 k = staged s k"
    using abort_decides [unfolded decides_def, rule_format, OF b(1-3) a] by (auto split: sum.splits)
  have "key x \<noteq> key h" if "x \<in> set hs" for x using b(4) that by (metis image_eqI)
  then have "held s1 hs" using Cons.prems s1 by (simp add: held_def)
  from Cons.IH [OF this] s1 a show ?case by simp
qed

lemma prepare_all_run:
  assumes "held s hs" and "room s (length bs + k)" and "prepare_all ops e s bs hs = (s', r)"
  shows "ok s' \<and> visible s' = visible s
    \<and> (\<forall>q. staged s q \<noteq> None \<longrightarrow> q \<notin> key ` set hs \<longrightarrow> staged s' q = staged s q)
    \<and> (\<forall>hs'. r = Inr hs' \<longrightarrow> (\<exists>new. hs' = hs @ new \<and> held s' hs' \<and> (\<forall>h \<in> set new. staged s (key h) = None)
         \<and> staged s' |` (- key ` set new) = staged s |` (- key ` set new) \<and> pending s' new = mset (map stored bs)))"
  using assms
proof (induction bs arbitrary: s hs)
  case Nil
  then show ?case by (auto simp: held_def pending_def)
next
  case (Cons b bs)
  have o: "ok s" using Cons.prems(1) by (simp add: held_def)
  have room: "room s (Suc (length bs + k))" using Cons.prems(2) by simp
  obtain s1 r1 where p: "sk_prepare ops s e b = (s1, r1)" by fastforce
  show ?case
  proof (cases r1)
    case (Inl x)
    note f = prepare_failed [OF o room p [unfolded Inl]]
    have "held s1 hs" using Cons.prems(1) f by (simp add: held_def)
    from abort_all_frame [OF this] f Cons.prems(3) p Inl show ?thesis by auto
  next
    case (Inr h)
    note d = prepare_done [OF o room p [unfolded Inr]]
    have nk: "key h \<notin> key ` set hs" using Cons.prems(1) d by (auto simp: held_def)
    have ne: "key x \<noteq> key h" if "x \<in> set hs" for x using nk that by (metis image_eqI)
    have h1: "held s1 (hs @ [h])"
      using Cons.prems(1) d nk ne by (auto simp: held_def)
    have "prepare_all ops e s1 bs (hs @ [h]) = (s', r)" using Cons.prems(3) p Inr by simp
    from Cons.IH [OF h1 _ this] d have ih: "ok s'" "visible s' = visible s1"
      "\<forall>q. staged s1 q \<noteq> None \<longrightarrow> q \<notin> key ` set (hs @ [h]) \<longrightarrow> staged s' q = staged s1 q"
      "\<forall>hs'. r = Inr hs' \<longrightarrow> (\<exists>new. hs' = (hs @ [h]) @ new \<and> held s' hs' \<and> (\<forall>h \<in> set new. staged s1 (key h) = None)
         \<and> staged s' |` (- key ` set new) = staged s1 |` (- key ` set new) \<and> pending s' new = mset (map stored bs))" by blast+
    have s1: "staged s1 = (staged s)(key h \<mapsto> stored b)" "staged s (key h) = None" using d by blast+
    have "staged s' q = staged s q" if "staged s q \<noteq> None" "q \<notin> key ` set hs" for q
    proof -
      have "q \<noteq> key h" using that(1) s1(2) by auto
      then show ?thesis using ih(3) that s1(1) by auto
    qed
    moreover have "\<exists>new. hs' = hs @ new \<and> held s' hs' \<and> (\<forall>h \<in> set new. staged s (key h) = None)
         \<and> staged s' |` (- key ` set new) = staged s |` (- key ` set new) \<and> pending s' new = mset (map stored (b # bs))"
      if "r = Inr hs'" for hs'
    proof -
      from ih(4) that obtain new where new: "hs' = (hs @ [h]) @ new" "held s' hs'" "\<forall>h \<in> set new. staged s1 (key h) = None"
         "staged s' |` (- key ` set new) = staged s1 |` (- key ` set new)" "pending s' new = mset (map stored bs)" by blast
      have fresh: "staged s (key x) = None \<and> key x \<noteq> key h" if "x \<in> set new" for x
        using new(3) that s1 by (auto split: if_splits)
      have same: "staged s' q = staged s1 q" if "q \<notin> key ` set new" for q
        using fun_cong [OF new(4), of q] that by (simp add: restrict_map_def)
      have "key h \<notin> key ` set new" using fresh by (metis imageE)
      then have hb: "staged s' (key h) = Some (stored b)" using same [of "key h"] s1 by simp
      have "staged s' |` (- key ` set (h # new)) = staged s |` (- key ` set (h # new))"
        using same s1 by (auto simp: restrict_map_def fun_eq_iff)
      moreover have "pending s' (h # new) = mset (map stored (b # bs))" using new(5) hb by (simp add: pending_def)
      ultimately show ?thesis using new fresh s1 by (intro exI [of _ "h # new"]) auto
    qed
    ultimately show ?thesis using ih d by simp
  qed
qed

end

section \<open>The transaction log over a sink\<close>

context two_phase_sink
begin

lemma decide_split_run:
  assumes "decides f vis" and "held s (all_handles p)" and "bt_wf p"
    and "decide_epochs f s (filter (\<lambda>(k, _). P k) p) (filter (\<lambda>(k, _). \<not> P k) p) 0 = (s', m', r)"
  shows "held s' (all_handles m') \<and> bt_wf m'
    \<and> (\<exists>seen rest. mset (all_handles (filter (\<lambda>(k, _). P k) p)) = mset (seen @ rest)
       \<and> visible s' = visible s + (if vis then pending s seen else {#})
       \<and> pending s (all_handles p) = pending s seen + pending s' (all_handles m')
       \<and> (\<forall>n. r = Inr n \<longrightarrow> rest = [] \<and> m' = filter (\<lambda>(k, _). \<not> P k) p \<and> n = length seen))"
proof -
  let ?eps = "filter (\<lambda>(k, _). P k) p" and ?m = "filter (\<lambda>(k, _). \<not> P k) p"
  have all: "mset (all_handles p) = mset (all_handles ?eps @ all_handles ?m)"
    using all_handles_filter [of P p] by simp
  have d: "distinct (map fst p)" using bt_wf_amap_wf [OF assms(3)] by (simp add: amap_wf_def)
  have held: "held s (all_handles ?eps @ all_handles ?m)" using assms(2) held_perm [OF all] by simp
  have wf: "bt_wf ?m" using assms(3) by (simp add: bt_wf_def sorted_wrt_map sorted_wrt_filter)
  have disj: "fst ` set ?eps \<inter> fst ` set ?m = {}" by auto
  have de: "distinct (map fst ?eps)" using d by (simp add: distinct_map_filter)
  from decide_epochs_run [OF assms(1) conjunct1 [OF held_append [OF held]] assms(4) de disj wf]
  obtain seen rest where run: "mset (all_handles ?eps) = mset (seen @ rest)" "ok s'" "bt_wf m'"
    "staged s' = drop_keys seen (staged s)" "visible s' = visible s + (if vis then pending s seen else {#})"
    "mset (all_handles m') = mset (all_handles ?m) + mset rest"
    "\<forall>k. r = Inr k \<longrightarrow> rest = [] \<and> m' = ?m \<and> k = 0 + length seen" by blast
  have perm: "mset (all_handles p) = mset (seen @ all_handles m')" using all run(1,6) by simp
  have "held s (seen @ all_handles m')" using assms(2) held_perm [OF perm] by simp
  note rest = held_drop [OF this run(2,4)]
  have "pending s (all_handles p) = pending s seen + pending s' (all_handles m')"
    using pending_perm [OF perm] rest(2) by (simp add: pending_append)
  with rest(1) run show ?thesis by auto
qed

definition log_ok :: "('s, 'b, 'h) txn_log \<Rightarrow> bool" where
  "log_ok l \<longleftrightarrow> held (tl_sink l) (all_handles (tl_prepared l)) \<and> bt_wf (tl_prepared l)"

definition in_flight :: "('s, 'b, 'h) txn_log \<Rightarrow> 'b multiset" where
  "in_flight l = pending (tl_sink l) (all_handles (tl_prepared l))"

lemma log_ok_new: "ok s \<Longrightarrow> log_ok (txn_log_new s) \<and> in_flight (txn_log_new s) = {#}"
  by (simp add: log_ok_def in_flight_def txn_log_new_def all_handles_def held_def pending_def)

lemma stage_step:
  "log_ok l \<Longrightarrow> log_ok (stage num_rows l b) \<and> in_flight (stage num_rows l b) = in_flight l
     \<and> tl_sink (stage num_rows l b) = tl_sink l"
  by (simp add: stage_def log_ok_def in_flight_def)

lemma commit_through_step:
  assumes "log_ok l" and "commit_through ops l e = (l', r)"
  shows "log_ok l' \<and> tl_open l' = tl_open l
    \<and> visible (tl_sink l') + in_flight l' = visible (tl_sink l) + in_flight l
    \<and> (\<forall>n. r = Inr n \<longrightarrow> tl_prepared l' = filter (\<lambda>(k, _). \<not> k < saturating_add_u64 e 1) (tl_prepared l)
        \<and> visible (tl_sink l') = visible (tl_sink l)
            + pending (tl_sink l) (all_handles (filter (\<lambda>(k, _). k < saturating_add_u64 e 1) (tl_prepared l)))
        \<and> n = length (all_handles (filter (\<lambda>(k, _). k < saturating_add_u64 e 1) (tl_prepared l))))"
proof -
  let ?P = "\<lambda>k. k < saturating_add_u64 e 1"
  obtain s' m' where run: "decide_epochs (sk_commit ops) (tl_sink l) (filter (\<lambda>(k, _). ?P k) (tl_prepared l))
      (filter (\<lambda>(k, _). \<not> ?P k) (tl_prepared l)) 0 = (s', m', r)" and l': "l' = l\<lparr>tl_sink := s', tl_prepared := m'\<rparr>"
    using assms(2) by (auto simp: commit_through_def Let_def not_less split: prod.splits)
  note a = assms(1) [unfolded log_ok_def]
  from decide_split_run [OF commit_decides conjunct1 [OF a] conjunct2 [OF a] run] obtain seen rest where
    d: "held s' (all_handles m')" "bt_wf m'" "mset (all_handles (filter (\<lambda>(k, _). ?P k) (tl_prepared l))) = mset (seen @ rest)"
      "visible s' = visible (tl_sink l) + pending (tl_sink l) seen"
      "pending (tl_sink l) (all_handles (tl_prepared l)) = pending (tl_sink l) seen + pending s' (all_handles m')"
      "\<forall>n. r = Inr n \<longrightarrow> rest = [] \<and> m' = filter (\<lambda>(k, _). \<not> ?P k) (tl_prepared l) \<and> n = length seen" by auto
  have "visible (tl_sink l') + in_flight l' = visible (tl_sink l) + in_flight l"
    using d(4,5) by (simp add: l' in_flight_def)
  moreover have "pending (tl_sink l) seen = pending (tl_sink l) (all_handles (filter (\<lambda>(k, _). ?P k) (tl_prepared l)))
      \<and> length seen = length (all_handles (filter (\<lambda>(k, _). ?P k) (tl_prepared l)))" if "rest = []"
    using d(3) that pending_perm [of seen] by (metis append_Nil2 size_mset)
  ultimately show ?thesis using d(1,2,4,6) by (auto simp: l' log_ok_def)
qed

lemma abort_after_step:
  assumes "log_ok l" and "abort_after ops l e = (l', r)"
  shows "log_ok l' \<and> tl_open l' = [] \<and> visible (tl_sink l') = visible (tl_sink l) \<and> in_flight l' \<subseteq># in_flight l
    \<and> (\<forall>n. r = Inr n \<longrightarrow> tl_prepared l' = filter (\<lambda>(k, _). \<not> k \<ge> saturating_add_u64 e 1) (tl_prepared l)
        \<and> n = length (all_handles (filter (\<lambda>(k, _). k \<ge> saturating_add_u64 e 1) (tl_prepared l))))"
proof -
  let ?P = "\<lambda>k. k \<ge> saturating_add_u64 e 1"
  obtain s' m' where run: "decide_epochs (sk_abort ops) (tl_sink l) (filter (\<lambda>(k, _). ?P k) (tl_prepared l))
      (filter (\<lambda>(k, _). \<not> ?P k) (tl_prepared l)) 0 = (s', m', r)"
    and l': "l' = l\<lparr>tl_sink := s', tl_open := [], tl_prepared := m'\<rparr>"
    using assms(2) by (auto simp: abort_after_def Let_def not_le split: prod.splits)
  note a = assms(1) [unfolded log_ok_def]
  from decide_split_run [OF abort_decides conjunct1 [OF a] conjunct2 [OF a] run] obtain seen rest where
    d: "held s' (all_handles m')" "bt_wf m'" "mset (all_handles (filter (\<lambda>(k, _). ?P k) (tl_prepared l))) = mset (seen @ rest)"
      "visible s' = visible (tl_sink l)"
      "pending (tl_sink l) (all_handles (tl_prepared l)) = pending (tl_sink l) seen + pending s' (all_handles m')"
      "\<forall>n. r = Inr n \<longrightarrow> rest = [] \<and> m' = filter (\<lambda>(k, _). \<not> ?P k) (tl_prepared l) \<and> n = length seen" by auto
  have "length seen = length (all_handles (filter (\<lambda>(k, _). ?P k) (tl_prepared l)))" if "rest = []"
    using d(3) that by (metis append_Nil2 size_mset)
  with d show ?thesis by (auto simp: l' log_ok_def in_flight_def)
qed

end

text \<open>A run of a participant: staging, barriers and completion notifications in any order.\<close>

datatype 'b log_op = OpStage 'b | OpPreCommit nat | OpCommitThrough nat

fun log_apply :: "('b \<Rightarrow> nat) \<Rightarrow> ('s, 'b, 'h) sink_ops \<Rightarrow> 'b log_op \<Rightarrow> ('s, 'b, 'h) txn_log \<Rightarrow> ('s, 'b, 'h) txn_log" where
  "log_apply num_rows ops (OpStage b) l = stage num_rows l b"
| "log_apply num_rows ops (OpPreCommit e) l = fst (pre_commit ops l e)"
| "log_apply num_rows ops (OpCommitThrough e) l = fst (commit_through ops l e)"

fun staged_batches :: "('b \<Rightarrow> nat) \<Rightarrow> 'b log_op list \<Rightarrow> 'b list" where
  "staged_batches num_rows [] = []"
| "staged_batches num_rows (OpStage b # xs) =
     (if num_rows b > 0 then b # staged_batches num_rows xs else staged_batches num_rows xs)"
| "staged_batches num_rows (OpPreCommit e # xs) = staged_batches num_rows xs"
| "staged_batches num_rows (OpCommitThrough e # xs) = staged_batches num_rows xs"

lemma bt_last_max: "bt_wf m \<Longrightarrow> k \<in> fst ` set m \<Longrightarrow> m \<noteq> [] \<and> k \<le> fst (last m)"
proof (induction m)
  case (Cons x m)
  show ?case
  proof (cases "m = []")
    case False
    then have "fst (last m) \<in> fst ` set m" by simp
    with Cons False show ?thesis by (cases x) (fastforce simp: bt_wf_Cons)
  qed (use Cons.prems in simp)
qed simp

context two_phase_sink
begin

lemma pre_commit_step:
  assumes "log_ok l" and "room (tl_sink l) (length (tl_open l))" and "pre_commit ops l e = (l', r)"
  shows "log_ok l' \<and> visible (tl_sink l') = visible (tl_sink l)
    \<and> in_flight l' + image_mset stored (mset (tl_open l')) = in_flight l + image_mset stored (mset (tl_open l))
    \<and> (\<forall>x. r = Inl x \<longrightarrow> tl_open l' = tl_open l \<and> tl_prepared l' = tl_prepared l)
    \<and> (\<forall>u. r = Inr u \<longrightarrow> tl_open l' = [])"
proof (cases "tl_prepared l \<noteq> [] \<and> e \<le> fst (last (tl_prepared l)) \<or> tl_open l = []")
  case True
  with assms(3) have "l' = l" "r = Inr () \<longrightarrow> tl_open l = []" by (auto simp: pre_commit_def split: if_splits)
  with assms(1) show ?thesis by (cases r) auto
next
  case False
  obtain s' r' where p: "prepare_all ops e (tl_sink l) (tl_open l) [] = (s', r')" by fastforce
  have held: "held (tl_sink l) (all_handles (tl_prepared l))" and wf: "bt_wf (tl_prepared l)"
    using assms(1) by (simp_all add: log_ok_def)
  then have nil: "held (tl_sink l) []" by (simp add: held_def)
  have "room (tl_sink l) (length (tl_open l) + 0)" using assms(2) by simp
  note run = prepare_all_run [OF nil this p]
  have keep: "staged s' (key h) = staged (tl_sink l) (key h)" if "h \<in> set (all_handles (tl_prepared l))" for h
    using run held that by (simp add: held_def)
  have held': "held s' (all_handles (tl_prepared l))" using held keep run by (simp add: held_def)
  have same: "pending s' (all_handles (tl_prepared l)) = in_flight l"
    unfolding pending_def in_flight_def using keep by (intro arg_cong [of _ _ mset] map_cong) auto
  show ?thesis
  proof (cases r')
    case (Inl x)
    with False p assms(3) have "l' = l\<lparr>tl_sink := s'\<rparr>" "r = Inl x" by (auto simp: pre_commit_def split: if_splits)
    with held' wf same run show ?thesis by (simp add: log_ok_def in_flight_def)
  next
    case (Inr hs)
    with False p assms(3) have l': "l' = l\<lparr>tl_sink := s', tl_open := [], tl_prepared := bt_insert e hs (tl_prepared l)\<rparr>"
      "r = Inr ()" by (auto simp: pre_commit_def split: if_splits)
    from run Inr obtain new where new: "hs = new" "held s' hs" "\<forall>h \<in> set new. staged (tl_sink l) (key h) = None"
      "pending s' new = mset (map stored (tl_open l))" by auto
    have fresh: "e \<notin> fst ` set (tl_prepared l)"
    proof
      assume "e \<in> fst ` set (tl_prepared l)"
      then have "tl_prepared l \<noteq> []" "e \<le> fst (last (tl_prepared l))"
        using bt_last_max [OF wf] by blast+
      with False show False by blast
    qed
    have perm: "mset (all_handles (tl_prepared l')) = mset (hs @ all_handles (tl_prepared l))"
      using mset_all_handles_insert [OF fresh] by (simp add: l')
    have "key h \<notin> key ` set (all_handles (tl_prepared l))" if "h \<in> set hs" for h
    proof
      assume "key h \<in> key ` set (all_handles (tl_prepared l))"
      then have "staged (tl_sink l) (key h) \<noteq> None" using held by (auto simp: held_def)
      with new(1,3) that show False by simp
    qed
    then have "held s' (hs @ all_handles (tl_prepared l))"
      using new(2) held' by (auto simp: held_def)
    then have "log_ok l'" using held_perm [OF perm] wf by (simp add: log_ok_def l')
    moreover have "in_flight l' = mset (map stored (tl_open l)) + in_flight l"
      using pending_perm [OF perm] same new by (simp add: in_flight_def l' pending_append)
    ultimately show ?thesis using run by (simp add: l')
  qed
qed

lemma restore_participant_step:
  assumes "log_ok l" and "restore_participant ops e l = (l', r)"
  shows "log_ok l' \<and> (\<forall>c a. r = Inr (c, a) \<longrightarrow> tl_open l' = [] \<and> tl_prepared l' = []
    \<and> visible (tl_sink l') = visible (tl_sink l)
        + pending (tl_sink l) (all_handles (filter (\<lambda>(k, _). k < saturating_add_u64 e 1) (tl_prepared l)))
    \<and> c = length (all_handles (filter (\<lambda>(k, _). k < saturating_add_u64 e 1) (tl_prepared l)))
    \<and> a = length (all_handles (filter (\<lambda>(k, _). k \<ge> saturating_add_u64 e 1) (tl_prepared l))))"
proof -
  obtain l1 r1 where c: "commit_through ops l e = (l1, r1)" by fastforce
  note cs = commit_through_step [OF assms(1) c]
  show ?thesis
  proof (cases r1)
    case (Inl x)
    with c assms(2) cs show ?thesis by (auto simp: restore_participant_def)
  next
    case (Inr n)
    obtain l2 r2 where a: "abort_after ops l1 e = (l2, r2)" by fastforce
    note as = abort_after_step [OF conjunct1 [OF cs] a]
    have l': "l' = l2" using c a Inr assms(2) by (auto simp: restore_participant_def split: sum.splits)
    have p1: "tl_prepared l1 = filter (\<lambda>(k, _). k \<ge> saturating_add_u64 e 1) (tl_prepared l)"
      using cs Inr by (simp add: not_less)
    have none: "filter (\<lambda>(k, _). \<not> k \<ge> saturating_add_u64 e 1) (tl_prepared l1) = []"
      and all: "filter (\<lambda>(k, _). k \<ge> saturating_add_u64 e 1) (tl_prepared l1) = tl_prepared l1"
      by (auto simp: p1 filter_empty_conv filter_id_conv)
    show ?thesis
    proof (intro conjI allI impI)
      show "log_ok l'" using as l' by blast
      fix c' a' assume r: "r = Inr (c', a')"
      with c a Inr assms(2) have r2: "r2 = Inr a'" and "c' = n"
        by (auto simp: restore_participant_def split: sum.splits)
      with cs Inr show "c' = length (all_handles (filter (\<lambda>(k, _). k < saturating_add_u64 e 1) (tl_prepared l)))" by blast
      show "tl_open l' = []" using as l' by blast
      show "tl_prepared l' = []" using as r2 none l' by simp
      show "a' = length (all_handles (filter (\<lambda>(k, _). k \<ge> saturating_add_u64 e 1) (tl_prepared l)))"
        using as r2 all p1 by simp
      show "visible (tl_sink l') = visible (tl_sink l)
        + pending (tl_sink l) (all_handles (filter (\<lambda>(k, _). k < saturating_add_u64 e 1) (tl_prepared l)))"
        using as cs Inr l' by simp
    qed
  qed
qed

end

text \<open>A sink that can always take more prepares.\<close>

locale unbounded_sink = two_phase_sink +
  assumes room_any: "room s n"
begin

lemma log_apply_conserves:
  assumes "log_ok l"
  shows "log_ok (log_apply num_rows ops op l)
    \<and> visible (tl_sink (log_apply num_rows ops op l)) + in_flight (log_apply num_rows ops op l)
        + image_mset stored (mset (tl_open (log_apply num_rows ops op l)))
      = visible (tl_sink l) + in_flight l + image_mset stored (mset (tl_open l))
        + image_mset stored (mset (staged_batches num_rows [op]))"
proof (cases op)
  case (OpStage b)
  show ?thesis using stage_step [OF assms, of num_rows b] by (simp add: OpStage) (simp add: stage_def)
next
  case (OpPreCommit e)
  from pre_commit_step [OF assms room_any, of e "fst (pre_commit ops l e)" "snd (pre_commit ops l e)"]
  show ?thesis by (simp add: OpPreCommit add.assoc)
next
  case (OpCommitThrough e)
  from commit_through_step [OF assms, of e "fst (commit_through ops l e)" "snd (commit_through ops l e)"]
  show ?thesis by (simp add: OpCommitThrough)
qed

lemma run_conserves:
  assumes "log_ok l"
  shows "log_ok (fold (log_apply num_rows ops) xs l)
    \<and> visible (tl_sink (fold (log_apply num_rows ops) xs l)) + in_flight (fold (log_apply num_rows ops) xs l)
        + image_mset stored (mset (tl_open (fold (log_apply num_rows ops) xs l)))
      = visible (tl_sink l) + in_flight l + image_mset stored (mset (tl_open l))
        + image_mset stored (mset (staged_batches num_rows xs))"
  using assms
proof (induction xs arbitrary: l)
  case (Cons x xs)
  have "mset (staged_batches num_rows (x # xs)) = mset (staged_batches num_rows [x]) + mset (staged_batches num_rows xs)"
    by (cases x) auto
  with log_apply_conserves [OF Cons.prems, of num_rows x] Cons.IH [of "log_apply num_rows ops x l"]
  show ?case by (simp add: ac_simps)
qed simp

end

section \<open>The sinks keep the contract\<close>

definition mem_ok :: "'b mem_sink \<Rightarrow> bool" where
  "mem_ok s \<longleftrightarrow> bt_wf (ms_staged s)
     \<and> (\<forall>x \<in> set (ms_staged s). fst x < ms_next_handle s \<and> length (snd x) = 1)"

definition mem_room :: "'b mem_sink \<Rightarrow> nat \<Rightarrow> bool" where
  "mem_room s n \<longleftrightarrow> ms_next_handle s + n < two64"

definition mem_staged :: "'b mem_sink \<Rightarrow> nat \<Rightarrow> 'b option" where
  "mem_staged s k = map_option hd (map_of (ms_staged s) k)"

definition mem_visible :: "'b mem_sink \<Rightarrow> 'b multiset" where
  "mem_visible s = mset (map snd (ms_committed s))"

lemma bt_wf_remove: "bt_wf m \<Longrightarrow> bt_wf (amap_remove k m)"
  by (simp add: bt_wf_def amap_remove_def sorted_wrt_map sorted_wrt_filter)

lemma mem_prepare_law:
  assumes "mem_ok s" and "mem_room s (Suc n)" and "mem_prepare s e b = (s', r)"
  shows "\<exists>h. r = Inr h \<and> mem_ok s' \<and> mem_room s' n \<and> mem_staged s (mh_handle_id h) = None
    \<and> mem_staged s' = (mem_staged s)(mh_handle_id h \<mapsto> b) \<and> mem_visible s' = mem_visible s"
proof -
  let ?n = "ms_next_handle s"
  have new: "map_of (ms_staged s) ?n = None"
    using assms(1) by (force simp: mem_ok_def map_of_eq_None_iff)
  have wf: "bt_wf (ms_staged s)" using assms(1) by (simp add: mem_ok_def)
  have nx: "(?n + 1) mod two64 = ?n + 1" using assms(2) by (simp add: mem_room_def)
  have s': "s' = s\<lparr>ms_next_handle := ?n + 1, ms_staged := bt_insert ?n [b] (ms_staged s)\<rparr>"
    "r = Inr \<lparr>mh_epoch = e, mh_handle_id = ?n\<rparr>"
    using assms(3) new nx by (auto simp: mem_prepare_def Let_def)
  have "fst x < Suc ?n \<and> length (snd x) = 1" if "x \<in> set (bt_insert ?n [b] (ms_staged s))" for x
  proof -
    have "map_of (bt_insert ?n [b] (ms_staged s)) (fst x) = Some (snd x)"
      using that bt_wf_amap_wf [OF bt_wf_insert [OF wf]] by (metis amap_mem_iff prod.collapse)
    then have "x = (?n, [b]) \<or> x \<in> set (ms_staged s)"
      using wf by (cases x) (auto split: if_splits dest: map_of_SomeD)
    with assms(1) show ?thesis by (auto simp: mem_ok_def)
  qed
  then show ?thesis
    using assms(2) new wf by (auto simp: s' mem_ok_def mem_room_def mem_staged_def mem_visible_def fun_eq_iff)
qed

lemma mem_ok_remove: "mem_ok s \<Longrightarrow> mem_ok (s\<lparr>ms_staged := amap_remove k (ms_staged s)\<rparr>)"
  by (auto simp: mem_ok_def bt_wf_remove) (auto simp: amap_remove_def)

lemma mem_staged_remove:
  "mem_staged (s\<lparr>ms_staged := amap_remove k (ms_staged s)\<rparr>) = (mem_staged s)(k := None)"
  by (simp add: mem_staged_def fun_eq_iff)

lemma mem_commit_law:
  assumes "mem_ok s" and "mem_staged s (mh_handle_id h) = Some b" and "mem_commit s h = (s', r)"
  shows "r = Inr () \<and> mem_ok s' \<and> mem_staged s' = (mem_staged s)(mh_handle_id h := None)
    \<and> mem_visible s' = add_mset b (mem_visible s)"
proof -
  from assms(2) obtain bs where bs: "map_of (ms_staged s) (mh_handle_id h) = Some bs" "hd bs = b"
    by (auto simp: mem_staged_def)
  then have "length bs = 1" using assms(1) map_of_SomeD [OF bs(1)] by (fastforce simp: mem_ok_def)
  with bs(2) have "bs = [b]" by (cases bs) auto
  with bs(1) assms(3) have s': "r = Inr ()" "s' = s\<lparr>ms_staged := amap_remove (mh_handle_id h) (ms_staged s),
      ms_committed := ms_committed s @ [(mh_epoch h, b)]\<rparr>" by (simp_all add: mem_commit_def)
  have "mem_ok s'" using mem_ok_remove [OF assms(1), of "mh_handle_id h"] unfolding s' by (simp add: mem_ok_def)
  then show ?thesis by (simp add: s' mem_staged_def mem_visible_def fun_eq_iff)
qed

interpretation mem: two_phase_sink mem_sink_ops mem_ok mem_room "\<lambda>_. True" mh_handle_id mem_staged mem_visible "\<lambda>b. b"
proof (unfold_locales, goal_cases)
  case (1 s n e b s' h)
  with mem_prepare_law [of s n e b s' "Inr h"] show ?case by (simp add: mem_sink_ops_def)
next
  case (2 s n e b s' x)
  with mem_prepare_law [of s n e b s' "Inl x"] show ?case by (simp add: mem_sink_ops_def)
next
  case (3 s h b s' u)
  with mem_commit_law [of s h b s' "Inr u"] show ?case by (simp add: mem_sink_ops_def)
next
  case (4 s h b s' x)
  with mem_commit_law [of s h b s' "Inl x"] show ?case by (simp add: mem_sink_ops_def)
next
  case (5 s h b s' u)
  with mem_ok_remove [of s "mh_handle_id h"] mem_staged_remove [of "mh_handle_id h" s]
  show ?case by (auto simp: mem_sink_ops_def mem_abort_def mem_visible_def)
next
  case (6 s h b s' x)
  then show ?case by (simp add: mem_sink_ops_def mem_abort_def)
qed

text \<open>
  A staged file carries a name \<open>stem.parquet.tmp\<close>, has complete content, and its target is
  free; the published files are those without the \<open>.tmp\<close> suffix.
\<close>

definition pq_staged :: "'b pq_sink \<Rightarrow> string \<Rightarrow> 'b option" where
  "pq_staged s path =
     (case strip_suffix ''.parquet.tmp'' path of
        None \<Rightarrow> None
      | Some stem \<Rightarrow> if pq_exists s (stem @ ''.parquet'') then None
                     else (case map_of (pq_files s) path of None \<Rightarrow> None | Some content \<Rightarrow> content))"

definition pq_published :: "'b pq_sink \<Rightarrow> 'b multiset" where
  "pq_published s = mset (List.map_filter (\<lambda>(path, content).
     if strip_suffix ''.tmp'' path = None then content else None) (pq_files s))"

definition pq_ok :: "('b \<Rightarrow> connector_error + quality_result) option \<Rightarrow> 'b pq_sink \<Rightarrow> bool" where
  "pq_ok qc s \<longleftrightarrow> pq_quality s = qc
     \<and> (\<forall>x \<in> set (pq_files s). strip_suffix ''.tmp'' (fst x) = None \<longrightarrow> snd x \<noteq> None)"

definition pq_genuine :: "pq_handle \<Rightarrow> bool" where
  "pq_genuine h \<longleftrightarrow> strip_suffix ''.tmp'' (ph_staging_path h) = Some (ph_final_path h)
     \<and> strip_suffix ''.parquet'' (ph_final_path h) \<noteq> None"

definition pq_stored :: "'b arrow_ops \<Rightarrow> ('b \<Rightarrow> connector_error + quality_result) option \<Rightarrow> 'b \<Rightarrow> 'b" where
  "pq_stored ar qc b = (case pq_checked ar qc 0 b of Inl _ \<Rightarrow> b | Inr b' \<Rightarrow> b')"

lemma strip_suffix_Some [simp]: "strip_suffix suf s = Some t \<longleftrightarrow> s = t @ suf"
  by (auto simp: strip_suffix_def strip_prefix_Some) (metis rev_append rev_rev_ident)

lemma strip_suffix_append [simp]: "strip_suffix suf (t @ suf) = Some t"
  by simp

lemma strip_suffix_None: "strip_suffix suf s = None \<longleftrightarrow> (\<forall>t. s \<noteq> t @ suf)"
  by (metis not_None_eq strip_suffix_Some)

lemma pq_stored_checked: "pq_checked ar qc e b = Inr b' \<Longrightarrow> pq_stored ar qc b = b'"
proof (cases qc)
  case (Some check)
  assume "pq_checked ar qc e b = Inr b'"
  with Some show ?thesis by (cases "check b") (simp_all add: pq_stored_def pq_checked_def split: if_splits)
qed (simp add: pq_stored_def pq_checked_def)

lemma pq_genuine_iff:
  "pq_genuine h \<longleftrightarrow> (\<exists>stem. ph_staging_path h = stem @ ''.parquet.tmp'' \<and> ph_final_path h = stem @ ''.parquet'')"
  by (auto simp: pq_genuine_def)

lemma amap_insert_absent: "map_of m k = None \<Longrightarrow> amap_insert k v m = m @ [(k, v)]"
  by (induction k v m rule: amap_insert.induct) (auto split: if_splits)

lemma final_not_staging: "stem @ ''.parquet'' \<noteq> stem' @ ''.parquet.tmp''"
proof
  assume "stem @ ''.parquet'' = stem' @ ''.parquet.tmp''"
  then have "last (stem @ ''.parquet'') = last (stem' @ ''.parquet.tmp'')" by simp
  then show False by simp
qed

lemma final_not_tmp: "strip_suffix ''.tmp'' (stem @ ''.parquet'') = None"
proof (rule ccontr)
  assume "strip_suffix ''.tmp'' (stem @ ''.parquet'') \<noteq> None"
  then obtain t where "stem @ ''.parquet'' = t @ ''.tmp''" by auto
  then have "last (stem @ ''.parquet'') = last (t @ ''.tmp'')" by simp
  then show False by simp
qed

lemma staging_is_tmp: "strip_suffix ''.tmp'' (stem @ ''.parquet.tmp'') = Some (stem @ ''.parquet'')"
  by simp

lemma pq_staged_stem:
  "pq_staged s (stem @ ''.parquet.tmp'') = (if pq_exists s (stem @ ''.parquet'') then None
     else case map_of (pq_files s) (stem @ ''.parquet.tmp'') of None \<Rightarrow> None | Some content \<Rightarrow> content)"
  unfolding pq_staged_def strip_suffix_append by simp

text \<open>A new staging file changes what is staged under its own name only, and nothing published.\<close>

lemma pq_create_frame:
  assumes "pq_ok qc s" and "map_of (pq_files s) (stem @ ''.parquet.tmp'') = None"
    and "map_of (pq_files s) (stem @ ''.parquet'') = None"
  shows "pq_ok qc (s\<lparr>pq_files := amap_insert (stem @ ''.parquet.tmp'') c (pq_files s)\<rparr>)"
    and "pq_published (s\<lparr>pq_files := amap_insert (stem @ ''.parquet.tmp'') c (pq_files s)\<rparr>) = pq_published s"
    and "pq_staged (s\<lparr>pq_files := amap_insert (stem @ ''.parquet.tmp'') c (pq_files s)\<rparr>)
       = (pq_staged s)(stem @ ''.parquet.tmp'' := c)"
proof -
  let ?k = "stem @ ''.parquet.tmp''"
  have app: "amap_insert ?k c (pq_files s) = pq_files s @ [(?k, c)]" by (rule amap_insert_absent [OF assms(2)])
  show "pq_ok qc (s\<lparr>pq_files := amap_insert ?k c (pq_files s)\<rparr>)"
    using assms(1) unfolding app pq_ok_def by (auto simp: strip_suffix_None)
  show "pq_published (s\<lparr>pq_files := amap_insert ?k c (pq_files s)\<rparr>) = pq_published s"
    unfolding app pq_published_def by (simp add: map_filter_def strip_suffix_None)
  show "pq_staged (s\<lparr>pq_files := amap_insert ?k c (pq_files s)\<rparr>) = (pq_staged s)(?k := c)"
  proof
    fix p
    show "pq_staged (s\<lparr>pq_files := amap_insert ?k c (pq_files s)\<rparr>) p = ((pq_staged s)(?k := c)) p"
    proof (cases "strip_suffix ''.parquet.tmp'' p")
      case None
      then have "p \<noteq> ?k" by (auto simp: strip_suffix_None)
      with None show ?thesis by (simp add: pq_staged_def)
    next
      case (Some stem')
      then have p: "p = stem' @ ''.parquet.tmp''" by simp
      show ?thesis using final_not_staging [of stem' stem] assms(3)
        unfolding p pq_staged_stem fun_upd_apply pq_exists_def by (auto simp: pq_staged_stem pq_exists_def)
    qed
  qed
qed

lemma pq_same_files:
  assumes "pq_files t = pq_files s"
  shows "pq_published t = pq_published s" and "pq_staged t = pq_staged s"
    and "pq_quality t = pq_quality s \<Longrightarrow> pq_ok qc t = pq_ok qc s"
  unfolding pq_published_def pq_staged_def pq_exists_def pq_ok_def assms by (rule refl | simp)+

lemma pq_fault_of_same:
  "pq_fault_of s = (f, s0) \<Longrightarrow> pq_files s0 = pq_files s \<and> pq_quality s0 = pq_quality s \<and> pq_dir s0 = pq_dir s"
  by (auto simp: pq_fault_of_def split: list.splits)

lemma pq_find_free:
  "pq_find s e n = (n', Inr i) \<Longrightarrow> n \<le> i \<and> i < u64_max \<and> n' = i + 1
     \<and> map_of (pq_files s) (pq_final_name (pq_dir s) e i) = None
     \<and> map_of (pq_files s) (pq_staging_name (pq_dir s) e i) = None"
proof (induction s e n rule: pq_find.induct)
  case (1 s e n)
  show ?case
  proof (cases "n \<ge> u64_max \<or> \<not> (pq_exists s (pq_final_name (pq_dir s) e n) \<or> pq_exists s (pq_staging_name (pq_dir s) e n))")
    case True
    with "1.prems" show ?thesis by (auto simp: pq_find.simps [of s e n] pq_exists_def split: if_splits)
  next
    case False
    then have "pq_find s e (n + 1) = (n', Inr i)" using "1.prems" by (simp add: pq_find.simps [of s e n])
    with "1.IH" False show ?thesis by fastforce
  qed
qed

lemma pq_names: "\<exists>stem. pq_staging_name dir e n = stem @ ''.parquet.tmp'' \<and> pq_final_name dir e n = stem @ ''.parquet''"
  by (intro exI [of _ "dir @ ''/'' @ show_nat e @ ''-'' @ show_nat n"]) (simp add: pq_staging_name_def pq_final_name_def)

lemma pq_prepare_law:
  assumes "pq_ok qc s" and "pq_prepare ar s e b = (s', r)"
  shows "pq_ok qc s' \<and> pq_published s' = pq_published s
    \<and> (\<forall>x. r = Inl x \<longrightarrow> pq_staged s' = pq_staged s)
    \<and> (\<forall>h. r = Inr h \<longrightarrow> pq_genuine h \<and> pq_staged s (ph_staging_path h) = None
         \<and> pq_staged s' = (pq_staged s)(ph_staging_path h \<mapsto> pq_stored ar qc b))"
proof (cases "pq_checked ar (pq_quality s) e b")
  case (Inl x)
  with assms show ?thesis by (auto simp: pq_prepare_def)
next
  case (Inr b')
  have q: "pq_quality s = qc" using assms(1) by (simp add: pq_ok_def)
  obtain n f where find: "pq_find s e (pq_next_handle s) = (n, f)" by fastforce
  show ?thesis
  proof (cases f)
    case (Inl x)
    with Inr find assms(2) have "s' = s\<lparr>pq_next_handle := n\<rparr>" "r = Inl x" by (auto simp: pq_prepare_def)
    with assms(1) pq_same_files [of s' s] show ?thesis by simp
  next
    case (Inr i)
    obtain fault s0 where fo: "pq_fault_of (s\<lparr>pq_next_handle := n\<rparr>) = (fault, s0)" by fastforce
    have same: "pq_files s0 = pq_files s" "pq_quality s0 = pq_quality s" using pq_fault_of_same [OF fo] by simp_all
    obtain stem where stem: "pq_staging_name (pq_dir s) e i = stem @ ''.parquet.tmp''"
      "pq_final_name (pq_dir s) e i = stem @ ''.parquet''" using pq_names by blast
    note free = pq_find_free [OF find [unfolded Inr], unfolded stem]
    have ok0: "pq_ok qc s0" using assms(1) pq_same_files(3) [OF same(1) same(2)] by simp
    have none: "pq_staged s (stem @ ''.parquet.tmp'') = None" using free by (simp add: pq_staged_stem)
    note frame = pq_create_frame [OF ok0, of stem, unfolded same(1)]
    have out: "r = Inl x \<longrightarrow> s' = s0 \<or> s' = s0\<lparr>pq_files := amap_insert (stem @ ''.parquet.tmp'') None (pq_files s)\<rparr>" for x
      using assms(2) \<open>pq_checked ar (pq_quality s) e b = Inr b'\<close> find Inr fo stem same
      by (auto simp: pq_prepare_def Let_def split: pq_fault.splits)
    have res: "r = Inr h \<longrightarrow> s' = s0\<lparr>pq_files := amap_insert (stem @ ''.parquet.tmp'') (Some b') (pq_files s)\<rparr>
        \<and> ph_staging_path h = stem @ ''.parquet.tmp'' \<and> ph_final_path h = stem @ ''.parquet''" for h
      using assms(2) \<open>pq_checked ar (pq_quality s) e b = Inr b'\<close> find Inr fo stem same
      by (auto simp: pq_prepare_def Let_def split: pq_fault.splits)
    have st: "pq_stored ar qc b = b'" using pq_stored_checked [OF \<open>pq_checked ar (pq_quality s) e b = Inr b'\<close>] q by simp
    note s0 = pq_same_files(1,2) [OF same(1)]
    have idem: "(pq_staged s)(stem @ ''.parquet.tmp'' := None) = pq_staged s" using none by (simp add: fun_upd_idem)
    show ?thesis
    proof (cases r)
      case (Inl x)
      with out [of x] consider "s' = s0" | "s' = s0\<lparr>pq_files := amap_insert (stem @ ''.parquet.tmp'') None (pq_files s)\<rparr>"
        by blast
      then show ?thesis
      proof cases
        case 1
        with ok0 s0 Inl show ?thesis by simp
      next
        case 2
        with frame [of None] free ok0 s0 idem Inl show ?thesis by simp
      qed
    next
      case (Inr h)
      with res [of h] frame [of "Some b'"] free s0 st none show ?thesis by (simp add: pq_genuine_iff)
    qed
  qed
qed

lemma pq_remove_staging:
  assumes "pq_ok qc s"
  shows "pq_ok qc (s\<lparr>pq_files := amap_remove (stem @ ''.parquet.tmp'') (pq_files s)\<rparr>)"
    and "pq_published (s\<lparr>pq_files := amap_remove (stem @ ''.parquet.tmp'') (pq_files s)\<rparr>) = pq_published s"
    and "pq_staged (s\<lparr>pq_files := amap_remove (stem @ ''.parquet.tmp'') (pq_files s)\<rparr>)
       = (pq_staged s)(stem @ ''.parquet.tmp'' := None)"
proof -
  let ?k = "stem @ ''.parquet.tmp''"
  show "pq_ok qc (s\<lparr>pq_files := amap_remove ?k (pq_files s)\<rparr>)"
    using assms by (auto simp: pq_ok_def amap_remove_def)
  have "List.map_filter (\<lambda>(path, content). if strip_suffix ''.tmp'' path = None then content else None) (amap_remove ?k m)
      = List.map_filter (\<lambda>(path, content). if strip_suffix ''.tmp'' path = None then content else None) m"
    for m :: "(string, 'a option) amap"
    by (induction m) (auto simp: amap_remove_def map_filter_def strip_suffix_None)
  then show "pq_published (s\<lparr>pq_files := amap_remove ?k (pq_files s)\<rparr>) = pq_published s"
    by (simp add: pq_published_def)
  show "pq_staged (s\<lparr>pq_files := amap_remove ?k (pq_files s)\<rparr>) = (pq_staged s)(?k := None)"
  proof
    fix p
    show "pq_staged (s\<lparr>pq_files := amap_remove ?k (pq_files s)\<rparr>) p = ((pq_staged s)(?k := None)) p"
    proof (cases "strip_suffix ''.parquet.tmp'' p")
      case None
      then have "p \<noteq> ?k" by (auto simp: strip_suffix_None)
      with None show ?thesis by (simp add: pq_staged_def)
    next
      case (Some stem')
      then have p: "p = stem' @ ''.parquet.tmp''" by simp
      show ?thesis using final_not_staging [of stem' stem]
        unfolding p pq_staged_stem fun_upd_apply pq_exists_def by (auto simp: pq_staged_stem pq_exists_def)
    qed
  qed
qed

text \<open>Renaming a staged file to its free target publishes exactly its content.\<close>

lemma pq_publish_file:
  assumes "pq_ok qc s" and "map_of (pq_files s) (stem @ ''.parquet'') = None"
  shows "pq_ok qc (s\<lparr>pq_files := amap_insert (stem @ ''.parquet'') (Some b) (pq_files s)\<rparr>)"
    and "pq_published (s\<lparr>pq_files := amap_insert (stem @ ''.parquet'') (Some b) (pq_files s)\<rparr>) = add_mset b (pq_published s)"
    and "pq_staged (s\<lparr>pq_files := amap_insert (stem @ ''.parquet'') (Some b) (pq_files s)\<rparr>)
       = (pq_staged s)(stem @ ''.parquet.tmp'' := None)"
proof -
  let ?k = "stem @ ''.parquet''"
  have app: "amap_insert ?k (Some b) (pq_files s) = pq_files s @ [(?k, Some b)]"
    by (rule amap_insert_absent [OF assms(2)])
  show "pq_ok qc (s\<lparr>pq_files := amap_insert ?k (Some b) (pq_files s)\<rparr>)"
    using assms(1) unfolding app pq_ok_def by auto
  have "List.map_filter f (m @ [x]) = List.map_filter f m @ (case f x of None \<Rightarrow> [] | Some y \<Rightarrow> [y])"
    for f :: "string \<times> 'a option \<Rightarrow> 'a option" and m x
    by (induction m) (auto simp: map_filter_def split: option.splits)
  then show "pq_published (s\<lparr>pq_files := amap_insert ?k (Some b) (pq_files s)\<rparr>) = add_mset b (pq_published s)"
    unfolding app pq_published_def by (simp add: final_not_tmp)
  show "pq_staged (s\<lparr>pq_files := amap_insert ?k (Some b) (pq_files s)\<rparr>) = (pq_staged s)(stem @ ''.parquet.tmp'' := None)"
  proof
    fix p
    show "pq_staged (s\<lparr>pq_files := amap_insert ?k (Some b) (pq_files s)\<rparr>) p
        = ((pq_staged s)(stem @ ''.parquet.tmp'' := None)) p"
    proof (cases "strip_suffix ''.parquet.tmp'' p")
      case None
      then have "p \<noteq> stem @ ''.parquet.tmp''" by (auto simp: strip_suffix_None)
      with None show ?thesis by (simp add: pq_staged_def)
    next
      case (Some stem')
      then have p: "p = stem' @ ''.parquet.tmp''" by simp
      show ?thesis using final_not_staging [of stem stem']
        unfolding p pq_staged_stem fun_upd_apply pq_exists_def by (auto simp: pq_staged_stem pq_exists_def)
    qed
  qed
qed

lemma pq_commit_law:
  assumes "pq_ok qc s" and "pq_genuine h" and "pq_staged s (ph_staging_path h) = Some b" and "pq_commit s h = (s', r)"
  shows "pq_ok qc s' \<and> (case r of
      Inl _ \<Rightarrow> pq_staged s' = pq_staged s \<and> pq_published s' = pq_published s
    | Inr _ \<Rightarrow> pq_staged s' = (pq_staged s)(ph_staging_path h := None) \<and> pq_published s' = add_mset b (pq_published s))"
proof -
  obtain stem where stem: "ph_staging_path h = stem @ ''.parquet.tmp''" "ph_final_path h = stem @ ''.parquet''"
    using assms(2) by (auto simp: pq_genuine_iff)
  obtain fault s0 where fo: "pq_fault_of s = (fault, s0)" by fastforce
  have same: "pq_files s0 = pq_files s" "pq_quality s0 = pq_quality s" using pq_fault_of_same [OF fo] by simp_all
  have ok0: "pq_ok qc s0" using assms(1) pq_same_files(3) [OF same(1) same(2)] by simp
  note s0 = pq_same_files(1,2) [OF same(1)]
  have here: "map_of (pq_files s) (stem @ ''.parquet.tmp'') = Some (Some b)" "map_of (pq_files s) (stem @ ''.parquet'') = None"
    using assms(3) unfolding stem pq_staged_stem by (auto simp: pq_exists_def split: if_splits option.splits)
  let ?s1 = "s0\<lparr>pq_files := amap_remove (stem @ ''.parquet.tmp'') (pq_files s)\<rparr>"
  note rm = pq_remove_staging [OF ok0, of stem, unfolded same(1)]
  have "map_of (pq_files ?s1) (stem @ ''.parquet'') = None" using here(2) by simp
  note pub = pq_publish_file [OF rm(1) this, of b, unfolded rm(2,3)]
  show ?thesis
    using assms(4) fo here ok0 s0 pub same(1) by (auto simp: pq_commit_def stem split: if_splits)
qed

lemma pq_abort_law:
  assumes "pq_ok qc s" and "pq_genuine h" and "pq_staged s (ph_staging_path h) = Some b" and "pq_abort s h = (s', r)"
  shows "pq_ok qc s' \<and> pq_published s' = pq_published s \<and> pq_staged s' = (case r of
      Inl _ \<Rightarrow> pq_staged s | Inr _ \<Rightarrow> (pq_staged s)(ph_staging_path h := None))"
proof -
  obtain stem where stem: "ph_staging_path h = stem @ ''.parquet.tmp''" using assms(2) by (auto simp: pq_genuine_iff)
  obtain fault s0 where fo: "pq_fault_of s = (fault, s0)" by fastforce
  have same: "pq_files s0 = pq_files s" "pq_quality s0 = pq_quality s" using pq_fault_of_same [OF fo] by simp_all
  have ok0: "pq_ok qc s0" using assms(1) pq_same_files(3) [OF same(1) same(2)] by simp
  note s0 = pq_same_files(1,2) [OF same(1)]
  have here: "map_of (pq_files s) (stem @ ''.parquet.tmp'') \<noteq> None"
    using assms(3) unfolding stem pq_staged_stem by (auto split: if_splits option.splits)
  note rm = pq_remove_staging [OF ok0, of stem, unfolded same(1)]
  show ?thesis
    using assms(4) fo here ok0 s0 rm same(1) by (auto simp: pq_abort_def pq_exists_def stem split: if_splits)
qed

interpretation pq: unbounded_sink "pq_sink_ops ar" "pq_ok qc" "\<lambda>_ _. True" pq_genuine ph_staging_path pq_staged
  pq_published "pq_stored ar qc"
  for ar qc
proof (unfold_locales, goal_cases)
  case (1 s n e b s' h)
  with pq_prepare_law [of qc s ar e b s' "Inr h"] show ?case by (simp add: pq_sink_ops_def)
next
  case (2 s n e b s' x)
  with pq_prepare_law [of qc s ar e b s' "Inl x"] show ?case by (simp add: pq_sink_ops_def)
next
  case (3 s h b s' u)
  with pq_commit_law [of qc s h b s' "Inr u"] show ?case by (simp add: pq_sink_ops_def)
next
  case (4 s h b s' x)
  with pq_commit_law [of qc s h b s' "Inl x"] show ?case by (simp add: pq_sink_ops_def)
next
  case (5 s h b s' u)
  with pq_abort_law [of qc s h b s' "Inr u"] show ?case by (simp add: pq_sink_ops_def)
next
  case (6 s h b s' x)
  with pq_abort_law [of qc s h b s' "Inl x"] show ?case by (simp add: pq_sink_ops_def)
qed simp

end
