(* ===== verification/ExactlyOnce.thy ===== *)
theory ExactlyOnce
  imports SinkContract
begin

text \<open>
  What the transaction log over the Parquet sink delivers: exactly-once output over any run,
  restore to a checkpoint, recovery of a crashed executor from durable paths, retried completion
  notifications, and the end of the search for a free file name.
\<close>

section \<open>Exactly-once output of the Parquet log\<close>

text \<open>The batches a log has prepared and not yet decided.\<close>

definition prepared_batches :: "('b pq_sink, 'b, pq_handle) txn_log \<Rightarrow> 'b multiset" where
  "prepared_batches l = mset (map (\<lambda>h. the (pq_staged (tl_sink l) (ph_staging_path h))) (all_handles (tl_prepared l)))"

definition prepared_through :: "nat \<Rightarrow> ('b pq_sink, 'b, pq_handle) txn_log \<Rightarrow> 'b multiset" where
  "prepared_through e l =
     mset (map (\<lambda>h. the (pq_staged (tl_sink l) (ph_staging_path h))) (all_handles (filter (\<lambda>(k, _). k \<le> e) (tl_prepared l))))"

abbreviation pq_run :: "'b arrow_ops \<Rightarrow> 'b pq_sink \<Rightarrow> 'b log_op list \<Rightarrow> ('b pq_sink, 'b, pq_handle) txn_log" where
  "pq_run ar s xs \<equiv> fold (log_apply (ar_num_rows ar) (pq_sink_ops ar)) xs (txn_log_new s)"

lemma txn_log_new_sel [simp]:
  "tl_sink (txn_log_new s) = s" "tl_open (txn_log_new s) = []" "tl_prepared (txn_log_new s) = []"
  by (simp_all add: txn_log_new_def)

lemma pq_run_ok: "pq_ok qc s \<Longrightarrow> pq.log_ok qc (pq_run ar s xs)"
  using pq.run_conserves pq.log_ok_new by blast

lemma prepared_batches_pending: "prepared_batches l = pq.pending (tl_sink l) (all_handles (tl_prepared l))"
  by (simp add: prepared_batches_def pq.pending_def)

text \<open>
  C2. Exactly-once output of a Parquet transaction log. Take any directory in which every
  published file is complete, any schedule of failing system calls and any sequence of staged
  batches, barriers and completion notifications. At the end the published batches, the prepared
  ones and those still in the open buffer are, as a bag, the batches that were published at the
  start and every non-empty batch staged since (after its quality filter): nothing is lost and
  nothing is published twice, and no incomplete file is ever published.
\<close>

theorem parquet_log_exactly_once:
  assumes "pq_ok qc s"
  shows "pq_ok qc (tl_sink (pq_run ar s xs))
    \<and> pq_published (tl_sink (pq_run ar s xs)) + prepared_batches (pq_run ar s xs)
        + mset (map (pq_stored ar qc) (tl_open (pq_run ar s xs)))
      = pq_published s + mset (map (pq_stored ar qc) (staged_batches (ar_num_rows ar) xs))"
proof -
  have new: "pq.log_ok qc (txn_log_new s)" "pq.in_flight (txn_log_new s) = {#}" using pq.log_ok_new [OF assms] by blast+
  note run = pq.run_conserves [where ar = ar and num_rows = "ar_num_rows ar" and xs = xs, OF new(1)]
  have "pq_ok qc (tl_sink (pq_run ar s xs))"
    using conjunct1 [OF run] unfolding pq.log_ok_def pq.held_def by blast
  then show ?thesis
    using conjunct2 [OF run] new(2) by (simp add: prepared_batches_pending pq.in_flight_def)
qed

definition demo_arrow :: "nat arrow_ops" where
  "demo_arrow = \<lparr>ar_num_rows = (\<lambda>b. b), ar_filter = (\<lambda>b mask. Inr b)\<rparr>"

definition demo_sink :: "nat pq_sink" where
  "demo_sink = pq_new ''/out'' [(''/out/1-0.parquet'', Some 7)] [PqWrite, PqNone, PqRename]"

definition demo_ops :: "nat log_op list" where
  "demo_ops = [OpStage 5, OpStage 0, OpPreCommit 1, OpPreCommit 2, OpCommitThrough 2, OpStage 6, OpCommitThrough 2]"

lemma demo_sink_ok: "pq_ok None demo_sink"
  by (simp add: pq_ok_def demo_sink_def pq_new_def)

lemma demo_staged: "mset (map (pq_stored demo_arrow None) (staged_batches (ar_num_rows demo_arrow) demo_ops)) = {#5, 6#}"
  by (simp add: demo_ops_def demo_arrow_def pq_stored_def pq_checked_def)

theorem parquet_log_exactly_once_witness:
  "pq_published (tl_sink (pq_run demo_arrow demo_sink demo_ops)) + prepared_batches (pq_run demo_arrow demo_sink demo_ops)
     + mset (map (pq_stored demo_arrow None) (tl_open (pq_run demo_arrow demo_sink demo_ops)))
   = pq_published demo_sink + {#5, 6#}"
  using parquet_log_exactly_once [OF demo_sink_ok, of demo_arrow demo_ops] by (simp only: demo_staged)

text \<open>
  Restoring a participant to a checkpoint. When the restore of a log reached by any run
  succeeds, exactly the batches prepared at or before the restored epoch have become visible, the
  open buffer and every later prepared transaction are gone, and the two counts are the numbers of
  transactions committed and aborted. The epoch is below the largest 64-bit value.
\<close>

theorem restore_commits_through_epoch:
  assumes "pq_ok qc s" and "e < u64_max"
    and "restore_participant (pq_sink_ops ar) e (pq_run ar s xs) = (l', Inr (committed, aborted))"
  shows "tl_open l' = [] \<and> tl_prepared l' = []
    \<and> pq_published (tl_sink l') = pq_published (tl_sink (pq_run ar s xs)) + prepared_through e (pq_run ar s xs)
    \<and> committed = size (prepared_through e (pq_run ar s xs))
    \<and> committed + aborted = size (prepared_batches (pq_run ar s xs))"
proof -
  let ?l = "pq_run ar s xs" and ?P = "\<lambda>k. k < saturating_add_u64 e 1"
  note step = pq.restore_participant_step [OF pq_run_ok [OF assms(1)] assms(3), THEN conjunct2, rule_format, OF refl]
  have le: "?P k \<longleftrightarrow> k \<le> e" for k using assms(2) by (auto simp: saturating_add_u64_def)
  have "committed + aborted = length (all_handles (tl_prepared ?l))"
    using arg_cong [OF all_handles_filter [of ?P "tl_prepared ?l"], of size] step by (simp add: not_less del: One_nat_def)
  then show ?thesis
    using step by (simp add: prepared_through_def prepared_batches_def pq.pending_def le del: One_nat_def)
qed

text \<open>A run with two prepared epochs, evaluated.\<close>

definition demo_dir :: "nat pq_sink" where
  "demo_dir = pq_new ''/o'' [] []"

definition demo_prepared :: "nat log_op list" where
  "demo_prepared = [OpStage 5, OpPreCommit 1, OpStage 6, OpPreCommit 2]"

definition demo_log :: "(nat pq_sink, nat, pq_handle) txn_log" where
  "demo_log =
     \<lparr>tl_sink = (demo_dir\<lparr>pq_next_handle := 2,
        pq_files := [(''/o/1-0.parquet.tmp'', Some 5), (''/o/2-1.parquet.tmp'', Some 6)]\<rparr>),
      tl_open = [],
      tl_prepared = [(1, [\<lparr>ph_epoch = 1, ph_staging_path = ''/o/1-0.parquet.tmp'', ph_final_path = ''/o/1-0.parquet''\<rparr>]),
                     (2, [\<lparr>ph_epoch = 2, ph_staging_path = ''/o/2-1.parquet.tmp'', ph_final_path = ''/o/2-1.parquet''\<rparr>])]\<rparr>"

lemma demo_dir_ok: "pq_ok None demo_dir"
  by (simp add: pq_ok_def demo_dir_def pq_new_def)

lemma show_digit: "show_nat 0 = ''0''" "show_nat (Suc 0) = ''1''" "show_nat 2 = ''2''"
  by code_simp+

lemma demo_run: "pq_run demo_arrow demo_dir demo_prepared = demo_log"
  by (simp add: demo_prepared_def demo_log_def demo_dir_def pq_new_def demo_arrow_def stage_def txn_log_new_def pre_commit_def
      pq_sink_ops_def pq_prepare_def pq_checked_def pq_find.simps pq_exists_def pq_final_name_def pq_staging_name_def
      pq_fault_of_def show_digit Let_def)

lemma demo_log_restored:
  "restore_participant (pq_sink_ops demo_arrow) 1 demo_log =
     (demo_log\<lparr>tl_sink := demo_dir\<lparr>pq_next_handle := 2, pq_files := [(''/o/1-0.parquet'', Some 5)]\<rparr>, tl_prepared := []\<rparr>,
      Inr (1, 1))"
  by (simp add: demo_log_def demo_dir_def pq_new_def restore_participant_def commit_through_def abort_after_def
      saturating_add_u64_def pq_sink_ops_def pq_commit_def pq_abort_def pq_fault_of_def pq_exists_def amap_remove_def Let_def)

theorem restore_commits_through_epoch_witness:
  "prepared_through 1 (pq_run demo_arrow demo_dir demo_prepared) = {#5#}
   \<and> prepared_batches (pq_run demo_arrow demo_dir demo_prepared) = {#5, 6#}
   \<and> pq_published (demo_dir\<lparr>pq_next_handle := 2, pq_files := [(''/o/1-0.parquet'', Some 5)]\<rparr>)
     = pq_published (tl_sink demo_log) + prepared_through 1 (pq_run demo_arrow demo_dir demo_prepared)"
proof -
  have "prepared_through 1 demo_log = {#5#}" "prepared_batches demo_log = {#5, 6#}"
    by (simp_all add: prepared_through_def prepared_batches_def demo_log_def all_handles_def pq_staged_def pq_exists_def
        strip_suffix_def strip_prefix_def demo_dir_def pq_new_def)
  with restore_commits_through_epoch [OF demo_dir_ok _ demo_log_restored [folded demo_run]] show ?thesis
    by (simp add: demo_run)
qed

section \<open>Recovery from durable paths\<close>

lemma pq_fault_of_files: "pq_files (snd (pq_fault_of s)) = pq_files s"
  by (simp add: pq_fault_of_def split: list.splits)

text \<open>
  A decision on a durable staging path is final. After a successful recovery commit or abort
  of a path, any further decision on it leaves every file as it is: repeating the decision
  succeeds, an abort after a commit succeeds without unpublishing anything, and a commit after an
  abort publishes nothing: it succeeds only when the target existed already.
\<close>

theorem finalize_decision_final:
  assumes "pq_finalize_prepared s path commit = (s1, Inr u)" and "pq_finalize_prepared s1 path commit' = (s2, r)"
  shows "pq_files s2 = pq_files s1 \<and> \<not> pq_exists s1 path
    \<and> (r = Inr () \<longleftrightarrow> commit \<or> \<not> commit' \<or> (\<exists>target. path = target @ ''.tmp'' \<and> pq_exists s1 target))"
proof -
  from assms(1) obtain final where path: "path = final @ ''.tmp''"
    by (auto simp: pq_finalize_prepared_def split: option.splits)
  then have strip: "strip_suffix ''.tmp'' path = Some final" by simp
  let ?h = "\<lparr>ph_epoch = 0, ph_staging_path = path, ph_final_path = final\<rparr>"
  have first: "(if commit then pq_commit s ?h else pq_abort s ?h) = (s1, Inr u)"
    using assms(1) strip by (simp add: pq_finalize_prepared_def Let_def)
  have second: "(if commit' then pq_commit s1 ?h else pq_abort s1 ?h) = (s2, r)"
    using assms(2) strip by (simp add: pq_finalize_prepared_def Let_def)
  have gone: "\<not> pq_exists s1 path" "commit \<Longrightarrow> pq_exists s1 final"
    using first path by (auto simp: pq_commit_def pq_abort_def pq_exists_def Let_def
        split: if_splits option.splits prod.splits)
  have "map_of (pq_files s1) path = None" using gone(1) by (simp add: pq_exists_def)
  with second gone show ?thesis
    using pq_fault_of_files [of s1] path
    by (auto simp: pq_commit_def pq_abort_def pq_exists_def split: if_splits prod.splits)
qed

theorem finalize_decision_final_witness:
  "pq_files (fst (pq_finalize_prepared (fst (pq_finalize_prepared (tl_sink demo_log) ''/o/1-0.parquet.tmp'' True))
      ''/o/1-0.parquet.tmp'' False))
   = [(''/o/2-1.parquet.tmp'', Some 6), (''/o/1-0.parquet'', Some 5)]"
proof -
  let ?s1 = "demo_dir\<lparr>pq_next_handle := 2, pq_files := [(''/o/2-1.parquet.tmp'', Some 6), (''/o/1-0.parquet'', Some 5)]\<rparr>"
  have one: "pq_finalize_prepared (tl_sink demo_log) ''/o/1-0.parquet.tmp'' True = (?s1, Inr ())"
    by (simp add: pq_finalize_prepared_def strip_suffix_def strip_prefix_def demo_log_def pq_commit_def pq_fault_of_def
        demo_dir_def pq_new_def amap_remove_def)
  obtain s2 r where two: "pq_finalize_prepared ?s1 ''/o/1-0.parquet.tmp'' False = (s2, r)" by fastforce
  from finalize_decision_final [OF one two] one two show ?thesis by simp
qed

lemma finalize_all_append:
  "finalize_all ops p (xs @ ys) = (case finalize_all ops p xs of (p', Inl e) \<Rightarrow> (p', Inl e) | (p', Inr _) \<Rightarrow> finalize_all ops p' ys)"
  by (induction ops p xs rule: finalize_all.induct) (auto split: prod.splits sum.splits)

lemma finalize_all_decides:
  assumes "\<forall>h \<in> set hs. pq_genuine h"
  shows "finalize_all (pq_sink_ops ar) p (map (\<lambda>h. (ph_staging_path h, c)) hs) =
    (case decide_handles (if c then pq_commit else pq_abort) (tl_sink p) hs n of
       (s', _, r) \<Rightarrow> (p\<lparr>tl_sink := s'\<rparr>, case r of None \<Rightarrow> Inr () | Some (e, _) \<Rightarrow> Inl e))"
  using assms
proof (induction hs arbitrary: p n)
  case (Cons h hs)
  from Cons.prems have strip: "strip_suffix ''.tmp'' (ph_staging_path h) = Some (ph_final_path h)"
    by (simp add: pq_genuine_def)
  have one: "pq_finalize_prepared s (ph_staging_path h) c = (if c then pq_commit s h else pq_abort s h)" for s :: "'a pq_sink"
  proof -
    have "pq_commit s \<lparr>ph_epoch = 0, ph_staging_path = ph_staging_path h, ph_final_path = ph_final_path h\<rparr> = pq_commit s h"
      "pq_abort s \<lparr>ph_epoch = 0, ph_staging_path = ph_staging_path h, ph_final_path = ph_final_path h\<rparr> = pq_abort s h"
      unfolding pq_commit_def pq_abort_def pq_handle.select_convs by (rule refl)+
    then show ?thesis unfolding pq_finalize_prepared_def strip by (simp add: Let_def)
  qed
  obtain s' r where d: "(if c then pq_commit (tl_sink p) h else pq_abort (tl_sink p) h) = (s', r)" by fastforce
  have log: "log_finalize_prepared (pq_sink_ops ar) p (ph_staging_path h) c = (p\<lparr>tl_sink := s'\<rparr>, r)"
    using d by (simp add: log_finalize_prepared_def pq_sink_ops_def one)
  have d': "(if c then pq_commit else pq_abort) (tl_sink p) h = (s', r)" using d by (simp split: if_splits)
  show ?case
  proof (cases r)
    case (Inl e)
    with log d' show ?thesis by simp
  next
    case (Inr u)
    with log d' Cons.IH [of "p\<lparr>tl_sink := s'\<rparr>" "n + 1"] Cons.prems show ?thesis by simp
  qed
qed simp

lemma prepared_refs_paths:
  "map snd (filter (\<lambda>(k, _). P k) (prepared_refs (pq_sink_ops ar) l)) =
     map ph_staging_path (all_handles (filter (\<lambda>(k, _). P k) (tl_prepared l)))"
proof -
  have "map snd (filter (\<lambda>(k, _). P k) (concat (map (\<lambda>(epoch, handles). map (\<lambda>h. (epoch, ph_staging_path h)) handles) m)))
     = map ph_staging_path (all_handles (filter (\<lambda>(k, _). P k) m))" for m :: "(nat, pq_handle list) amap"
    by (induction m) (auto simp: all_handles_def filter_map comp_def)
  then show ?thesis
    by (simp add: prepared_refs_def pq_sink_ops_def pq_prepare_path_of_def map_filter_def comp_def)
qed

text \<open>A recovery that succeeds: the commits, then the aborts, each applied to every handle.\<close>

lemma finalize_all_run:
  assumes held: "pq.held qc (tl_sink p) (cs @ as)"
    and fin: "finalize_all (pq_sink_ops ar) p (map (\<lambda>h. (ph_staging_path h, True)) cs @ map (\<lambda>h. (ph_staging_path h, False)) as)
      = (p', Inr u)"
  shows "pq_published (tl_sink p') = pq_published (tl_sink p) + pq.pending (tl_sink p) cs
    \<and> pq_staged (tl_sink p') = pq.drop_keys as (pq.drop_keys cs (pq_staged (tl_sink p)))"
proof -
  have gen: "\<forall>h \<in> set cs. pq_genuine h" "\<forall>h \<in> set as. pq_genuine h" using held by (auto simp: pq.held_def)
  obtain s1 n1 r1 where d1: "decide_handles pq_commit (tl_sink p) cs 0 = (s1, n1, r1)"
    by (cases "decide_handles pq_commit (tl_sink p) cs 0") auto
  have c: "pq.decides qc pq_commit True" "pq.decides qc pq_abort False"
    using pq.commit_decides [of qc ar] pq.abort_decides [of qc ar] by (simp_all add: pq_sink_ops_def)
  note f1 = finalize_all_decides [OF gen(1), of ar p True 0]
  have r1: "r1 = None" using fin d1 f1 by (auto simp: finalize_all_append split: option.splits)
  have "pq.held qc (tl_sink p) cs" using pq.held_append [OF held] by blast
  from pq.decide_handles_run [OF c(1) this d1] r1
  have run1: "pq_ok qc s1" "pq_staged s1 = pq.drop_keys cs (pq_staged (tl_sink p))"
    "pq_published s1 = pq_published (tl_sink p) + pq.pending (tl_sink p) cs" by auto
  obtain s2 n2 r2 where d2: "decide_handles pq_abort s1 as 0 = (s2, n2, r2)"
    by (cases "decide_handles pq_abort s1 as 0") auto
  note f2 = finalize_all_decides [OF gen(2), of ar "p\<lparr>tl_sink := s1\<rparr>" False 0]
  have end2: "p' = p\<lparr>tl_sink := s2\<rparr>" "r2 = None"
    using fin d1 f1 r1 d2 f2 by (auto simp: finalize_all_append split: option.splits)
  from pq.decide_handles_run [OF c(2) pq.held_drop(1) [OF held run1(1,2)] d2] end2(2)
  have "pq_staged s2 = pq.drop_keys as (pq_staged s1)" "pq_published s2 = pq_published s1" by auto
  with run1 end2(1) show ?thesis by simp
qed

abbreviation refs_where :: "(nat \<Rightarrow> bool) \<Rightarrow> 'b arrow_ops \<Rightarrow> ('b pq_sink, 'b, pq_handle) txn_log \<Rightarrow> string list" where
  "refs_where P ar l \<equiv> map snd (filter (\<lambda>(k, _). P k) (prepared_refs (pq_sink_ops ar) l))"

text \<open>
  C34. Recovery after an executor crash. The in-memory log is lost; a fresh participant is
  registered over the files left behind, and the coordinator sends the durable paths reported by
  the lost log: those of epochs at or before the restored one to commit, the later ones to abort.
  When recovery succeeds it has published exactly the batches prepared at or before the restored
  epoch, no reported transaction is left staged, and the counts are the numbers of paths.
\<close>

theorem crash_recovery_publishes:
  assumes "pq_ok qc s" and "l = pq_run ar s xs"
    and "reg_recover_prepared_refs (pq_sink_ops ar) (fst (reg_register registry_new job (txn_log_new (tl_sink l)))) job
      (refs_where (\<lambda>k. k \<le> e) ar l) (refs_where (\<lambda>k. \<not> k \<le> e) ar l) = (r', Inr counts)"
  shows "\<exists>p. reg_participants r' job = Some [p]
    \<and> pq_published (tl_sink p) = pq_published (tl_sink l) + prepared_through e l
    \<and> (\<forall>x \<in> set (prepared_refs (pq_sink_ops ar) l). pq_staged (tl_sink p) (snd x) = None)
    \<and> fst counts + snd counts = size (prepared_batches l)"
proof -
  let ?cs = "all_handles (filter (\<lambda>(k, _). k \<le> e) (tl_prepared l))"
    and ?as = "all_handles (filter (\<lambda>(k, _). \<not> k \<le> e) (tl_prepared l))"
  let ?p = "txn_log_new (tl_sink l) :: ('a pq_sink, 'a, pq_handle) txn_log"
  let ?ds = "map (\<lambda>h. (ph_staging_path h, True)) ?cs @ map (\<lambda>h. (ph_staging_path h, False)) ?as"
  have paths: "refs_where (\<lambda>k. k \<le> e) ar l = map ph_staging_path ?cs" "refs_where (\<lambda>k. \<not> k \<le> e) ar l = map ph_staging_path ?as"
    by (rule prepared_refs_paths)+
  have perm: "mset (all_handles (tl_prepared l)) = mset (?cs @ ?as)"
    using all_handles_filter [of "\<lambda>k. k \<le> e" "tl_prepared l"] by simp
  have "pq.held qc (tl_sink l) (all_handles (tl_prepared l))"
    using pq_run_ok [OF assms(1), of ar xs] assms(2) by (simp add: pq.log_ok_def)
  then have held: "pq.held qc (tl_sink ?p) (?cs @ ?as)" unfolding txn_log_new_sel by (rule iffD1 [OF pq.held_perm [OF perm]])
  obtain p' res where fin: "finalize_all (pq_sink_ops ar) ?p ?ds = (p', res)" by fastforce
  have part: "reg_participants (fst (reg_register registry_new job ?p)) job = Some [?p]"
    by (simp add: reg_participants_def reg_register_def registry_new_def)
  have u: "res = Inr ()" and r': "reg_participants r' job = Some [p']"
    and n: "counts = (length ?cs, length ?as)"
    using assms(3) fin part unfolding reg_recover_prepared_refs_def paths
    by (auto simp: comp_def reg_participants_def Let_def split: if_splits sum.splits)
  note run = finalize_all_run [OF held fin [unfolded u]]
  have "pq_staged (tl_sink p') (snd x) = None" if "x \<in> set (prepared_refs (pq_sink_ops ar) l)" for x
  proof -
    have "snd x \<in> set (map snd (filter (\<lambda>(k, _). True) (prepared_refs (pq_sink_ops ar) l)))" using that by auto
    then have "snd x \<in> ph_staging_path ` set (all_handles (tl_prepared l))" unfolding prepared_refs_paths by simp
    moreover have "set (all_handles (tl_prepared l)) = set ?cs \<union> set ?as" using perm by (metis set_append set_mset_mset)
    ultimately show ?thesis using run by (auto simp: pq.drop_keys_def)
  qed
  moreover have "length ?cs + length ?as = length (all_handles (tl_prepared l))"
    using perm by (metis length_append size_mset)
  ultimately show ?thesis
    using run r' n by (auto simp: prepared_through_def prepared_batches_def pq.pending_def)
qed

theorem crash_recovery_publishes_witness:
  "\<exists>r' counts p. reg_recover_prepared_refs (pq_sink_ops demo_arrow)
      (fst (reg_register registry_new ''j'' (txn_log_new (tl_sink demo_log)))) ''j''
      [''/o/1-0.parquet.tmp''] [''/o/2-1.parquet.tmp''] = (r', Inr counts)
    \<and> reg_participants r' ''j'' = Some [p] \<and> pq_published (tl_sink p) = {#5#}"
proof -
  let ?r = "fst (reg_register registry_new ''j'' (txn_log_new (tl_sink demo_log)))
    :: (nat pq_sink, nat, pq_handle) sink_registry"
  have refs: "refs_where (\<lambda>k. k \<le> 1) demo_arrow demo_log = [''/o/1-0.parquet.tmp'']"
    "refs_where (\<lambda>k. \<not> k \<le> 1) demo_arrow demo_log = [''/o/2-1.parquet.tmp'']"
    unfolding prepared_refs_paths by (simp_all add: demo_log_def all_handles_def)
  have "\<exists>r' counts. reg_recover_prepared_refs (pq_sink_ops demo_arrow) ?r ''j''
      [''/o/1-0.parquet.tmp''] [''/o/2-1.parquet.tmp''] = (r', Inr counts)"
    by (simp add: reg_recover_prepared_refs_def reg_participants_def reg_register_def registry_new_def log_finalize_prepared_def
        pq_sink_ops_def pq_finalize_prepared_def strip_suffix_def strip_prefix_def demo_log_def demo_dir_def pq_new_def
        pq_commit_def pq_abort_def pq_fault_of_def pq_exists_def amap_remove_def)
  then obtain r' counts where rec: "reg_recover_prepared_refs (pq_sink_ops demo_arrow) ?r ''j''
      [''/o/1-0.parquet.tmp''] [''/o/2-1.parquet.tmp''] = (r', Inr counts)" by blast
  have "prepared_through 1 demo_log = {#5#}" "pq_published (tl_sink demo_log) = {#}"
    by (simp_all add: prepared_through_def demo_log_def all_handles_def pq_staged_def pq_exists_def pq_published_def
        strip_suffix_def strip_prefix_def demo_dir_def pq_new_def map_filter_def)
  with crash_recovery_publishes [OF demo_dir_ok demo_run [symmetric], where job = "''j''" and e = 1, unfolded refs, OF rec] rec
  show ?thesis by auto
qed

section \<open>Retried completions\<close>

text \<open>A completion notification repeated until it succeeds, at most \<open>n\<close> more times.\<close>

fun commit_retry :: "('s, 'b, 'h) sink_ops \<Rightarrow> nat \<Rightarrow> ('s, 'b, 'h) txn_log \<Rightarrow> nat \<Rightarrow> ('s, 'b, 'h) txn_log \<times> (connector_error + nat)" where
  "commit_retry ops n l e =
     (case commit_through ops l e of
        (l', Inr k) \<Rightarrow> (l', Inr k)
      | (l', Inl x) \<Rightarrow> (case n of 0 \<Rightarrow> (l', Inl x) | Suc m \<Rightarrow> commit_retry ops m l' e))"

declare commit_retry.simps [simp del]

text \<open>A sink whose commits fail finitely often: a failing commit uses up part of a budget.\<close>

locale retryable_sink = two_phase_sink +
  fixes budget :: "'a \<Rightarrow> nat"
  assumes commit_budget: "ok s \<Longrightarrow> genuine h \<Longrightarrow> staged s (key h) = Some b \<Longrightarrow> sk_commit ops s h = (s', r) \<Longrightarrow>
      budget s' \<le> budget s \<and> (\<forall>x. r = Inl x \<longrightarrow> budget s' < budget s)"
begin

lemma decide_handles_budget:
  assumes "held s hs" and "decide_handles (sk_commit ops) s hs n = (s', n', r)"
  shows "budget s' \<le> budget s \<and> (r \<noteq> None \<longrightarrow> budget s' < budget s)"
  using assms
proof (induction hs arbitrary: s n)
  case (Cons h hs)
  obtain s1 r1 where d: "sk_commit ops s h = (s1, r1)" by fastforce
  from Cons.prems(1) obtain b where b: "ok s" "genuine h" "staged s (key h) = Some b" by (auto simp: held_def)
  note bud = commit_budget [OF b d]
  show ?case
  proof (cases r1)
    case (Inl x)
    with bud d Cons.prems(2) show ?thesis by auto
  next
    case (Inr u)
    have one: "held s ([h] @ hs)" using Cons.prems(1) by simp
    have "ok s1" "staged s1 = drop_keys [h] (staged s)"
      using commit_done [OF b] d Inr by (auto simp: drop_keys_def fun_eq_iff)
    from held_drop(1) [OF one this] Cons.IH [of s1 "n + 1"] Cons.prems(2) d Inr bud show ?thesis by auto
  qed
qed simp

lemma decide_epochs_budget:
  assumes "held s (all_handles eps)" and "decide_epochs (sk_commit ops) s eps m n = (s', m', Inl x)"
  shows "budget s' < budget s"
  using assms
proof (induction eps arbitrary: s n)
  case (Cons y eps)
  obtain k hs where y: "y = (k, hs)" by fastforce
  have h: "held s (hs @ all_handles eps)" using Cons.prems(1) by (simp add: y all_handles_def)
  obtain s1 n1 r1 where d: "decide_handles (sk_commit ops) s hs n = (s1, n1, r1)"
    by (cases "decide_handles (sk_commit ops) s hs n") auto
  have h1: "held s hs" using held_append [OF h] by blast
  note bud = decide_handles_budget [OF h1 d]
  show ?case
  proof (cases r1)
    case None
    with decide_handles_run [OF commit_decides h1 d] have "ok s1" "staged s1 = drop_keys hs (staged s)" by auto
    with held_drop(1) [OF h] Cons.IH [of s1 n1] Cons.prems(2) d None bud show ?thesis by (auto simp: y)
  next
    case (Some er)
    with bud d Cons.prems(2) show ?thesis by (cases er) (auto simp: y)
  qed
qed simp

lemma commit_through_budget:
  assumes "log_ok l" and "commit_through ops l e = (l', Inl x)"
  shows "budget (tl_sink l') < budget (tl_sink l)"
proof -
  let ?P = "\<lambda>k. k < saturating_add_u64 e 1"
  let ?eps = "filter (\<lambda>(k, _). ?P k) (tl_prepared l)" and ?m = "filter (\<lambda>(k, _). \<not> ?P k) (tl_prepared l)"
  have "held (tl_sink l) (all_handles ?eps @ all_handles ?m)"
    using assms(1) held_perm [of "all_handles (tl_prepared l)" "all_handles ?eps @ all_handles ?m" "tl_sink l"]
      all_handles_filter [of ?P "tl_prepared l"] unfolding log_ok_def mset_append by metis
  then have held: "held (tl_sink l) (all_handles ?eps)" using held_append by blast
  obtain s' m' where run: "decide_epochs (sk_commit ops) (tl_sink l) ?eps ?m 0 = (s', m', Inl x)" and "tl_sink l' = s'"
    using assms(2) by (auto simp: commit_through_def Let_def not_less split: prod.splits)
  with decide_epochs_budget [OF held run] show ?thesis by simp
qed

lemma commit_retry_done:
  assumes "log_ok l" and "budget (tl_sink l) \<le> n"
  shows "\<exists>l' k. commit_retry ops n l e = (l', Inr k)
    \<and> (\<forall>j \<in> fst ` set (tl_prepared l'). \<not> j < saturating_add_u64 e 1) \<and> tl_open l' = tl_open l
    \<and> visible (tl_sink l') + in_flight l' = visible (tl_sink l) + in_flight l"
  using assms
proof (induction n arbitrary: l)
  case (0 l)
  obtain l' r where c: "commit_through ops l e = (l', r)" by fastforce
  with commit_through_budget [OF "0.prems"(1)] "0.prems"(2) obtain k where r: "r = Inr k" by (cases r) auto
  have "commit_retry ops 0 l e = (l', Inr k)" using c r by (simp add: commit_retry.simps [of ops 0])
  with commit_through_step [OF "0.prems"(1) c] r show ?case
    by (intro exI [of _ l'] exI [of _ k]) (auto simp del: One_nat_def)
next
  case (Suc n l)
  obtain l1 r where c: "commit_through ops l e = (l1, r)" by fastforce
  note step = commit_through_step [OF Suc.prems(1) c]
  show ?case
  proof (cases r)
    case (Inr k)
    then have "commit_retry ops (Suc n) l e = (l1, Inr k)" using c by (simp add: commit_retry.simps [of ops "Suc n"])
    with step Inr show ?thesis by (intro exI [of _ l1] exI [of _ k]) (auto simp del: One_nat_def)
  next
    case (Inl x)
    then have eq: "commit_retry ops (Suc n) l e = commit_retry ops n l1 e" using c by (simp add: commit_retry.simps [of ops "Suc n"])
    have "budget (tl_sink l1) \<le> n" using commit_through_budget [OF Suc.prems(1) c [unfolded Inl]] Suc.prems(2) by simp
    from Suc.IH [OF conjunct1 [OF step] this] step eq show ?thesis by auto
  qed
qed

end

interpretation mem_retry: retryable_sink mem_sink_ops mem_ok mem_room "\<lambda>_. True" mh_handle_id mem_staged mem_visible
  "\<lambda>b. b" "\<lambda>_. 0"
  by unfold_locales (auto simp: mem_sink_ops_def mem_commit_def split: option.splits)

interpretation pq_retry: retryable_sink "pq_sink_ops ar" "pq_ok qc" "\<lambda>_ _. True" pq_genuine ph_staging_path pq_staged
  pq_published "pq_stored ar qc" "\<lambda>s. length (pq_faults s)"
  for ar qc
proof (unfold_locales, goal_cases)
  case (1 s h b s' r)
  then have "map_of (pq_files s) (ph_staging_path h) \<noteq> None"
    by (auto simp: pq_staged_def split: option.splits if_splits)
  with 1(4) show ?case
    by (auto simp: pq_sink_ops_def pq_commit_def pq_fault_of_def split: list.splits if_splits option.splits)
qed

text \<open>
  C35. A completion notification eventually commits. From any log reached by a run, repeating the
  notification for an epoch succeeds after at most as many retries as system calls still fail;
  then no transaction of that epoch or an earlier one is left, and across the failed attempts the
  published and the prepared batches together have stayed the same.
\<close>

theorem retried_completion_commits:
  assumes "pq_ok qc s" and "e < u64_max" and "length (pq_faults (tl_sink (pq_run ar s xs))) \<le> n"
  shows "\<exists>l' k. commit_retry (pq_sink_ops ar) n (pq_run ar s xs) e = (l', Inr k)
    \<and> (\<forall>j \<in> set (prepared_epochs l'). e < j) \<and> tl_open l' = tl_open (pq_run ar s xs)
    \<and> pq_published (tl_sink l') + prepared_batches l'
        = pq_published (tl_sink (pq_run ar s xs)) + prepared_batches (pq_run ar s xs)"
proof -
  have "\<not> j < saturating_add_u64 e 1 \<longleftrightarrow> e < j" for j using assms(2) by (auto simp: saturating_add_u64_def)
  with pq_retry.commit_retry_done [OF pq_run_ok [OF assms(1)] assms(3), where ar = ar and e = e] show ?thesis
    by (simp add: prepared_batches_pending pq.in_flight_def prepared_epochs_def del: One_nat_def)
qed

theorem retried_completion_commits_witness:
  "\<exists>l' k. commit_retry (pq_sink_ops demo_arrow) 0 demo_log 1 = (l', Inr k) \<and> (\<forall>j \<in> set (prepared_epochs l'). 1 < j)
    \<and> pq_published (tl_sink l') + prepared_batches l' = pq_published (tl_sink demo_log) + prepared_batches demo_log"
proof -
  have "length (pq_faults (tl_sink demo_log)) \<le> 0" by (simp add: demo_log_def demo_dir_def pq_new_def)
  with retried_completion_commits [OF demo_dir_ok, where e = 1 and ar = demo_arrow and xs = demo_prepared and n = 0] show ?thesis
    unfolding demo_run by auto
qed

section \<open>The search for a free name ends\<close>

definition pq_taken :: "'b pq_sink \<Rightarrow> nat \<Rightarrow> nat \<Rightarrow> bool" where
  "pq_taken s e n \<longleftrightarrow> pq_exists s (pq_final_name (pq_dir s) e n) \<or> pq_exists s (pq_staging_name (pq_dir s) e n)"

lemma pq_find_first:
  assumes "n \<le> i" and "\<forall>j. n \<le> j \<and> j < i \<longrightarrow> pq_taken s e j" and "\<not> pq_taken s e i" and "i < u64_max"
  shows "pq_find s e n = (i + 1, Inr i)"
  using assms
proof (induction "i - n" arbitrary: n)
  case 0
  then have "n = i" by simp
  with 0 show ?case by (simp add: pq_find.simps [of s e i] pq_taken_def)
next
  case (Suc d)
  have n: "n < i" using Suc.hyps(2) by simp
  then have "pq_taken s e n" using Suc.prems(2) by blast
  moreover have "pq_find s e (n + 1) = (i + 1, Inr i)"
  proof (rule Suc.hyps(1))
    show "d = i - (n + 1)" using Suc.hyps(2) by simp
    show "\<forall>j. n + 1 \<le> j \<and> j < i \<longrightarrow> pq_taken s e j" using Suc.prems(2) by simp
  qed (use n Suc.prems(3,4) in simp_all)
  ultimately show ?case using Suc.prems(4) n by (simp add: pq_find.simps [of s e n] pq_taken_def)
qed

lemma show_nat_inject: "a \<le> u64_max \<Longrightarrow> b \<le> u64_max \<Longrightarrow> show_nat a = show_nat b \<Longrightarrow> a = b"
  by (metis option.inject parse_digits_show_nat)

lemma pq_names_inject:
  assumes "a \<le> u64_max" and "b \<le> u64_max"
  shows "pq_final_name dir e a = pq_final_name dir e b \<Longrightarrow> a = b"
    and "pq_staging_name dir e a = pq_staging_name dir e b \<Longrightarrow> a = b"
    and "pq_final_name dir e a \<noteq> pq_staging_name dir e b"
proof -
  show "pq_final_name dir e a = pq_final_name dir e b \<Longrightarrow> a = b"
    using show_nat_inject [OF assms] by (simp add: pq_final_name_def)
  show "pq_staging_name dir e a = pq_staging_name dir e b \<Longrightarrow> a = b"
    using show_nat_inject [OF assms] by (simp add: pq_staging_name_def)
  show "pq_final_name dir e a \<noteq> pq_staging_name dir e b"
    using pq_names [of dir e a] pq_names [of dir e b] by (metis final_not_staging)
qed

lemma free_name_exists:
  assumes "n + length (pq_files s) < u64_max"
  shows "\<exists>i. n \<le> i \<and> i \<le> n + length (pq_files s) \<and> \<not> pq_taken s e i"
proof (rule ccontr)
  assume "\<not> ?thesis"
  then have taken: "pq_taken s e i" if "i \<in> {n..n + length (pq_files s)}" for i using that by auto
  define f where "f = (\<lambda>i. if pq_exists s (pq_final_name (pq_dir s) e i) then pq_final_name (pq_dir s) e i
      else pq_staging_name (pq_dir s) e i)"
  have "inj_on f {n..n + length (pq_files s)}"
  proof (rule inj_onI)
    fix a b assume r: "a \<in> {n..n + length (pq_files s)}" "b \<in> {n..n + length (pq_files s)}" "f a = f b"
    then have "a \<le> u64_max" "b \<le> u64_max" using assms by auto
    with pq_names_inject [of a b] pq_names_inject(3) [of b a] r(3) show "a = b"
      unfolding f_def by (metis (full_types))
  qed
  moreover have "f ` {n..n + length (pq_files s)} \<subseteq> fst ` set (pq_files s)"
  proof
    fix p assume "p \<in> f ` {n..n + length (pq_files s)}"
    then obtain i where i: "i \<in> {n..n + length (pq_files s)}" "p = f i" by blast
    have "pq_exists s p" using taken [OF i(1)] unfolding i(2) f_def pq_taken_def by auto
    then show "p \<in> fst ` set (pq_files s)" by (simp add: pq_exists_def map_of_eq_None_iff)
  qed
  ultimately have "card {n..n + length (pq_files s)} \<le> card (fst ` set (pq_files s))"
    by (rule card_inj_on_le) simp
  also have "\<dots> \<le> length (pq_files s)" using card_image_le [of "set (pq_files s)" fst] card_length [of "pq_files s"] by simp
  finally show False by simp
qed

text \<open>
  The search for a staging name ends early. Below the handle-id limit, \<open>prepare\<close> tries at
  most one name more than there are files in the directory, takes the first id that neither a
  published nor a staged file uses, and moves the next id just past it.
\<close>

theorem pq_find_ends:
  assumes "n + length (pq_files s) < u64_max"
  shows "\<exists>i. pq_find s e n = (i + 1, Inr i) \<and> n \<le> i \<and> i \<le> n + length (pq_files s)
    \<and> \<not> pq_taken s e i \<and> (\<forall>j. n \<le> j \<and> j < i \<longrightarrow> pq_taken s e j)"
proof -
  let ?Q = "\<lambda>i. n \<le> i \<and> i \<le> n + length (pq_files s) \<and> \<not> pq_taken s e i"
  define i where "i = (LEAST i. ?Q i)"
  have i: "?Q i" unfolding i_def using free_name_exists [OF assms] by (rule LeastI_ex)
  have "\<not> ?Q j" if "j < i" for j using not_less_Least that unfolding i_def by blast
  then have before: "\<forall>j. n \<le> j \<and> j < i \<longrightarrow> pq_taken s e j" using i by auto
  have "pq_find s e n = (i + 1, Inr i)" using i before assms by (intro pq_find_first) auto
  with i before show ?thesis by blast
qed

theorem pq_find_ends_witness:
  "\<exists>i. pq_find demo_sink 1 0 = (i + 1, Inr i) \<and> i \<le> 1 \<and> \<not> pq_taken demo_sink 1 i"
  using pq_find_ends [of 0 demo_sink 1] by (auto simp: demo_sink_def pq_new_def)

end
