(* ===== verification/ExecutorSinks.thy ===== *)
theory ExecutorSinks
  imports CkptCoordinator ExactlyOnce
begin

text \<open>
  The path of sink transactions through a checkpoint and a restore: what the executor reports at
  a barrier and does on a completion or a restore
  (\<open>krishiv-executor/src/runner/executor_task_runner.rs\<close>), and the recovery plan the scheduler
  attaches to a restore directive (\<open>krishiv-scheduler/src/coordinator/checkpoint_ops.rs\<close>).
\<close>

section \<open>Operations\<close>

definition sink_refs_of :: "(nat \<times> string) list \<Rightarrow> prepared_sink_ref list" where
  "sink_refs_of refs = map (\<lambda>(epoch, prepare_path).
     \<lparr>ps_sink_id = prepare_path, ps_epoch = epoch, ps_prepare_path = prepare_path, ps_committed = False\<rparr>) refs"

definition barrier_sinks :: "('s, 'b, 'h) sink_ops \<Rightarrow> ('s, 'b, 'h) sink_registry \<Rightarrow> string \<Rightarrow> nat \<Rightarrow>
    ('s, 'b, 'h) sink_registry \<times> (string + prepared_sink_ref list)" where
  "barrier_sinks ops r job_id epoch =
     (if \<not> reg_has_job r job_id then (r, Inr [])
      else case reg_pre_commit ops r job_id epoch of
             (r1, Inl _) \<Rightarrow> (r1, Inl (''transactional sink pre-commit failed for epoch '' @ show_nat epoch))
           | (r1, Inr _) \<Rightarrow> (r1, Inr (sink_refs_of (reg_prepared_refs ops r1 job_id))))"

definition stamp_ack :: "nat \<Rightarrow> prepared_sink_ref list \<Rightarrow> checkpoint_ack_request \<Rightarrow> checkpoint_ack_request" where
  "stamp_ack epoch sink_transactions ack =
     (if ack_epoch ack = epoch then ack\<lparr>ack_sink_transactions := sink_transactions\<rparr> else ack)"

definition checkpoint_complete :: "('s, 'b, 'h) sink_ops \<Rightarrow> ('s, 'b, 'h) sink_registry \<Rightarrow> string \<Rightarrow> nat \<Rightarrow>
    ('s, 'b, 'h) sink_registry" where
  "checkpoint_complete ops r job_id epoch = fst (reg_commit_through ops r job_id epoch)"

definition sink_restore_plan :: "checkpoint_metadata \<Rightarrow> nat \<Rightarrow> sink_recovery_plan" where
  "sink_restore_plan metadata restored_epoch =
     plan_sink_transaction_recovery
       (map (\<lambda>s. \<lparr>ps_sink_id = st_sink_id s, ps_epoch = st_epoch s, ps_prepare_path = st_prepare_path s,
                  ps_committed = st_committed s\<rparr>) (cm_sink_transactions metadata))
       restored_epoch"

definition restore_sinks :: "('s, 'b, 'h) sink_ops \<Rightarrow> ('s, 'b, 'h) sink_registry \<Rightarrow> string \<Rightarrow> nat \<Rightarrow>
    sink_recovery_plan \<Rightarrow> ('s, 'b, 'h) sink_registry \<times> (string + unit)" where
  "restore_sinks ops r job_id epoch plan =
     (case reg_restore_to ops r job_id epoch of
        (r1, Inl _) \<Rightarrow> (r1, Inl (''transactional sink restore for '' @ job_id))
      | (r1, Inr _) \<Rightarrow>
          (case reg_recover_prepared_refs ops r1 job_id (map ps_prepare_path (plan_commit plan))
                  (map ps_prepare_path (plan_abort plan)) of
             (r2, Inl _) \<Rightarrow> (r2, Inl (''DUR-2 durable sink recovery for '' @ job_id))
           | (r2, Inr _) \<Rightarrow> (r2, Inr ())))"

section \<open>The references a checkpoint records\<close>

lemma find_sink_ref:
  "distinct (map snd rs) \<Longrightarrow> (e, p) \<in> set rs \<Longrightarrow>
   List.find (\<lambda>t. ps_prepare_path t = p) (sink_refs_of rs)
     = Some \<lparr>ps_sink_id = p, ps_epoch = e, ps_prepare_path = p, ps_committed = False\<rparr>"
  by (induction rs) (auto simp: sink_refs_of_def image_iff)

lemma swapped_mem: "(e, p) \<in> set (map (\<lambda>(p, v). (f v, p)) m) \<longleftrightarrow> (\<exists>v. (p, v) \<in> set m \<and> f v = e)"
  by (induction m) auto

text \<open>Every task's ack carries the same references; the metadata records each of them once.\<close>

lemma collect_reported:
  assumes "acks \<noteq> []" and "\<forall>a \<in> set acks. ack_sink_transactions a = sink_refs_of rs" and "distinct (map snd rs)"
  shows "mset (map (\<lambda>t. (st_epoch t, st_prepare_path t)) (collect_sink_transactions acks)) = mset rs"
    and "\<forall>t \<in> set (collect_sink_transactions acks). \<not> st_committed t"
proof -
  let ?txs = "concat (map ack_sink_transactions acks)" and ?m = "fold merge_sink_tx (concat (map ack_sink_transactions acks)) []"
  obtain a as where acks: "acks = a # as" using assms(1) by (cases acks) auto
  have txs: "set ?txs = set (sink_refs_of rs)" using assms(1,2) by (auto simp: acks)
  have first: "List.find P ?txs = (case List.find P (sink_refs_of rs) of None \<Rightarrow> List.find P (concat (map ack_sink_transactions as))
      | Some t \<Rightarrow> Some t)" for P
  proof -
    have "List.find P (xs @ ys) = (case List.find P xs of None \<Rightarrow> List.find P ys | Some t \<Rightarrow> Some t)"
      for xs ys :: "prepared_sink_ref list" by (induction xs) auto
    then show ?thesis using assms(2) by (simp add: acks)
  qed
  have wf: "amap_wf ?m" by (rule bt_wf_amap_wf [OF fold_merge_wf [OF bt_wf_Nil]])
  have no: "\<not> (\<exists>t \<in> set ?txs. ps_prepare_path t = p \<and> ps_committed t)" for p
    unfolding txs by (auto simp: sink_refs_of_def)
  have entry: "map_of ?m p = (if p \<in> snd ` set rs then Some \<lparr>st_sink_id = p, st_epoch = e, st_prepare_path = p, st_committed = False\<rparr>
      else None)" if "p \<in> snd ` set rs \<longrightarrow> (e, p) \<in> set rs" for p e
  proof (cases "p \<in> snd ` set rs")
    case True
    then have "List.find (\<lambda>t. ps_prepare_path t = p) ?txs
        = Some \<lparr>ps_sink_id = p, ps_epoch = e, ps_prepare_path = p, ps_committed = False\<rparr>"
      using find_sink_ref [OF assms(3)] that by (simp add: first)
    with True no show ?thesis unfolding fold_merge_lookup by simp
  next
    case False
    then have "\<forall>t \<in> set ?txs. ps_prepare_path t \<noteq> p" unfolding txs by (force simp: sink_refs_of_def)
    then have "List.find (\<lambda>t. ps_prepare_path t = p) ?txs = None" unfolding find_None_iff by blast
    with False show ?thesis unfolding fold_merge_lookup by simp
  qed
  have mem: "(p, v) \<in> set ?m \<longleftrightarrow> (\<exists>e. (e, p) \<in> set rs
      \<and> v = \<lparr>st_sink_id = p, st_epoch = e, st_prepare_path = p, st_committed = False\<rparr>)" for p v
  proof -
    have "map_of ?m p = Some v \<longleftrightarrow> (\<exists>e. (e, p) \<in> set rs
      \<and> v = \<lparr>st_sink_id = p, st_epoch = e, st_prepare_path = p, st_committed = False\<rparr>)"
    proof (cases "p \<in> snd ` set rs")
      case True
      then obtain e where "(e, p) \<in> set rs" by auto
      have m: "map_of ?m p = Some \<lparr>st_sink_id = p, st_epoch = e, st_prepare_path = p, st_committed = False\<rparr>"
        using entry [of p e] \<open>(e, p) \<in> set rs\<close> True by (simp only: if_True simp_thms)
      have "e' = e" if "(e', p) \<in> set rs" for e'
        using that \<open>(e, p) \<in> set rs\<close> assms(3) inj_onD [of snd "set rs" "(e', p)" "(e, p)"] by (simp add: distinct_map)
      then show ?thesis unfolding m using \<open>(e, p) \<in> set rs\<close> by blast
    next
      case False
      then have "map_of ?m p = None" using entry [of p 0] by (simp only: if_False simp_thms)
      moreover have "(e, p) \<notin> set rs" for e using False by (metis image_eqI snd_conv)
      ultimately show ?thesis by simp
    qed
    then show ?thesis using amap_mem_iff [OF wf] by simp
  qed
  have "st_prepare_path (snd x) = fst x" if "x \<in> set ?m" for x using that mem [of "fst x" "snd x"] by auto
  then have pairs: "map (\<lambda>t. (st_epoch t, st_prepare_path t)) (map snd ?m) = map (\<lambda>(p, v). (st_epoch v, p)) ?m"
    unfolding map_map comp_def case_prod_beta by (intro map_cong) auto
  have d: "distinct (map (\<lambda>(p, v). (st_epoch v, p)) ?m)"
  proof -
    have "distinct (map snd (map (\<lambda>(p, v). (st_epoch v, p)) ?m))"
      using wf by (simp add: amap_wf_def comp_def case_prod_beta)
    then show ?thesis by (rule iffD1 [OF distinct_map, THEN conjunct1])
  qed
  have rs: "distinct rs" using assms(3) by (simp add: distinct_map)
  have "set (map (\<lambda>(p, v). (st_epoch v, p)) ?m) = set rs"
  proof (intro set_eqI)
    fix x :: "nat \<times> string"
    obtain e p where x: "x = (e, p)" by fastforce
    have "x \<in> set (map (\<lambda>(p, v). (st_epoch v, p)) ?m) \<longleftrightarrow> (\<exists>v. (p, v) \<in> set ?m \<and> st_epoch v = e)"
      unfolding x by (rule swapped_mem)
    also have "\<dots> \<longleftrightarrow> x \<in> set rs" unfolding x mem by auto
    finally show "x \<in> set (map (\<lambda>(p, v). (st_epoch v, p)) ?m) \<longleftrightarrow> x \<in> set rs" .
  qed
  then have "mset (map (\<lambda>(p, v). (st_epoch v, p)) ?m) = mset rs" by (rule iffD1 [OF set_eq_iff_mset_eq_distinct [OF d rs]])
  then show "mset (map (\<lambda>t. (st_epoch t, st_prepare_path t)) (collect_sink_transactions acks)) = mset rs"
    unfolding collect_sink_transactions_def pairs .
  show "\<forall>t \<in> set (collect_sink_transactions acks). \<not> st_committed t"
  proof
    fix t assume "t \<in> set (collect_sink_transactions acks)"
    then obtain p where "(p, t) \<in> set ?m" unfolding collect_sink_transactions_def set_map by (metis imageE prod.collapse)
    then show "\<not> st_committed t" unfolding mem by auto
  qed
qed

lemma mset_map_filter_cong: "mset xs = mset ys \<Longrightarrow> mset (map f (filter P xs)) = mset (map f (filter P ys))"
  by simp

lemma sink_restore_plan_paths:
  assumes "acks \<noteq> []" and "\<forall>a \<in> set acks. ack_sink_transactions a = sink_refs_of rs" and "distinct (map snd rs)"
    and "cm_sink_transactions m = collect_sink_transactions acks"
  shows "mset (map ps_prepare_path (plan_commit (sink_restore_plan m e))) = mset (map snd (filter (\<lambda>(k, _). k \<le> e) rs))"
    and "mset (map ps_prepare_path (plan_abort (sink_restore_plan m e))) = mset (map snd (filter (\<lambda>(k, _). \<not> k \<le> e) rs))"
proof -
  let ?ts = "collect_sink_transactions acks" and ?pair = "\<lambda>t. (st_epoch t, st_prepare_path t)"
  note c = collect_reported [OF assms(1-3)]
  have part: "mset (map snd (filter (\<lambda>(k, _). P k) (map ?pair ?ts))) = mset (map snd (filter (\<lambda>(k, _). P k) rs))" for P
    using c(1) by (rule mset_map_filter_cong)
  have "map ps_prepare_path (plan_commit (sink_restore_plan m e)) = map snd (filter (\<lambda>(k, _). k \<le> e) (map ?pair ?ts))"
    using c(2) by (auto simp: sink_restore_plan_def plan_sink_transaction_recovery_def plan_loop_eq assms(4) filter_map comp_def
        intro!: arg_cong [of _ _ "map st_prepare_path"] filter_cong)
  then show "mset (map ps_prepare_path (plan_commit (sink_restore_plan m e))) = mset (map snd (filter (\<lambda>(k, _). k \<le> e) rs))"
    using part by simp
  have "map ps_prepare_path (plan_abort (sink_restore_plan m e)) = map snd (filter (\<lambda>(k, _). \<not> k \<le> e) (map ?pair ?ts))"
    by (simp add: sink_restore_plan_def plan_sink_transaction_recovery_def plan_loop_eq assms(4) filter_map comp_def not_le)
  then show "mset (map ps_prepare_path (plan_abort (sink_restore_plan m e))) = mset (map snd (filter (\<lambda>(k, _). \<not> k \<le> e) rs))"
    using part by simp
qed

section \<open>Recovery in any order of the paths\<close>

lemma map_perm: "mset (map f xs) = mset ys \<Longrightarrow> \<exists>zs. mset zs = mset xs \<and> map f zs = ys"
proof (induction ys arbitrary: xs)
  case (Cons y ys)
  then have "y \<in> f ` set xs" by (metis list.set_intros(1) list.set_map set_mset_mset)
  then obtain x where x: "x \<in> set xs" "y = f x" by blast
  have "mset (map f (remove1 x xs)) = mset ys"
    using Cons.prems x by (simp add: image_mset_Diff)
  from Cons.IH [OF this] obtain zs where zs: "mset zs = mset (remove1 x xs)" "map f zs = ys" by blast
  have "mset (x # zs) = mset xs" using x(1) by (simp add: zs(1))
  moreover have "map f (x # zs) = y # ys" by (simp add: x(2) zs(2))
  ultimately show ?case by (intro exI [of _ "x # zs"] conjI)
qed simp

lemma recover_paths_run:
  assumes held: "pq.held qc (tl_sink p) (cs @ as)"
    and part: "reg_participants r job = Some [p]"
    and paths: "mset commit_paths = mset (map ph_staging_path cs)" "mset abort_paths = mset (map ph_staging_path as)"
    and rec: "reg_recover_prepared_refs (pq_sink_ops ar) r job commit_paths abort_paths = (r', Inr counts)"
  shows "\<exists>p'. reg_participants r' job = Some [p']
    \<and> pq_published (tl_sink p') = pq_published (tl_sink p) + pq.pending (tl_sink p) cs"
proof -
  obtain cs' as' where perm: "mset cs' = mset cs" "map ph_staging_path cs' = commit_paths"
    "mset as' = mset as" "map ph_staging_path as' = abort_paths"
    using map_perm [OF paths(1) [symmetric]] map_perm [OF paths(2) [symmetric]] by blast
  have eq: "mset (cs @ as) = mset (cs' @ as')" using perm by simp
  have held': "pq.held qc (tl_sink p) (cs' @ as')" using held by (rule iffD1 [OF pq.held_perm [OF eq]])
  let ?ds = "map (\<lambda>h. (ph_staging_path h, True)) cs' @ map (\<lambda>h. (ph_staging_path h, False)) as'"
  have ds: "map (\<lambda>q. (q, True)) commit_paths @ map (\<lambda>q. (q, False)) abort_paths = ?ds"
    by (simp add: perm(2,4) [symmetric] comp_def)
  obtain p' res where fin: "finalize_all (pq_sink_ops ar) p ?ds = (p', res)" by fastforce
  have "res = Inr () \<and> reg_participants r' job = Some [p']"
  proof (cases "commit_paths = [] \<and> abort_paths = []")
    case True
    with fin perm part rec show ?thesis by (auto simp: reg_recover_prepared_refs_def)
  next
    case False
    with rec part fin show ?thesis
      unfolding reg_recover_prepared_refs_def ds
      by (auto simp: reg_participants_def Let_def split: if_splits sum.splits)
  qed
  moreover from this have "finalize_all (pq_sink_ops ar) p ?ds = (p', Inr ())" using fin by simp
  from finalize_all_run [OF held' this]
  have "pq_published (tl_sink p') = pq_published (tl_sink p) + pq.pending (tl_sink p) cs'" by blast
  moreover have "pq.pending (tl_sink p) cs' = pq.pending (tl_sink p) cs" by (rule pq.pending_perm [OF perm(1)])
  ultimately show ?thesis by auto
qed

text \<open>Restoring a log that was just created changes nothing.\<close>

lemma restore_fresh:
  assumes "reg_participants r job = Some [txn_log_new s]" and "reg_restore_to ops r job e = (r', res)"
  shows "reg_participants r' job = Some [txn_log_new s] \<and> res = Inr (0, 0)"
proof -
  have "restore_participant ops e (txn_log_new s) = (txn_log_new s, Inr (0, 0))"
    by (simp add: restore_participant_def commit_through_def abort_after_def txn_log_new_def)
  with assms show ?thesis by (auto simp: reg_restore_to_def reg_participants_def)
qed

section \<open>From the barrier to the restored sink\<close>

lemma each_single: "each_participant f [p] n = (case f p of (p', Inl e) \<Rightarrow> ([p'], Inl e) | (p', Inr k) \<Rightarrow> ([p'], Inr (n + k)))"
  by (simp split: prod.splits sum.splits)

lemma barrier_sinks_single:
  assumes "reg_participants r job = Some [l]" and "barrier_sinks ops r job e = (r1, Inr refs)"
  obtains l1 where "pre_commit ops l e = (l1, Inr ())" and "reg_participants r1 job = Some [l1]"
    and "refs = sink_refs_of (prepared_refs ops l1)"
proof -
  obtain l1 x where p: "pre_commit ops l e = (l1, x)" by fastforce
  have has: "reg_has_job r job" using assms(1) by (simp add: reg_has_job_def)
  show thesis
  proof (cases x)
    case (Inl err)
    with p has assms show thesis
      by (auto simp: barrier_sinks_def reg_pre_commit_def reg_each_def simp del: each_participant.simps)
         (auto simp: each_single)
  next
    case (Inr u)
    let ?r1 = "r\<lparr>sr_inner := amap_insert job [l1] (sr_inner r)\<rparr>"
    have "reg_pre_commit ops r job e = (?r1, Inr 0)"
      using p Inr assms(1) by (simp add: reg_pre_commit_def reg_each_def)
    with assms(2) has have "r1 = ?r1" "refs = sink_refs_of (reg_prepared_refs ops ?r1 job)"
      by (auto simp: barrier_sinks_def)
    moreover have "reg_participants ?r1 job = Some [l1]" by (simp add: reg_participants_def)
    moreover from this have "reg_prepared_refs ops ?r1 job = prepared_refs ops l1" by (simp add: reg_prepared_refs_def)
    ultimately show thesis using that [of l1] p Inr by simp
  qed
qed

lemma pre_commit_epochs:
  assumes "bt_wf (tl_prepared l)" and "pre_commit ops l e = (l1, Inr u)"
  shows "\<forall>k \<in> fst ` set (tl_prepared l1). k \<le> e"
proof -
  have guard: "\<not> (tl_prepared l \<noteq> [] \<and> e \<le> fst (last (tl_prepared l)))"
    using assms(2) by (auto simp: pre_commit_def)
  then have old: "k \<le> e" if "k \<in> fst ` set (tl_prepared l)" for k
    using bt_last_max [OF assms(1) that] by simp
  show ?thesis
  proof (cases "tl_open l = []")
    case True
    then have "l1 = l" using assms(2) guard by (simp add: pre_commit_def split: if_splits)
    with old show ?thesis by blast
  next
    case False
    then obtain hs where "tl_prepared l1 = bt_insert e hs (tl_prepared l)"
      using assms(2) guard by (auto simp: pre_commit_def split: if_splits prod.splits sum.splits)
    then have "fst ` set (tl_prepared l1) = insert e (fst ` set (tl_prepared l))" by simp
    with old show ?thesis by simp
  qed
qed

text \<open>Restoring a participant registered over the files of a log whose epochs are all covered.\<close>

lemma restore_publishes_prepared:
  assumes ok: "pq.log_ok qc l" and epochs: "\<forall>k \<in> fst ` set (tl_prepared l). k \<le> e"
    and acks: "acks \<noteq> []" "\<forall>a \<in> set acks. ack_sink_transactions a = sink_refs_of (prepared_refs (pq_sink_ops ar) l)"
    and meta: "cm_sink_transactions m = collect_sink_transactions acks"
    and fresh: "reg_participants r job = Some [txn_log_new (tl_sink l)]"
    and restore: "restore_sinks (pq_sink_ops ar) r job e (sink_restore_plan m e) = (r', Inr u)"
  shows "\<exists>p. reg_participants r' job = Some [p] \<and> pq_published (tl_sink p) = pq_published (tl_sink l) + prepared_batches l"
proof -
  let ?refs = "prepared_refs (pq_sink_ops ar) l" and ?hs = "all_handles (tl_prepared l)"
  let ?cp = "map ps_prepare_path (plan_commit (sink_restore_plan m e))" and ?ap = "map ps_prepare_path (plan_abort (sink_restore_plan m e))"
  have all: "filter (\<lambda>(k, _). k \<le> e) (tl_prepared l) = tl_prepared l" "filter (\<lambda>(k, _). \<not> k \<le> e) (tl_prepared l) = []"
    using epochs by (auto simp: filter_id_conv filter_empty_conv)
  have held: "pq.held qc (tl_sink l) ?hs" using ok by (simp add: pq.log_ok_def)
  have "map snd (filter (\<lambda>(k, _). True) ?refs) = map ph_staging_path (all_handles (filter (\<lambda>(k, _). True) (tl_prepared l)))"
    by (rule prepared_refs_paths)
  then have "map snd ?refs = map ph_staging_path ?hs" by simp
  then have d: "distinct (map snd ?refs)" using held by (simp add: pq.held_def)
  note plan = sink_restore_plan_paths [OF acks d meta, of e, unfolded prepared_refs_paths all]
  have cp: "mset ?cp = mset (map ph_staging_path ?hs)" using plan(1) by simp
  have ap: "mset ?ap = mset (map ph_staging_path [])" using plan(2) by (simp add: all_handles_def)
  obtain r1 res where rt: "reg_restore_to (pq_sink_ops ar) r job e = (r1, res)" by fastforce
  note fr = restore_fresh [OF fresh rt]
  obtain counts where rec: "reg_recover_prepared_refs (pq_sink_ops ar) r1 job ?cp ?ap = (r', Inr counts)"
    using restore rt fr by (auto simp: restore_sinks_def split: prod.splits sum.splits)
  have "pq.held qc (tl_sink (txn_log_new (tl_sink l) :: ('a pq_sink, 'a, pq_handle) txn_log)) (?hs @ [])" using held by simp
  from recover_paths_run [OF this conjunct1 [OF fr] cp ap rec] show ?thesis by (simp add: prepared_batches_pending)
qed

text \<open>
  C1. End to end. An executor runs any sequence of staged batches, barriers and completions on a
  Parquet sink, then a barrier of epoch \<open>e\<close> succeeds; the acks of its tasks carry the reported
  sink transactions and the coordinator commits the epoch with them. If the executor then crashes
  and its replacement, registered over the files left behind, successfully applies the restore
  directive for \<open>e\<close>, the published batches are exactly those published at the start and every
  non-empty batch staged before the barrier, each once.
\<close>

theorem checkpoint_recovery_exactly_once:
  assumes "pq_ok qc s"
    and "reg_participants r job = Some [pq_run ar s xs]"
    and "barrier_sinks (pq_sink_ops ar) r job e = (r1, Inr refs)" and "reg_participants r1 job = Some [l1]"
    and "acks \<noteq> []" and "\<forall>a \<in> set acks. ack_epoch a = e"
    and "map snd (cc_pending_acks c) = map (stamp_ack e refs) acks"
    and "reg_participants r2 job = Some [txn_log_new (tl_sink l1)]"
    and "restore_sinks (pq_sink_ops ar) r2 job e (sink_restore_plan (commit_metadata now c e) e) = (r3, Inr u)"
  shows "\<exists>p. reg_participants r3 job = Some [p]
    \<and> pq_published (tl_sink p) = pq_published s + mset (map (pq_stored ar qc) (staged_batches (ar_num_rows ar) xs))"
proof -
  let ?l = "pq_run ar s xs"
  from barrier_sinks_single [OF assms(2,3)] assms(4) have pre: "pre_commit (pq_sink_ops ar) ?l e = (l1, Inr ())"
    and refs: "refs = sink_refs_of (prepared_refs (pq_sink_ops ar) l1)" by (metis list.inject option.inject)+
  have ok: "pq.log_ok qc ?l" by (rule pq_run_ok [OF assms(1)])
  note step = pq.pre_commit_step [OF ok _ pre]
  have epochs: "\<forall>k \<in> fst ` set (tl_prepared l1). k \<le> e"
    using pre_commit_epochs [OF _ pre] ok by (simp add: pq.log_ok_def)
  have acks: "map (stamp_ack e refs) acks \<noteq> []"
    "\<forall>a \<in> set (map (stamp_ack e refs) acks). ack_sink_transactions a = sink_refs_of (prepared_refs (pq_sink_ops ar) l1)"
    using assms(5,6) by (auto simp: stamp_ack_def refs)
  have meta: "cm_sink_transactions (commit_metadata now c e) = collect_sink_transactions (map (stamp_ack e refs) acks)"
    by (simp add: commit_metadata_def assms(7) Let_def)
  have "pq_published (tl_sink l1) + prepared_batches l1
      = pq_published s + mset (map (pq_stored ar qc) (staged_batches (ar_num_rows ar) xs))"
  proof -
    have nil: "tl_open l1 = []" and same: "pq_published (tl_sink l1) = pq_published (tl_sink ?l)"
      and bal: "pq.in_flight l1 + image_mset (pq_stored ar qc) (mset (tl_open l1))
        = pq.in_flight ?l + image_mset (pq_stored ar qc) (mset (tl_open ?l))"
      using step by blast+
    have flight: "pq.in_flight l1 = pq.in_flight ?l + image_mset (pq_stored ar qc) (mset (tl_open ?l))"
      using bal unfolding nil by simp
    note new = pq.log_ok_new [OF assms(1)]
    note run = pq.run_conserves [where ar = ar and num_rows = "ar_num_rows ar" and xs = xs, OF conjunct1 [OF new], THEN conjunct2]
    have "pq_published (tl_sink l1) + pq.in_flight l1 = pq_published (tl_sink ?l) + pq.in_flight ?l
        + image_mset (pq_stored ar qc) (mset (tl_open ?l))" by (simp add: same flight add.assoc)
    also have "\<dots> = pq_published s + image_mset (pq_stored ar qc) (mset (staged_batches (ar_num_rows ar) xs))"
      unfolding run using new by simp
    finally show ?thesis by (simp add: prepared_batches_pending pq.in_flight_def)
  qed
  with restore_publishes_prepared [OF conjunct1 [OF step] epochs acks meta assms(8,9)] show ?thesis by simp
qed

definition demo_ack :: checkpoint_ack_request where
  "demo_ack = \<lparr>ack_job_id = ''j'', ack_operator_id = ''op'', ack_task_id = ''t'', ack_epoch = 3, ack_fencing_token = 1,
     ack_source_offsets = [], ack_snapshot_path = Some ''j/3/op/t'', ack_sink_transactions = []\<rparr>"

definition demo_refs :: "prepared_sink_ref list" where
  "demo_refs = sink_refs_of [(1, ''/o/1-0.parquet.tmp''), (2, ''/o/2-1.parquet.tmp'')]"

definition demo_coordinator :: checkpoint_coordinator where
  "demo_coordinator = (coordinator_new ''j'' ''c'' 1000 1)\<lparr>cc_pending_acks := [(''t'', stamp_ack 3 demo_refs demo_ack)]\<rparr>"

definition demo_registry :: "(nat pq_sink, nat, pq_handle) txn_log \<Rightarrow> (nat pq_sink, nat, pq_handle) sink_registry" where
  "demo_registry l = fst (reg_register registry_new ''j'' l)"

lemma demo_registry_part: "reg_participants (demo_registry l) ''j'' = Some [l]"
  by (simp add: demo_registry_def reg_participants_def reg_register_def registry_new_def)

lemma demo_barrier:
  "barrier_sinks (pq_sink_ops demo_arrow) (demo_registry demo_log) ''j'' 3 = (demo_registry demo_log, Inr demo_refs)"
  by (simp add: barrier_sinks_def demo_registry_def reg_has_job_def reg_participants_def reg_register_def registry_new_def
      reg_pre_commit_def reg_each_def pre_commit_def reg_prepared_refs_def prepared_refs_def demo_log_def demo_refs_def
      pq_sink_ops_def pq_prepare_path_of_def map_filter_def)

lemma demo_restore_sinks:
  "restore_sinks (pq_sink_ops demo_arrow) (demo_registry (txn_log_new (tl_sink demo_log))) ''j'' 3
     (sink_restore_plan (commit_metadata 0 demo_coordinator 3) 3)
   = (demo_registry (txn_log_new (demo_dir\<lparr>pq_next_handle := 2,
        pq_files := [(''/o/1-0.parquet'', Some 5), (''/o/2-1.parquet'', Some 6)]\<rparr>)), Inr ())"
  by (simp add: restore_sinks_def demo_registry_def reg_restore_to_def restore_participant_def commit_through_def abort_after_def
      reg_participants_def reg_register_def registry_new_def txn_log_new_def sink_restore_plan_def commit_metadata_def
      demo_coordinator_def coordinator_new_def collect_sink_transactions_def merge_sink_tx_def stamp_ack_def demo_ack_def demo_refs_def
      sink_refs_of_def plan_sink_transaction_recovery_def reg_recover_prepared_refs_def log_finalize_prepared_def pq_sink_ops_def
      pq_finalize_prepared_def strip_suffix_def strip_prefix_def demo_log_def demo_dir_def pq_new_def pq_commit_def pq_fault_of_def
      amap_remove_def Let_def)

theorem checkpoint_recovery_exactly_once_witness:
  "\<exists>p. reg_participants (demo_registry (txn_log_new (demo_dir\<lparr>pq_next_handle := 2,
        pq_files := [(''/o/1-0.parquet'', Some 5), (''/o/2-1.parquet'', Some 6)]\<rparr>))) ''j'' = Some [p]
    \<and> pq_published (tl_sink p) = pq_published demo_dir
        + mset (map (pq_stored demo_arrow None) (staged_batches (ar_num_rows demo_arrow) demo_prepared))"
  by (rule checkpoint_recovery_exactly_once [OF demo_dir_ok, where acks = "[demo_ack]" and c = demo_coordinator and e = 3
        and xs = demo_prepared and ar = demo_arrow, unfolded demo_run, OF demo_registry_part demo_barrier demo_registry_part _ _ _
        demo_registry_part demo_restore_sinks])
     (simp_all add: demo_ack_def demo_coordinator_def)

end
