(* ===== verification/Lifecycle.thy ===== *)
theory Lifecycle
  imports Ids
begin

text \<open>
  The lifecycle states of \<open>krishiv-proto/src/lifecycle.rs\<close>: of the coordinator, of jobs, stages and
  tasks, and of executors. The constructors carry the name of their enum first, because the enums
  share variant names. The lemmas say that the printed names identify the states, which the wire
  format and the durable records rely on, and that no terminal state accepts work.
\<close>

section \<open>States\<close>

datatype proto_coordinator_state = CoordActive | CoordStandby | CoordStopped

datatype job_kind = BatchJob | StreamingJob

datatype job_state = JobQueued | JobAccepted | JobPlanning | JobRunning | JobCommitting
  | JobSucceeded | JobFailed | JobCancelled

datatype stage_state = StagePending | StageScheduling | StageRunning | StageSucceeded | StageFailed
  | StageRetrying | StageCancelled

datatype task_state = TaskPending | TaskAssigned | TaskRunning | TaskSucceeded | TaskFailed
  | TaskRetrying | TaskCancelled

datatype executor_state = ExecRegistered | ExecHealthy | ExecLost | ExecDraining | ExecRemoved

fun coordinator_state_display :: "proto_coordinator_state \<Rightarrow> string" where
  "coordinator_state_display CoordActive = ''active''"
| "coordinator_state_display CoordStandby = ''standby''"
| "coordinator_state_display CoordStopped = ''stopped''"

fun job_kind_display :: "job_kind \<Rightarrow> string" where
  "job_kind_display BatchJob = ''batch''"
| "job_kind_display StreamingJob = ''streaming''"

fun job_state_display :: "job_state \<Rightarrow> string" where
  "job_state_display JobQueued = ''queued''"
| "job_state_display JobAccepted = ''accepted''"
| "job_state_display JobPlanning = ''planning''"
| "job_state_display JobRunning = ''running''"
| "job_state_display JobCommitting = ''committing''"
| "job_state_display JobSucceeded = ''succeeded''"
| "job_state_display JobFailed = ''failed''"
| "job_state_display JobCancelled = ''cancelled''"

fun stage_state_display :: "stage_state \<Rightarrow> string" where
  "stage_state_display StagePending = ''pending''"
| "stage_state_display StageScheduling = ''scheduling''"
| "stage_state_display StageRunning = ''running''"
| "stage_state_display StageSucceeded = ''succeeded''"
| "stage_state_display StageFailed = ''failed''"
| "stage_state_display StageRetrying = ''retrying''"
| "stage_state_display StageCancelled = ''cancelled''"

fun task_state_display :: "task_state \<Rightarrow> string" where
  "task_state_display TaskPending = ''pending''"
| "task_state_display TaskAssigned = ''assigned''"
| "task_state_display TaskRunning = ''running''"
| "task_state_display TaskSucceeded = ''succeeded''"
| "task_state_display TaskFailed = ''failed''"
| "task_state_display TaskRetrying = ''retrying''"
| "task_state_display TaskCancelled = ''cancelled''"

fun executor_state_display :: "executor_state \<Rightarrow> string" where
  "executor_state_display ExecRegistered = ''registered''"
| "executor_state_display ExecHealthy = ''healthy''"
| "executor_state_display ExecLost = ''lost''"
| "executor_state_display ExecDraining = ''draining''"
| "executor_state_display ExecRemoved = ''removed''"

fun job_is_terminal :: "job_state \<Rightarrow> bool" where
  "job_is_terminal JobSucceeded = True"
| "job_is_terminal JobFailed = True"
| "job_is_terminal JobCancelled = True"
| "job_is_terminal _ = False"

fun stage_is_terminal :: "stage_state \<Rightarrow> bool" where
  "stage_is_terminal StageSucceeded = True"
| "stage_is_terminal StageFailed = True"
| "stage_is_terminal StageCancelled = True"
| "stage_is_terminal _ = False"

fun task_is_terminal :: "task_state \<Rightarrow> bool" where
  "task_is_terminal TaskSucceeded = True"
| "task_is_terminal TaskFailed = True"
| "task_is_terminal TaskCancelled = True"
| "task_is_terminal _ = False"

fun can_accept_work :: "executor_state \<Rightarrow> bool" where
  "can_accept_work ExecRegistered = True"
| "can_accept_work ExecHealthy = True"
| "can_accept_work _ = False"

section \<open>Laws\<close>

lemma job_state_display_inj: "inj job_state_display"
  by (intro injI, case_tac x; case_tac y; simp)

lemma stage_state_display_inj: "inj stage_state_display"
  by (intro injI, case_tac x; case_tac y; simp)

lemma task_state_display_inj: "inj task_state_display"
  by (intro injI, case_tac x; case_tac y; simp)

lemma task_is_terminal_iff: "task_is_terminal s \<longleftrightarrow> s \<in> {TaskSucceeded, TaskFailed, TaskCancelled}"
  by (cases s) auto

lemma job_is_terminal_iff: "job_is_terminal s \<longleftrightarrow> s \<in> {JobSucceeded, JobFailed, JobCancelled}"
  by (cases s) auto

lemma can_accept_work_iff: "can_accept_work s \<longleftrightarrow> s \<in> {ExecRegistered, ExecHealthy}"
  by (cases s) auto

end
