(* ===== verification/TaskProto.thy ===== *)
theory TaskProto
  imports Lifecycle KeyGroups
begin

text \<open>
  The data the scheduler and the executors exchange: task, stage and job specifications
  (\<open>krishiv-proto/src/io.rs\<close>, \<open>job.rs\<close>), status updates, input partitions and task assignments
  (\<open>task.rs\<close>, \<open>executor.rs\<close>), and the classification of a task fragment
  (\<open>krishiv-plan/src/task_fragment.rs\<close>, \<open>krishiv-sql/src/distributed_plan.rs\<close>). JSON parsing is
  third-party code and is the parameter \<open>frag_codec\<close>; an Arrow batch is a value of type \<open>'rb\<close>.
  Fields that no modelled operation reads are left out: capability flags, resource profiles,
  streaming profiles and output buffers of the specifications, the trace context of an
  assignment, and the typed descriptor of an output contract, which the scheduler leaves empty.
\<close>

section \<open>Specifications\<close>

record shuffle_write_config =
  sw_stage_id :: string
  sw_num_partitions :: nat
  sw_key_columns :: "string list"
  sw_lease_token :: nat

record shuffle_read_config =
  sr_stage_id :: string
  sr_partition_id :: nat
  sr_lease_token :: nat

record task_spec =
  ts_task_id :: string
  ts_description :: string
  ts_task_timeout_secs :: "nat option"
  ts_shuffle_write :: "shuffle_write_config option"
  ts_shuffle_read :: "shuffle_read_config option"
  ts_sink_contract :: "string option"

datatype stage_kind = ShuffleMap | ResultStage

record stage_spec =
  ss_stage_id :: string
  ss_name :: string
  ss_kind :: stage_kind
  ss_tasks :: "task_spec list"
  ss_upstream_stage_ids :: "string list"
  ss_output_partition_count :: "nat option"
  ss_max_task_attempts :: nat

record job_spec =
  js_job_id :: string
  js_name :: string
  js_kind :: job_kind
  js_stages :: "stage_spec list"
  js_checkpoint_interval_ms :: "nat option"
  js_checkpoint_storage_path :: "string option"
  js_priority :: nat
  js_namespace_id :: "string option"
  js_cpu_limit_nanos :: "nat option"
  js_memory_limit_bytes :: "nat option"
  js_pinned_executor :: "string option"

definition task_spec_new :: "string \<Rightarrow> string \<Rightarrow> task_spec" where
  "task_spec_new task_id description =
     \<lparr>ts_task_id = task_id, ts_description = description, ts_task_timeout_secs = None,
      ts_shuffle_write = None, ts_shuffle_read = None, ts_sink_contract = None\<rparr>"

definition stage_spec_new :: "string \<Rightarrow> string \<Rightarrow> stage_spec" where
  "stage_spec_new stage_id name =
     \<lparr>ss_stage_id = stage_id, ss_name = name, ss_kind = ShuffleMap, ss_tasks = [],
      ss_upstream_stage_ids = [], ss_output_partition_count = None, ss_max_task_attempts = 1\<rparr>"

definition with_task :: "stage_spec \<Rightarrow> task_spec \<Rightarrow> stage_spec" where
  "with_task s task = s\<lparr>ss_tasks := ss_tasks s @ [task]\<rparr>"

definition with_max_task_attempts :: "stage_spec \<Rightarrow> nat \<Rightarrow> stage_spec" where
  "with_max_task_attempts s n = s\<lparr>ss_max_task_attempts := max n 1\<rparr>"

definition with_upstream_stage :: "stage_spec \<Rightarrow> string \<Rightarrow> stage_spec" where
  "with_upstream_stage s up = s\<lparr>ss_upstream_stage_ids := ss_upstream_stage_ids s @ [up]\<rparr>"

definition job_spec_new :: "string \<Rightarrow> string \<Rightarrow> job_kind \<Rightarrow> job_spec" where
  "job_spec_new job_id name kind =
     \<lparr>js_job_id = job_id, js_name = name, js_kind = kind, js_stages = [], js_checkpoint_interval_ms = None,
      js_checkpoint_storage_path = None, js_priority = 128, js_namespace_id = None,
      js_cpu_limit_nanos = None, js_memory_limit_bytes = None, js_pinned_executor = None\<rparr>"

definition with_stage :: "job_spec \<Rightarrow> stage_spec \<Rightarrow> job_spec" where
  "with_stage j stage = j\<lparr>js_stages := js_stages j @ [stage]\<rparr>"

section \<open>Reports from executors\<close>

record shuffle_partition_output =
  sp_partition_id :: nat
  sp_size_bytes :: nat
  sp_flight_endpoint :: string

record task_runtime_stats =
  rt_input_rows :: nat
  rt_output_rows :: nat
  rt_cpu_nanos :: nat
  rt_memory_bytes :: nat
  rt_spill_bytes :: nat
  rt_serialized_bytes :: nat

record task_output_metadata =
  om_output_kind :: string
  om_row_count :: nat
  om_shuffle_partitions :: "shuffle_partition_output list"
  om_runtime_stats :: "task_runtime_stats option"

record missing_shuffle_partition =
  mp_stage_id :: string
  mp_partition_id :: nat

record task_status_update =
  tu_job_id :: string
  tu_stage_id :: string
  tu_task_id :: string
  tu_executor_id :: string
  tu_lease_generation :: nat
  tu_state :: task_state
  tu_attempt :: nat
  tu_message :: "string option"
  tu_output_metadata :: "task_output_metadata option"
  tu_missing_shuffle_partitions :: "missing_shuffle_partition list"

record streaming_task_state =
  st_task_id :: string
  st_watermark_ms :: int
  st_source_offset :: bytes

record task_assignment =
  ta_task_id :: string
  ta_executor_id :: string

section \<open>Assignments to executors\<close>

definition show_int :: "int \<Rightarrow> string" where
  "show_int i = (if i < 0 then ''-'' @ show_nat (nat (- i)) else show_nat (nat i))"

record memory_kafka_record =
  mk_id :: int
  mk_value :: string

datatype 'rb input_partition_descriptor =
    LocalParquet (ipd_table_name: string) (ipd_path: string)
  | ConnectorParquet "string option" string
  | ObjectParquet string string string
  | MemoryKafka string int int "memory_kafka_record list"
  | ShuffleFlight string (ipd_endpoint: string) (ipd_job_id: string) (ipd_stage_id: string) (ipd_partition_id: nat)
  | InlineIpc string bytes
  | InMemory string "'rb list"
  | WatermarkHint int
  | ContinuousRestore bytes int

record 'rb input_partition =
  ip_partition_id :: string
  ip_description :: string
  ip_descriptor :: "'rb input_partition_descriptor option"

definition join_with :: "string \<Rightarrow> string list \<Rightarrow> string" where
  "join_with sep ss = (case ss of [] \<Rightarrow> [] | s # r \<Rightarrow> s @ concat (map (\<lambda>t. sep @ t) r))"

fun legacy_description :: "('rb \<Rightarrow> nat) \<Rightarrow> 'rb input_partition_descriptor \<Rightarrow> string" where
  "legacy_description num_rows (LocalParquet table_name path) = ''local-parquet:'' @ table_name @ '':'' @ path"
| "legacy_description num_rows (ConnectorParquet _ path) = ''connector-parquet:'' @ path"
| "legacy_description num_rows (ObjectParquet table_name base_dir object_path) =
     ''object-parquet:'' @ table_name @ '':'' @ base_dir @ '':'' @ object_path"
| "legacy_description num_rows (MemoryKafka topic part start_offset records) =
     ''memory-kafka:'' @ topic @ '':'' @ show_int part @ '':'' @ show_int start_offset @ '':''
       @ join_with '','' (map (\<lambda>r. show_int (mk_id r) @ ''='' @ mk_value r) records)"
| "legacy_description num_rows (ShuffleFlight table_name endpoint _ stage_id partition_id) =
     ''shuffle-flight:'' @ table_name @ '':'' @ endpoint @ '':'' @ stage_id @ '':'' @ show_nat partition_id"
| "legacy_description num_rows (InlineIpc table_name ipc_bytes) =
     ''inline-ipc:'' @ table_name @ '':'' @ show_nat (length ipc_bytes) @ ''b''"
| "legacy_description num_rows (InMemory table_name batches) =
     ''in-memory:'' @ table_name @ '':'' @ show_nat (sum_list (map num_rows batches) mod two64) @ ''rows''"
| "legacy_description num_rows (WatermarkHint watermark_ms) = ''watermark-hint:'' @ show_int watermark_ms"
| "legacy_description num_rows (ContinuousRestore snapshot_bytes watermark_ms) =
     ''continuous-restore:'' @ show_nat (length snapshot_bytes) @ ''b:'' @ show_int watermark_ms"

definition input_partition_new :: "string \<Rightarrow> string \<Rightarrow> 'rb input_partition" where
  "input_partition_new partition_id description =
     \<lparr>ip_partition_id = partition_id, ip_description = description, ip_descriptor = None\<rparr>"

definition input_partition_typed :: "('rb \<Rightarrow> nat) \<Rightarrow> string \<Rightarrow> 'rb input_partition_descriptor \<Rightarrow> 'rb input_partition" where
  "input_partition_typed num_rows partition_id descriptor =
     \<lparr>ip_partition_id = partition_id, ip_description = legacy_description num_rows descriptor,
      ip_descriptor = Some descriptor\<rparr>"

definition with_descriptor :: "('rb \<Rightarrow> nat) \<Rightarrow> 'rb input_partition \<Rightarrow> 'rb input_partition_descriptor \<Rightarrow> 'rb input_partition" where
  "with_descriptor num_rows p descriptor =
     p\<lparr>ip_description := legacy_description num_rows descriptor, ip_descriptor := Some descriptor\<rparr>"

record plan_fragment =
  pf_description :: string
  pf_is_streaming :: bool

datatype output_contract_kind = InlineRecordBatches | LocalFileOutput | ShuffleOutput | SinkOutput

record output_contract =
  oc_kind :: output_contract_kind
  oc_description :: string

record 'rb executor_task_assignment =
  ea_version :: transport_version
  ea_job_id :: string
  ea_stage_id :: string
  ea_task_id :: string
  ea_attempt_id :: nat
  ea_executor_id :: string
  ea_lease_generation :: nat
  ea_input_partitions :: "'rb input_partition list"
  ea_plan_fragment :: plan_fragment
  ea_output_contract :: output_contract
  ea_task_timeout_secs :: "nat option"
  ea_shuffle_write :: "shuffle_write_config option"
  ea_shuffle_read :: "shuffle_read_config option"
  ea_key_group_range :: key_group_range
  ea_requires_reattach :: bool
  ea_cpu_limit_nanos :: "nat option"
  ea_memory_limit_bytes :: "nat option"

definition TRANSPORT_CURRENT :: transport_version where
  "TRANSPORT_CURRENT = \<lparr>tv_major = 3, tv_minor = 1\<rparr>"

definition assignment_new :: "string \<Rightarrow> string \<Rightarrow> string \<Rightarrow> nat \<Rightarrow> string \<Rightarrow> nat \<Rightarrow> plan_fragment \<Rightarrow> output_contract \<Rightarrow>
    'rb executor_task_assignment" where
  "assignment_new job_id stage_id task_id attempt_id executor_id lease_generation fragment contract =
     \<lparr>ea_version = TRANSPORT_CURRENT, ea_job_id = job_id, ea_stage_id = stage_id, ea_task_id = task_id,
      ea_attempt_id = attempt_id, ea_executor_id = executor_id, ea_lease_generation = lease_generation,
      ea_input_partitions = [], ea_plan_fragment = fragment, ea_output_contract = contract,
      ea_task_timeout_secs = None, ea_shuffle_write = None, ea_shuffle_read = None,
      ea_key_group_range = \<lparr>kg_start = 0, kg_end = 32767\<rparr>, ea_requires_reattach = False,
      ea_cpu_limit_nanos = None, ea_memory_limit_bytes = None\<rparr>"

section \<open>Task fragments\<close>

datatype execution_kind = ExecBatch | ExecStreaming | ExecDeltaBatch

datatype node_op = OpScan | OpFilter | OpProject | OpAggregate | OpJoin | OpExchange | OpSink
  | OpCoalescePartitions | OpKeyBy | OpWatermark | OpWindow | OpStreamSource | OpStateTtl
  | OpGlobalSort | OpSortMergeJoin | OpWindowJoin | OpUnnest | OpCep | OpSkewJoin | OpOther

record typed_task_fragment =
  tf_version :: nat
  tf_execution_kind :: execution_kind
  tf_body :: string

text \<open>The JSON reader of the two payloads; of a plan operator only its variant is read.\<close>

record frag_codec =
  fc_fragment :: "string \<Rightarrow> typed_task_fragment option"
  fc_node_op :: "string \<Rightarrow> node_op option"

definition TASK_FRAGMENT_VERSION :: nat where
  "TASK_FRAGMENT_VERSION = 1"

definition fragment_decode :: "frag_codec \<Rightarrow> string \<Rightarrow> typed_task_fragment option" where
  "fragment_decode fc fragment =
     (case strip_prefix ''krishiv-fragment:'' fragment of
        None \<Rightarrow> None
      | Some payload \<Rightarrow>
          (case fc_fragment fc payload of
             None \<Rightarrow> None
           | Some decoded \<Rightarrow> if tf_version decoded \<noteq> TASK_FRAGMENT_VERSION then None else Some decoded))"

definition decode_task_fragment :: "frag_codec \<Rightarrow> string \<Rightarrow> node_op option" where
  "decode_task_fragment fc fragment =
     (case strip_prefix ''planop:'' fragment of None \<Rightarrow> None | Some payload \<Rightarrow> fc_node_op fc payload)"

definition starts_with :: "string \<Rightarrow> string \<Rightarrow> bool" where
  "starts_with s p \<longleftrightarrow> strip_prefix p s \<noteq> None"

definition execution_kind_from_legacy :: "frag_codec \<Rightarrow> string \<Rightarrow> execution_kind" where
  "execution_kind_from_legacy fc fragment =
     (if starts_with fragment ''stream:'' then ExecStreaming
      else if starts_with fragment ''delta:'' then ExecDeltaBatch
      else case decode_task_fragment fc fragment of
             Some op \<Rightarrow> if op \<in> {OpWindow, OpStreamSource, OpWatermark, OpKeyBy, OpStateTtl} then ExecStreaming else ExecBatch
           | None \<Rightarrow> ExecBatch)"

definition decode_or_legacy :: "frag_codec \<Rightarrow> string \<Rightarrow> typed_task_fragment" where
  "decode_or_legacy fc fragment =
     (case fragment_decode fc fragment of
        Some f \<Rightarrow> f
      | None \<Rightarrow> \<lparr>tf_version = TASK_FRAGMENT_VERSION, tf_execution_kind = execution_kind_from_legacy fc fragment,
                 tf_body = fragment\<rparr>)"

definition execution_kind_from_fragment :: "frag_codec \<Rightarrow> string \<Rightarrow> execution_kind" where
  "execution_kind_from_fragment fc fragment = tf_execution_kind (decode_or_legacy fc fragment)"

fun find_str :: "string \<Rightarrow> string \<Rightarrow> nat option" where
  "find_str pat [] = (if pat = [] then Some 0 else None)"
| "find_str pat (c # cs) = (if starts_with (c # cs) pat then Some 0 else map_option Suc (find_str pat cs))"

lemma length_trim_start: "length (trim_start s) \<le> length s"
proof (induction s rule: trim_start.induct)
  case (1 s)
  then show ?case by (subst trim_start.simps) (auto intro: le_trans)
qed

definition udf_directive :: "string \<Rightarrow> bool" where
  "udf_directive s \<longleftrightarrow> starts_with s ''/* krishiv-register-python-udf:'' \<or> starts_with s ''/* krishiv-register-python-udaf:''"

function strip_udf_loop :: "string \<Rightarrow> string" where
  "strip_udf_loop rest =
     (if udf_directive rest then
        (case find_str '' */'' rest of
           None \<Rightarrow> rest
         | Some n \<Rightarrow> strip_udf_loop (trim_start (drop (n + 3) rest)))
      else rest)"
  by pat_completeness auto
termination
proof (relation "measure length", goal_cases)
  case 1
  then show ?case by simp
next
  case (2 rest n)
  from 2(1) have "rest \<noteq> []" by (auto simp: udf_directive_def starts_with_def strip_prefix_def)
  then have "length (drop (n + 3) rest) < length rest" by (cases rest) auto
  with length_trim_start [of "drop (n + 3) rest"] show ?case by simp
qed

declare strip_udf_loop.simps [simp del]

definition strip_leading_python_udf_directives :: "string \<Rightarrow> string" where
  "strip_leading_python_udf_directives body = strip_udf_loop (trim_start body)"

definition is_dfplan_body :: "string \<Rightarrow> bool" where
  "is_dfplan_body body \<longleftrightarrow> starts_with (strip_leading_python_udf_directives body) ''dfplan:v1:''"

end
