(* ===== verification/SchedError.thy ===== *)
theory SchedError
  imports TaskProto
begin

text \<open>
  The errors of the scheduler (\<open>krishiv-scheduler/src/error.rs\<close>) and two small data structures its
  job records are built from: accumulated resource usage (\<open>job/scheduler.rs\<close>) and the registry of
  shuffle partitions (\<open>krishiv-shuffle/src/metadata.rs\<close>, \<open>path.rs\<close>).
\<close>

section \<open>Errors\<close>

datatype failure_class = Retryable | Terminal | UserError

datatype task_update_outcome = Applied | Duplicate

datatype stale_task_reason = AttemptMismatch | NotTheAssignee | StateCannotAcceptUpdate

datatype scheduler_error =
    InactiveCoordinator string proto_coordinator_state
  | DuplicateExecutor string
  | UnknownExecutor string
  | StaleExecutorLease string nat nat
  | NoExecutors
  | DuplicateJob string
  | UnknownJob string
  | UnknownStage string
  | UnknownTask string
  | StaleTaskAttempt string nat nat stale_task_reason
  | InvalidJob string
  | InvalidPlan string
  | JobExecutionFailed string string
  | OptimizerError string
  | TransportError string
  | AssignmentRejected string string
  | ExecutorUnavailable string string
  | StoreError string

fun stale_task_reason_display :: "stale_task_reason \<Rightarrow> string" where
  "stale_task_reason_display AttemptMismatch = ''reported attempt is not the current attempt''"
| "stale_task_reason_display NotTheAssignee = ''reporter is no longer the assigned executor''"
| "stale_task_reason_display StateCannotAcceptUpdate = ''task state cannot accept this transition''"

fun failure_class_of :: "scheduler_error \<Rightarrow> failure_class" where
  "failure_class_of (InactiveCoordinator _ _) = Retryable"
| "failure_class_of (StaleExecutorLease _ _ _) = Retryable"
| "failure_class_of NoExecutors = Retryable"
| "failure_class_of (StaleTaskAttempt _ _ _ _) = Retryable"
| "failure_class_of (TransportError _) = Retryable"
| "failure_class_of (ExecutorUnavailable _ _) = Retryable"
| "failure_class_of (StoreError _) = Retryable"
| "failure_class_of (DuplicateExecutor _) = UserError"
| "failure_class_of (UnknownExecutor _) = UserError"
| "failure_class_of (DuplicateJob _) = UserError"
| "failure_class_of (UnknownJob _) = UserError"
| "failure_class_of (UnknownStage _) = UserError"
| "failure_class_of (UnknownTask _) = UserError"
| "failure_class_of (InvalidJob _) = UserError"
| "failure_class_of (InvalidPlan _) = UserError"
| "failure_class_of (AssignmentRejected _ _) = UserError"
| "failure_class_of (JobExecutionFailed _ _) = Terminal"
| "failure_class_of (OptimizerError _) = Terminal"

section \<open>Resource usage\<close>

definition saturating_add_u32 :: "nat \<Rightarrow> nat \<Rightarrow> nat" where
  "saturating_add_u32 a b = min (a + b) u32_max"

definition saturating_mul_u64 :: "nat \<Rightarrow> nat \<Rightarrow> nat" where
  "saturating_mul_u64 a b = min (a * b) u64_max"

record resource_usage =
  ru_cpu_nanos :: nat
  ru_memory_peak_task_bytes :: nat
  ru_memory_total_bytes :: nat
  ru_task_count :: nat

definition resource_usage_default :: resource_usage where
  "resource_usage_default =
     \<lparr>ru_cpu_nanos = 0, ru_memory_peak_task_bytes = 0, ru_memory_total_bytes = 0, ru_task_count = 0\<rparr>"

definition add_task_stats :: "resource_usage \<Rightarrow> nat \<Rightarrow> nat \<Rightarrow> resource_usage" where
  "add_task_stats u cpu_nanos memory_bytes =
     \<lparr>ru_cpu_nanos = saturating_add_u64 (ru_cpu_nanos u) cpu_nanos,
      ru_memory_peak_task_bytes = max (ru_memory_peak_task_bytes u) memory_bytes,
      ru_memory_total_bytes = saturating_add_u64 (ru_memory_total_bytes u) memory_bytes,
      ru_task_count = saturating_add_u32 (ru_task_count u) 1\<rparr>"

section \<open>Shuffle partitions\<close>

datatype partition_state = PartPending | PartAvailable | PartFailed string

record shuffle_path =
  path_job_id :: string
  path_stage_id :: string
  path_partition_id :: nat

type_synonym shuffle_metadata = "(shuffle_path, partition_state) amap"

definition staging_name :: "shuffle_path \<Rightarrow> string" where
  "staging_name p = path_job_id p @ ''/'' @ path_stage_id p @ ''/'' @ show_nat (path_partition_id p) @ ''.tmp''"

definition final_name :: "shuffle_path \<Rightarrow> string" where
  "final_name p = path_job_id p @ ''/'' @ path_stage_id p @ ''/'' @ show_nat (path_partition_id p) @ ''.ipc''"

definition mark_pending :: "shuffle_metadata \<Rightarrow> shuffle_path \<Rightarrow> shuffle_metadata" where
  "mark_pending m path = amap_insert path PartPending m"

definition mark_available :: "shuffle_metadata \<Rightarrow> shuffle_path \<Rightarrow> shuffle_metadata" where
  "mark_available m path = amap_insert path PartAvailable m"

definition mark_failed :: "shuffle_metadata \<Rightarrow> shuffle_path \<Rightarrow> string \<Rightarrow> shuffle_metadata" where
  "mark_failed m path reason = amap_insert path (PartFailed reason) m"

definition all_available :: "shuffle_metadata \<Rightarrow> shuffle_path list \<Rightarrow> bool" where
  "all_available m paths \<longleftrightarrow> list_all (\<lambda>p. map_of m p = Some PartAvailable) paths"

definition available_count :: "shuffle_metadata \<Rightarrow> nat" where
  "available_count m = length (filter (\<lambda>s. s = PartAvailable) (map snd m))"

definition available_paths :: "shuffle_metadata \<Rightarrow> shuffle_path list" where
  "available_paths m = map fst (filter (\<lambda>(_, s). s = PartAvailable) m)"

text \<open>\<open>entry(key).or_default()\<close> followed by an update of the entry.\<close>

definition amap_alter :: "'v \<Rightarrow> 'k \<Rightarrow> ('v \<Rightarrow> 'v) \<Rightarrow> ('k, 'v) amap \<Rightarrow> ('k, 'v) amap" where
  "amap_alter d k f m = amap_insert k (f (case map_of m k of None \<Rightarrow> d | Some v \<Rightarrow> v)) m"

lemma saturating_add_u32_le: "a \<le> u32_max \<Longrightarrow> a \<le> saturating_add_u32 a b \<and> saturating_add_u32 a b \<le> u32_max"
  by (simp add: saturating_add_u32_def)

lemma saturating_add_u32_Suc: "a < u32_max \<Longrightarrow> saturating_add_u32 a 1 = Suc a"
  by (simp add: saturating_add_u32_def)

lemma saturating_mul_u64_le: "saturating_mul_u64 a b \<le> u64_max"
  by (simp add: saturating_mul_u64_def)

end
