(* ===== verification/ExecRegistry.thy ===== *)
theory ExecRegistry
  imports SchedError
begin

text \<open>
  The executor registry of the coordinator (\<open>krishiv-scheduler/src/heartbeat.rs\<close>): registration with
  lease generations, heartbeats, the timeout sweep on a tick clock, draining, and the circuit
  breaker. The registry map is an association list in its iteration order, which for the \<open>HashMap\<close>
  of the source is unspecified. Of the health snapshot the CPU figure, a float that nothing here
  reads, is left out. Proved: a lease once issued is never issued again, only the newest lease of a
  live executor is accepted, a sweep evicts an executor that stays silent, and the circuit breaker
  never excludes every schedulable executor.
\<close>

section \<open>Records\<close>

record executor_descriptor =
  ed_executor_id :: string
  ed_host :: string
  ed_slots :: nat
  ed_task_endpoint :: "string option"
  ed_barrier_endpoint :: "string option"
  ed_rack_id :: "string option"
  ed_incarnation_id :: "string option"
  ed_http_endpoint :: "string option"

record executor_heartbeat =
  hb_executor_id :: string
  hb_lease_generation :: nat
  hb_state :: executor_state
  hb_running_tasks :: "string list"
  hb_memory_used_bytes :: "nat option"
  hb_memory_limit_bytes :: "nat option"
  hb_active_task_count :: "nat option"
  hb_network_bytes_sent :: "nat option"
  hb_network_bytes_recv :: "nat option"

record executor_health_snapshot =
  eh_memory_used_bytes :: "nat option"
  eh_memory_limit_bytes :: "nat option"
  eh_active_task_count :: "nat option"
  eh_network_bytes_sent :: "nat option"
  eh_network_bytes_recv :: "nat option"

record executor_record =
  er_descriptor :: executor_descriptor
  er_lease_generation :: nat
  er_state :: executor_state
  er_running_tasks :: "string list"
  er_last_heartbeat_tick :: nat
  er_health_snapshot :: "executor_health_snapshot option"
  er_consecutive_task_failures :: nat
  er_breaker_tripped_at_ms :: "nat option"

record executor_registry =
  xr_executors :: "(string, executor_record) amap"
  xr_current_tick :: nat
  xr_heartbeat_timeout_ticks :: nat
  xr_memory_threshold_bytes :: "nat option"

abbreviation er_id :: "executor_record \<Rightarrow> string" where
  "er_id e \<equiv> ed_executor_id (er_descriptor e)"

definition executor_record_new :: "executor_descriptor \<Rightarrow> nat \<Rightarrow> nat \<Rightarrow> executor_record" where
  "executor_record_new descriptor tick lease =
     \<lparr>er_descriptor = descriptor, er_lease_generation = lease, er_state = ExecRegistered, er_running_tasks = [],
      er_last_heartbeat_tick = tick, er_health_snapshot = None, er_consecutive_task_failures = 0,
      er_breaker_tripped_at_ms = None\<rparr>"

definition registry_new_exec :: "nat \<Rightarrow> nat option \<Rightarrow> executor_registry" where
  "registry_new_exec timeout threshold =
     \<lparr>xr_executors = [], xr_current_tick = 0, xr_heartbeat_timeout_ticks = max timeout 1,
      xr_memory_threshold_bytes = threshold\<rparr>"

definition reset_for_recovery :: "executor_registry \<Rightarrow> executor_registry" where
  "reset_for_recovery r = r\<lparr>xr_executors := [], xr_current_tick := 0\<rparr>"

section \<open>Membership\<close>

definition find_executor :: "executor_registry \<Rightarrow> string \<Rightarrow> scheduler_error + executor_record" where
  "find_executor r eid = (case map_of (xr_executors r) eid of None \<Rightarrow> Inl (UnknownExecutor eid) | Some e \<Rightarrow> Inr e)"

text \<open>\<open>find_executor_mut\<close> and the assignments through it.\<close>

definition update_executor :: "string \<Rightarrow> (executor_record \<Rightarrow> executor_record) \<Rightarrow> executor_registry \<Rightarrow> executor_registry" where
  "update_executor eid f r =
     r\<lparr>xr_executors := map (\<lambda>(k, e). (k, if k = eid then f e else e)) (xr_executors r)\<rparr>"

definition validate_executor_lease :: "string \<Rightarrow> nat \<Rightarrow> nat \<Rightarrow> scheduler_error + unit" where
  "validate_executor_lease eid expected received =
     (if received = expected then Inr () else Inl (StaleExecutorLease eid expected received))"

definition register_exec :: "executor_registry \<Rightarrow> executor_descriptor \<Rightarrow> executor_registry \<times> nat" where
  "register_exec r descriptor =
     (let eid = ed_executor_id descriptor in
      case map_of (xr_executors r) eid of
        Some e \<Rightarrow>
          (let new_lease = (if can_accept_work (er_state e) \<or> er_state e = ExecDraining
                            then lease_next (er_lease_generation e) else er_lease_generation e)
           in (update_executor eid (\<lambda>e. e\<lparr>er_descriptor := descriptor, er_state := ExecRegistered, er_running_tasks := [],
                 er_last_heartbeat_tick := xr_current_tick r, er_health_snapshot := None, er_lease_generation := new_lease,
                 er_consecutive_task_failures := 0, er_breaker_tripped_at_ms := None\<rparr>) r, new_lease))
      | None \<Rightarrow>
          (r\<lparr>xr_executors := amap_insert eid (executor_record_new descriptor (xr_current_tick r) lease_initial) (xr_executors r)\<rparr>,
           lease_initial))"

definition heartbeat :: "executor_registry \<Rightarrow> executor_heartbeat \<Rightarrow> executor_registry \<times> (scheduler_error + unit)" where
  "heartbeat r hb =
     (case find_executor r (hb_executor_id hb) of
        Inl err \<Rightarrow> (r, Inl err)
      | Inr e \<Rightarrow>
          (case validate_executor_lease (hb_executor_id hb) (er_lease_generation e) (hb_lease_generation hb) of
             Inl err \<Rightarrow> (r, Inl err)
           | Inr _ \<Rightarrow>
               (update_executor (hb_executor_id hb) (\<lambda>e. e\<lparr>er_state := hb_state hb, er_running_tasks := hb_running_tasks hb,
                  er_last_heartbeat_tick := xr_current_tick r,
                  er_health_snapshot := Some \<lparr>eh_memory_used_bytes = hb_memory_used_bytes hb,
                    eh_memory_limit_bytes = hb_memory_limit_bytes hb, eh_active_task_count = hb_active_task_count hb,
                    eh_network_bytes_sent = hb_network_bytes_sent hb, eh_network_bytes_recv = hb_network_bytes_recv hb\<rparr>\<rparr>) r,
                Inr ())))"

definition touch :: "executor_registry \<Rightarrow> string \<Rightarrow> executor_registry \<times> (scheduler_error + unit)" where
  "touch r eid =
     (case find_executor r eid of
        Inl err \<Rightarrow> (r, Inl err)
      | Inr _ \<Rightarrow> (update_executor eid (\<lambda>e. e\<lparr>er_last_heartbeat_tick := xr_current_tick r\<rparr>) r, Inr ()))"

definition retire :: "executor_state \<Rightarrow> executor_record \<Rightarrow> executor_record" where
  "retire st e = e\<lparr>er_state := st, er_running_tasks := [], er_lease_generation := lease_next (er_lease_generation e)\<rparr>"

definition deregister :: "executor_registry \<Rightarrow> string \<Rightarrow> nat \<Rightarrow> executor_registry \<times> (scheduler_error + nat)" where
  "deregister r eid lease =
     (case find_executor r eid of
        Inl err \<Rightarrow> (r, Inl err)
      | Inr e \<Rightarrow>
          (case validate_executor_lease eid (er_lease_generation e) lease of
             Inl err \<Rightarrow> (r, Inl err)
           | Inr _ \<Rightarrow> (update_executor eid (retire ExecRemoved) r, Inr (lease_next (er_lease_generation e)))))"

definition mark_lost :: "executor_registry \<Rightarrow> string \<Rightarrow> executor_registry \<times> (scheduler_error + unit)" where
  "mark_lost r eid =
     (case find_executor r eid of
        Inl err \<Rightarrow> (r, Inl err)
      | Inr _ \<Rightarrow> (update_executor eid (retire ExecLost) r, Inr ()))"

definition drain_executor :: "executor_registry \<Rightarrow> string \<Rightarrow> executor_registry \<times> (scheduler_error + nat)" where
  "drain_executor r eid =
     (case find_executor r eid of
        Inl err \<Rightarrow> (r, Inl err)
      | Inr e \<Rightarrow>
          (if er_state e \<in> {ExecDraining, ExecRemoved, ExecLost} then r
           else update_executor eid (\<lambda>e. e\<lparr>er_state := ExecDraining\<rparr>) r, Inr (er_lease_generation e)))"

section \<open>The timeout sweep\<close>

definition retention_ticks :: "executor_registry \<Rightarrow> nat" where
  "retention_ticks r = max (saturating_mul_u64 (xr_heartbeat_timeout_ticks r) 40) 360"

definition expired_corpse :: "executor_registry \<Rightarrow> executor_record \<Rightarrow> bool" where
  "expired_corpse r e \<longleftrightarrow> er_state e \<in> {ExecLost, ExecRemoved}
     \<and> xr_current_tick r - er_last_heartbeat_tick e \<ge> retention_ticks r"

definition silent :: "executor_registry \<Rightarrow> executor_record \<Rightarrow> bool" where
  "silent r e \<longleftrightarrow> er_state e \<in> {ExecRegistered, ExecHealthy, ExecDraining}
     \<and> xr_current_tick r - er_last_heartbeat_tick e \<ge> xr_heartbeat_timeout_ticks r"

definition advance_clock_excluding :: "executor_registry \<Rightarrow> nat \<Rightarrow> string list \<Rightarrow> executor_registry \<times> string list" where
  "advance_clock_excluding r ticks protected =
     (let r1 = r\<lparr>xr_current_tick := saturating_add_u64 (xr_current_tick r) ticks\<rparr>;
          kept = filter (\<lambda>(_, e). \<not> expired_corpse r1 e) (xr_executors r1);
          evict = (\<lambda>e. er_id e \<notin> set protected \<and> silent r1 e)
      in (r1\<lparr>xr_executors := map (\<lambda>(k, e). (k, if evict e then retire ExecLost e else e)) kept\<rparr>,
          map (\<lambda>(_, e). er_id e) (filter (\<lambda>(_, e). evict e) kept)))"

definition advance_clock :: "executor_registry \<Rightarrow> nat \<Rightarrow> executor_registry \<times> string list" where
  "advance_clock r ticks = advance_clock_excluding r ticks []"

section \<open>Scheduling views\<close>

definition validate_lease :: "executor_registry \<Rightarrow> string \<Rightarrow> nat \<Rightarrow> scheduler_error + nat" where
  "validate_lease r eid lease =
     (case find_executor r eid of
        Inl err \<Rightarrow> Inl err
      | Inr e \<Rightarrow> (case validate_executor_lease eid (er_lease_generation e) lease of
                   Inl err \<Rightarrow> Inl err | Inr _ \<Rightarrow> Inr (er_lease_generation e)))"

definition assignment_leases :: "executor_registry \<Rightarrow> (string \<times> nat) list" where
  "assignment_leases r = map (\<lambda>(eid, e). (eid, er_lease_generation e)) (xr_executors r)"

definition executor_hosts :: "executor_registry \<Rightarrow> (string, string) amap" where
  "executor_hosts r = map (\<lambda>(_, e). (er_id e, ed_host (er_descriptor e))) (xr_executors r)"

definition is_schedulable :: "executor_registry \<Rightarrow> executor_record \<Rightarrow> bool" where
  "is_schedulable r e \<longleftrightarrow>
     can_accept_work (er_state e) \<and> ed_slots (er_descriptor e) \<noteq> 0
     \<and> \<not> (case (xr_memory_threshold_bytes r, Option.bind (er_health_snapshot e) eh_memory_used_bytes) of
           (Some threshold, Some used) \<Rightarrow> used \<ge> threshold | _ \<Rightarrow> False)"

definition schedulable_executors :: "executor_registry \<Rightarrow> executor_descriptor list" where
  "schedulable_executors r = map (\<lambda>(_, e). er_descriptor e) (filter (\<lambda>(_, e). is_schedulable r e) (xr_executors r))"

definition total_schedulable_slots_excluding :: "executor_registry \<Rightarrow> string list \<Rightarrow> nat" where
  "total_schedulable_slots_excluding r excluded =
     sum_list (map (\<lambda>(_, e). ed_slots (er_descriptor e))
       (filter (\<lambda>(_, e). is_schedulable r e \<and> er_id e \<notin> set excluded) (xr_executors r)))"

definition cluster_available_memory_bytes :: "executor_registry \<Rightarrow> nat option" where
  "cluster_available_memory_bytes r =
     foldl (\<lambda>total (_, e).
        if can_accept_work (er_state e) then
          (case er_health_snapshot e of
             None \<Rightarrow> total
           | Some s \<Rightarrow>
               (case eh_memory_limit_bytes s of
                  None \<Rightarrow> total
                | Some limit \<Rightarrow>
                    Some (saturating_add_u64 (case total of None \<Rightarrow> 0 | Some n \<Rightarrow> n)
                      (limit - (case eh_memory_used_bytes s of None \<Rightarrow> 0 | Some u \<Rightarrow> u)))))
        else total) None (xr_executors r)"

section \<open>Circuit breaker\<close>

definition record_task_failure_of :: "nat \<Rightarrow> nat \<Rightarrow> executor_record \<Rightarrow> executor_record \<times> bool" where
  "record_task_failure_of threshold now_ms e =
     (if threshold = 0 then (e, False)
      else
        (let n = saturating_add_u32 (er_consecutive_task_failures e) 1;
             e1 = e\<lparr>er_consecutive_task_failures := n\<rparr>
         in (if n \<ge> threshold then e1\<lparr>er_breaker_tripped_at_ms := Some now_ms\<rparr> else e1, n \<ge> threshold)))"

definition record_task_failure :: "executor_registry \<Rightarrow> string \<Rightarrow> nat \<Rightarrow> nat \<Rightarrow> executor_registry \<times> bool" where
  "record_task_failure r eid threshold now_ms =
     (case map_of (xr_executors r) eid of
        None \<Rightarrow> (r, False)
      | Some e \<Rightarrow> (update_executor eid (fst \<circ> record_task_failure_of threshold now_ms) r,
                  snd (record_task_failure_of threshold now_ms e)))"

definition reset_task_failures :: "executor_registry \<Rightarrow> string \<Rightarrow> executor_registry \<times> bool" where
  "reset_task_failures r eid =
     (if map_of (xr_executors r) eid = None then (r, False)
      else (update_executor eid (\<lambda>e. e\<lparr>er_consecutive_task_failures := 0, er_breaker_tripped_at_ms := None\<rparr>) r, True))"

definition executors_over_failure_threshold :: "executor_registry \<Rightarrow> nat \<Rightarrow> string list" where
  "executors_over_failure_threshold r threshold =
     (if threshold = 0 then []
      else map (\<lambda>(_, e). er_id e) (filter (\<lambda>(_, e). er_consecutive_task_failures e \<ge> threshold) (xr_executors r)))"

definition breaker_open :: "nat \<Rightarrow> nat \<Rightarrow> nat \<Rightarrow> executor_record \<Rightarrow> bool" where
  "breaker_open threshold now_ms cooldown_ms e \<longleftrightarrow>
     er_consecutive_task_failures e \<ge> threshold
     \<and> (case er_breaker_tripped_at_ms e of None \<Rightarrow> False | Some at \<Rightarrow> now_ms - at < cooldown_ms)"

definition circuit_broken_executors :: "executor_registry \<Rightarrow> nat \<Rightarrow> nat \<Rightarrow> nat \<Rightarrow> string list" where
  "circuit_broken_executors r threshold now_ms cooldown_ms =
     (if threshold = 0 then []
      else
        (let broken = map (\<lambda>(_, e). er_id e) (filter (\<lambda>(_, e). breaker_open threshold now_ms cooldown_ms e) (xr_executors r))
         in if broken = [] then broken
            else if list_ex (\<lambda>(_, e). is_schedulable r e \<and> er_id e \<notin> set broken) (xr_executors r) then broken
            else []))"

section \<open>Runs\<close>

datatype reg_op =
    RegRegister executor_descriptor
  | RegHeartbeat executor_heartbeat
  | RegTouch string
  | RegDeregister string nat
  | RegLost string
  | RegDrain string
  | RegAdvance nat "string list"
  | RegFailure string nat nat
  | RegReset string

fun reg_step :: "executor_registry \<Rightarrow> reg_op \<Rightarrow> executor_registry \<times> (string \<times> nat) list" where
  "reg_step r (RegRegister d) = (fst (register_exec r d), [(ed_executor_id d, snd (register_exec r d))])"
| "reg_step r (RegHeartbeat hb) = (fst (heartbeat r hb), [])"
| "reg_step r (RegTouch eid) = (fst (touch r eid), [])"
| "reg_step r (RegDeregister eid lease) = (fst (deregister r eid lease), [])"
| "reg_step r (RegLost eid) = (fst (mark_lost r eid), [])"
| "reg_step r (RegDrain eid) = (fst (drain_executor r eid), [])"
| "reg_step r (RegAdvance ticks protected) = (fst (advance_clock_excluding r ticks protected), [])"
| "reg_step r (RegFailure eid threshold now_ms) = (fst (record_task_failure r eid threshold now_ms), [])"
| "reg_step r (RegReset eid) = (fst (reset_task_failures r eid), [])"

text \<open>A run returns the leases it issued, in order.\<close>

fun reg_run :: "executor_registry \<Rightarrow> reg_op list \<Rightarrow> executor_registry \<times> (string \<times> nat) list" where
  "reg_run r [] = (r, [])"
| "reg_run r (x # xs) =
     (case reg_step r x of (r', ls) \<Rightarrow> (case reg_run r' xs of (r'', ls') \<Rightarrow> (r'', ls @ ls')))"

definition live_state :: "executor_state \<Rightarrow> bool" where
  "live_state s \<longleftrightarrow> can_accept_work s \<or> s = ExecDraining"

text \<open>
  An executor reports itself lost or removed only by deregistering, and the corpses stay in the
  registry for the retention window: no sweep of the run prunes a record.
\<close>

fun retained :: "executor_registry \<Rightarrow> reg_op \<Rightarrow> bool" where
  "retained r (RegHeartbeat hb) = live_state (hb_state hb)"
| "retained r (RegAdvance ticks protected) =
     list_all (\<lambda>(_, e). \<not> expired_corpse (r\<lparr>xr_current_tick := saturating_add_u64 (xr_current_tick r) ticks\<rparr>) e) (xr_executors r)"
| "retained r _ = True"

fun all_retained :: "executor_registry \<Rightarrow> reg_op list \<Rightarrow> bool" where
  "all_retained r [] = True"
| "all_retained r (x # xs) = (retained r x \<and> all_retained (fst (reg_step r x)) xs)"

section \<open>Leases\<close>

lemma live_state_iff: "live_state s \<longleftrightarrow> s \<notin> {ExecLost, ExecRemoved}"
  by (cases s) (simp_all add: live_state_def)

definition ages :: "executor_record \<Rightarrow> executor_record \<Rightarrow> bool" where
  "ages e e' \<longleftrightarrow> er_lease_generation e \<le> er_lease_generation e' \<and> er_lease_generation e' \<le> Suc (er_lease_generation e)
     \<and> (er_lease_generation e < u64_max \<longrightarrow> \<not> live_state (er_state e') \<longrightarrow>
          \<not> live_state (er_state e) \<or> er_lease_generation e < er_lease_generation e')
     \<and> (er_lease_generation e' = er_lease_generation e \<or> \<not> live_state (er_state e'))"

lemma ages_refl [simp]: "ages e e"
  by (simp add: ages_def)

lemma ages_retire [simp]: "st = ExecLost \<or> st = ExecRemoved \<Longrightarrow> ages e (retire st e)"
  by (auto simp: ages_def retire_def lease_next_def live_state_iff)

lemma map_of_update: "map_of (xr_executors (update_executor eid f r)) k =
    (if k = eid then map_option f (map_of (xr_executors r) k) else map_of (xr_executors r) k)"
proof -
  have "map_of (map (\<lambda>(k, e). (k, if k = eid then f e else e)) m) k = (if k = eid then map_option f (map_of m k) else map_of m k)" for m
    by (induction m) auto
  then show ?thesis by (simp add: update_executor_def)
qed

lemma map_of_map_value: "map_of (map (\<lambda>(k, e). (k, f e)) m) k = map_option f (map_of m k)"
  by (induction m) auto

text \<open>Every step but a registration keeps the executors and only lets their leases age.\<close>

lemma step_ages:
  assumes "\<forall>d. x \<noteq> RegRegister d" and "retained r x"
  shows "rel_option ages (map_of (xr_executors r) k) (map_of (xr_executors (fst (reg_step r x))) k) \<and> snd (reg_step r x) = []"
proof -
  have upd: "rel_option ages (map_of (xr_executors r) k) (map_of (xr_executors (update_executor eid f r)) k)"
    if "\<And>e. ages e (f e)" for eid f
    using that by (cases "k = eid"; cases "map_of (xr_executors r) k") (simp_all add: map_of_update)
  have refl: "rel_option ages a a" for a by (cases a) simp_all
  show ?thesis
  proof (cases x)
    case (RegHeartbeat hb)
    with assms(2) show ?thesis
      by (auto simp: heartbeat_def refl ages_def intro!: upd split: sum.split)
  next
    case (RegAdvance ticks protected)
    let ?r1 = "r\<lparr>xr_current_tick := saturating_add_u64 (xr_current_tick r) ticks\<rparr>"
    have "filter (\<lambda>(_, e). \<not> expired_corpse ?r1 e) (xr_executors r) = xr_executors r"
      using assms(2) RegAdvance by (simp add: list_all_iff case_prod_beta)
    then have "xr_executors (fst (advance_clock_excluding r ticks protected)) =
        map (\<lambda>(k, e). (k, if er_id e \<notin> set protected \<and> silent ?r1 e then retire ExecLost e else e)) (xr_executors r)"
      by (simp add: advance_clock_excluding_def Let_def)
    with RegAdvance show ?thesis by (cases "map_of (xr_executors r) k") (simp_all add: map_of_map_value)
  next
    case (RegFailure eid threshold now_ms)
    have "ages e (fst (record_task_failure_of threshold now_ms e))" for e
      by (simp add: record_task_failure_of_def Let_def ages_def)
    with RegFailure show ?thesis by (auto simp: record_task_failure_def refl intro!: upd split: option.split)
  next
    case (RegDrain eid)
    have "ages e (e\<lparr>er_state := ExecDraining\<rparr>)" for e by (simp add: ages_def live_state_iff)
    with RegDrain show ?thesis by (auto simp: drain_executor_def refl intro!: upd split: sum.split)
  next
    case (RegTouch eid)
    then show ?thesis by (auto simp: touch_def refl ages_def intro!: upd split: sum.split)
  next
    case (RegReset eid)
    then show ?thesis by (auto simp: reset_task_failures_def refl ages_def intro!: upd)
  qed (use assms in \<open>auto simp: deregister_def mark_lost_def refl intro!: upd split: sum.split\<close>)
qed

definition lease_inv :: "nat \<Rightarrow> (string \<times> nat) list \<Rightarrow> executor_registry \<Rightarrow> bool" where
  "lease_inv n issued r \<longleftrightarrow> distinct issued
     \<and> (\<forall>k e. map_of (xr_executors r) k = Some e \<longrightarrow> er_lease_generation e \<le> Suc n)
     \<and> (\<forall>(k, g) \<in> set issued. \<exists>e. map_of (xr_executors r) k = Some e
          \<and> (if live_state (er_state e) then g \<le> er_lease_generation e else g < er_lease_generation e)
          \<and> (live_state (er_state e) \<longrightarrow> g = er_lease_generation e \<longrightarrow> map_of (rev issued) k = Some g))"

lemma lease_inv_age:
  assumes inv: "lease_inv n issued r" and n: "n < u64_max - 1"
    and ag: "\<And>k. rel_option ages (map_of (xr_executors r) k) (map_of (xr_executors r') k)"
  shows "lease_inv (Suc n) issued r'"
proof -
  have "\<exists>e'. map_of (xr_executors r') k = Some e'
      \<and> (if live_state (er_state e') then g \<le> er_lease_generation e' else g < er_lease_generation e')
      \<and> (live_state (er_state e') \<longrightarrow> g = er_lease_generation e' \<longrightarrow> map_of (rev issued) k = Some g)" if i: "(k, g) \<in> set issued" for k g
  proof -
    from inv i obtain e where e: "map_of (xr_executors r) k = Some e"
      "if live_state (er_state e) then g \<le> er_lease_generation e else g < er_lease_generation e"
      "live_state (er_state e) \<longrightarrow> g = er_lease_generation e \<longrightarrow> map_of (rev issued) k = Some g"
      unfolding lease_inv_def by fast
    from ag [of k] e(1) obtain e' where e': "map_of (xr_executors r') k = Some e'" "ages e e'" by (auto simp: option_rel_Some1)
    have "er_lease_generation e < u64_max" using inv e(1) n unfolding lease_inv_def by fastforce
    with e(2,3) e'(2) have "(if live_state (er_state e') then g \<le> er_lease_generation e' else g < er_lease_generation e')
      \<and> (live_state (er_state e') \<longrightarrow> g = er_lease_generation e' \<longrightarrow> map_of (rev issued) k = Some g)"
      unfolding ages_def by (auto split: if_splits)
    with e'(1) show ?thesis by blast
  qed
  moreover have "er_lease_generation e' \<le> Suc (Suc n)" if e': "map_of (xr_executors r') k = Some e'" for k e'
  proof -
    from ag [of k] e' obtain e where "map_of (xr_executors r) k = Some e" "ages e e'" by (auto simp: option_rel_Some2)
    with inv show ?thesis unfolding lease_inv_def ages_def by fastforce
  qed
  ultimately show ?thesis using inv unfolding lease_inv_def by blast
qed

lemma lease_inv_register:
  assumes inv: "lease_inv n issued r" and n: "n < u64_max - 1" and reg: "register_exec r d = (r', g')"
  shows "lease_inv (Suc n) (issued @ [(ed_executor_id d, g')]) r'"
proof -
  let ?k = "ed_executor_id d"
  have r': "\<exists>e'. map_of (xr_executors r') = (map_of (xr_executors r))(?k \<mapsto> e') \<and> live_state (er_state e')
      \<and> er_lease_generation e' = g' \<and> g' \<le> Suc (Suc n) \<and> (\<forall>g. (?k, g) \<in> set issued \<longrightarrow> g < g')"
  proof (cases "map_of (xr_executors r) ?k")
    case None
    have "(?k, g) \<notin> set issued" for g using inv None unfolding lease_inv_def by fastforce
    with reg None show ?thesis
      by (auto simp: register_exec_def Let_def executor_record_new_def live_state_iff lease_initial_def)
  next
    case (Some e)
    have le: "er_lease_generation e \<le> Suc n" using inv Some unfolding lease_inv_def by blast
    have old: "if live_state (er_state e) then g \<le> er_lease_generation e else g < er_lease_generation e" if "(?k, g) \<in> set issued" for g
      using inv that Some unfolding lease_inv_def by fastforce
    have g': "g' = (if live_state (er_state e) then lease_next (er_lease_generation e) else er_lease_generation e)"
      using reg Some by (auto simp: register_exec_def Let_def live_state_def)
    have "er_lease_generation e < u64_max" using le n by linarith
    then have "g < g'" if "(?k, g) \<in> set issued" for g using old [OF that] g' by (auto simp: lease_next_def split: if_splits)
    moreover have "g' \<le> Suc (Suc n)" using g' le by (auto simp: lease_next_def)
    moreover have "map_of (xr_executors r') = (map_of (xr_executors r))(?k \<mapsto> e\<lparr>er_descriptor := d, er_state := ExecRegistered,
        er_running_tasks := [], er_last_heartbeat_tick := xr_current_tick r, er_health_snapshot := None, er_lease_generation := g',
        er_consecutive_task_failures := 0, er_breaker_tripped_at_ms := None\<rparr>)"
      using reg Some g' by (auto simp: register_exec_def Let_def map_of_update fun_eq_iff live_state_def)
    ultimately show ?thesis by (auto simp: live_state_iff)
  qed
  then obtain e' where m: "map_of (xr_executors r') = (map_of (xr_executors r))(?k \<mapsto> e')"
    and e': "live_state (er_state e')" "er_lease_generation e' = g'" "g' \<le> Suc (Suc n)" and lt: "\<And>g. (?k, g) \<in> set issued \<Longrightarrow> g < g'" by blast
  have "distinct (issued @ [(?k, g')])" using inv lt by (auto simp: lease_inv_def)
  moreover have "er_lease_generation e \<le> Suc (Suc n)" if "map_of (xr_executors r') k = Some e" for k e
    using that m e' inv by (auto simp: lease_inv_def split: if_splits) (metis le_SucI)
  moreover have "\<exists>e. map_of (xr_executors r') k = Some e
      \<and> (if live_state (er_state e) then g \<le> er_lease_generation e else g < er_lease_generation e)
      \<and> (live_state (er_state e) \<longrightarrow> g = er_lease_generation e \<longrightarrow> map_of (rev (issued @ [(?k, g')])) k = Some g)"
    if "(k, g) \<in> set (issued @ [(?k, g')])" for k g
  proof (cases "k = ?k")
    case True
    then have "g \<le> g'" using that lt [of g] by auto
    with True m e' show ?thesis by auto
  next
    case False
    then have "(k, g) \<in> set issued" using that by auto
    with inv obtain e where "map_of (xr_executors r) k = Some e"
      "if live_state (er_state e) then g \<le> er_lease_generation e else g < er_lease_generation e"
      "live_state (er_state e) \<longrightarrow> g = er_lease_generation e \<longrightarrow> map_of (rev issued) k = Some g"
      unfolding lease_inv_def by fast
    with False m show ?thesis by auto
  qed
  ultimately show ?thesis unfolding lease_inv_def by blast
qed

lemma run_lease_inv:
  assumes "lease_inv n issued r" and "all_retained r xs" and "n + length xs < u64_max" and "reg_run r xs = (r', ls)"
  shows "lease_inv (n + length xs) (issued @ ls) r'"
  using assms
proof (induction xs arbitrary: n issued r ls)
  case (Cons x xs)
  obtain r1 l1 where s: "reg_step r x = (r1, l1)" by fastforce
  obtain l2 where run: "reg_run r1 xs = (r', l2)" "ls = l1 @ l2" using Cons.prems(4) s by (auto split: prod.splits)
  have "n < u64_max - 1" using Cons.prems(3) by simp
  have "lease_inv (Suc n) (issued @ l1) r1"
  proof (cases "\<exists>d. x = RegRegister d")
    case True
    then obtain d where x: "x = RegRegister d" by blast
    with s have "register_exec r d = (r1, snd (register_exec r d))" "l1 = [(ed_executor_id d, snd (register_exec r d))]" by auto
    with lease_inv_register [OF Cons.prems(1) \<open>n < u64_max - 1\<close> this(1)] show ?thesis by simp
  next
    case False
    with step_ages [of x r] Cons.prems(2) s have "rel_option ages (map_of (xr_executors r) k) (map_of (xr_executors r1) k)" "l1 = []" for k
      by auto
    with lease_inv_age [OF Cons.prems(1) \<open>n < u64_max - 1\<close>] show ?thesis by simp
  qed
  from Cons.IH [OF this _ _ run(1)] Cons.prems(2,3) s run(2) show ?case by simp
qed simp

text \<open>
  C6. Leases fence. Over any run in which executors report only live states and no record is pruned,
  no lease (executor and generation) is issued twice, and a lease that was issued is accepted only
  while it is the newest one of its executor and the executor is neither lost nor removed: the
  messages of a replaced or evicted process are refused.
\<close>

theorem leases_fence:
  assumes "all_retained (registry_new_exec timeout threshold) xs" and "length xs < u64_max"
    and "reg_run (registry_new_exec timeout threshold) xs = (r, issued)"
  shows "distinct issued \<and> (\<forall>k g. (k, g) \<in> set issued \<longrightarrow> is_ok (validate_lease r k g) \<longrightarrow>
    map_of (rev issued) k = Some g \<and> (\<exists>e. map_of (xr_executors r) k = Some e \<and> live_state (er_state e)))"
proof -
  have "lease_inv 0 [] (registry_new_exec timeout threshold)" by (simp add: lease_inv_def registry_new_exec_def)
  from run_lease_inv [OF this assms(1) _ assms(3)] assms(2) have inv: "lease_inv (length xs) issued r" by simp
  have "map_of (rev issued) k = Some g \<and> (\<exists>e. map_of (xr_executors r) k = Some e \<and> live_state (er_state e))"
    if i: "(k, g) \<in> set issued" and v: "is_ok (validate_lease r k g)" for k g
  proof -
    from inv i obtain e where e: "map_of (xr_executors r) k = Some e"
      "if live_state (er_state e) then g \<le> er_lease_generation e else g < er_lease_generation e"
      "live_state (er_state e) \<longrightarrow> g = er_lease_generation e \<longrightarrow> map_of (rev issued) k = Some g"
      unfolding lease_inv_def by fast
    from v e(1) have "g = er_lease_generation e"
      by (auto simp: validate_lease_def find_executor_def validate_executor_lease_def split: if_splits)
    with e show ?thesis by (auto split: if_splits)
  qed
  with inv show ?thesis unfolding lease_inv_def by blast
qed

definition demo_descriptor :: executor_descriptor where
  "demo_descriptor = \<lparr>ed_executor_id = ''e1'', ed_host = ''h1'', ed_slots = 2, ed_task_endpoint = None,
     ed_barrier_endpoint = None, ed_rack_id = None, ed_incarnation_id = None, ed_http_endpoint = None\<rparr>"

text \<open>A process registers, is evicted by the sweep, and a new process registers under the same id.\<close>

definition demo_membership :: "reg_op list" where
  "demo_membership = [RegRegister demo_descriptor, RegAdvance 3 [], RegRegister demo_descriptor]"

lemma demo_membership_run:
  "snd (reg_run (registry_new_exec 3 None) demo_membership) = [(''e1'', 1), (''e1'', 2)]
   \<and> all_retained (registry_new_exec 3 None) demo_membership"
  by (simp add: demo_membership_def demo_descriptor_def registry_new_exec_def register_exec_def Let_def
      executor_record_new_def lease_initial_def lease_next_def advance_clock_excluding_def expired_corpse_def
      silent_def retire_def update_executor_def saturating_add_u64_def)

theorem leases_fence_witness:
  "\<exists>r. reg_run (registry_new_exec 3 None) demo_membership = (r, [(''e1'', 1), (''e1'', 2)])
    \<and> \<not> is_ok (validate_lease r ''e1'' 1)"
proof -
  obtain r where r: "reg_run (registry_new_exec 3 None) demo_membership = (r, [(''e1'', 1), (''e1'', 2)])"
    using demo_membership_run by (metis prod.collapse)
  have "length demo_membership < u64_max" by (simp add: demo_membership_def)
  from leases_fence [OF conjunct2 [OF demo_membership_run] this r] r show ?thesis by auto
qed

section \<open>The sweep\<close>

fun speaks :: "string \<Rightarrow> reg_op \<Rightarrow> bool" where
  "speaks k (RegRegister d) = (ed_executor_id d = k)"
| "speaks k (RegHeartbeat hb) = (hb_executor_id hb = k)"
| "speaks k (RegTouch eid) = (eid = k)"
| "speaks k _ = False"

fun ticks_of :: "reg_op \<Rightarrow> nat" where
  "ticks_of (RegAdvance ticks protected) = ticks"
| "ticks_of _ = 0"

fun spares :: "string \<Rightarrow> reg_op \<Rightarrow> bool" where
  "spares k (RegAdvance ticks protected) = (k \<in> set protected)"
| "spares k _ = False"

text \<open>What a step does to the record of an executor that is silent in it.\<close>

definition fades :: "executor_record \<Rightarrow> executor_record \<Rightarrow> bool" where
  "fades e e' \<longleftrightarrow> er_id e' = er_id e \<and> er_last_heartbeat_tick e' = er_last_heartbeat_tick e
     \<and> (live_state (er_state e') \<longrightarrow> live_state (er_state e))"

lemma fades_simps [simp]: "fades e e" "st = ExecLost \<or> st = ExecRemoved \<Longrightarrow> fades e (retire st e)"
  by (auto simp: fades_def retire_def live_state_iff)

lemma register_other: "ed_executor_id d \<noteq> k \<Longrightarrow> map_of (xr_executors (fst (register_exec r d))) k = map_of (xr_executors r) k"
  by (auto simp: register_exec_def Let_def map_of_update split: option.split)

lemma silent_step:
  assumes "\<not> speaks k x" and "\<forall>ticks protected. x \<noteq> RegAdvance ticks protected"
  shows "rel_option fades (map_of (xr_executors r) k) (map_of (xr_executors (fst (reg_step r x))) k)
    \<and> xr_current_tick (fst (reg_step r x)) = xr_current_tick r
    \<and> xr_heartbeat_timeout_ticks (fst (reg_step r x)) = xr_heartbeat_timeout_ticks r"
proof -
  have same: "xr_current_tick (update_executor eid f r) = xr_current_tick r"
    "xr_heartbeat_timeout_ticks (update_executor eid f r) = xr_heartbeat_timeout_ticks r" for eid f
    by (simp_all add: update_executor_def)
  have upd: "rel_option fades (map_of (xr_executors r) k) (map_of (xr_executors (update_executor eid f r)) k)"
    if "k = eid \<Longrightarrow> \<forall>e. map_of (xr_executors r) k = Some e \<longrightarrow> fades e (f e)" for eid f
    using that by (cases "k = eid"; cases "map_of (xr_executors r) k") (simp_all add: map_of_update)
  have refl: "rel_option fades a a" for a by (cases a) simp_all
  show ?thesis
  proof (cases x)
    case (RegRegister d)
    with assms(1) show ?thesis
      by (simp add: register_other refl) (simp add: register_exec_def Let_def same split: option.split)
  next
    case (RegHeartbeat hb)
    with assms(1) show ?thesis by (auto simp: heartbeat_def refl same intro!: upd split: sum.split)
  next
    case (RegTouch eid)
    with assms(1) show ?thesis by (auto simp: touch_def refl same intro!: upd split: sum.split)
  next
    case (RegDrain eid)
    have "fades e (e\<lparr>er_state := ExecDraining\<rparr>)" if "er_state e \<notin> {ExecDraining, ExecRemoved, ExecLost}" for e
      using that by (simp add: fades_def live_state_iff)
    with RegDrain show ?thesis
      by (auto simp: drain_executor_def find_executor_def refl same intro!: upd split: sum.split option.splits)
  next
    case (RegFailure eid threshold now_ms)
    have "fades e (fst (record_task_failure_of threshold now_ms e))" for e
      by (simp add: record_task_failure_of_def Let_def fades_def)
    with RegFailure show ?thesis by (auto simp: record_task_failure_def refl same intro!: upd split: option.split)
  next
    case (RegReset eid)
    then show ?thesis by (auto simp: reset_task_failures_def refl same fades_def intro!: upd)
  qed (use assms in \<open>auto simp: deregister_def mark_lost_def refl same intro!: upd split: sum.split\<close>)
qed

lemma map_of_filter_value: "amap_wf m \<Longrightarrow> map_of (filter (\<lambda>(k, e). P e) m) k =
    (case map_of m k of None \<Rightarrow> None | Some e \<Rightarrow> if P e then Some e else None)"
proof (induction m)
  case (Cons a m)
  then have "fst a \<notin> fst ` set m" by (simp add: amap_wf_def)
  then have "map_of m (fst a) = None" "map_of (filter (\<lambda>(k, e). P e) m) (fst a) = None"
    by (auto simp: map_of_eq_None_iff)
  with Cons show ?case by (cases a) (auto simp: amap_wf_def)
qed simp

lemma sweep_step:
  assumes "advance_clock_excluding r ticks protected = (r', lost)" and "k \<notin> set protected" and "amap_wf (xr_executors r)"
    and "\<forall>e. map_of (xr_executors r) k = Some e \<longrightarrow> er_id e = k" and "xr_current_tick r + ticks \<le> u64_max"
    and e': "map_of (xr_executors r') k = Some e'" "live_state (er_state e')"
  shows "map_of (xr_executors r) k = Some e' \<and> xr_current_tick r' = xr_current_tick r + ticks
    \<and> xr_current_tick r' - er_last_heartbeat_tick e' < xr_heartbeat_timeout_ticks r"
proof -
  let ?r1 = "r\<lparr>xr_current_tick := xr_current_tick r + ticks\<rparr>"
  let ?evict = "\<lambda>e. er_id e \<notin> set protected \<and> silent ?r1 e"
  have sat: "saturating_add_u64 (xr_current_tick r) ticks = xr_current_tick r + ticks"
    using assms(5) by (simp add: saturating_add_u64_def)
  have r': "r' = ?r1\<lparr>xr_executors := map (\<lambda>(k, e). (k, if ?evict e then retire ExecLost e else e))
      (filter (\<lambda>(_, e). \<not> expired_corpse ?r1 e) (xr_executors r))\<rparr>"
    using assms(1) by (auto simp: advance_clock_excluding_def Let_def sat)
  have "map_of (xr_executors r') k = map_option (\<lambda>e. if ?evict e then retire ExecLost e else e)
      (map_of (filter (\<lambda>(_, e). \<not> expired_corpse ?r1 e) (xr_executors r)) k)"
    by (simp add: r' map_of_map_value)
  with e'(1) obtain e where e: "map_of (xr_executors r) k = Some e" "e' = (if ?evict e then retire ExecLost e else e)"
    using assms(3) by (auto simp: map_of_filter_value split: option.splits if_splits)
  have "\<not> ?evict e" using e(2) e'(2) by (auto simp: retire_def live_state_iff)
  moreover from this have "e' = e" using e(2) unfolding if_not_P [OF calculation] by simp
  ultimately have "\<not> silent ?r1 e'" using assms(2,4) e(1) by auto
  moreover have "er_state e' \<in> {ExecRegistered, ExecHealthy, ExecDraining}"
    using e'(2) by (cases "er_state e'") (simp_all add: live_state_iff)
  ultimately show ?thesis using e(1) \<open>e' = e\<close> by (auto simp: silent_def r')
qed

text \<open>The registry invariant: keys are the ids of the records, and no heartbeat lies in the future.\<close>

definition registry_ok :: "executor_registry \<Rightarrow> bool" where
  "registry_ok r \<longleftrightarrow> amap_wf (xr_executors r)
     \<and> (\<forall>k e. map_of (xr_executors r) k = Some e \<longrightarrow> er_id e = k \<and> er_last_heartbeat_tick e \<le> xr_current_tick r)"

lemma amap_wf_map_value [simp]: "amap_wf (map (\<lambda>(k, e). (k, g k e)) m) = amap_wf m"
  by (simp add: amap_wf_def comp_def case_prod_unfold)

lemma registry_ok_update:
  assumes "registry_ok r"
    and "\<And>e. er_id e = eid \<Longrightarrow> er_last_heartbeat_tick e \<le> xr_current_tick r \<Longrightarrow>
      er_id (f e) = eid \<and> er_last_heartbeat_tick (f e) \<le> xr_current_tick r"
  shows "registry_ok (update_executor eid f r)"
proof -
  have "amap_wf (xr_executors (update_executor eid f r))"
    using assms(1) amap_wf_map_value [of "\<lambda>k e. if k = eid then f e else e" "xr_executors r"]
    by (simp add: registry_ok_def update_executor_def)
  moreover have "xr_current_tick (update_executor eid f r) = xr_current_tick r" by (simp add: update_executor_def)
  ultimately show ?thesis using assms by (auto simp: registry_ok_def map_of_update split: if_splits)
qed

lemma registry_ok_sweep:
  assumes "registry_ok r" and "xr_current_tick r \<le> u64_max"
  shows "registry_ok (fst (advance_clock_excluding r ticks protected))"
proof -
  let ?t = "saturating_add_u64 (xr_current_tick r) ticks"
  have "xr_current_tick r \<le> ?t" using assms(2) by (simp add: saturating_add_u64_def)
  moreover have "er_id (if b then retire ExecLost e else e) = er_id e"
    "er_last_heartbeat_tick (if b then retire ExecLost e else e) = er_last_heartbeat_tick e" for b e
    by (simp_all add: retire_def)
  ultimately show ?thesis using assms(1)
    by (fastforce simp: registry_ok_def advance_clock_excluding_def Let_def map_of_map_value map_of_filter_value
        split: option.splits if_splits)
qed

lemma registry_ok_step:
  assumes ok: "registry_ok r" and "xr_current_tick r \<le> u64_max"
  shows "registry_ok (fst (reg_step r x)) \<and> xr_current_tick (fst (reg_step r x)) \<le> u64_max
    \<and> xr_heartbeat_timeout_ticks (fst (reg_step r x)) = xr_heartbeat_timeout_ticks r"
proof -
  have same: "xr_current_tick (update_executor eid f r) = xr_current_tick r"
    "xr_heartbeat_timeout_ticks (update_executor eid f r) = xr_heartbeat_timeout_ticks r" for eid f
    by (simp_all add: update_executor_def)
  show ?thesis
  proof (cases x)
    case (RegRegister d)
    have "registry_ok (r\<lparr>xr_executors := amap_insert (ed_executor_id d)
        (executor_record_new d (xr_current_tick r) lease_initial) (xr_executors r)\<rparr>)"
      using ok by (auto simp: registry_ok_def executor_record_new_def)
    with RegRegister assms show ?thesis
      by (auto simp: register_exec_def Let_def same intro!: registry_ok_update split: option.split)
  next
    case (RegAdvance ticks protected)
    with registry_ok_sweep [OF assms, of ticks protected] show ?thesis
      by (simp add: advance_clock_excluding_def Let_def saturating_add_u64_def)
  next
    case (RegFailure eid threshold now_ms)
    with assms show ?thesis
      by (auto simp: record_task_failure_def record_task_failure_of_def Let_def same intro!: registry_ok_update split: option.split)
  qed (use assms in \<open>auto simp: heartbeat_def touch_def deregister_def mark_lost_def drain_executor_def reset_task_failures_def
      retire_def same intro!: registry_ok_update split: sum.split\<close>)
qed

lemma registry_ok_run:
  assumes "registry_ok r" and "xr_current_tick r \<le> u64_max"
  shows "registry_ok (fst (reg_run r xs)) \<and> xr_current_tick (fst (reg_run r xs)) \<le> u64_max
    \<and> xr_heartbeat_timeout_ticks (fst (reg_run r xs)) = xr_heartbeat_timeout_ticks r"
  using assms
proof (induction xs arbitrary: r)
  case (Cons x xs)
  with Cons.IH [of "fst (reg_step r x)"] registry_ok_step [OF Cons.prems, of x] show ?case
    by (simp add: case_prod_unfold)
qed simp

lemma registry_ok_new: "registry_ok (registry_new_exec timeout threshold)"
  by (simp add: registry_ok_def registry_new_exec_def)

text \<open>The executor runs out of time during the rest of the run, and a sweep is left to notice it.\<close>

definition doomed :: "string \<Rightarrow> reg_op list \<Rightarrow> executor_registry \<Rightarrow> bool" where
  "doomed k xs r \<longleftrightarrow> (\<forall>e. map_of (xr_executors r) k = Some e \<and> live_state (er_state e) \<longrightarrow>
     xr_heartbeat_timeout_ticks r \<le> xr_current_tick r - er_last_heartbeat_tick e + sum_list (map ticks_of xs)
     \<and> (xr_current_tick r - er_last_heartbeat_tick e < xr_heartbeat_timeout_ticks r
        \<or> list_ex (\<lambda>x. \<exists>ticks protected. x = RegAdvance ticks protected) xs))"

lemma doomed_sweep:
  assumes "registry_ok r" and "doomed k (RegAdvance ticks protected # xs) r" and "k \<notin> set protected"
    and "xr_current_tick r + ticks \<le> u64_max"
  shows "doomed k xs (fst (advance_clock_excluding r ticks protected))"
proof -
  obtain r' lost where adv: "advance_clock_excluding r ticks protected = (r', lost)" by fastforce
  have t': "xr_heartbeat_timeout_ticks r' = xr_heartbeat_timeout_ticks r"
    using adv by (auto simp: advance_clock_excluding_def Let_def)
  have "xr_heartbeat_timeout_ticks r' \<le> xr_current_tick r' - er_last_heartbeat_tick e + sum_list (map ticks_of xs)
      \<and> xr_current_tick r' - er_last_heartbeat_tick e < xr_heartbeat_timeout_ticks r'"
    if e: "map_of (xr_executors r') k = Some e" "live_state (er_state e)" for e
  proof -
    have ok: "amap_wf (xr_executors r)" "\<forall>e. map_of (xr_executors r) k = Some e \<longrightarrow> er_id e = k"
      using assms(1) by (auto simp: registry_ok_def)
    note w = sweep_step [OF adv assms(3) ok assms(4) e]
    then have "er_last_heartbeat_tick e \<le> xr_current_tick r" using assms(1) by (auto simp: registry_ok_def)
    moreover have "xr_heartbeat_timeout_ticks r \<le> xr_current_tick r - er_last_heartbeat_tick e + (ticks + sum_list (map ticks_of xs))"
      using assms(2) w e(2) by (auto simp: doomed_def)
    ultimately show ?thesis using w t' by linarith
  qed
  with adv show ?thesis by (simp add: doomed_def)
qed

lemma doomed_other:
  assumes "doomed k (x # xs) r" and "\<not> speaks k x" and "\<forall>ticks protected. x \<noteq> RegAdvance ticks protected"
  shows "doomed k xs (fst (reg_step r x))"
proof -
  have z: "ticks_of x = 0" using assms(3) by (cases x) simp_all
  have "\<exists>e. map_of (xr_executors r) k = Some e \<and> fades e e'"
    if "map_of (xr_executors (fst (reg_step r x))) k = Some e'" for e'
    using silent_step [OF assms(2,3), of r] that by (cases "map_of (xr_executors r) k") auto
  with silent_step [OF assms(2,3), of r] assms(1,3) z show ?thesis
    unfolding doomed_def by (fastforce simp: fades_def)
qed

lemma doomed_run:
  assumes "registry_ok r" and "doomed k xs r" and "list_all (\<lambda>x. \<not> speaks k x \<and> \<not> spares k x) xs"
    and "xr_current_tick r + sum_list (map ticks_of xs) \<le> u64_max"
  shows "doomed k [] (fst (reg_run r xs))"
  using assms
proof (induction xs arbitrary: r)
  case (Cons x xs)
  let ?r = "fst (reg_step r x)"
  have "doomed k xs ?r \<and> xr_current_tick ?r + sum_list (map ticks_of xs) \<le> u64_max"
  proof (cases "\<exists>ticks protected. x = RegAdvance ticks protected")
    case True
    then obtain n p where x: "x = RegAdvance n p" by blast
    have "xr_current_tick r + n \<le> u64_max" "k \<notin> set p" using Cons.prems(3,4) x by simp_all
    moreover from this have "xr_current_tick ?r = xr_current_tick r + n"
      by (simp add: x advance_clock_excluding_def Let_def saturating_add_u64_def)
    ultimately show ?thesis using doomed_sweep [OF Cons.prems(1), of k n p xs] Cons.prems(2,4) x by simp
  next
    case False
    then have "\<not> speaks k x" "\<forall>ticks protected. x \<noteq> RegAdvance ticks protected" using Cons.prems(3) by simp_all
    with doomed_other [OF Cons.prems(2) this] silent_step [OF this, of r] Cons.prems(4) show ?thesis by simp
  qed
  moreover have "registry_ok ?r" using registry_ok_step [OF Cons.prems(1), of x] Cons.prems(4) by simp
  ultimately have "doomed k [] (fst (reg_run ?r xs))" using Cons.IH [of ?r] Cons.prems(3) by simp
  then show ?case by (simp add: case_prod_unfold)
qed simp

lemma not_doomed_Nil: "doomed k [] r \<Longrightarrow> map_of (xr_executors r) k = Some e \<Longrightarrow> \<not> live_state (er_state e)"
  unfolding doomed_def by fastforce

lemma ticks_need_sweep: "0 < sum_list (map ticks_of xs) \<Longrightarrow> list_ex (\<lambda>x. \<exists>ticks protected. x = RegAdvance ticks protected) xs"
proof (induction xs)
  case (Cons x xs)
  then show ?case by (cases x) auto
qed simp

text \<open>
  C10. A silent executor is evicted. Take any registry the coordinator can reach and any further run in
  which executor k neither registers nor sends a heartbeat nor is touched, no sweep protects it, and
  the clock advances by at least the heartbeat timeout without reaching its ceiling. Whatever else
  happens in that run, afterwards k is gone from the registry or lost or removed.
\<close>

theorem silent_executor_is_evicted:
  assumes "reg_run (registry_new_exec timeout threshold) ys = (r, issued)"
    and "list_all (\<lambda>x. \<not> speaks k x \<and> \<not> spares k x) xs"
    and "max timeout 1 \<le> sum_list (map ticks_of xs)"
    and "xr_current_tick r + sum_list (map ticks_of xs) \<le> u64_max"
  shows "case map_of (xr_executors (fst (reg_run r xs))) k of None \<Rightarrow> True | Some e \<Rightarrow> er_state e \<in> {ExecLost, ExecRemoved}"
proof -
  let ?r0 = "registry_new_exec timeout threshold"
  have "xr_current_tick ?r0 \<le> u64_max" "xr_heartbeat_timeout_ticks ?r0 = max timeout 1" by (simp_all add: registry_new_exec_def)
  with registry_ok_run [OF registry_ok_new, of timeout threshold ys] assms(1)
  have r: "registry_ok r" "xr_heartbeat_timeout_ticks r = max timeout 1" by simp_all
  have "doomed k xs r" using ticks_need_sweep [of xs] assms(3) r(2) by (simp add: doomed_def)
  from not_doomed_Nil [OF doomed_run [OF r(1) this assms(2,4)]] show ?thesis
    by (auto simp: live_state_iff split: option.split)
qed

definition demo_peer :: executor_descriptor where
  "demo_peer = demo_descriptor\<lparr>ed_executor_id := ''e2''\<rparr>"

text \<open>After registering, e1 stays silent while another executor registers and fails a task.\<close>

definition demo_silence :: "reg_op list" where
  "demo_silence = [RegAdvance 2 [], RegRegister demo_peer, RegFailure ''e2'' 1 100, RegAdvance 1 [''e2'']]"

lemma demo_silence_run:
  "fst (reg_run (registry_new_exec 3 None) [RegRegister demo_descriptor]) =
     \<lparr>xr_executors = [(''e1'', executor_record_new demo_descriptor 0 1)], xr_current_tick = 0,
      xr_heartbeat_timeout_ticks = 3, xr_memory_threshold_bytes = None\<rparr>"
  by (simp add: demo_descriptor_def registry_new_exec_def register_exec_def Let_def lease_initial_def)

theorem silent_executor_is_evicted_witness:
  "\<exists>r. reg_run (registry_new_exec 3 None) [RegRegister demo_descriptor] = (r, [(''e1'', 1)])
    \<and> map_of (xr_executors r) ''e1'' \<noteq> None
    \<and> (case map_of (xr_executors (fst (reg_run r demo_silence))) ''e1'' of
         None \<Rightarrow> True | Some e \<Rightarrow> er_state e \<in> {ExecLost, ExecRemoved})"
proof -
  define r where "r = fst (reg_run (registry_new_exec 3 None) [RegRegister demo_descriptor])"
  have run: "reg_run (registry_new_exec 3 None) [RegRegister demo_descriptor] = (r, [(''e1'', 1)])"
    by (simp add: r_def demo_descriptor_def registry_new_exec_def register_exec_def Let_def lease_initial_def)
  have tick: "xr_current_tick r = 0" and known: "map_of (xr_executors r) ''e1'' \<noteq> None"
    unfolding r_def demo_silence_run by simp_all
  have "case map_of (xr_executors (fst (reg_run r demo_silence))) ''e1'' of
      None \<Rightarrow> True | Some e \<Rightarrow> er_state e \<in> {ExecLost, ExecRemoved}"
    by (rule silent_executor_is_evicted [OF run])
      (simp_all add: demo_silence_def demo_peer_def demo_descriptor_def tick)
  with run known show ?thesis by blast
qed

section \<open>The circuit breaker\<close>

lemma capacity_iff: "0 < total_schedulable_slots_excluding r excluded \<longleftrightarrow>
    (\<exists>(k, e) \<in> set (xr_executors r). is_schedulable r e \<and> er_id e \<notin> set excluded)"
proof -
  have "is_schedulable r e \<Longrightarrow> 0 < ed_slots (er_descriptor e)" for e by (simp add: is_schedulable_def)
  moreover have "0 < sum_list xs \<longleftrightarrow> (\<exists>x \<in> set xs. 0 < x)" for xs :: "nat list" by (induction xs) auto
  ultimately show ?thesis by (fastforce simp: total_schedulable_slots_excluding_def)
qed

text \<open>
  The breaker keeps capacity. If the cluster has a slot to offer at all, it still has one after
  the executors with an open breaker are excluded, and only executors that reached the failure
  threshold and tripped within the cooldown are excluded.
\<close>

theorem breaker_keeps_capacity:
  assumes "0 < total_schedulable_slots_excluding r []"
  shows "0 < total_schedulable_slots_excluding r (circuit_broken_executors r threshold now_ms cooldown_ms)
    \<and> (\<forall>k \<in> set (circuit_broken_executors r threshold now_ms cooldown_ms). \<exists>e at. e \<in> snd ` set (xr_executors r) \<and> er_id e = k
        \<and> threshold \<noteq> 0 \<and> threshold \<le> er_consecutive_task_failures e
        \<and> er_breaker_tripped_at_ms e = Some at \<and> now_ms - at < cooldown_ms)"
proof
  show "0 < total_schedulable_slots_excluding r (circuit_broken_executors r threshold now_ms cooldown_ms)"
    using assms unfolding capacity_iff circuit_broken_executors_def Let_def by (auto simp: list_ex_iff)
  show "\<forall>k \<in> set (circuit_broken_executors r threshold now_ms cooldown_ms). \<exists>e at. e \<in> snd ` set (xr_executors r) \<and> er_id e = k
        \<and> threshold \<noteq> 0 \<and> threshold \<le> er_consecutive_task_failures e
        \<and> er_breaker_tripped_at_ms e = Some at \<and> now_ms - at < cooldown_ms"
    unfolding circuit_broken_executors_def Let_def
    by (fastforce simp: breaker_open_def image_iff split: if_splits option.splits)
qed

text \<open>Of two executors one fails often enough to trip its breaker.\<close>

definition demo_tripped :: executor_registry where
  "demo_tripped = fst (reg_run (registry_new_exec 3 None)
     [RegRegister demo_descriptor, RegRegister demo_peer, RegFailure ''e2'' 1 100])"

theorem breaker_keeps_capacity_witness:
  "circuit_broken_executors demo_tripped 1 110 60 = [''e2'']
    \<and> 0 < total_schedulable_slots_excluding demo_tripped (circuit_broken_executors demo_tripped 1 110 60)"
proof -
  note d = demo_tripped_def demo_peer_def demo_descriptor_def registry_new_exec_def register_exec_def Let_def
    record_task_failure_def record_task_failure_of_def update_executor_def executor_record_new_def
    saturating_add_u32_def is_schedulable_def
  have "0 < total_schedulable_slots_excluding demo_tripped []"
    by (simp add: d total_schedulable_slots_excluding_def)
  note conjunct1 [OF breaker_keeps_capacity [OF this], of 1 110 60]
  moreover have "circuit_broken_executors demo_tripped 1 110 60 = [''e2'']"
    by (simp add: d circuit_broken_executors_def breaker_open_def)
  ultimately show ?thesis by blast
qed

end
