(* ===== verification/Placement.thy ===== *)
theory Placement
  imports ExecRegistry TaskProto "HOL-Library.Sublist"
begin

text \<open>
  Placement of tasks on executors (\<open>krishiv-scheduler/src/job/scheduler.rs\<close> and the placement view of
  \<open>heartbeat.rs\<close>): the round-robin, the slot-aware and the locality-aware scheduler. A slot budget is
  the list of free slots of the candidate executors, by position; \<open>max_by_key\<close> of the standard library
  returns the last of several maximal elements. Proved for both budgeted schedulers, through one
  contract: no executor receives more tasks than it has free slots, tasks are placed at most once and
  in order, and capacity is used up as long as tasks are left.
\<close>

section \<open>Candidates\<close>

record executor_placement =
  ep_executor_id :: string
  ep_slots :: nat
  ep_active_tasks :: nat
  ep_node_id :: "string option"
  ep_rack_id :: "string option"

definition executor_placement_new :: "string \<Rightarrow> nat \<Rightarrow> nat \<Rightarrow> executor_placement" where
  "executor_placement_new eid slots active =
     \<lparr>ep_executor_id = eid, ep_slots = slots, ep_active_tasks = active, ep_node_id = None, ep_rack_id = None\<rparr>"

definition free_slots :: "executor_placement \<Rightarrow> nat" where
  "free_slots p = ep_slots p - ep_active_tasks p"

definition raise_active_tasks_to :: "nat \<Rightarrow> executor_placement \<Rightarrow> executor_placement" where
  "raise_active_tasks_to n p = p\<lparr>ep_active_tasks := max (ep_active_tasks p) n\<rparr>"

definition placement_of :: "executor_record \<Rightarrow> executor_placement" where
  "placement_of e =
     \<lparr>ep_executor_id = er_id e, ep_slots = ed_slots (er_descriptor e),
      ep_active_tasks = (case Option.bind (er_health_snapshot e) eh_active_task_count of
                           Some n \<Rightarrow> n | None \<Rightarrow> length (er_running_tasks e)),
      ep_node_id = Some (ed_host (er_descriptor e)), ep_rack_id = ed_rack_id (er_descriptor e)\<rparr>"

definition schedulable_executor_placements_excluding :: "executor_registry \<Rightarrow> string list \<Rightarrow> executor_placement list" where
  "schedulable_executor_placements_excluding r excluded =
     sort_key ep_executor_id (map (\<lambda>(_, e). placement_of e)
       (filter (\<lambda>(_, e). is_schedulable r e \<and> er_id e \<notin> set excluded) (xr_executors r)))"

definition schedulable_executor_placements :: "executor_registry \<Rightarrow> executor_placement list" where
  "schedulable_executor_placements r = schedulable_executor_placements_excluding r []"

section \<open>Round robin\<close>

definition static_place :: "job_spec \<Rightarrow> executor_descriptor list \<Rightarrow> scheduler_error + task_assignment list" where
  "static_place spec executors =
     (if executors = [] then Inl NoExecutors
      else Inr (map (\<lambda>(idx, task). \<lparr>ta_task_id = ts_task_id task,
                       ta_executor_id = ed_executor_id (executors ! (idx mod length executors))\<rparr>)
             (enumerate 0 (concat (map ss_tasks (js_stages spec))))))"

section \<open>Slot budgets\<close>

fun max_by_key :: "('a \<Rightarrow> nat) \<Rightarrow> 'a list \<Rightarrow> 'a option" where
  "max_by_key f [] = None"
| "max_by_key f (x # xs) = Some (foldl (\<lambda>m y. if f m > f y then m else y) x xs)"

text \<open>\<open>find_in\<close>, and with all positions the choice of the slot-greedy tier.\<close>

definition best_slot :: "nat list \<Rightarrow> nat list \<Rightarrow> nat option" where
  "best_slot idxs budget = max_by_key (\<lambda>i. budget ! i) (filter (\<lambda>i. i < length budget \<and> budget ! i > 0) idxs)"

definition any_slot :: "nat list \<Rightarrow> nat option" where
  "any_slot budget = best_slot [0..<length budget] budget"

definition take_slot :: "nat \<Rightarrow> nat list \<Rightarrow> nat list" where
  "take_slot idx budget = budget[idx := budget ! idx - 1]"

fun place_loop :: "executor_placement list \<Rightarrow> nat list \<Rightarrow> string list \<Rightarrow> task_assignment list" where
  "place_loop executors budget [] = []"
| "place_loop executors budget (task_id # task_ids) =
     (case any_slot budget of
        None \<Rightarrow> []
      | Some idx \<Rightarrow> \<lparr>ta_task_id = task_id, ta_executor_id = ep_executor_id (executors ! idx)\<rparr>
          # place_loop executors (take_slot idx budget) task_ids)"

definition place_task_ids_with_load ::
    "string list \<Rightarrow> executor_placement list \<Rightarrow> scheduler_error + task_assignment list" where
  "place_task_ids_with_load task_ids executors =
     (if executors = [] then Inl NoExecutors
      else Inr (place_loop executors (map free_slots executors) task_ids))"

definition place_with_load :: "job_spec \<Rightarrow> executor_placement list \<Rightarrow> scheduler_error + task_assignment list" where
  "place_with_load spec executors =
     place_task_ids_with_load
       (map ts_task_id (concat (map ss_tasks (filter (\<lambda>s. ss_upstream_stage_ids s = []) (js_stages spec))))) executors"

definition slot_aware_place :: "job_spec \<Rightarrow> executor_descriptor list \<Rightarrow> scheduler_error + task_assignment list" where
  "slot_aware_place spec executors =
     place_with_load spec (map (\<lambda>d. executor_placement_new (ed_executor_id d) (ed_slots d) 0) executors)"

section \<open>Locality\<close>

record locality_preference =
  lp_node_id :: "string option"
  lp_rack_id :: "string option"
  lp_pending_since_ms :: "nat option"

definition has_preference :: "locality_preference \<Rightarrow> bool" where
  "has_preference p \<longleftrightarrow> lp_node_id p \<noteq> None \<or> lp_rack_id p \<noteq> None"

record locality_tier_counts =
  lt_node_local :: nat
  lt_rack_local :: nat
  lt_any :: nat
  lt_deferred :: nat

record locality_outcome =
  lo_assignments :: "task_assignment list"
  lo_tier_counts :: locality_tier_counts

definition locality_outcome_default :: locality_outcome where
  "locality_outcome_default = \<lparr>lo_assignments = [],
     lo_tier_counts = \<lparr>lt_node_local = 0, lt_rack_local = 0, lt_any = 0, lt_deferred = 0\<rparr>\<rparr>"

text \<open>The entry of the node and rack index for a name: the positions tagged with it, in order.\<close>

definition tagged_index :: "(executor_placement \<Rightarrow> string option) \<Rightarrow> executor_placement list \<Rightarrow> string option \<Rightarrow> nat list" where
  "tagged_index tag executors name =
     (case name of None \<Rightarrow> []
      | Some n \<Rightarrow> filter (\<lambda>i. tag (executors ! i) = Some n) [0..<length executors])"

datatype tier = NodeLocal nat | RackLocal nat | AnyTier "nat option" | Deferred

definition choose_tier :: "executor_placement list \<Rightarrow> nat \<Rightarrow> nat \<Rightarrow> nat list \<Rightarrow> locality_preference \<Rightarrow> tier" where
  "choose_tier executors now_ms wait_ms budget pref =
     (case best_slot (tagged_index ep_node_id executors (lp_node_id pref)) budget of
        Some i \<Rightarrow> NodeLocal i
      | None \<Rightarrow>
          (case best_slot (tagged_index ep_rack_id executors (lp_rack_id pref)) budget of
             Some i \<Rightarrow> RackLocal i
           | None \<Rightarrow>
               if has_preference pref \<and> wait_ms > 0
                  \<and> now_ms - (case lp_pending_since_ms pref of Some s \<Rightarrow> s | None \<Rightarrow> now_ms) < wait_ms
               then Deferred else AnyTier (any_slot budget)))"

fun count_tier :: "tier \<Rightarrow> locality_tier_counts \<Rightarrow> locality_tier_counts" where
  "count_tier (NodeLocal _) c = c\<lparr>lt_node_local := lt_node_local c + 1\<rparr>"
| "count_tier (RackLocal _) c = c\<lparr>lt_rack_local := lt_rack_local c + 1\<rparr>"
| "count_tier (AnyTier _) c = c\<lparr>lt_any := lt_any c + 1\<rparr>"
| "count_tier Deferred c = c\<lparr>lt_deferred := lt_deferred c + 1\<rparr>"

fun tier_slot :: "tier \<Rightarrow> nat option" where
  "tier_slot (NodeLocal i) = Some i"
| "tier_slot (RackLocal i) = Some i"
| "tier_slot (AnyTier i) = i"
| "tier_slot Deferred = None"

fun tiered_loop :: "executor_placement list \<Rightarrow> nat \<Rightarrow> nat \<Rightarrow> nat list \<Rightarrow> (string \<times> locality_preference) list \<Rightarrow>
    locality_outcome \<Rightarrow> locality_outcome" where
  "tiered_loop executors now_ms wait_ms budget [] out = out"
| "tiered_loop executors now_ms wait_ms budget ((task_id, pref) # work) out =
     (if list_all (\<lambda>s. s = 0) budget then out
      else
        (let tier = choose_tier executors now_ms wait_ms budget pref;
             out1 = out\<lparr>lo_tier_counts := count_tier tier (lo_tier_counts out)\<rparr>
         in if tier = Deferred then tiered_loop executors now_ms wait_ms budget work out1
            else case tier_slot tier of
                   None \<Rightarrow> out1
                 | Some idx \<Rightarrow> tiered_loop executors now_ms wait_ms (take_slot idx budget) work
                     (out1\<lparr>lo_assignments := lo_assignments out1
                        @ [\<lparr>ta_task_id = task_id, ta_executor_id = ep_executor_id (executors ! idx)\<rparr>]\<rparr>)))"

definition place_tiered :: "string list \<Rightarrow> executor_placement list \<Rightarrow> locality_preference list \<Rightarrow> nat \<Rightarrow> nat \<Rightarrow>
    scheduler_error + locality_outcome" where
  "place_tiered task_ids executors prefs now_ms wait_ms =
     (if executors = [] then Inl NoExecutors
      else if length task_ids \<noteq> length prefs then
        Inl (InvalidJob (''task_ids ('' @ show_nat (length task_ids) @ '') and locality preferences (''
               @ show_nat (length prefs) @ '') length mismatch''))
      else Inr (tiered_loop executors now_ms wait_ms (map free_slots executors) (zip task_ids prefs)
                  locality_outcome_default))"

section \<open>Choosing and taking slots\<close>

lemma foldl_max_by:
  "let m = foldl (\<lambda>m y. if f m > f y then m else y) x xs in m \<in> insert x (set xs) \<and> (\<forall>y \<in> insert x (set xs). (f y :: nat) \<le> f m)"
proof (induction xs arbitrary: x)
  case (Cons y xs)
  show ?case using Cons.IH [of x] Cons.IH [of y] by (auto simp: Let_def)
qed simp

lemma max_by_key_Some: "max_by_key f xs = Some m \<Longrightarrow> m \<in> set xs \<and> (\<forall>y \<in> set xs. f y \<le> f m)"
proof (cases xs)
  case (Cons x ys)
  moreover assume "max_by_key f xs = Some m"
  ultimately show ?thesis using foldl_max_by [of f x ys] by (simp add: Let_def)
qed simp

lemma max_by_key_None [simp]: "max_by_key f xs = None \<longleftrightarrow> xs = []"
  by (cases xs) simp_all

lemma best_slot_Some:
  "best_slot idxs budget = Some i \<Longrightarrow> i \<in> set idxs \<and> i < length budget \<and> 0 < budget ! i
    \<and> (\<forall>j \<in> set idxs. j < length budget \<longrightarrow> budget ! j \<le> budget ! i)"
  unfolding best_slot_def by (drule max_by_key_Some) fastforce

lemma any_slot_Some: "any_slot budget = Some i \<Longrightarrow> i < length budget \<and> 0 < budget ! i"
  unfolding any_slot_def by (drule best_slot_Some) simp

lemma any_slot_None: "any_slot budget = None \<longleftrightarrow> sum_list budget = 0"
  by (auto simp: any_slot_def best_slot_def filter_empty_conv set_conv_nth)

text \<open>The slots a budget holds for the executor named k.\<close>

definition slots_of :: "executor_placement list \<Rightarrow> nat list \<Rightarrow> string \<Rightarrow> nat" where
  "slots_of ps budget k = (\<Sum>i < length budget. if ep_executor_id (ps ! i) = k then budget ! i else 0)"

abbreviation capacity :: "executor_placement list \<Rightarrow> string \<Rightarrow> nat" where
  "capacity ps k \<equiv> slots_of ps (map free_slots ps) k"

lemma length_take_slot [simp]: "length (take_slot i budget) = length budget"
  by (simp add: take_slot_def)

lemma slots_of_take:
  assumes "i < length budget" and "0 < budget ! i"
  shows "slots_of ps (take_slot i budget) k + (if ep_executor_id (ps ! i) = k then 1 else 0) = slots_of ps budget k"
proof -
  let ?f = "\<lambda>b j. if ep_executor_id (ps ! j) = k then b ! j else (0::nat)"
  have rest: "(\<Sum>j \<in> {..<length budget} - {i}. ?f (take_slot i budget) j) = (\<Sum>j \<in> {..<length budget} - {i}. ?f budget j)"
    by (rule sum.cong) (auto simp: take_slot_def)
  have "(\<Sum>j < length budget. ?f b j) = ?f b i + (\<Sum>j \<in> {..<length budget} - {i}. ?f b j)" for b
    using assms(1) by (simp add: sum.remove)
  note split = this
  have "take_slot i budget ! i = budget ! i - 1" using assms(1) by (simp add: take_slot_def)
  then show ?thesis using assms rest unfolding slots_of_def length_take_slot split by auto
qed

lemma sum_take_slot: "i < length budget \<Longrightarrow> 0 < budget ! i \<Longrightarrow> Suc (sum_list (take_slot i budget)) = sum_list budget"
  using elem_le_sum_list [of i budget] by (simp add: take_slot_def sum_list_update)

section \<open>The contract of a placer\<close>

locale placer =
  fixes place :: "'x \<Rightarrow> string list \<Rightarrow> executor_placement list \<Rightarrow> scheduler_error + task_assignment list"
  assumes in_order: "place x ids ps = Inr as \<Longrightarrow> subseq (map ta_task_id as) ids"
    and within: "place x ids ps = Inr as \<Longrightarrow> count_list (map ta_executor_id as) k \<le> capacity ps k"
    and needs_executor: "place x ids [] = Inl NoExecutors"
begin

lemma placed_once: "place x ids ps = Inr as \<Longrightarrow> distinct ids \<Longrightarrow> distinct (map ta_task_id as)"
  using in_order by (metis subseq_conv_nths distinct_nthsI)

lemma placed_known: "place x ids ps = Inr as \<Longrightarrow> ta_task_id ` set as \<subseteq> set ids"
  using in_order by (metis subseq_conv_nths set_nths_subset list.set_map)

lemma placed_on_free:
  assumes "place x ids ps = Inr as" and "a \<in> set as"
  shows "\<exists>p \<in> set ps. ep_executor_id p = ta_executor_id a \<and> 0 < free_slots p"
proof -
  have "0 < count_list (map ta_executor_id as) (ta_executor_id a)" using assms(2) by (simp add: count_list_0_iff flip: neq0_conv)
  with within [OF assms(1), of "ta_executor_id a"] have "capacity ps (ta_executor_id a) \<noteq> 0" by linarith
  then obtain i where "i < length ps" "ep_executor_id (ps ! i) = ta_executor_id a" "map free_slots ps ! i \<noteq> 0"
    by (auto simp: slots_of_def split: if_splits)
  then show ?thesis by (intro bexI [of _ "ps ! i"]) simp_all
qed

end

section \<open>The slot-aware placer\<close>

lemma place_loop_ok:
  assumes "length budget = length ps"
  shows "subseq (map ta_task_id (place_loop ps budget ids)) ids
    \<and> count_list (map ta_executor_id (place_loop ps budget ids)) k \<le> slots_of ps budget k
    \<and> length (place_loop ps budget ids) = min (length ids) (sum_list budget)"
  using assms
proof (induction ids arbitrary: budget)
  case (Cons tid ids)
  show ?case
  proof (cases "any_slot budget")
    case (Some i)
    note i = any_slot_Some [OF Some]
    from Cons.IH [of "take_slot i budget"] Cons.prems slots_of_take [OF conjunct1 [OF i] conjunct2 [OF i], of ps k]
      sum_take_slot [OF conjunct1 [OF i] conjunct2 [OF i]] Some show ?thesis by (auto split: if_splits)
  next
    case None
    then have "sum_list budget = 0" unfolding any_slot_None .
    then have "min (length (tid # ids)) (sum_list budget) = 0" by (simp del: sum_list_eq_0_iff)
    with None show ?thesis by (simp del: sum_list_eq_0_iff)
  qed
qed simp

interpretation slot_aware: placer "\<lambda>_ :: unit. place_task_ids_with_load"
  using place_loop_ok by unfold_locales (auto simp: place_task_ids_with_load_def split: if_splits)

section \<open>The tiered placer\<close>

definition placed_count :: "locality_tier_counts \<Rightarrow> nat" where
  "placed_count c = lt_node_local c + lt_rack_local c + lt_any c"

lemma choose_tier_slot:
  assumes "choose_tier ps now_ms wait_ms budget pref \<noteq> Deferred" and "sum_list budget \<noteq> 0"
  shows "\<exists>i. tier_slot (choose_tier ps now_ms wait_ms budget pref) = Some i \<and> i < length budget \<and> 0 < budget ! i"
proof -
  obtain j where "any_slot budget = Some j" using assms(2) any_slot_None [of budget] by (metis option.exhaust)
  with assms(1) show ?thesis unfolding choose_tier_def
    by (auto dest: best_slot_Some any_slot_Some split: option.splits if_splits)
qed

lemma count_tier_placed: "tier \<noteq> Deferred \<Longrightarrow>
    placed_count (count_tier tier c) = Suc (placed_count c) \<and> lt_deferred (count_tier tier c) = lt_deferred c"
  by (cases tier) (simp_all add: placed_count_def)

lemma choose_tier_waits: "choose_tier ps now_ms wait_ms budget pref = Deferred \<Longrightarrow> has_preference pref \<and> 0 < wait_ms"
  by (auto simp: choose_tier_def split: option.splits if_splits)

text \<open>What one pass adds to the outcome: assignments in task order, within the budget, with matching counts.\<close>

definition tiered_adds :: "executor_placement list \<Rightarrow> nat list \<Rightarrow> (string \<times> locality_preference) list \<Rightarrow> bool \<Rightarrow>
    locality_outcome \<Rightarrow> locality_outcome \<Rightarrow> bool" where
  "tiered_adds ps budget work patient out out' \<longleftrightarrow> (\<exists>as d.
     lo_assignments out' = lo_assignments out @ as \<and> subseq (map ta_task_id as) (map fst work)
     \<and> (\<forall>k. count_list (map ta_executor_id as) k \<le> slots_of ps budget k)
     \<and> placed_count (lo_tier_counts out') = placed_count (lo_tier_counts out) + length as
     \<and> lt_deferred (lo_tier_counts out') = lt_deferred (lo_tier_counts out) + d
     \<and> (length as + d = length work \<or> length as = sum_list budget) \<and> length as \<le> sum_list budget
     \<and> (patient \<or> d = 0))"

lemma tiered_adds_defer:
  assumes "tiered_adds ps budget work True (out\<lparr>lo_tier_counts := count_tier Deferred (lo_tier_counts out)\<rparr>) out'"
  shows "tiered_adds ps budget (w # work) True out out'"
proof -
  from assms obtain as d where "lo_assignments out' = lo_assignments out @ as" "subseq (map ta_task_id as) (map fst work)"
    "\<forall>k. count_list (map ta_executor_id as) k \<le> slots_of ps budget k"
    "placed_count (lo_tier_counts out') = placed_count (lo_tier_counts out) + length as"
    "lt_deferred (lo_tier_counts out') = lt_deferred (lo_tier_counts out) + Suc d"
    "length as + d = length work \<or> length as = sum_list budget" "length as \<le> sum_list budget"
    by (auto simp: tiered_adds_def placed_count_def)
  then show ?thesis unfolding tiered_adds_def
    by (intro exI [of _ as] exI [of _ "Suc d"]) auto
qed

lemma tiered_adds_place:
  assumes "i < length budget" and "0 < budget ! i" and "tier \<noteq> Deferred"
    and "tiered_adds ps (take_slot i budget) work patient
      (out\<lparr>lo_tier_counts := count_tier tier (lo_tier_counts out),
           lo_assignments := lo_assignments out @ [\<lparr>ta_task_id = tid, ta_executor_id = ep_executor_id (ps ! i)\<rparr>]\<rparr>) out'"
  shows "tiered_adds ps budget ((tid, pref) # work) patient out out'"
proof -
  from assms(4) count_tier_placed [OF assms(3), of "lo_tier_counts out"] obtain as d where
    as: "lo_assignments out' = lo_assignments out @ \<lparr>ta_task_id = tid, ta_executor_id = ep_executor_id (ps ! i)\<rparr> # as"
    "subseq (map ta_task_id as) (map fst work)"
    "\<forall>k. count_list (map ta_executor_id as) k \<le> slots_of ps (take_slot i budget) k"
    "placed_count (lo_tier_counts out') = Suc (placed_count (lo_tier_counts out)) + length as"
    "lt_deferred (lo_tier_counts out') = lt_deferred (lo_tier_counts out) + d"
    "length as + d = length work \<or> length as = sum_list (take_slot i budget)" "length as \<le> sum_list (take_slot i budget)"
    "patient \<or> d = 0"
    by (auto simp: tiered_adds_def)
  have "count_list (map ta_executor_id as) k + (if ep_executor_id (ps ! i) = k then 1 else 0) \<le> slots_of ps budget k" for k
    using slots_of_take [OF assms(1,2), of ps k] as(3) by (metis add_le_mono1)
  note bound = this
  have "count_list (map ta_executor_id (\<lparr>ta_task_id = tid, ta_executor_id = ep_executor_id (ps ! i)\<rparr> # as)) k
      \<le> slots_of ps budget k" for k
    using bound [of k] by (cases "ep_executor_id (ps ! i) = k") simp_all
  with as sum_take_slot [OF assms(1,2)] show ?thesis unfolding tiered_adds_def
    by (intro exI [of _ "\<lparr>ta_task_id = tid, ta_executor_id = ep_executor_id (ps ! i)\<rparr> # as"] exI [of _ d]) auto
qed

lemma tiered_loop_ok:
  assumes "length budget = length ps"
    and "patient \<or> wait_ms = 0 \<or> list_all (\<lambda>w. \<not> has_preference (snd w)) work"
  shows "tiered_adds ps budget work patient out (tiered_loop ps now_ms wait_ms budget work out)"
  using assms
proof (induction work arbitrary: budget out)
  case Nil
  then show ?case by (simp add: tiered_adds_def)
next
  case (Cons w work)
  obtain tid pref where w: "w = (tid, pref)" by fastforce
  let ?t = "choose_tier ps now_ms wait_ms budget pref"
  have zero: "list_all (\<lambda>s. s = 0) budget \<longleftrightarrow> sum_list budget = 0" by (auto simp: list_all_iff)
  show ?case
  proof (cases "sum_list budget = 0")
    case True
    then have "tiered_loop ps now_ms wait_ms budget (w # work) out = out" using w zero by simp
    with True show ?thesis by (auto simp: tiered_adds_def intro!: exI [of _ 0])
  next
    case False
    show ?thesis
    proof (cases "?t = Deferred")
      case True
      with choose_tier_waits [OF True] Cons.prems(2) w have p: patient by auto
      with Cons.IH [of budget] Cons.prems True False zero w show ?thesis
        by (auto simp: Let_def intro!: tiered_adds_defer)
    next
      case nd: False
      from choose_tier_slot [OF nd False] obtain i where i: "tier_slot ?t = Some i" "i < length budget" "0 < budget ! i" by blast
      with Cons.IH [of "take_slot i budget"] Cons.prems False nd zero w show ?thesis
        by (auto simp: Let_def intro!: tiered_adds_place [OF i(2,3) nd])
    qed
  qed
qed

lemma place_tiered_ok:
  assumes "place_tiered ids ps prefs now_ms wait_ms = Inr out"
    and "patient \<or> wait_ms = 0 \<or> list_all (\<lambda>p. \<not> has_preference p) prefs"
  shows "tiered_adds ps (map free_slots ps) (zip ids prefs) patient locality_outcome_default out \<and> map fst (zip ids prefs) = ids"
proof -
  have len: "length ids = length prefs" and
    out: "out = tiered_loop ps now_ms wait_ms (map free_slots ps) (zip ids prefs) locality_outcome_default"
    using assms(1) by (simp_all add: place_tiered_def split: if_splits)
  have "patient \<or> wait_ms = 0 \<or> list_all (\<lambda>w. \<not> has_preference (snd w)) (zip ids prefs)"
    using assms(2) by (auto simp: list_all_iff dest: set_zip_rightD)
  then have "tiered_adds ps (map free_slots ps) (zip ids prefs) patient locality_outcome_default out"
    unfolding out by (intro tiered_loop_ok) simp_all
  with len show ?thesis by simp
qed

lemma place_tiered_within:
  assumes "place_tiered ids ps prefs now_ms wait_ms = Inr out"
  shows "subseq (map ta_task_id (lo_assignments out)) ids"
    and "count_list (map ta_executor_id (lo_assignments out)) k \<le> capacity ps k"
  using place_tiered_ok [OF assms, of True] by (auto simp: tiered_adds_def locality_outcome_default_def)

text \<open>The placer the assignment round calls: the preferences, the time and the wait come first.\<close>

definition tiered_assignments :: "locality_preference list \<times> nat \<times> nat \<Rightarrow> string list \<Rightarrow> executor_placement list \<Rightarrow>
    scheduler_error + task_assignment list" where
  "tiered_assignments x ids ps = (case x of (prefs, now_ms, wait_ms) \<Rightarrow>
     (case place_tiered ids ps prefs now_ms wait_ms of Inl err \<Rightarrow> Inl err | Inr out \<Rightarrow> Inr (lo_assignments out)))"

lemma tiered_assignments_Inr: "tiered_assignments x ids ps = Inr as \<Longrightarrow>
    \<exists>prefs now_ms wait_ms out. place_tiered ids ps prefs now_ms wait_ms = Inr out \<and> as = lo_assignments out"
  by (auto simp: tiered_assignments_def split: prod.splits sum.splits)

interpretation tiered: placer tiered_assignments
  by unfold_locales
    (auto dest!: tiered_assignments_Inr intro: place_tiered_within, auto simp: tiered_assignments_def place_tiered_def split: prod.splits)

text \<open>
  C8. Locality placement respects capacity. A successful pass places tasks in their given order and at
  most once each; no executor receives more of them than it has free slots; the node-local,
  rack-local and any-tier counters add up to the number placed; and the pass stops short only when
  every free slot is taken, each other task being placed or counted as deferred.
\<close>

theorem place_tiered_capacity:
  assumes "place_tiered task_ids executors prefs now_ms wait_ms = Inr out"
  shows "subseq (map ta_task_id (lo_assignments out)) task_ids
    \<and> (\<forall>k. count_list (map ta_executor_id (lo_assignments out)) k \<le> capacity executors k)
    \<and> placed_count (lo_tier_counts out) = length (lo_assignments out)
    \<and> (length (lo_assignments out) + lt_deferred (lo_tier_counts out) = length task_ids
       \<or> length (lo_assignments out) = sum_list (map free_slots executors))"
proof -
  have "length (zip task_ids prefs) = length task_ids" using assms by (simp add: place_tiered_def split: if_splits)
  with place_tiered_ok [OF assms, of True] show ?thesis
    by (auto simp: tiered_adds_def locality_outcome_default_def placed_count_def)
qed

text \<open>Without a wait, or without preferences, the pass places as many tasks as the capacity allows.\<close>

lemma place_tiered_work_conserving:
  assumes "place_tiered task_ids executors prefs now_ms wait_ms = Inr out"
    and "wait_ms = 0 \<or> list_all (\<lambda>p. \<not> has_preference p) prefs"
  shows "length (lo_assignments out) = min (length task_ids) (sum_list (map free_slots executors))"
proof -
  have "length (zip task_ids prefs) = length task_ids" using assms(1) by (simp add: place_tiered_def split: if_splits)
  moreover have "length (lo_assignments out) \<le> length task_ids"
    using place_tiered_within(1) [OF assms(1)] list_emb_length by fastforce
  ultimately show ?thesis using place_tiered_ok [OF assms(1), of False] assms(2)
    by (auto simp: tiered_adds_def locality_outcome_default_def)
qed

definition demo_candidates :: "executor_placement list" where
  "demo_candidates = [\<lparr>ep_executor_id = ''e1'', ep_slots = 2, ep_active_tasks = 1, ep_node_id = Some ''h1'', ep_rack_id = None\<rparr>,
     \<lparr>ep_executor_id = ''e2'', ep_slots = 3, ep_active_tasks = 1, ep_node_id = Some ''h2'', ep_rack_id = None\<rparr>]"

definition demo_prefs :: "locality_preference list" where
  "demo_prefs = [\<lparr>lp_node_id = Some ''h1'', lp_rack_id = None, lp_pending_since_ms = Some 100\<rparr>,
     \<lparr>lp_node_id = Some ''h1'', lp_rack_id = None, lp_pending_since_ms = Some 100\<rparr>,
     \<lparr>lp_node_id = None, lp_rack_id = None, lp_pending_since_ms = None\<rparr>]"

text \<open>The first task gets the slot on its node, the second waits for that node, the third goes anywhere.\<close>

lemma demo_tiered:
  "place_tiered [''t1'', ''t2'', ''t3''] demo_candidates demo_prefs 110 50 =
     Inr \<lparr>lo_assignments = [\<lparr>ta_task_id = ''t1'', ta_executor_id = ''e1''\<rparr>, \<lparr>ta_task_id = ''t3'', ta_executor_id = ''e2''\<rparr>],
          lo_tier_counts = \<lparr>lt_node_local = 1, lt_rack_local = 0, lt_any = 1, lt_deferred = 1\<rparr>\<rparr>"
  by (simp add: place_tiered_def demo_candidates_def demo_prefs_def free_slots_def locality_outcome_default_def Let_def
      choose_tier_def best_slot_def any_slot_def tagged_index_def has_preference_def take_slot_def upt_rec)

theorem place_tiered_capacity_witness:
  "\<exists>out. place_tiered [''t1'', ''t2'', ''t3''] demo_candidates demo_prefs 110 50 = Inr out
    \<and> lt_deferred (lo_tier_counts out) = 1 \<and> placed_count (lo_tier_counts out) = 2
    \<and> (\<forall>k. count_list (map ta_executor_id (lo_assignments out)) k \<le> capacity demo_candidates k)"
proof -
  note c = place_tiered_capacity [OF demo_tiered]
  show ?thesis
    by (intro exI conjI, rule demo_tiered) (simp_all only: conjunct1 [OF conjunct2 [OF c]], simp_all add: placed_count_def)
qed

section \<open>Candidates of the registry\<close>

lemma placements_distinct:
  assumes "registry_ok r"
  shows "distinct (map ep_executor_id (schedulable_executor_placements_excluding r excluded))"
proof -
  let ?xs = "filter (\<lambda>(_, e). is_schedulable r e \<and> er_id e \<notin> set excluded) (xr_executors r)"
  have "map ep_executor_id (map (\<lambda>(_, e). placement_of e) ?xs) = map fst ?xs"
    using assms by (auto simp: registry_ok_def placement_of_def amap_mem_iff [symmetric])
  moreover have "distinct (map fst ?xs)" using assms amap_wf_filter unfolding registry_ok_def amap_wf_def by blast
  ultimately have "distinct (map ep_executor_id (map (\<lambda>(_, e). placement_of e) ?xs))" by (rule ssubst)
  moreover have "distinct (map f (sort_key f xs)) = distinct (map f xs)" for f :: "'a \<Rightarrow> string" and xs
    by (simp add: distinct_map)
  ultimately show ?thesis unfolding schedulable_executor_placements_excluding_def by blast
qed

lemma placements_eligible:
  "p \<in> set (schedulable_executor_placements_excluding r excluded) \<longleftrightarrow>
     (\<exists>(k, e) \<in> set (xr_executors r). is_schedulable r e \<and> er_id e \<notin> set excluded \<and> p = placement_of e)"
  by (force simp: schedulable_executor_placements_excluding_def)

text \<open>Planning and placement count the same capacity.\<close>

lemma placements_total:
  "sum_list (map ep_slots (schedulable_executor_placements_excluding r excluded)) = total_schedulable_slots_excluding r excluded"
proof -
  have sort: "sum_list (map f (sort_key g xs)) = sum_list (map f xs)" for f :: "'a \<Rightarrow> nat" and g :: "'a \<Rightarrow> string" and xs
    by (metis mset_sort mset_map sum_mset_sum_list)
  show ?thesis
    unfolding schedulable_executor_placements_excluding_def total_schedulable_slots_excluding_def sort
    by (simp add: comp_def case_prod_unfold placement_of_def)
qed

end
