(* ===== verification/FairPools.thy ===== *)
theory FairPools
  imports SchedError
begin

text \<open>
  The fair scheduler's pool quotas (\<open>krishiv-scheduler/src/job/scheduler.rs\<close>, \<open>FairScheduler\<close>): minimum
  shares first, then rounds of weighted distribution until the slots or the demand run out. The
  demand is a \<open>BTreeMap\<close>, a sorted association list; sums of machine integers wrap as in a release
  build. Proved: the rounds end; the quotas use every slot that is asked for and no more, stay within
  each pool's demand, and give every pool its minimum share and its weighted share of the rest.
\<close>

record pool_spec =
  po_weight :: nat
  po_min_share :: nat

definition pool_spec_default :: pool_spec where
  "pool_spec_default = \<lparr>po_weight = 1, po_min_share = 0\<rparr>"

definition spec_for :: "(string, pool_spec) amap \<Rightarrow> string \<Rightarrow> pool_spec" where
  "spec_for pools pool = (case map_of pools pool of Some s \<Rightarrow> s | None \<Rightarrow> pool_spec_default)"

definition quota_of :: "(string, nat) amap \<Rightarrow> string \<Rightarrow> nat" where
  "quota_of quotas pool = (case map_of quotas pool of Some n \<Rightarrow> n | None \<Rightarrow> 0)"

section \<open>Minimum shares\<close>

fun min_share_pass :: "(string, pool_spec) amap \<Rightarrow> (string, nat) amap \<Rightarrow> (string, nat) amap \<Rightarrow> nat \<Rightarrow>
    (string, nat) amap \<times> nat" where
  "min_share_pass pools [] quotas remaining = (quotas, remaining)"
| "min_share_pass pools ((pool, want) # demand) quotas remaining =
     (let grant = min (min (po_min_share (spec_for pools pool)) want) remaining
      in if grant > 0 then min_share_pass pools demand (bt_insert pool grant quotas) (remaining - grant)
         else min_share_pass pools demand quotas remaining)"

section \<open>Weighted rounds\<close>

record grant =
  gr_pool :: string
  gr_unmet_demand :: nat
  gr_weight :: nat
  gr_grant :: nat

definition unmet_pools :: "(string, pool_spec) amap \<Rightarrow> (string, nat) amap \<Rightarrow> (string, nat) amap \<Rightarrow> (string \<times> nat \<times> nat) list" where
  "unmet_pools pools demand quotas =
     map (\<lambda>(pool, want). (pool, want - quota_of quotas pool, max (po_weight (spec_for pools pool)) 1))
       (filter (\<lambda>(pool, want). want > quota_of quotas pool) demand)"

definition total_weight :: "(string \<times> nat \<times> nat) list \<Rightarrow> nat" where
  "total_weight unmet = max (sum_list (map (\<lambda>(_, _, w). w) unmet) mod two64) 1"

definition floor_grants :: "nat \<Rightarrow> (string \<times> nat \<times> nat) list \<Rightarrow> grant list" where
  "floor_grants budget unmet =
     map (\<lambda>(pool, unmet_demand, w).
        \<lparr>gr_pool = pool, gr_unmet_demand = unmet_demand, gr_weight = w,
         gr_grant = min (saturating_mul_u64 budget w div total_weight unmet) unmet_demand\<rparr>) unmet"

text \<open>Descending weight, then pool name: the sort by weight is stable.\<close>

definition sort_grants :: "grant list \<Rightarrow> grant list" where
  "sort_grants gs = sort_key (\<lambda>g. - int (gr_weight g)) (sort_key gr_pool gs)"

fun give_leftover :: "nat \<Rightarrow> grant list \<Rightarrow> grant list" where
  "give_leftover leftover [] = []"
| "give_leftover leftover (g # gs) =
     (if leftover = 0 then g # gs
      else if gr_grant g < gr_unmet_demand g
      then g\<lparr>gr_grant := gr_grant g + 1\<rparr> # give_leftover (leftover - 1) gs
      else g # give_leftover leftover gs)"

definition round_grants :: "nat \<Rightarrow> (string \<times> nat \<times> nat) list \<Rightarrow> grant list" where
  "round_grants budget unmet =
     (let grants = sort_grants (floor_grants budget unmet)
      in give_leftover (budget - sum_list (map gr_grant grants) mod two64) grants)"

fun apply_grants :: "grant list \<Rightarrow> (string, nat) amap \<Rightarrow> nat \<Rightarrow> nat \<Rightarrow> (string, nat) amap \<times> nat \<times> nat" where
  "apply_grants [] quotas remaining granted = (quotas, remaining, granted)"
| "apply_grants (g # gs) quotas remaining granted =
     (if gr_grant g > 0
      then apply_grants gs (bt_insert (gr_pool g) ((quota_of quotas (gr_pool g) + gr_grant g) mod two64) quotas)
             (remaining - gr_grant g) ((granted + gr_grant g) mod two64)
      else apply_grants gs quotas remaining granted)"

lemma apply_grants_remaining:
  "apply_grants gs quotas remaining granted = (quotas', remaining', granted') \<Longrightarrow>
     remaining' = remaining - sum_list (map gr_grant gs) \<and> (sum_list (map gr_grant gs) = 0 \<longrightarrow> granted' = granted)"
proof (induction gs arbitrary: quotas remaining granted)
  case (Cons g gs)
  show ?case
  proof (cases "gr_grant g > 0")
    case True
    then have "apply_grants gs (bt_insert (gr_pool g) ((quota_of quotas (gr_pool g) + gr_grant g) mod two64) quotas)
        (remaining - gr_grant g) ((granted + gr_grant g) mod two64) = (quotas', remaining', granted')"
      using Cons.prems by simp
    from conjunct1 [OF Cons.IH [OF this]] True show ?thesis by simp
  qed (use Cons in auto)
qed simp

function pool_rounds :: "(string, pool_spec) amap \<Rightarrow> (string, nat) amap \<Rightarrow> (string, nat) amap \<Rightarrow> nat \<Rightarrow> (string, nat) amap" where
  "pool_rounds pools demand quotas remaining =
     (if remaining = 0 then quotas
      else
        (let unmet = unmet_pools pools demand quotas in
         if unmet = [] then quotas
         else
           (case apply_grants (round_grants remaining unmet) quotas remaining 0 of
              (quotas', remaining', granted) \<Rightarrow>
                if granted = 0 then quotas' else pool_rounds pools demand quotas' remaining')))"
  by pat_completeness auto
termination
proof (relation "measure (\<lambda>(pools, demand, quotas, remaining). remaining)")
  fix pools :: "(string, pool_spec) amap" and demand quotas quotas' :: "(string, nat) amap" and remaining remaining' granted :: nat and unmet y
  assume "remaining \<noteq> 0" and unmet: "unmet = unmet_pools pools demand quotas"
    and run: "(quotas', y) = apply_grants (round_grants remaining unmet) quotas remaining 0" "(remaining', granted) = y"
    and "granted \<noteq> 0"
  from run have "apply_grants (round_grants remaining unmet) quotas remaining 0 = (quotas', remaining', granted)" by simp
  from apply_grants_remaining [OF this] \<open>granted \<noteq> 0\<close>
  have "remaining' = remaining - sum_list (map gr_grant (round_grants remaining unmet))"
    "sum_list (map gr_grant (round_grants remaining unmet)) \<noteq> 0" by auto
  with \<open>remaining \<noteq> 0\<close> have "remaining' < remaining" by linarith
  then show "((pools, demand, quotas', remaining'), (pools, demand, quotas, remaining))
      \<in> measure (\<lambda>(pools, demand, quotas, remaining). remaining)" by simp
qed simp

declare pool_rounds.simps [simp del]

definition compute_pool_quotas :: "nat \<Rightarrow> (string, nat) amap \<Rightarrow> (string, pool_spec) amap \<Rightarrow> (string, nat) amap" where
  "compute_pool_quotas total_slots demand pools =
     (if total_slots = 0 \<or> demand = [] then []
      else case min_share_pass pools demand [] total_slots of (quotas, remaining) \<Rightarrow> pool_rounds pools demand quotas remaining)"

section \<open>Grants of one round\<close>

definition grant_of :: "grant list \<Rightarrow> string \<Rightarrow> nat" where
  "grant_of gs p = sum_list (map (\<lambda>g. if gr_pool g = p then gr_grant g else 0) gs)"

lemma grant_of_Nil [simp]: "grant_of [] p = 0"
  by (simp add: grant_of_def)

lemma grant_of_Cons [simp]: "grant_of (g # gs) p = (if gr_pool g = p then gr_grant g else 0) + grant_of gs p"
  by (simp add: grant_of_def)

lemma grant_of_absent: "p \<notin> gr_pool ` set gs \<Longrightarrow> grant_of gs p = 0"
  by (induction gs) auto

lemma grant_of_mem: "distinct (map gr_pool gs) \<Longrightarrow> g \<in> set gs \<Longrightarrow> grant_of gs (gr_pool g) = gr_grant g"
  by (induction gs) (auto simp: grant_of_absent)

lemma sum_grant_of:
  assumes "distinct ps" and "gr_pool ` set gs \<subseteq> set ps"
  shows "sum_list (map (grant_of gs) ps) = sum_list (map gr_grant gs)"
  using assms(2)
proof (induction gs)
  case (Cons g gs)
  have "sum_list (map (\<lambda>p. if gr_pool g = p then gr_grant g else 0) ps) = gr_grant g"
    using Cons.prems assms(1) by (simp add: sum_list_distinct_conv_sum_set)
  moreover have "map (grant_of (g # gs)) ps = map (\<lambda>p. (if gr_pool g = p then gr_grant g else 0) + grant_of gs p) ps" by simp
  ultimately show ?case using Cons by (simp add: sum_list_addf)
qed simp

lemma apply_grants_ok:
  assumes "apply_grants gs q remaining granted = (q', remaining', granted')"
    and "bt_wf q" and "\<forall>p. quota_of q p + grant_of gs p < two64" and "granted + sum_list (map gr_grant gs) < two64"
  shows "bt_wf q' \<and> (\<forall>p. quota_of q' p = quota_of q p + grant_of gs p) \<and> granted' = granted + sum_list (map gr_grant gs)
    \<and> fst ` set q' \<subseteq> fst ` set q \<union> gr_pool ` set gs"
  using assms
proof (induction gs arbitrary: q remaining granted)
  case (Cons g gs)
  show ?case
  proof (cases "gr_grant g = 0")
    case True
    then have g: "grant_of (g # gs) p = grant_of gs p" for p by simp
    have "apply_grants gs q remaining granted = (q', remaining', granted')" using Cons.prems(1) True by simp
    from Cons.IH [OF this Cons.prems(2)] Cons.prems(3,4) True show ?thesis unfolding g by auto
  next
    case False
    let ?q = "bt_insert (gr_pool g) (quota_of q (gr_pool g) + gr_grant g) q"
    have small: "quota_of q (gr_pool g) + gr_grant g < two64" "granted + gr_grant g < two64"
      using Cons.prems(3)[rule_format, of "gr_pool g"] Cons.prems(4) by simp_all
    have run: "apply_grants gs ?q (remaining - gr_grant g) (granted + gr_grant g) = (q', remaining', granted')"
      using Cons.prems(1) False small by simp
    have q: "quota_of ?q p = quota_of q p + (if gr_pool g = p then gr_grant g else 0)" for p
      using Cons.prems(2) by (simp add: quota_of_def)
    have "bt_wf ?q" "\<forall>p. quota_of ?q p + grant_of gs p < two64" using Cons.prems(2,3) q by (auto simp: add.assoc)
    from Cons.IH [OF run this] Cons.prems(4) q show ?thesis by (auto simp: add.assoc)
  qed
qed simp

section \<open>Rounding\<close>

lemma sum_floor_le:
  fixes b W :: nat
  shows "sum_list (map (\<lambda>x. b * w x div W) xs) * W \<le> b * sum_list (map w xs)"
proof (induction xs)
  case (Cons x xs)
  have "b * w x div W * W \<le> b * w x" by (rule div_times_less_eq_dividend)
  from add_mono [OF this Cons.IH] show ?case by (simp add: add_mult_distrib add_mult_distrib2)
qed simp

lemma give_leftover_ok:
  "map gr_pool (give_leftover n gs) = map gr_pool gs
   \<and> list_all2 (\<lambda>g g'. gr_pool g' = gr_pool g \<and> gr_grant g \<le> gr_grant g' \<and> (gr_grant g \<le> gr_unmet_demand g \<longrightarrow> gr_grant g' \<le> gr_unmet_demand g))
       gs (give_leftover n gs)
   \<and> sum_list (map gr_grant gs) \<le> sum_list (map gr_grant (give_leftover n gs))
   \<and> sum_list (map gr_grant (give_leftover n gs)) \<le> sum_list (map gr_grant gs) + n"
proof (induction gs arbitrary: n)
  case (Cons g gs)
  have refl: "list_all2 (\<lambda>g g'. gr_pool g' = gr_pool g \<and> gr_grant g \<le> gr_grant g' \<and> (gr_grant g \<le> gr_unmet_demand g \<longrightarrow> gr_grant g' \<le> gr_unmet_demand g)) gs gs"
    by (rule list.rel_refl) simp
  from Cons.IH [of n] Cons.IH [of "n - 1"] refl show ?case by auto
qed simp

lemma give_leftover_grows:
  "0 < n \<Longrightarrow> \<exists>g \<in> set gs. gr_grant g < gr_unmet_demand g \<Longrightarrow>
     sum_list (map gr_grant gs) < sum_list (map gr_grant (give_leftover n gs))"
proof (induction gs)
  case (Cons g gs)
  show ?case
  proof (cases "gr_grant g < gr_unmet_demand g")
    case True
    with Cons.prems(1) give_leftover_ok [of "n - 1" gs] show ?thesis by simp
  next
    case False
    with Cons show ?thesis by auto
  qed
qed simp

text \<open>The open pools of a round: distinct names, positive demand and weight, no overflow of the weights.\<close>

definition unmet_ok :: "(string \<times> nat \<times> nat) list \<Rightarrow> bool" where
  "unmet_ok unmet \<longleftrightarrow> distinct (map fst unmet) \<and> list_all (\<lambda>(_, d, w). 0 < d \<and> 0 < w) unmet
     \<and> sum_list (map (\<lambda>(_, _, w). w) unmet) \<le> u64_max"

lemma total_weight_exact:
  assumes "unmet_ok unmet" and "unmet \<noteq> []"
  shows "total_weight unmet = sum_list (map (\<lambda>(_, _, w). w) unmet) \<and> 0 < total_weight unmet"
proof -
  obtain p d w r where u: "unmet = (p, d, w) # r" using assms(2) by (cases unmet) auto
  then have "0 < sum_list (map (\<lambda>(_, _, w). w) unmet)" using assms(1) by (simp add: unmet_ok_def)
  with assms(1) show ?thesis unfolding total_weight_def unmet_ok_def by (simp add: max_def)
qed

lemma floor_grants_sum:
  assumes "unmet_ok unmet" and "unmet \<noteq> []"
  shows "sum_list (map gr_grant (floor_grants budget unmet)) \<le> budget"
proof -
  let ?W = "total_weight unmet"
  let ?w = "\<lambda>(_, _, w). w"
  note W = total_weight_exact [OF assms]
  have le: "min (saturating_mul_u64 budget w div ?W) d \<le> budget * w div ?W" for w d
    by (rule min.coboundedI1, rule div_le_mono) (simp add: saturating_mul_u64_def)
  have "sum_list (map gr_grant (floor_grants budget unmet)) \<le> sum_list (map (\<lambda>x. budget * ?w x div ?W) unmet)"
    unfolding floor_grants_def map_map comp_def
    by (rule sum_list_mono) (simp add: le case_prod_unfold)
  also have "sum_list (map (\<lambda>x. budget * ?w x div ?W) unmet) * ?W \<le> budget * ?W"
    using sum_floor_le [of budget ?w ?W unmet] W by simp
  then have "sum_list (map (\<lambda>x. budget * ?w x div ?W) unmet) \<le> budget" using W by simp
  finally show ?thesis .
qed

lemma set_sort_grants [simp]: "set (sort_grants gs) = set gs"
  by (simp add: sort_grants_def)

lemma sum_sort_grants [simp]: "sum_list (map f (sort_grants gs)) = sum_list (map (f :: grant \<Rightarrow> nat) gs)"
proof -
  have "mset (map f (sort_grants gs)) = mset (map f gs)" by (simp add: sort_grants_def)
  then show ?thesis by (metis sum_mset_sum_list)
qed

lemma distinct_sort_grants: "distinct (map gr_pool gs) \<Longrightarrow> distinct (map gr_pool (sort_grants gs))"
  by (simp add: sort_grants_def distinct_map)

lemma round_grants_ok:
  assumes ok: "unmet_ok unmet" "unmet \<noteq> []" and budget: "0 < budget" "budget \<le> u64_max"
  shows "distinct (map gr_pool (round_grants budget unmet)) \<and> gr_pool ` set (round_grants budget unmet) = fst ` set unmet
    \<and> 0 < sum_list (map gr_grant (round_grants budget unmet)) \<and> sum_list (map gr_grant (round_grants budget unmet)) \<le> budget"
proof -
  let ?f = "floor_grants budget unmet"
  let ?s = "sum_list (map gr_grant ?f)"
  let ?n = "budget - ?s"
  have s: "?s \<le> budget" by (rule floor_grants_sum [OF ok])
  have gs: "round_grants budget unmet = give_leftover ?n (sort_grants ?f)"
    using s budget(2) by (simp add: round_grants_def Let_def)
  have pools: "map gr_pool ?f = map fst unmet" by (auto simp: floor_grants_def)
  then have d: "distinct (map gr_pool ?f)" using ok(1) by (simp add: unmet_ok_def)
  have "0 < sum_list (map gr_grant (round_grants budget unmet))"
  proof (cases "?s = 0")
    case True
    have "\<exists>g \<in> set (sort_grants ?f). gr_grant g < gr_unmet_demand g"
    proof -
      obtain p dm w r where u: "unmet = (p, dm, w) # r" using ok(2) by (cases unmet) auto
      let ?g = "hd ?f"
      have "?g \<in> set ?f" "0 < gr_unmet_demand ?g" using u ok(1) by (simp_all add: floor_grants_def unmet_ok_def)
      moreover from True this(1) have "gr_grant ?g = 0" by simp
      ultimately show ?thesis by (intro bexI [of _ ?g]) simp_all
    qed
    with give_leftover_grows [of ?n "sort_grants ?f"] True budget(1) gs show ?thesis by (simp del: sum_list_eq_0_iff)
  next
    case False
    with give_leftover_ok [of ?n "sort_grants ?f"] gs show ?thesis by (simp del: sum_list_eq_0_iff)
  qed
  moreover have "gr_pool ` set (round_grants budget unmet) = fst ` set unmet"
    using give_leftover_ok [of ?n "sort_grants ?f"] gs arg_cong [OF pools, of set]
    by (metis list.set_map set_sort_grants)
  ultimately show ?thesis
    using give_leftover_ok [of ?n "sort_grants ?f"] gs distinct_sort_grants [OF d] s by simp
qed

lemma list_all2_partner: "list_all2 P xs ys \<Longrightarrow> x \<in> set xs \<Longrightarrow> \<exists>y \<in> set ys. P x y"
  by (induction rule: list_all2_induct) auto

lemma round_grants_bounds:
  assumes "unmet_ok unmet" and "unmet \<noteq> []" and "0 < budget" and "budget \<le> u64_max" and "(p, d, w) \<in> set unmet"
  shows "grant_of (round_grants budget unmet) p \<le> d
    \<and> min (saturating_mul_u64 budget w div total_weight unmet) d \<le> grant_of (round_grants budget unmet) p"
proof -
  let ?f = "sort_grants (floor_grants budget unmet)"
  let ?g = "\<lparr>gr_pool = p, gr_unmet_demand = d, gr_weight = w,
    gr_grant = min (saturating_mul_u64 budget w div total_weight unmet) d\<rparr>"
  obtain n where gs: "round_grants budget unmet = give_leftover n ?f" by (simp add: round_grants_def Let_def)
  have "?g \<in> set ?f" using assms(5) by (force simp: floor_grants_def)
  then obtain g' where "g' \<in> set (round_grants budget unmet)" "gr_pool g' = p" "gr_grant ?g \<le> gr_grant g'" "gr_grant g' \<le> d"
    using list_all2_partner [OF conjunct1 [OF conjunct2 [OF give_leftover_ok [of n ?f]]], of ?g] unfolding gs by auto
  with grant_of_mem [of "round_grants budget unmet" g'] round_grants_ok [OF assms(1-4)] show ?thesis by auto
qed

section \<open>Rounds\<close>

abbreviation pool_weight :: "(string, pool_spec) amap \<Rightarrow> string \<Rightarrow> nat" where
  "pool_weight pools p \<equiv> max (po_weight (spec_for pools p)) 1"

abbreviation all_weights :: "(string, pool_spec) amap \<Rightarrow> (string, nat) amap \<Rightarrow> nat" where
  "all_weights pools demand \<equiv> sum_list (map (pool_weight pools) (amap_keys demand))"

abbreviation quota_sum :: "(string, nat) amap \<Rightarrow> (string, nat) amap \<Rightarrow> nat" where
  "quota_sum demand q \<equiv> sum_list (map (quota_of q) (amap_keys demand))"

definition demand_ok :: "(string, pool_spec) amap \<Rightarrow> (string, nat) amap \<Rightarrow> bool" where
  "demand_ok pools demand \<longleftrightarrow> bt_wf demand \<and> list_all (\<lambda>(_, want). want \<le> u64_max) demand \<and> all_weights pools demand \<le> u64_max"

definition quota_inv :: "(string, nat) amap \<Rightarrow> nat \<Rightarrow> (string, nat) amap \<Rightarrow> nat \<Rightarrow> bool" where
  "quota_inv demand slots q remaining \<longleftrightarrow> bt_wf q \<and> fst ` set q \<subseteq> fst ` set demand
     \<and> list_all (\<lambda>(p, want). quota_of q p \<le> want) demand \<and> quota_sum demand q + remaining = slots"

lemma sum_list_filter_le: "sum_list (map f (filter P xs)) \<le> (sum_list (map f xs) :: nat)"
  by (induction xs) auto

lemma unmet_pools_ok:
  assumes "demand_ok pools demand"
  shows "unmet_ok (unmet_pools pools demand q)" and "total_weight (unmet_pools pools demand q) \<le> max (all_weights pools demand) 1"
proof -
  let ?P = "\<lambda>(p, want). quota_of q p < want"
  have names: "map fst (unmet_pools pools demand q) = map fst (filter ?P demand)"
    by (simp add: unmet_pools_def comp_def case_prod_unfold)
  have "map (\<lambda>(_, _, w). w) (unmet_pools pools demand q) = map (\<lambda>x. pool_weight pools (fst x)) (filter ?P demand)"
    by (simp add: unmet_pools_def comp_def case_prod_unfold)
  then have w: "sum_list (map (\<lambda>(_, _, w). w) (unmet_pools pools demand q)) \<le> all_weights pools demand"
    using sum_list_filter_le [of "\<lambda>x. pool_weight pools (fst x)" ?P demand] by (simp add: comp_def)
  have "amap_wf (filter ?P demand)" using assms bt_wf_amap_wf by (auto simp: demand_ok_def)
  then have d: "distinct (map fst (filter ?P demand))" unfolding amap_wf_def .
  have pos: "list_all (\<lambda>(_, d, w). 0 < d \<and> 0 < w) (unmet_pools pools demand q)"
    by (auto simp: unmet_pools_def list_all_iff)
  from w d pos assms show "unmet_ok (unmet_pools pools demand q)" unfolding unmet_ok_def names by (simp add: demand_ok_def)
  from w show "total_weight (unmet_pools pools demand q) \<le> max (all_weights pools demand) 1"
    unfolding total_weight_def by (meson max.mono order.refl order.trans mod_less_eq_dividend)
qed

lemma bt_wf_distinct: "bt_wf m \<Longrightarrow> distinct (amap_keys m)"
  using bt_wf_amap_wf unfolding amap_wf_def by blast

lemma quota_of_absent: "p \<notin> fst ` set q \<Longrightarrow> quota_of q p = 0"
  by (simp add: quota_of_def map_of_eq_None_iff [THEN iffD2])

lemma unmet_member: "(p, want) \<in> set demand \<Longrightarrow> quota_of q p < want \<Longrightarrow>
    (p, want - quota_of q p, pool_weight pools p) \<in> set (unmet_pools pools demand q)"
  by (force simp: unmet_pools_def)

lemma round_within:
  assumes dem: "demand_ok pools demand" and inv: "quota_inv demand slots q remaining" and "slots \<le> u64_max"
    and "0 < remaining" and un: "unmet_pools pools demand q \<noteq> []" and p: "(p, want) \<in> set demand"
  shows "quota_of q p + grant_of (round_grants remaining (unmet_pools pools demand q)) p \<le> want"
proof -
  let ?u = "unmet_pools pools demand q"
  have rem: "remaining \<le> u64_max" using inv assms(3) by (simp add: quota_inv_def)
  note ok = unmet_pools_ok(1) [OF dem, of q]
  show ?thesis
  proof (cases "quota_of q p < want")
    case True
    from round_grants_bounds [OF ok un assms(4) rem unmet_member [OF p True]] True show ?thesis by linarith
  next
    case False
    have "bt_wf demand" using dem by (simp add: demand_ok_def)
    then have "distinct (amap_keys demand)" by (rule bt_wf_distinct)
    then have "want' = want" if "(p, want') \<in> set demand" for want' using that p by (rule eq_key_imp_eq_value)
    then have "p \<notin> fst ` set ?u" using False by (auto simp: unmet_pools_def)
    with round_grants_ok [OF ok un assms(4) rem] grant_of_absent [of p "round_grants remaining ?u"] inv p show ?thesis
      by (auto simp: quota_inv_def list_all_iff)
  qed
qed

lemma pool_round:
  assumes dem: "demand_ok pools demand" and inv: "quota_inv demand slots q remaining" and "slots \<le> u64_max"
    and "0 < remaining" and un: "unmet_pools pools demand q \<noteq> []"
    and run: "apply_grants (round_grants remaining (unmet_pools pools demand q)) q remaining 0 = (q', remaining', granted)"
  shows "quota_inv demand slots q' remaining'" and "0 < granted"
    and "quota_of q' p = quota_of q p + grant_of (round_grants remaining (unmet_pools pools demand q)) p"
proof -
  let ?gs = "round_grants remaining (unmet_pools pools demand q)"
  have rem: "remaining \<le> u64_max" using inv assms(3) by (simp add: quota_inv_def)
  note g = round_grants_ok [OF unmet_pools_ok(1) [OF dem, of q] un assms(4) rem]
  have keys: "gr_pool ` set ?gs \<subseteq> set (amap_keys demand)" using g by (force simp: unmet_pools_def)
  note le = round_within [OF dem inv assms(3,4) un]
  have "quota_of q p + grant_of ?gs p < two64" for p
  proof (cases "p \<in> fst ` set demand")
    case True
    then obtain want where "(p, want) \<in> set demand" by auto
    moreover from this dem have "want \<le> u64_max" by (auto simp: demand_ok_def list_all_iff)
    ultimately show ?thesis using le [of p want] by linarith
  next
    case False
    then have "p \<notin> fst ` set q" "p \<notin> gr_pool ` set ?gs" using inv keys by (auto simp: quota_inv_def)
    then show ?thesis by (simp add: grant_of_absent quota_of_absent)
  qed
  then have "bt_wf q" "\<forall>p. quota_of q p + grant_of ?gs p < two64" "0 + sum_list (map gr_grant ?gs) < two64"
    using g rem inv by (simp_all add: quota_inv_def del: sum_list_eq_0_iff)
  note a = apply_grants_ok [OF run this] conjunct1 [OF apply_grants_remaining [OF run]]
  then have eq: "quota_of q' = (\<lambda>p. quota_of q p + grant_of ?gs p)" by auto
  have "quota_sum demand q' = quota_sum demand q + sum_list (map gr_grant ?gs)"
    using sum_grant_of [OF bt_wf_distinct keys] dem unfolding eq sum_list_addf by (simp add: demand_ok_def)
  moreover have "quota_sum demand q + remaining = slots" using inv by (simp add: quota_inv_def)
  ultimately have "quota_sum demand q' + remaining' = slots" using a(2) g by linarith
  moreover have "fst ` set q \<subseteq> fst ` set demand" using inv by (simp add: quota_inv_def)
  then have "fst ` set q' \<subseteq> fst ` set demand" using a(1) keys unfolding set_map by blast
  moreover have "list_all (\<lambda>(p, want). quota_of q' p \<le> want) demand" unfolding eq list_all_iff using le by blast
  ultimately show "quota_inv demand slots q' remaining'" using a(1) unfolding quota_inv_def by blast
  show "0 < granted" using a g by (simp del: sum_list_eq_0_iff)
  show "quota_of q' p = quota_of q p + grant_of ?gs p" by (simp add: eq)
qed

lemma quota_sum_le:
  assumes "quota_inv demand slots q remaining"
  shows "quota_sum demand q \<le> sum_list (map snd demand)"
proof -
  have "sum_list (map (\<lambda>x. quota_of q (fst x)) demand) \<le> sum_list (map snd demand)"
    using assms by (intro sum_list_mono) (auto simp: quota_inv_def list_all_iff)
  then show ?thesis by (simp add: comp_def)
qed

lemma pool_rounds_stop:
  assumes "quota_inv demand slots q remaining" and "remaining = 0 \<or> unmet_pools pools demand q = []"
  shows "pool_rounds pools demand q remaining = q" and "quota_sum demand q = min slots (sum_list (map snd demand))"
proof -
  show "pool_rounds pools demand q remaining = q" using assms(2) by (subst pool_rounds.simps) (auto simp: Let_def)
  show "quota_sum demand q = min slots (sum_list (map snd demand))"
  proof (cases "remaining = 0")
    case True
    with quota_sum_le [OF assms(1)] assms(1) show ?thesis by (simp add: quota_inv_def)
  next
    case False
    then have "\<forall>x \<in> set demand. \<not> quota_of q (fst x) < snd x"
      using assms(2) by (auto simp: unmet_pools_def filter_empty_conv)
    moreover have "\<forall>x \<in> set demand. quota_of q (fst x) \<le> snd x" using assms(1) by (auto simp: quota_inv_def list_all_iff)
    ultimately have "map (quota_of q \<circ> fst) demand = map snd demand" by (simp add: le_antisym not_less)
    then have "quota_sum demand q = sum_list (map snd demand)" unfolding map_map by (rule arg_cong)
    moreover have "quota_sum demand q \<le> slots" using assms(1) unfolding quota_inv_def by linarith
    ultimately show ?thesis by simp
  qed
qed

lemma pool_rounds_step:
  assumes "demand_ok pools demand" and "quota_inv demand slots q remaining" and "slots \<le> u64_max"
    and "0 < remaining" and "unmet_pools pools demand q \<noteq> []"
  obtains q' remaining' where "pool_rounds pools demand q remaining = pool_rounds pools demand q' remaining'"
    and "remaining' < remaining" and "quota_inv demand slots q' remaining'" and "\<And>p. quota_of q p \<le> quota_of q' p"
    and "\<And>p want. (p, want) \<in> set demand \<Longrightarrow> min want (quota_of q p
      + saturating_mul_u64 remaining (pool_weight pools p) div total_weight (unmet_pools pools demand q)) \<le> quota_of q' p"
proof -
  let ?gs = "round_grants remaining (unmet_pools pools demand q)"
  obtain q' remaining' granted where run: "apply_grants ?gs q remaining 0 = (q', remaining', granted)"
    by (metis prod_cases3)
  note r = pool_round [OF assms run]
  have step: "pool_rounds pools demand q remaining = pool_rounds pools demand q' remaining'"
    using assms(4,5) run r(2) by (subst pool_rounds.simps) (simp add: Let_def)
  have "sum_list (map gr_grant ?gs) \<noteq> 0" using apply_grants_remaining [OF run] r(2) by linarith
  then have less: "remaining' < remaining" using apply_grants_remaining [OF run] assms(4) by linarith
  have share: "min want (quota_of q p + saturating_mul_u64 remaining (pool_weight pools p) div total_weight (unmet_pools pools demand q))
      \<le> quota_of q' p" if "(p, want) \<in> set demand" for p want
  proof (cases "quota_of q p < want")
    case True
    have "remaining \<le> u64_max" using assms(2,3) by (simp add: quota_inv_def)
    from round_grants_bounds [OF unmet_pools_ok(1) [OF assms(1)] assms(5,4) this unmet_member [OF that True]] r(3) [of p]
    show ?thesis by linarith
  qed (use r(3) [of p] in linarith)
  have "quota_of q p \<le> quota_of q' p" for p unfolding r(3) by simp
  from that [OF step less r(1) this share] show ?thesis .
qed

lemma pool_rounds_ok:
  assumes "demand_ok pools demand" and "quota_inv demand slots q remaining" and "slots \<le> u64_max"
  shows "(\<exists>left. quota_inv demand slots (pool_rounds pools demand q remaining) left)
    \<and> quota_sum demand (pool_rounds pools demand q remaining) = min slots (sum_list (map snd demand))
    \<and> (\<forall>p. quota_of q p \<le> quota_of (pool_rounds pools demand q remaining) p)"
  using assms(2)
proof (induction remaining arbitrary: q rule: less_induct)
  case (less remaining)
  show ?case
  proof (cases "remaining = 0 \<or> unmet_pools pools demand q = []")
    case True
    from pool_rounds_stop [OF less.prems True] less.prems show ?thesis by auto
  next
    case False
    then have f: "0 < remaining" "unmet_pools pools demand q \<noteq> []" by simp_all
    obtain q' remaining' where q': "pool_rounds pools demand q remaining = pool_rounds pools demand q' remaining'"
      "remaining' < remaining" "quota_inv demand slots q' remaining'" "\<And>p. quota_of q p \<le> quota_of q' p"
      by (rule pool_rounds_step [OF assms(1) less.prems assms(3) f]) blast
    from less.IH [OF q'(2,3)] q'(4) show ?thesis unfolding q'(1) by (meson order.trans)
  qed
qed

section \<open>The quotas\<close>

abbreviation min_grant :: "(string, pool_spec) amap \<Rightarrow> string \<times> nat \<Rightarrow> nat" where
  "min_grant pools x \<equiv> min (po_min_share (spec_for pools (fst x))) (snd x)"

lemma quota_of_insert [simp]: "bt_wf q \<Longrightarrow> quota_of (bt_insert p n q) p' = (if p' = p then n else quota_of q p')"
  by (simp add: quota_of_def)

lemma min_share_pass_ok:
  assumes "min_share_pass pools demand q remaining = (q', remaining')" and "bt_wf q" and "distinct (amap_keys demand)"
    and "fst ` set q \<inter> fst ` set demand = {}"
  shows "bt_wf q' \<and> fst ` set q' \<subseteq> fst ` set q \<union> fst ` set demand \<and> (\<forall>p. p \<notin> fst ` set demand \<longrightarrow> quota_of q' p = quota_of q p)
    \<and> list_all (\<lambda>x. quota_of q' (fst x) \<le> min_grant pools x) demand
    \<and> quota_sum demand q' + remaining' = remaining
    \<and> (sum_list (map (min_grant pools) demand) \<le> remaining \<longrightarrow> list_all (\<lambda>x. quota_of q' (fst x) = min_grant pools x) demand)"
  using assms
proof (induction demand arbitrary: q remaining)
  case (Cons x demand)
  obtain p want where x: "x = (p, want)" by fastforce
  define g where "g = min (min_grant pools x) remaining"
  define q1 where "q1 = (if 0 < g then bt_insert p g q else q)"
  have run: "min_share_pass pools demand q1 (remaining - g) = (q', remaining')"
    using Cons.prems(1) x by (auto simp: q1_def g_def Let_def split: if_splits)
  have p: "p \<notin> fst ` set demand" "p \<notin> fst ` set q" using Cons.prems(3,4) x by auto
  have wf: "bt_wf q1" using Cons.prems(2) by (simp add: q1_def)
  have q1: "quota_of q1 p' = (if p' = p then g else quota_of q p')" for p'
    using Cons.prems(2) p(2) by (auto simp: q1_def quota_of_absent)
  have keys: "fst ` set q1 \<subseteq> insert p (fst ` set q)" by (auto simp: q1_def)
  have "fst ` set q \<inter> fst ` set demand = {}" using Cons.prems(4) by auto
  then have "fst ` set q1 \<inter> fst ` set demand = {}" using keys p(1) by blast
  from Cons.IH [OF run wf _ this] Cons.prems(3)
  have ih: "bt_wf q'" "fst ` set q' \<subseteq> fst ` set q1 \<union> fst ` set demand" "\<forall>p. p \<notin> fst ` set demand \<longrightarrow> quota_of q' p = quota_of q1 p"
    "list_all (\<lambda>x. quota_of q' (fst x) \<le> min_grant pools x) demand" "quota_sum demand q' + remaining' = remaining - g"
    "sum_list (map (min_grant pools) demand) \<le> remaining - g \<longrightarrow> list_all (\<lambda>x. quota_of q' (fst x) = min_grant pools x) demand"
    by auto
  have here: "quota_of q' p = g" using ih(3) p(1) q1 by simp
  have g: "g \<le> min_grant pools x" "g \<le> remaining" unfolding g_def by (rule min.cobounded1, rule min.cobounded2)
  have full: "g = min_grant pools x" if "sum_list (map (min_grant pools) (x # demand)) \<le> remaining"
    using that by (simp add: g_def)
  show ?case
  proof (intro conjI impI)
    show "fst ` set q' \<subseteq> fst ` set q \<union> fst ` set (x # demand)" using ih(2) keys x by auto
    show "\<forall>p. p \<notin> fst ` set (x # demand) \<longrightarrow> quota_of q' p = quota_of q p" using ih(3) q1 x by auto
    show "quota_sum (x # demand) q' + remaining' = remaining" using ih(5) here g(2) x by simp
    show "list_all (\<lambda>x. quota_of q' (fst x) \<le> min_grant pools x) (x # demand)" using ih(4) here g(1) x by simp
    assume "sum_list (map (min_grant pools) (x # demand)) \<le> remaining"
    with full [OF this] ih(6) here x show "list_all (\<lambda>x. quota_of q' (fst x) = min_grant pools x) (x # demand)" by simp
  qed (rule ih(1))
qed auto

lemma weighted_share:
  assumes dem: "demand_ok pools demand" and inv: "quota_inv demand slots q remaining" "slots \<le> u64_max"
    and "remaining * all_weights pools demand \<le> u64_max" and p: "(p, want) \<in> set demand"
  shows "min want (quota_of q p + remaining * pool_weight pools p div all_weights pools demand)
    \<le> quota_of (pool_rounds pools demand q remaining) p"
proof -
  have "pool_weight pools p \<in> set (map (pool_weight pools) (amap_keys demand))" using p by force
  then have mem: "pool_weight pools p \<le> all_weights pools demand" by (rule member_le_sum_list) simp
  show ?thesis
  proof (cases "remaining = 0 \<or> unmet_pools pools demand q = []")
    case True
    from pool_rounds_stop(1) [OF inv(1) True] have "pool_rounds pools demand q remaining = q" .
    moreover have "remaining = 0 \<or> want \<le> quota_of q p" using True p by (force simp: unmet_pools_def filter_empty_conv not_less)
    ultimately show ?thesis by auto
  next
    case False
    then have f: "0 < remaining" "unmet_pools pools demand q \<noteq> []" by simp_all
    obtain q' remaining' where q': "pool_rounds pools demand q remaining = pool_rounds pools demand q' remaining'"
      "quota_inv demand slots q' remaining'"
      "min want (quota_of q p + saturating_mul_u64 remaining (pool_weight pools p)
         div total_weight (unmet_pools pools demand q)) \<le> quota_of q' p"
      by (rule pool_rounds_step [OF dem inv f]) (use p in blast)
    have "remaining * pool_weight pools p \<le> u64_max" using assms(4) mem by (meson mult_le_mono2 order.trans)
    then have sat: "saturating_mul_u64 remaining (pool_weight pools p) = remaining * pool_weight pools p"
      by (simp add: saturating_mul_u64_def)
    have "total_weight (unmet_pools pools demand q) \<le> all_weights pools demand"
      using unmet_pools_ok(2) [OF dem, of q] mem by simp
    then have "remaining * pool_weight pools p div all_weights pools demand
        \<le> remaining * pool_weight pools p div total_weight (unmet_pools pools demand q)"
      using total_weight_exact [OF unmet_pools_ok(1) [OF dem] f(2)] by (intro div_le_mono2) auto
    then have "min want (quota_of q p + remaining * pool_weight pools p div all_weights pools demand)
        \<le> min want (quota_of q p + remaining * pool_weight pools p div total_weight (unmet_pools pools demand q))"
      by (intro min.mono add_left_mono order.refl)
    from order.trans [OF this q'(3) [unfolded sat]]
    have "min want (quota_of q p + remaining * pool_weight pools p div all_weights pools demand) \<le> quota_of q' p" .
    with pool_rounds_ok [OF dem q'(2) inv(2)] show ?thesis unfolding q'(1) by (meson order.trans)
  qed
qed

lemma quotas_start:
  assumes "bt_wf demand" and "list_all (\<lambda>(_, want). want \<le> u64_max) demand" and "demand \<noteq> []"
    and "0 < total_slots" and "total_slots * all_weights pools demand \<le> u64_max"
  obtains q remaining where "min_share_pass pools demand [] total_slots = (q, remaining)"
    and "compute_pool_quotas total_slots demand pools = pool_rounds pools demand q remaining"
    and "demand_ok pools demand" and "quota_inv demand total_slots q remaining" and "total_slots \<le> u64_max"
proof -
  obtain q remaining where pass: "min_share_pass pools demand [] total_slots = (q, remaining)" by fastforce
  have res: "compute_pool_quotas total_slots demand pools = pool_rounds pools demand q remaining"
    using assms(3,4) pass by (simp add: compute_pool_quotas_def)
  obtain x r where "demand = x # r" using assms(3) by (cases demand) auto
  then have w: "1 \<le> all_weights pools demand" by simp
  have slots: "total_slots \<le> u64_max" using mult_le_mono2 [OF w, of total_slots] assms(5) by linarith
  have "1 \<le> total_slots" using assms(4) by simp
  from mult_le_mono1 [OF this, of "all_weights pools demand"] assms(5) have "all_weights pools demand \<le> u64_max" by linarith
  then have dem: "demand_ok pools demand" using assms(1,2) by (simp add: demand_ok_def)
  have "quota_inv demand total_slots q remaining"
    using min_share_pass_ok [OF pass bt_wf_Nil bt_wf_distinct [OF assms(1)]] by (auto simp: quota_inv_def list_all_iff)
  from that [OF pass res dem this slots] show ?thesis .
qed

lemma compute_pool_quotas_inv:
  assumes "bt_wf demand" and "list_all (\<lambda>(_, want). want \<le> u64_max) demand"
    and "0 < total_slots" and "total_slots * all_weights pools demand \<le> u64_max"
  shows "bt_wf (compute_pool_quotas total_slots demand pools)
    \<and> quota_sum demand (compute_pool_quotas total_slots demand pools) \<le> total_slots"
proof (cases "demand = []")
  case False
  obtain q remaining where "compute_pool_quotas total_slots demand pools = pool_rounds pools demand q remaining"
    "demand_ok pools demand" "quota_inv demand total_slots q remaining" "total_slots \<le> u64_max"
    by (rule quotas_start [OF assms(1,2) False assms(3,4)])
  with pool_rounds_ok [of pools demand total_slots q remaining] show ?thesis by (auto simp: quota_inv_def)
qed (simp add: compute_pool_quotas_def)

text \<open>
  C9. Pool quotas are fair and waste nothing. If slots times the sum of the weights fits in 64 bits,
  the quotas name only pools with demand, no pool gets more than it asks for, and together they use
  as many slots as are free and asked for. If the minimum shares fit, every pool gets its minimum
  share and on top its weighted share of the slots that remain, rounded down, up to its demand.
\<close>

theorem pool_quotas_fair:
  assumes "bt_wf demand" and "list_all (\<lambda>(_, want). want \<le> u64_max) demand"
    and "0 < total_slots" and "total_slots * all_weights pools demand \<le> u64_max"
  shows "fst ` set (compute_pool_quotas total_slots demand pools) \<subseteq> fst ` set demand
    \<and> (\<forall>(p, want) \<in> set demand. quota_of (compute_pool_quotas total_slots demand pools) p \<le> want)
    \<and> quota_sum demand (compute_pool_quotas total_slots demand pools) = min total_slots (sum_list (map snd demand))
    \<and> (let shares = sum_list (map (min_grant pools) demand) in shares \<le> total_slots \<longrightarrow>
        (\<forall>(p, want) \<in> set demand. min want (min_grant pools (p, want)
           + (total_slots - shares) * pool_weight pools p div all_weights pools demand)
           \<le> quota_of (compute_pool_quotas total_slots demand pools) p))"
proof (cases "demand = []")
  case False
  obtain q remaining where pass: "min_share_pass pools demand [] total_slots = (q, remaining)"
    and res: "compute_pool_quotas total_slots demand pools = pool_rounds pools demand q remaining"
    and dem: "demand_ok pools demand" and inv: "quota_inv demand total_slots q remaining" and slots: "total_slots \<le> u64_max"
    by (rule quotas_start [OF assms(1,2) False assms(3,4)])
  note m = min_share_pass_ok [OF pass bt_wf_Nil bt_wf_distinct [OF assms(1)]]
  note ok = pool_rounds_ok [OF dem inv slots]
  have "remaining \<le> total_slots" using inv unfolding quota_inv_def by linarith
  then have "remaining * all_weights pools demand \<le> u64_max" using assms(4) by (meson mult_le_mono1 order.trans)
  note share = weighted_share [OF dem inv slots this]
  have "min want (min_grant pools (p, want) + (total_slots - sum_list (map (min_grant pools) demand)) * pool_weight pools p
      div all_weights pools demand) \<le> quota_of (pool_rounds pools demand q remaining) p"
    if s: "sum_list (map (min_grant pools) demand) \<le> total_slots" and p: "(p, want) \<in> set demand" for p want
  proof -
    from m s have eq: "\<forall>x \<in> set demand. quota_of q (fst x) = min_grant pools x" by (simp add: list_all_iff)
    then have "map (quota_of q \<circ> fst) demand = map (min_grant pools) demand" by simp
    then have "quota_sum demand q = sum_list (map (min_grant pools) demand)" unfolding map_map by (rule arg_cong)
    then have "remaining = total_slots - sum_list (map (min_grant pools) demand)" using inv unfolding quota_inv_def by linarith
    with share [OF p] bspec [OF eq p] show ?thesis by simp
  qed
  with ok show ?thesis unfolding res Let_def by (auto simp: quota_inv_def list_all_iff)
qed (simp add: compute_pool_quotas_def)

definition demo_pools :: "(string, pool_spec) amap" where
  "demo_pools = [(''etl'', \<lparr>po_weight = 1, po_min_share = 2\<rparr>), (''web'', \<lparr>po_weight = 2, po_min_share = 0\<rparr>)]"

theorem pool_quotas_fair_witness:
  "quota_sum [(''etl'', 9), (''web'', 9)] (compute_pool_quotas 8 [(''etl'', 9), (''web'', 9)] demo_pools) = 8
    \<and> 4 \<le> quota_of (compute_pool_quotas 8 [(''etl'', 9), (''web'', 9)] demo_pools) ''etl''
    \<and> 4 \<le> quota_of (compute_pool_quotas 8 [(''etl'', 9), (''web'', 9)] demo_pools) ''web''"
proof -
  let ?d = "[(''etl'', 9), (''web'', 9)]"
  have h: "bt_wf ?d" "list_all (\<lambda>(_, want). want \<le> u64_max) ?d" "0 < (8::nat)" "8 * all_weights demo_pools ?d \<le> u64_max"
    by (simp_all add: bt_wf_def demo_pools_def spec_for_def)
  from pool_quotas_fair [OF h] show ?thesis by (simp add: Let_def demo_pools_def spec_for_def)
qed

text \<open>
  Weights overflow. The sum of the weights is a wrapping 64-bit sum: two pools whose weights add up
  to a multiple of two to the 64 are each granted everything they ask for, so the quotas exceed the
  free slots.
\<close>

theorem pool_quotas_overflow:
  "let heavy = \<lparr>po_weight = 9223372036854775808, po_min_share = 0\<rparr>;
       q = compute_pool_quotas 2 [(''a'', 2), (''b'', 2)] [(''a'', heavy), (''b'', heavy)]
   in quota_of q ''a'' = 2 \<and> quota_of q ''b'' = 2"
proof -
  let ?h = "\<lparr>po_weight = 9223372036854775808, po_min_share = 0\<rparr>"
  let ?pools = "[(''a'', ?h), (''b'', ?h)]"
  let ?d = "[(''a'', 2), (''b'', 2)] :: (string, nat) amap"
  have u: "unmet_pools ?pools ?d [] = [(''a'', 2, 9223372036854775808), (''b'', 2, 9223372036854775808)]"
    by (simp add: unmet_pools_def spec_for_def quota_of_def)
  have g: "round_grants 2 [(''a'', 2, 9223372036854775808), (''b'', 2, 9223372036854775808)] =
      [\<lparr>gr_pool = ''a'', gr_unmet_demand = 2, gr_weight = 9223372036854775808, gr_grant = 2\<rparr>,
       \<lparr>gr_pool = ''b'', gr_unmet_demand = 2, gr_weight = 9223372036854775808, gr_grant = 2\<rparr>]"
    by (simp add: round_grants_def floor_grants_def total_weight_def sort_grants_def saturating_mul_u64_def)
  have stop: "pool_rounds ?pools ?d q 0 = q" for q by (subst pool_rounds.simps) simp
  have "pool_rounds ?pools ?d [] 2 = [(''a'', 2), (''b'', 2)]"
    by (subst pool_rounds.simps) (simp add: u g stop quota_of_def)
  then show ?thesis by (simp add: compute_pool_quotas_def spec_for_def quota_of_def)
qed

end
