(* ===== verification/JobRecord.thy ===== *)
theory JobRecord
  imports SchedError
begin

text \<open>
  The job record of the coordinator (\<open>krishiv-scheduler/src/job/record.rs\<close>): tasks, stages and jobs
  with their state machines, task launch, status updates, failure accounting with per-task and
  per-stage retries, and the regeneration of lost shuffle output. A \<open>u32\<close> or \<open>u64\<close> is a
  \<^typ>\<open>nat\<close> with its saturation written out; a \<open>Vec\<close> is a list and a \<open>HashMap\<close> an association
  list. An operation that reads the clock takes the reading as \<open>now_ms\<close>. An operation that can fail
  returns the record as it is left behind together with the error.
\<close>

section \<open>Tasks\<close>

record task_record =
  tr_spec :: task_spec
  tr_state :: task_state
  tr_assigned_executor :: "string option"
  tr_attempt :: nat
  tr_launch_in_flight :: bool
  tr_output_metadata :: "task_output_metadata option"
  tr_last_failure_reason :: "string option"
  tr_failure_count :: nat
  tr_executor_loss_count :: nat
  tr_last_watermark_ms :: "int option"
  tr_last_source_offset :: "bytes option"
  tr_assigned_at_ms :: "nat option"
  tr_last_progress_ms :: "nat option"
  tr_completed_duration_ms :: "nat option"
  tr_retry_backoff_until_ms :: "nat option"
  tr_pending_since_ms :: "nat option"

abbreviation task_id_of :: "task_record \<Rightarrow> string" where
  "task_id_of t \<equiv> ts_task_id (tr_spec t)"

definition task_from_spec :: "task_spec \<Rightarrow> task_record" where
  "task_from_spec spec =
     \<lparr>tr_spec = spec, tr_state = TaskPending, tr_assigned_executor = None, tr_attempt = 0,
      tr_launch_in_flight = False, tr_output_metadata = None, tr_last_failure_reason = None,
      tr_failure_count = 0, tr_executor_loss_count = 0, tr_last_watermark_ms = None,
      tr_last_source_offset = None, tr_assigned_at_ms = None, tr_last_progress_ms = None,
      tr_completed_duration_ms = None, tr_retry_backoff_until_ms = None, tr_pending_since_ms = None\<rparr>"

definition apply_streaming_state :: "nat \<Rightarrow> task_record \<Rightarrow> streaming_task_state \<Rightarrow> task_record" where
  "apply_streaming_state now_ms t s =
     (let t1 = t\<lparr>tr_last_watermark_ms := Some (st_watermark_ms s)\<rparr>;
          t2 = (if st_source_offset s = [] then t1 else t1\<lparr>tr_last_source_offset := Some (st_source_offset s)\<rparr>)
      in t2\<lparr>tr_last_progress_ms := Some now_ms\<rparr>)"

definition task_cancel :: "task_record \<Rightarrow> task_record" where
  "task_cancel t = t\<lparr>tr_state := TaskCancelled, tr_launch_in_flight := False\<rparr>"

text \<open>The timestamps of an accepted update, by the state it moved the task to.\<close>

definition stamp_update :: "nat \<Rightarrow> task_record \<Rightarrow> task_status_update \<Rightarrow> task_record" where
  "stamp_update now_ms t u =
     (if tr_state t = TaskRunning then
        t\<lparr>tr_assigned_at_ms := Some now_ms, tr_last_progress_ms := Some now_ms\<rparr>
      else if tr_state t = TaskSucceeded then
        t\<lparr>tr_completed_duration_ms := map_option (\<lambda>s. now_ms - s) (tr_assigned_at_ms t),
           tr_assigned_at_ms := None, tr_last_progress_ms := None\<rparr>
      else if task_is_terminal (tr_state t) then
        t\<lparr>tr_assigned_at_ms := None, tr_last_progress_ms := None\<rparr>
      else if tu_output_metadata u \<noteq> None \<or> tu_message u \<noteq> None then
        t\<lparr>tr_last_progress_ms := Some now_ms\<rparr>
      else t)"

definition apply_status_update :: "nat \<Rightarrow> task_record \<Rightarrow> task_status_update \<Rightarrow>
    task_record \<times> (scheduler_error + task_update_outcome)" where
  "apply_status_update now_ms t u =
     (if tr_attempt t = 0 then
        (t, Inl (InvalidJob (''task '' @ task_id_of t @ '' received status update at attempt 0 ''
           @ [CHR 0xE2, CHR 0x80, CHR 0x94] @ '' task was never launched'')))
      else if tu_attempt u \<noteq> tr_attempt t then
        (t, Inl (StaleTaskAttempt (task_id_of t) (tr_attempt t) (tu_attempt u) AttemptMismatch))
      else if tr_assigned_executor t \<noteq> Some (tu_executor_id u) then
        (t, Inl (StaleTaskAttempt (task_id_of t) (tr_attempt t) (tu_attempt u) NotTheAssignee))
      else if tr_state t = tu_state u then (t, Inr Duplicate)
      else if task_is_terminal (tr_state t)
           \<or> (tr_state t \<noteq> TaskRunning \<and> tr_state t \<noteq> TaskAssigned \<and> tu_state u \<noteq> TaskRunning) then
        (t, Inl (StaleTaskAttempt (task_id_of t) (tr_attempt t) (tu_attempt u) StateCannotAcceptUpdate))
      else
        (let t1 = t\<lparr>tr_state := tu_state u, tr_launch_in_flight := False,
                     tr_assigned_executor := Some (tu_executor_id u), tr_attempt := tu_attempt u\<rparr>;
             t2 = (case tu_output_metadata u of None \<Rightarrow> t1 | Some m \<Rightarrow> t1\<lparr>tr_output_metadata := Some m\<rparr>);
             t3 = (if tr_state t2 = TaskFailed then t2\<lparr>tr_last_failure_reason := tu_message u\<rparr> else t2)
         in (stamp_update now_ms t3 u, Inr Applied)))"

section \<open>Stages\<close>

record stage_record =
  sg_spec :: stage_spec
  sg_state :: stage_state
  sg_retry_count :: nat
  sg_tasks :: "task_record list"

abbreviation stage_id_of :: "stage_record \<Rightarrow> string" where
  "stage_id_of s \<equiv> ss_stage_id (sg_spec s)"

definition stage_from_spec :: "stage_spec \<Rightarrow> stage_record" where
  "stage_from_spec spec =
     \<lparr>sg_spec = spec, sg_state = StagePending, sg_retry_count = 0, sg_tasks = map task_from_spec (ss_tasks spec)\<rparr>"

definition stage_state_of :: "task_state list \<Rightarrow> stage_state" where
  "stage_state_of ts =
     (if list_all (\<lambda>s. s = TaskSucceeded) ts then StageSucceeded
      else if list_ex (\<lambda>s. s = TaskFailed) ts then StageFailed
      else if list_ex (\<lambda>s. s = TaskRunning) ts then StageRunning
      else if list_ex (\<lambda>s. s = TaskAssigned) ts then StageScheduling
      else StagePending)"

definition stage_refresh_state :: "stage_record \<Rightarrow> stage_record" where
  "stage_refresh_state s = s\<lparr>sg_state := stage_state_of (map tr_state (sg_tasks s))\<rparr>"

definition replace_tasks :: "stage_record \<Rightarrow> task_record list \<Rightarrow> stage_record" where
  "replace_tasks s tasks = stage_refresh_state (s\<lparr>sg_tasks := tasks\<rparr>)"

definition reset_task :: "task_record \<Rightarrow> task_record" where
  "reset_task t = t\<lparr>tr_state := TaskPending, tr_assigned_executor := None, tr_launch_in_flight := False\<rparr>"

definition retry_stage :: "stage_record \<Rightarrow> stage_record" where
  "retry_stage s =
     s\<lparr>sg_retry_count := saturating_add_u32 (sg_retry_count s) 1, sg_state := StageRetrying,
        sg_tasks := map reset_task (sg_tasks s)\<rparr>"

definition stage_cancel :: "stage_record \<Rightarrow> stage_record" where
  "stage_cancel s =
     s\<lparr>sg_state := StageCancelled,
        sg_tasks := map (\<lambda>t. if task_is_terminal (tr_state t) then t else task_cancel t) (sg_tasks s)\<rparr>"

definition MISSING_SHUFFLE_MAX_ATTEMPTS :: nat where
  "MISSING_SHUFFLE_MAX_ATTEMPTS = 30"

text \<open>The retry policy of a job, passed down to its stages.\<close>

record retry_policy =
  rp_max_stage_retries :: nat
  rp_backoff_base_ms :: nat
  rp_backoff_cap_ms :: nat

definition backoff_delay :: "retry_policy \<Rightarrow> nat \<Rightarrow> nat" where
  "backoff_delay rp failures =
     min (saturating_mul_u64 (rp_backoff_base_ms rp) (2 ^ min (failures - 1) 16)) (rp_backoff_cap_ms rp)"

definition effective_attempts :: "bool \<Rightarrow> nat \<Rightarrow> nat" where
  "effective_attempts missing_shuffle max_task_attempts =
     (if missing_shuffle then max max_task_attempts MISSING_SHUFFLE_MAX_ATTEMPTS else max_task_attempts)"

definition account_task_failure :: "nat \<Rightarrow> retry_policy \<Rightarrow> stage_record \<Rightarrow> nat \<Rightarrow> bool \<Rightarrow> nat \<Rightarrow>
    stage_record \<times> (scheduler_error + bool)" where
  "account_task_failure now_ms rp s idx missing_shuffle max_task_attempts =
     (if idx \<ge> length (sg_tasks s) then
        (s, Inl (InvalidJob (''task index '' @ show_nat idx @ '' out of range for stage '' @ stage_id_of s)))
      else
        (let t = (sg_tasks s ! idx)\<lparr>tr_failure_count := saturating_add_u32 (tr_failure_count (sg_tasks s ! idx)) 1\<rparr>;
             s1 = s\<lparr>sg_tasks := (sg_tasks s)[idx := t]\<rparr>
         in if tr_failure_count t < effective_attempts missing_shuffle max_task_attempts then
              (let t' = (reset_task t)\<lparr>tr_retry_backoff_until_ms :=
                          (if missing_shuffle then None
                           else Some (saturating_add_u64 now_ms (backoff_delay rp (tr_failure_count t))))\<rparr>
               in (stage_refresh_state (s1\<lparr>sg_tasks := (sg_tasks s1)[idx := t']\<rparr>), Inr True))
            else if sg_retry_count s1 < rp_max_stage_retries rp then (retry_stage s1, Inr True)
            else (s1, Inr False)))"

fun position :: "('a \<Rightarrow> bool) \<Rightarrow> 'a list \<Rightarrow> nat option" where
  "position p [] = None"
| "position p (x # xs) = (if p x then Some 0 else map_option Suc (position p xs))"

definition stage_apply_task_update :: "nat \<Rightarrow> retry_policy \<Rightarrow> stage_record \<Rightarrow> task_status_update \<Rightarrow>
    stage_record \<times> (scheduler_error + task_update_outcome)" where
  "stage_apply_task_update now_ms rp s u =
     (case position (\<lambda>t. task_id_of t = tu_task_id u) (sg_tasks s) of
        None \<Rightarrow> (s, Inl (UnknownTask (tu_task_id u)))
      | Some idx \<Rightarrow>
          (case apply_status_update now_ms (sg_tasks s ! idx) u of
             (t, Inl e) \<Rightarrow> (s\<lparr>sg_tasks := (sg_tasks s)[idx := t]\<rparr>, Inl e)
           | (t, Inr Duplicate) \<Rightarrow> (s\<lparr>sg_tasks := (sg_tasks s)[idx := t]\<rparr>, Inr Duplicate)
           | (t, Inr Applied) \<Rightarrow>
               (let s1 = s\<lparr>sg_tasks := (sg_tasks s)[idx := t]\<rparr> in
                if tu_state u = TaskFailed then
                  (case account_task_failure now_ms rp s1 idx (tu_missing_shuffle_partitions u \<noteq> [])
                          (ss_max_task_attempts (sg_spec s)) of
                     (s2, Inl e) \<Rightarrow> (s2, Inl e)
                   | (s2, Inr absorbed) \<Rightarrow> (if absorbed then s2 else stage_refresh_state s2, Inr Applied))
                else (stage_refresh_state s1, Inr Applied))))"

definition fail_stalled_task :: "nat \<Rightarrow> retry_policy \<Rightarrow> stage_record \<Rightarrow> string \<Rightarrow> nat \<Rightarrow> string \<Rightarrow>
    stage_record \<times> (scheduler_error + bool)" where
  "fail_stalled_task now_ms rp s task_id attempt reason =
     (case position (\<lambda>t. task_id_of t = task_id \<and> tr_attempt t = attempt \<and> tr_state t = TaskRunning) (sg_tasks s) of
        None \<Rightarrow> (s, Inr False)
      | Some idx \<Rightarrow>
          (let t = (sg_tasks s ! idx)\<lparr>tr_state := TaskFailed, tr_last_failure_reason := Some reason,
                      tr_launch_in_flight := False, tr_assigned_at_ms := None, tr_last_progress_ms := None\<rparr>
           in case account_task_failure now_ms rp (s\<lparr>sg_tasks := (sg_tasks s)[idx := t]\<rparr>) idx False
                     (ss_max_task_attempts (sg_spec s)) of
                (s2, Inl e) \<Rightarrow> (s2, Inl e)
              | (s2, Inr _) \<Rightarrow> (stage_refresh_state s2, Inr True)))"

section \<open>Jobs\<close>

record shuffle_regen_diagnosis =
  sd_reported_stage_id :: string
  sd_partition_id :: nat
  sd_producer_stage_id :: string
  sd_producer_task_id :: string
  sd_producer_executor :: "string option"
  sd_reported_endpoint :: "string option"
  sd_reported_size_bytes :: "nat option"
  sd_epoch :: nat

record shuffle_regen_attempt =
  ra_attempts :: nat
  ra_epoch :: nat
  ra_diagnosis :: shuffle_regen_diagnosis

datatype shuffle_regen_outcome =
    NoneAffected
  | Regenerated
  | RepeatedMiss string
  | BudgetExhausted nat nat string

record job_record =
  jr_spec :: job_spec
  jr_state :: job_state
  jr_max_stage_retries :: nat
  jr_retry_backoff_base_ms :: nat
  jr_retry_backoff_cap_ms :: nat
  jr_stages :: "stage_record list"
  jr_shuffle_output :: "(string, shuffle_metadata) amap"
  jr_resource_usage :: resource_usage
  jr_shuffle_regen_total :: nat
  jr_shuffle_regen :: "(string \<times> nat, shuffle_regen_attempt) amap"
  jr_recovery_epoch :: nat

abbreviation job_id_of :: "job_record \<Rightarrow> string" where
  "job_id_of j \<equiv> js_job_id (jr_spec j)"

definition policy_of :: "job_record \<Rightarrow> retry_policy" where
  "policy_of j = \<lparr>rp_max_stage_retries = jr_max_stage_retries j, rp_backoff_base_ms = jr_retry_backoff_base_ms j,
      rp_backoff_cap_ms = jr_retry_backoff_cap_ms j\<rparr>"

definition job_from_spec :: "job_spec \<Rightarrow> nat \<Rightarrow> job_record" where
  "job_from_spec spec max_stage_retries =
     \<lparr>jr_spec = spec, jr_state = JobAccepted, jr_max_stage_retries = max_stage_retries,
      jr_retry_backoff_base_ms = 1000, jr_retry_backoff_cap_ms = 30000,
      jr_stages = map stage_from_spec (js_stages spec), jr_shuffle_output = [],
      jr_resource_usage = resource_usage_default, jr_shuffle_regen_total = 0, jr_shuffle_regen = [],
      jr_recovery_epoch = 0\<rparr>"

definition bump_recovery_epoch :: "job_record \<Rightarrow> job_record" where
  "bump_recovery_epoch j = j\<lparr>jr_recovery_epoch := saturating_add_u64 (jr_recovery_epoch j) 1\<rparr>"

definition set_retry_backoff :: "job_record \<Rightarrow> nat \<Rightarrow> nat \<Rightarrow> job_record" where
  "set_retry_backoff j base_ms cap_ms =
     j\<lparr>jr_retry_backoff_base_ms := max base_ms 1, jr_retry_backoff_cap_ms := max cap_ms base_ms\<rparr>"

definition mark_queued :: "job_record \<Rightarrow> job_record" where
  "mark_queued j =
     j\<lparr>jr_state := JobQueued,
        jr_stages := map (\<lambda>s. s\<lparr>sg_state := StagePending, sg_tasks := map reset_task (sg_tasks s)\<rparr>) (jr_stages j)\<rparr>"

definition mark_admitted :: "job_record \<Rightarrow> job_record" where
  "mark_admitted j = (if jr_state j = JobQueued then j\<lparr>jr_state := JobAccepted\<rparr> else j)"

definition assign_task :: "nat \<Rightarrow> task_assignment list \<Rightarrow> task_record \<Rightarrow> task_record" where
  "assign_task now_ms assignments t =
     (case List.find (\<lambda>a. ta_task_id a = task_id_of t) assignments of
        None \<Rightarrow> t
      | Some a \<Rightarrow> t\<lparr>tr_assigned_executor := Some (ta_executor_id a), tr_state := TaskAssigned,
          tr_pending_since_ms := None, tr_retry_backoff_until_ms := None, tr_assigned_at_ms := Some now_ms\<rparr>)"

definition assign_stage :: "nat \<Rightarrow> task_assignment list \<Rightarrow> stage_record \<Rightarrow> stage_record" where
  "assign_stage now_ms assignments s =
     (let received = list_ex (\<lambda>t. List.find (\<lambda>a. ta_task_id a = task_id_of t) assignments \<noteq> None) (sg_tasks s);
          s1 = s\<lparr>sg_tasks := map (assign_task now_ms assignments) (sg_tasks s)\<rparr>
      in if received \<and> sg_state s \<noteq> StageSucceeded \<and> sg_state s \<noteq> StageFailed
         then s1\<lparr>sg_state := StageScheduling\<rparr> else s1)"

definition apply_assignments :: "nat \<Rightarrow> job_record \<Rightarrow> task_assignment list \<Rightarrow> job_record" where
  "apply_assignments now_ms j assignments =
     (if jr_state j = JobQueued then j
      else j\<lparr>jr_state := JobRunning, jr_stages := map (assign_stage now_ms assignments) (jr_stages j)\<rparr>)"

definition job_state_of :: "job_kind \<Rightarrow> stage_state list \<Rightarrow> job_state" where
  "job_state_of kind ss =
     (if list_ex (\<lambda>s. s = StageFailed) ss then JobFailed
      else if kind \<noteq> StreamingJob \<and> list_all (\<lambda>s. s = StageSucceeded) ss then JobSucceeded
      else JobRunning)"

definition job_refresh_state :: "job_record \<Rightarrow> job_record" where
  "job_refresh_state j = j\<lparr>jr_state := job_state_of (js_kind (jr_spec j)) (map sg_state (jr_stages j))\<rparr>"

definition record_availability :: "job_record \<Rightarrow> string \<Rightarrow> shuffle_partition_output list \<Rightarrow> job_record" where
  "record_availability j stage_id parts =
     (if parts = [] then j
      else j\<lparr>jr_shuffle_output := amap_alter [] stage_id
             (\<lambda>m. foldl (\<lambda>m p. mark_available m \<lparr>path_job_id = job_id_of j, path_stage_id = stage_id,
                                 path_partition_id = sp_partition_id p\<rparr>) m parts) (jr_shuffle_output j)\<rparr>)"

definition job_apply_task_update :: "nat \<Rightarrow> job_record \<Rightarrow> task_status_update \<Rightarrow>
    job_record \<times> (scheduler_error + task_update_outcome)" where
  "job_apply_task_update now_ms j u =
     (let parts = (case tu_output_metadata u of None \<Rightarrow> [] | Some m \<Rightarrow> om_shuffle_partitions m);
          stats = Option.bind (tu_output_metadata u) om_runtime_stats
      in case position (\<lambda>s. stage_id_of s = tu_stage_id u) (jr_stages j) of
           None \<Rightarrow> (j, Inl (UnknownStage (tu_stage_id u)))
         | Some i \<Rightarrow>
             (case stage_apply_task_update now_ms (policy_of j) (jr_stages j ! i) u of
                (s, Inl e) \<Rightarrow> (j\<lparr>jr_stages := (jr_stages j)[i := s]\<rparr>, Inl e)
              | (s, Inr outcome) \<Rightarrow>
                  (let j1 = j\<lparr>jr_stages := (jr_stages j)[i := s]\<rparr>;
                       j2 = (case stats of
                               Some rs \<Rightarrow> if outcome \<noteq> Duplicate
                                 then j1\<lparr>jr_resource_usage := add_task_stats (jr_resource_usage j1) (rt_cpu_nanos rs) (rt_memory_bytes rs)\<rparr>
                                 else j1
                             | None \<Rightarrow> j1);
                       j3 = (if outcome \<noteq> Duplicate then record_availability j2 (tu_stage_id u) parts else j2)
                   in (job_refresh_state j3, Inr outcome))))"

definition apply_stall_failure :: "nat \<Rightarrow> job_record \<Rightarrow> string \<Rightarrow> string \<Rightarrow> nat \<Rightarrow> string \<Rightarrow>
    job_record \<times> (scheduler_error + bool)" where
  "apply_stall_failure now_ms j stage_id task_id attempt reason =
     (case position (\<lambda>s. stage_id_of s = stage_id) (jr_stages j) of
        None \<Rightarrow> (j, Inr False)
      | Some i \<Rightarrow>
          (case fail_stalled_task now_ms (policy_of j) (jr_stages j ! i) task_id attempt reason of
             (s, Inl e) \<Rightarrow> (j\<lparr>jr_stages := (jr_stages j)[i := s]\<rparr>, Inl e)
           | (s, Inr applied) \<Rightarrow>
               (let j1 = j\<lparr>jr_stages := (jr_stages j)[i := s]\<rparr>
                in (if applied then job_refresh_state j1 else j1, Inr applied))))"

definition job_cancel :: "job_record \<Rightarrow> job_record" where
  "job_cancel j = j\<lparr>jr_state := JobCancelled, jr_stages := map stage_cancel (jr_stages j)\<rparr>"

abbreviation job_tasks :: "job_record \<Rightarrow> task_record list" where
  "job_tasks j \<equiv> concat (map sg_tasks (jr_stages j))"

definition count_state :: "task_state \<Rightarrow> job_record \<Rightarrow> nat" where
  "count_state st j = length (filter (\<lambda>t. tr_state t = st) (job_tasks j))"

definition retry_count :: "job_record \<Rightarrow> nat" where
  "retry_count j = sum_list (map sg_retry_count (jr_stages j))"

definition shuffle_partitions_available_count :: "job_record \<Rightarrow> nat" where
  "shuffle_partitions_available_count j = sum_list (map (available_count \<circ> snd) (jr_shuffle_output j))"

definition shuffle_bytes_written :: "job_record \<Rightarrow> nat" where
  "shuffle_bytes_written j =
     sum_list (concat (map (\<lambda>t. case tr_output_metadata t of None \<Rightarrow> []
        | Some m \<Rightarrow> map sp_size_bytes (om_shuffle_partitions m)) (job_tasks j))) mod two64"

record job_snapshot =
  jsn_job_id :: string
  jsn_kind :: job_kind
  jsn_state :: job_state
  jsn_stage_count :: nat
  jsn_task_count :: nat
  jsn_assigned_task_count :: nat
  jsn_running_task_count :: nat
  jsn_succeeded_task_count :: nat
  jsn_failed_task_count :: nat
  jsn_priority :: nat
  jsn_namespace_id :: "string option"
  jsn_resource_usage :: resource_usage
  jsn_shuffle_bytes_written :: nat
  jsn_shuffle_partitions_available :: nat

definition job_snapshot_of :: "job_record \<Rightarrow> job_snapshot" where
  "job_snapshot_of j =
     \<lparr>jsn_job_id = job_id_of j, jsn_kind = js_kind (jr_spec j), jsn_state = jr_state j,
      jsn_stage_count = length (jr_stages j), jsn_task_count = length (job_tasks j),
      jsn_assigned_task_count = count_state TaskAssigned j, jsn_running_task_count = count_state TaskRunning j,
      jsn_succeeded_task_count = count_state TaskSucceeded j, jsn_failed_task_count = count_state TaskFailed j,
      jsn_priority = js_priority (jr_spec j), jsn_namespace_id = js_namespace_id (jr_spec j),
      jsn_resource_usage = jr_resource_usage j, jsn_shuffle_bytes_written = shuffle_bytes_written j,
      jsn_shuffle_partitions_available = shuffle_partitions_available_count j\<rparr>"

section \<open>Lost shuffle output\<close>

text \<open>A task whose shuffle output was served by the lost executor is reset; the paths it served are returned.\<close>

definition invalidate_task :: "string \<Rightarrow> string \<Rightarrow> string \<Rightarrow> task_record \<Rightarrow> task_record \<times> shuffle_path list" where
  "invalidate_task job_id stage_id executor_id t =
     (if tr_state t \<noteq> TaskSucceeded \<or> tr_assigned_executor t \<noteq> Some executor_id then (t, [])
      else case tr_output_metadata t of
             None \<Rightarrow> (t, [])
           | Some meta \<Rightarrow>
               (let remote = map (\<lambda>p. \<lparr>path_job_id = job_id, path_stage_id = stage_id, path_partition_id = sp_partition_id p\<rparr>)
                               (filter (\<lambda>p. sp_flight_endpoint p \<noteq> []) (om_shuffle_partitions meta))
                in if remote = [] then (t, []) else (reset_task t, remote)))"

definition mark_all_failed :: "shuffle_path list \<Rightarrow> string \<Rightarrow> shuffle_metadata \<Rightarrow> shuffle_metadata" where
  "mark_all_failed paths reason m = foldl (\<lambda>m p. mark_failed m p reason) m paths"

text \<open>
  The per-stage part shared by both invalidations: the tasks as \<open>inval\<close> leaves them, the stage state
  recomputed when a task was reset, and the returned paths marked failed. Here \<open>inval\<close> returns no
  path exactly when it leaves the task alone.
\<close>

definition invalidate_stage :: "(stage_record \<Rightarrow> task_record \<Rightarrow> task_record \<times> shuffle_path list) \<Rightarrow> string \<Rightarrow>
    (string \<Rightarrow> bool) \<Rightarrow> stage_record \<Rightarrow> (string, shuffle_metadata) amap \<Rightarrow>
    stage_record \<times> (string, shuffle_metadata) amap \<times> bool" where
  "invalidate_stage inval reason keyed s out =
     (let rs = map (inval s) (sg_tasks s);
          paths = concat (map snd rs);
          s1 = s\<lparr>sg_tasks := map fst rs\<rparr>
      in if paths = [] then (s1, out, False)
         else (stage_refresh_state s1,
               (if keyed (stage_id_of s) then amap_alter [] (stage_id_of s) (mark_all_failed paths reason) out else out),
               True))"

fun invalidate_stages :: "(stage_record \<Rightarrow> task_record \<Rightarrow> task_record \<times> shuffle_path list) \<Rightarrow> string \<Rightarrow>
    (string \<Rightarrow> bool) \<Rightarrow> stage_record list \<Rightarrow> (string, shuffle_metadata) amap \<Rightarrow>
    stage_record list \<times> (string, shuffle_metadata) amap \<times> bool" where
  "invalidate_stages inval reason keyed [] out = ([], out, False)"
| "invalidate_stages inval reason keyed (s # ss) out =
     (let (s', out1, a1) = invalidate_stage inval reason keyed s out;
          (ss', out2, a2) = invalidate_stages inval reason keyed ss out1
      in (s' # ss', out2, a1 \<or> a2))"

definition invalidate_executor_shuffle_partitions :: "job_record \<Rightarrow> string \<Rightarrow> job_record \<times> bool" where
  "invalidate_executor_shuffle_partitions j executor_id =
     (let (ss, out, affected) = invalidate_stages
            (\<lambda>s. invalidate_task (job_id_of j) (stage_id_of s) executor_id) ''executor lost''
            (\<lambda>sid. is_ok (id_try_new ''stage id'' sid)) (jr_stages j) (jr_shuffle_output j);
          j1 = j\<lparr>jr_stages := ss, jr_shuffle_output := out\<rparr>
      in (if affected then job_refresh_state j1 else j1, affected))"

definition missing_report_addresses_task :: "missing_shuffle_partition \<Rightarrow> string \<Rightarrow> task_record \<Rightarrow> bool" where
  "missing_report_addresses_task m stage_id t =
     (if mp_stage_id m = stage_id then
        (case tr_output_metadata t of
           None \<Rightarrow> False
         | Some meta \<Rightarrow> list_ex (\<lambda>p. sp_partition_id p = mp_partition_id m) (om_shuffle_partitions meta))
      else case ts_shuffle_write (tr_spec t) of None \<Rightarrow> False | Some sw \<Rightarrow> sw_stage_id sw = mp_stage_id m)"

definition diagnosis_capture :: "missing_shuffle_partition \<Rightarrow> string \<Rightarrow> task_record \<Rightarrow> nat \<Rightarrow> shuffle_regen_diagnosis" where
  "diagnosis_capture m producer_stage_id t epoch =
     (let reported = Option.bind (tr_output_metadata t)
            (\<lambda>meta. List.find (\<lambda>p. sp_partition_id p = mp_partition_id m) (om_shuffle_partitions meta))
      in \<lparr>sd_reported_stage_id = mp_stage_id m, sd_partition_id = mp_partition_id m,
          sd_producer_stage_id = producer_stage_id, sd_producer_task_id = task_id_of t,
          sd_producer_executor = tr_assigned_executor t,
          sd_reported_endpoint = (case reported of None \<Rightarrow> None
             | Some p \<Rightarrow> if sp_flight_endpoint p = [] then None else Some (sp_flight_endpoint p)),
          sd_reported_size_bytes = map_option sp_size_bytes reported, sd_epoch = epoch\<rparr>)"

abbreviation em_dash :: string where
  "em_dash \<equiv> [CHR 0xE2, CHR 0x80, CHR 0x94]"

definition diagnosis_display :: "shuffle_regen_diagnosis \<Rightarrow> string" where
  "diagnosis_display d =
     ''stage '' @ sd_reported_stage_id d @ '' partition '' @ show_nat (sd_partition_id d) @ '' produced by task ''
     @ sd_producer_task_id d @ '' (coordinator stage '' @ sd_producer_stage_id d @ '') on executor ''
     @ (case sd_producer_executor d of None \<Rightarrow> ''<unassigned>'' | Some e \<Rightarrow> e) @ '' advertised endpoint ''
     @ (case sd_reported_endpoint d of None \<Rightarrow> ''<none reported '' @ em_dash @ '' consumer read LOCALLY (A1)>'' | Some e \<Rightarrow> e)
     @ '' writer-reported size ''
     @ (case sd_reported_size_bytes d of None \<Rightarrow> ''<never reported>'' | Some b \<Rightarrow> show_nat b @ '' bytes'')
     @ '' at recovery epoch '' @ show_nat (sd_epoch d)"

text \<open>The succeeded producers a report addresses, in the order of the detection pass.\<close>

definition diagnoses_of :: "job_record \<Rightarrow> missing_shuffle_partition list \<Rightarrow>
    ((string \<times> nat) \<times> shuffle_regen_diagnosis) list" where
  "diagnoses_of j missing =
     concat (map (\<lambda>s. concat (map (\<lambda>t.
        if tr_state t \<noteq> TaskSucceeded then []
        else map (\<lambda>m. ((mp_stage_id m, mp_partition_id m), diagnosis_capture m (stage_id_of s) t (jr_recovery_epoch j)))
               (filter (\<lambda>m. missing_report_addresses_task m (stage_id_of s) t) missing)) (sg_tasks s))) (jr_stages j))"

definition record_regen :: "nat \<Rightarrow> (string \<times> nat, shuffle_regen_attempt) amap \<Rightarrow>
    (string \<times> nat) \<times> shuffle_regen_diagnosis \<Rightarrow> (string \<times> nat, shuffle_regen_attempt) amap" where
  "record_regen epoch m kd =
     amap_alter \<lparr>ra_attempts = 0, ra_epoch = epoch, ra_diagnosis = snd kd\<rparr> (fst kd)
       (\<lambda>e. \<lparr>ra_attempts = saturating_add_u32 (ra_attempts e) 1, ra_epoch = epoch, ra_diagnosis = snd kd\<rparr>) m"

definition invalidate_missing :: "string \<Rightarrow> missing_shuffle_partition list \<Rightarrow> stage_record \<Rightarrow> task_record \<Rightarrow>
    task_record \<times> shuffle_path list" where
  "invalidate_missing job_id missing s t =
     (if tr_state t \<noteq> TaskSucceeded then (t, [])
      else case filter (\<lambda>m. missing_report_addresses_task m (stage_id_of s) t) missing of
             [] \<Rightarrow> (t, [])
           | addressed \<Rightarrow>
               (reset_task t, map (\<lambda>m. \<lparr>path_job_id = job_id, path_stage_id = stage_id_of s,
                                         path_partition_id = mp_partition_id m\<rparr>) addressed))"

definition invalidate_specific_shuffle_partitions :: "job_record \<Rightarrow> missing_shuffle_partition list \<Rightarrow> nat \<Rightarrow>
    job_record \<times> shuffle_regen_outcome" where
  "invalidate_specific_shuffle_partitions j missing max_regen =
     (let epoch = jr_recovery_epoch j; diagnoses = diagnoses_of j missing in
      if missing = [] \<or> diagnoses = [] then (j, NoneAffected)
      else case List.find (\<lambda>kd. case map_of (jr_shuffle_regen j) (fst kd) of
                                 None \<Rightarrow> False | Some previous \<Rightarrow> ra_epoch previous = epoch) diagnoses of
        Some kd \<Rightarrow>
          (j, RepeatedMiss (''shuffle partition reported missing twice with no executor loss in between '' @ em_dash
             @ '' regenerating it a third time cannot change the outcome. First report: ''
             @ (case map_of (jr_shuffle_regen j) (fst kd) of None \<Rightarrow> [] | Some p \<Rightarrow> diagnosis_display (ra_diagnosis p))
             @ ''. This report: '' @ diagnosis_display (snd kd)))
      | None \<Rightarrow>
          (case List.find (\<lambda>kd. case map_of (jr_shuffle_regen j) (fst kd) of
                                  None \<Rightarrow> False | Some attempt \<Rightarrow> ra_attempts attempt \<ge> max_regen) diagnoses of
             Some kd \<Rightarrow>
               (j, BudgetExhausted (case map_of (jr_shuffle_regen j) (fst kd) of None \<Rightarrow> 0 | Some a \<Rightarrow> ra_attempts a)
                     max_regen (diagnosis_display (snd kd)))
           | None \<Rightarrow>
               (let (ss, out, affected) = invalidate_stages (invalidate_missing (job_id_of j) missing)
                      ''shuffle partition missing on consumer fetch'' (\<lambda>_. True) (jr_stages j) (jr_shuffle_output j);
                    j1 = j\<lparr>jr_shuffle_regen_total := (jr_shuffle_regen_total j + 1) mod 2 ^ 32,
                            jr_shuffle_regen := foldl (record_regen epoch) (jr_shuffle_regen j) diagnoses,
                            jr_stages := ss, jr_shuffle_output := out\<rparr>
                in (if affected then job_refresh_state j1 else j1, Regenerated))))"

section \<open>Launching assigned tasks\<close>

text \<open>
  The key groups of the task at an index. The casts to \<open>u32\<close> are written out; the source divides by
  the cast parallelism, so it panics where that is zero, at a multiple of \<open>2 ^ 32\<close> tasks.
\<close>

definition key_group_range_for_task :: "nat \<Rightarrow> nat \<Rightarrow> key_group_range" where
  "key_group_range_for_task task_index parallelism =
     (let p = max parallelism 1 mod 2 ^ 32;
          idx = task_index mod 2 ^ 32;
          base = NUM_KEY_GROUPS div p;
          rem = NUM_KEY_GROUPS mod p;
          start = min (idx * base) u32_max + min idx rem;
          count = base + (if idx < rem then 1 else 0)
      in \<lparr>kg_start = start, kg_end = start + count - 1\<rparr>)"

record 'rb launch_inputs =
  li_executor_leases :: "(string \<times> nat) list"
  li_batch_sql_tables :: "(string \<times> string) list option"
  li_inline_partitions :: "'rb input_partition list option"
  li_task_inline_partitions :: "(string, 'rb input_partition list) amap option"
  li_skew_partition_override :: "nat option"

definition task_shuffle_locations :: "('rb \<Rightarrow> nat) \<Rightarrow> string \<Rightarrow> task_record \<Rightarrow> 'rb input_partition list" where
  "task_shuffle_locations num_rows job_id t =
     (case (ts_shuffle_write (tr_spec t), tr_output_metadata t) of
        (Some sw, Some meta) \<Rightarrow>
          map (\<lambda>p. input_partition_typed num_rows
                 (''shuffle-'' @ sw_stage_id sw @ ''-p'' @ show_nat (sp_partition_id p))
                 (ShuffleFlight ''__dfplan_shuffle'' (sp_flight_endpoint p) job_id (sw_stage_id sw) (sp_partition_id p)))
            (filter (\<lambda>p. sp_flight_endpoint p \<noteq> []) (om_shuffle_partitions meta))
      | _ \<Rightarrow> [])"

definition shuffle_location_inputs :: "('rb \<Rightarrow> nat) \<Rightarrow> job_record \<Rightarrow> (string, 'rb input_partition list) amap" where
  "shuffle_location_inputs num_rows j =
     foldl (\<lambda>m s. let locations = concat (map (task_shuffle_locations num_rows (job_id_of j)) (sg_tasks s))
                  in if locations = [] then m else amap_insert (stage_id_of s) locations m) [] (jr_stages j)"

definition launch_input_partitions :: "('rb \<Rightarrow> nat) \<Rightarrow> 'rb launch_inputs \<Rightarrow> (string, 'rb input_partition list) amap \<Rightarrow>
    stage_spec \<Rightarrow> task_record \<Rightarrow> string \<Rightarrow> scheduler_error + 'rb input_partition list" where
  "launch_input_partitions num_rows li locations spec t task_body =
     (if is_dfplan_body task_body then
        Inr (concat (map (\<lambda>up. case map_of locations up of None \<Rightarrow> [] | Some ps \<Rightarrow> ps) (ss_upstream_stage_ids spec)))
      else case li_batch_sql_tables li of
        Some tables \<Rightarrow>
          Inr (map (\<lambda>(idx, table_name, path). with_descriptor num_rows
                 (input_partition_new (''parquet-'' @ show_nat idx) []) (LocalParquet table_name path))
                 (enumerate 0 tables))
      | None \<Rightarrow>
          (case li_task_inline_partitions li of
             Some parts_by_task \<Rightarrow>
               (case map_of parts_by_task (task_id_of t) of
                  None \<Rightarrow> Inl (InvalidJob (''task '' @ task_id_of t @ '' has no registered task-scoped input partition''))
                | Some ps \<Rightarrow> Inr ps)
           | None \<Rightarrow>
               (case li_inline_partitions li of
                  Some ps \<Rightarrow> Inr ps
                | None \<Rightarrow> Inr [input_partition_new (task_id_of t) (ts_description (tr_spec t))])))"

definition REATTACH_PREFIXES :: "string list" where
  "REATTACH_PREFIXES = [''stream:loop:'', ''stream:rloop:'', ''stream:rjoin:'', ''stream:rpipe:'', ''stream:rbatch:'']"

definition build_assignment :: "frag_codec \<Rightarrow> 'rb launch_inputs \<Rightarrow> job_spec \<Rightarrow> stage_spec \<Rightarrow> nat \<Rightarrow> nat \<Rightarrow> task_record \<Rightarrow>
    string \<Rightarrow> string \<Rightarrow> nat \<Rightarrow> nat \<Rightarrow> 'rb input_partition list \<Rightarrow> 'rb executor_task_assignment" where
  "build_assignment fc li job spec parallelism task_index t task_body executor_id lease attempt_id inputs =
     (let descr = ts_description (tr_spec t);
          a = assignment_new (js_job_id job) (ss_stage_id spec) (task_id_of t) attempt_id executor_id lease
                \<lparr>pf_description = descr, pf_is_streaming = (execution_kind_from_fragment fc descr = ExecStreaming)\<rparr>
                (case ts_sink_contract (tr_spec t) of
                   Some contract \<Rightarrow> \<lparr>oc_kind = SinkOutput, oc_description = contract\<rparr>
                 | None \<Rightarrow> \<lparr>oc_kind = InlineRecordBatches, oc_description = ''inline result for '' @ task_id_of t\<rparr>)
      in a\<lparr>ea_input_partitions := inputs,
            ea_key_group_range := key_group_range_for_task task_index parallelism,
            ea_requires_reattach := list_ex (starts_with task_body) REATTACH_PREFIXES,
            ea_task_timeout_secs := ts_task_timeout_secs (tr_spec t),
            ea_cpu_limit_nanos := js_cpu_limit_nanos job,
            ea_memory_limit_bytes := js_memory_limit_bytes job,
            ea_shuffle_write := map_option (\<lambda>sw. sw\<lparr>sw_num_partitions :=
               max (case (if is_dfplan_body task_body then None else li_skew_partition_override li) of
                      Some n \<Rightarrow> n | None \<Rightarrow> sw_num_partitions sw) 1\<rparr>) (ts_shuffle_write (tr_spec t)),
            ea_shuffle_read := ts_shuffle_read (tr_spec t)\<rparr>)"

definition launch_task :: "frag_codec \<Rightarrow> ('rb \<Rightarrow> nat) \<Rightarrow> 'rb launch_inputs \<Rightarrow> job_spec \<Rightarrow> (string, 'rb input_partition list) amap \<Rightarrow>
    stage_spec \<Rightarrow> nat \<Rightarrow> nat \<Rightarrow> task_record \<Rightarrow> task_record \<times> (scheduler_error + 'rb executor_task_assignment option)" where
  "launch_task fc num_rows li job locations spec parallelism task_index t =
     (if tr_state t \<noteq> TaskAssigned \<or> tr_launch_in_flight t then (t, Inr None)
      else
        (let task_body = tf_body (decode_or_legacy fc (ts_description (tr_spec t))) in
         if starts_with task_body ''stream:loop:'' \<and> li_inline_partitions li = None \<and> li_task_inline_partitions li = None
         then (t, Inr None)
         else case tr_assigned_executor t of
           None \<Rightarrow> (t, Inl (InvalidJob (''task '' @ task_id_of t @ '' is assigned without an executor'')))
         | Some executor_id \<Rightarrow>
             (case List.find (\<lambda>el. fst el = executor_id) (li_executor_leases li) of
                None \<Rightarrow> (reset_task t, Inr None)
              | Some el \<Rightarrow>
                  (let t1 = t\<lparr>tr_attempt := saturating_add_u32 (tr_attempt t) 1, tr_launch_in_flight := True\<rparr> in
                   case attempt_try_new (tr_attempt t1) of
                     Inl e \<Rightarrow> (t1, Inl (InvalidJob (id_error_display e)))
                   | Inr attempt_id \<Rightarrow>
                       (case launch_input_partitions num_rows li locations spec t1 task_body of
                          Inl e \<Rightarrow> (t1, Inl e)
                        | Inr inputs \<Rightarrow>
                            (t1, Inr (Some (build_assignment fc li job spec parallelism task_index t1 task_body
                                     executor_id (snd el) attempt_id inputs))))))))"

text \<open>An error stops the loops and keeps what they have changed so far.\<close>

fun launch_tasks :: "frag_codec \<Rightarrow> ('rb \<Rightarrow> nat) \<Rightarrow> 'rb launch_inputs \<Rightarrow> job_spec \<Rightarrow> (string, 'rb input_partition list) amap \<Rightarrow>
    stage_spec \<Rightarrow> nat \<Rightarrow> nat \<Rightarrow> task_record list \<Rightarrow> task_record list \<times> (scheduler_error + 'rb executor_task_assignment list)" where
  "launch_tasks fc num_rows li job locations spec parallelism task_index [] = ([], Inr [])"
| "launch_tasks fc num_rows li job locations spec parallelism task_index (t # ts) =
     (case launch_task fc num_rows li job locations spec parallelism task_index t of
        (t', Inl e) \<Rightarrow> (t' # ts, Inl e)
      | (t', Inr a) \<Rightarrow>
          (case launch_tasks fc num_rows li job locations spec parallelism (Suc task_index) ts of
             (ts', Inl e) \<Rightarrow> (t' # ts', Inl e)
           | (ts', Inr as) \<Rightarrow> (t' # ts', Inr ((case a of None \<Rightarrow> [] | Some x \<Rightarrow> [x]) @ as))))"

definition launch_stage :: "frag_codec \<Rightarrow> ('rb \<Rightarrow> nat) \<Rightarrow> 'rb launch_inputs \<Rightarrow> job_spec \<Rightarrow> (string, 'rb input_partition list) amap \<Rightarrow>
    string list \<Rightarrow> stage_record \<Rightarrow> stage_record \<times> (scheduler_error + 'rb executor_task_assignment list)" where
  "launch_stage fc num_rows li job locations succeeded s =
     (if \<not> list_all (\<lambda>up. up \<in> set succeeded) (ss_upstream_stage_ids (sg_spec s)) then (s, Inr [])
      else case launch_tasks fc num_rows li job locations (sg_spec s) (length (sg_tasks s)) 0 (sg_tasks s) of
             (ts, Inl e) \<Rightarrow> (s\<lparr>sg_tasks := ts\<rparr>, Inl e)
           | (ts, Inr as) \<Rightarrow>
               (let s1 = s\<lparr>sg_tasks := ts\<rparr>
                in (if list_ex (\<lambda>t. tr_state t = TaskRunning) ts then s1\<lparr>sg_state := StageRunning\<rparr> else s1, Inr as)))"

fun launch_stages :: "frag_codec \<Rightarrow> ('rb \<Rightarrow> nat) \<Rightarrow> 'rb launch_inputs \<Rightarrow> job_spec \<Rightarrow> (string, 'rb input_partition list) amap \<Rightarrow>
    string list \<Rightarrow> stage_record list \<Rightarrow> stage_record list \<times> (scheduler_error + 'rb executor_task_assignment list)" where
  "launch_stages fc num_rows li job locations succeeded [] = ([], Inr [])"
| "launch_stages fc num_rows li job locations succeeded (s # ss) =
     (case launch_stage fc num_rows li job locations succeeded s of
        (s', Inl e) \<Rightarrow> (s' # ss, Inl e)
      | (s', Inr as) \<Rightarrow>
          (case launch_stages fc num_rows li job locations succeeded ss of
             (ss', Inl e) \<Rightarrow> (s' # ss', Inl e)
           | (ss', Inr as') \<Rightarrow> (s' # ss', Inr (as @ as'))))"

definition launch_assigned_task_assignments :: "frag_codec \<Rightarrow> ('rb \<Rightarrow> nat) \<Rightarrow> 'rb launch_inputs \<Rightarrow> job_record \<Rightarrow>
    job_record \<times> (scheduler_error + 'rb executor_task_assignment list)" where
  "launch_assigned_task_assignments fc num_rows li j =
     (if jr_state j = JobQueued then (j, Inr [])
      else
        (let succeeded = map stage_id_of (filter (\<lambda>s. sg_state s = StageSucceeded) (jr_stages j));
             (ss, r) = launch_stages fc num_rows li (jr_spec j) (shuffle_location_inputs num_rows j) succeeded (jr_stages j)
         in (j\<lparr>jr_state := JobRunning, jr_stages := ss\<rparr>, r)))"

section \<open>Placement hints and runtime statistics\<close>

definition task_weight :: "task_record \<Rightarrow> nat" where
  "task_weight t =
     (case tr_output_metadata t of
        None \<Rightarrow> 1
      | Some m \<Rightarrow> (let w = sum_list (map (\<lambda>p. max (sp_size_bytes p) 1) (om_shuffle_partitions m)) mod two64
                  in if w > 0 then w else 1))"

definition host_bytes :: "(string, string) amap \<Rightarrow> stage_record list \<Rightarrow> (string, nat) amap" where
  "host_bytes hosts upstreams =
     foldl (\<lambda>m t. if tr_state t \<noteq> TaskSucceeded then m
                  else case Option.bind (tr_assigned_executor t) (map_of hosts) of
                         None \<Rightarrow> m
                       | Some host \<Rightarrow> amap_alter 0 host (\<lambda>b. (b + task_weight t) mod two64) m)
       [] (concat (map sg_tasks upstreams))"

definition heaviest_host :: "(string, nat) amap \<Rightarrow> string option" where
  "heaviest_host m =
     (case m of
        [] \<Rightarrow> None
      | hb # r \<Rightarrow> Some (fst (foldl (\<lambda>a b. if snd a > snd b \<or> (snd a = snd b \<and> fst a < fst b) then a else b) hb r)))"

definition preferred_nodes_by_stage :: "job_record \<Rightarrow> (string, string) amap \<Rightarrow> (string, string) amap" where
  "preferred_nodes_by_stage j hosts =
     foldl (\<lambda>m s. if ss_upstream_stage_ids (sg_spec s) = [] then m
                  else case heaviest_host (host_bytes hosts
                         (filter (\<lambda>u. stage_id_of u \<in> set (ss_upstream_stage_ids (sg_spec s))) (jr_stages j))) of
                         None \<Rightarrow> m
                       | Some host \<Rightarrow> amap_insert (stage_id_of s) host m)
       [] (jr_stages j)"

definition partition_stats :: "nat \<Rightarrow> task_runtime_stats" where
  "partition_stats n =
     \<lparr>rt_input_rows = 0, rt_output_rows = 0, rt_cpu_nanos = 0, rt_memory_bytes = 0, rt_spill_bytes = 0,
      rt_serialized_bytes = n\<rparr>"

definition task_stats :: "task_record \<Rightarrow> task_runtime_stats list" where
  "task_stats t =
     (let parts = (case tr_output_metadata t of None \<Rightarrow> [] | Some m \<Rightarrow> om_shuffle_partitions m) in
      if parts \<noteq> [] then map (\<lambda>p. partition_stats (sp_size_bytes p)) parts
      else [case Option.bind (tr_output_metadata t) om_runtime_stats of None \<Rightarrow> partition_stats 0 | Some rs \<Rightarrow> rs])"

definition collect_stage_runtime_stats :: "job_record \<Rightarrow> string \<Rightarrow> task_runtime_stats list" where
  "collect_stage_runtime_stats j stage_id =
     (case List.find (\<lambda>s. stage_id_of s = stage_id) (jr_stages j) of
        None \<Rightarrow> []
      | Some s \<Rightarrow> concat (map task_stats (filter (\<lambda>t. tr_state t = TaskSucceeded) (sg_tasks s))))"

end
