(* ===== verification/JobRecovery.thy ===== *)
theory JobRecovery
  imports JobRecord
begin

text \<open>
  What the coordinator does to a job record besides the operations of the record itself
  (\<open>krishiv-scheduler/src/coordinator/\<close> and \<open>job_coordinator.rs\<close>): the terminal guard of a status
  update, executor loss, the circuit breaker, stuck and straggling tasks, undelivered launches, the
  rescue of continuous tasks, restart recovery, continuous input cycles and the publish window of staged sinks. Each
  definition is the part of its method that reads or writes the record of one job; the coordinator
  tables around it (indexes, backlog, notifications, persistence) are not modelled. The loops
  that reset some tasks of a job and refresh what they touched are \<open>touch_job\<close>.
\<close>

section \<open>Task bodies\<close>

text \<open>
  \<open>allow_legacy\<close> is the verdict of \<open>allow_legacy_task_fragments\<close>, which reads the environment. The
  error text is dropped: the callers modelled here only test for success.
\<close>

definition decode_for_profile :: "frag_codec \<Rightarrow> bool \<Rightarrow> string \<Rightarrow> typed_task_fragment option" where
  "decode_for_profile fc allow_legacy fragment =
     (if starts_with fragment ''krishiv-fragment:'' then fragment_decode fc fragment
      else if allow_legacy then Some (decode_or_legacy fc fragment) else None)"

definition task_body_for_profile :: "frag_codec \<Rightarrow> bool \<Rightarrow> string \<Rightarrow> string option" where
  "task_body_for_profile fc allow_legacy fragment = map_option (trim \<circ> tf_body) (decode_for_profile fc allow_legacy fragment)"

definition is_loop_task :: "frag_codec \<Rightarrow> bool \<Rightarrow> task_record \<Rightarrow> bool" where
  "is_loop_task fc allow_legacy t =
     (case task_body_for_profile fc allow_legacy (ts_description (tr_spec t)) of
        None \<Rightarrow> False | Some body \<Rightarrow> starts_with body ''stream:loop:'')"

section \<open>Resetting tasks\<close>

definition touch_stage :: "(task_record \<Rightarrow> bool) \<Rightarrow> (task_record \<Rightarrow> task_record) \<Rightarrow> stage_record \<Rightarrow> stage_record" where
  "touch_stage p f s =
     (if list_ex p (sg_tasks s)
      then stage_refresh_state (s\<lparr>sg_tasks := map (\<lambda>t. if p t then f t else t) (sg_tasks s)\<rparr>) else s)"

definition touch_job :: "(stage_record \<Rightarrow> task_record \<Rightarrow> bool) \<Rightarrow> (task_record \<Rightarrow> task_record) \<Rightarrow> job_record \<Rightarrow> job_record" where
  "touch_job p f j =
     (if list_ex (\<lambda>s. list_ex (p s) (sg_tasks s)) (jr_stages j)
      then job_refresh_state (j\<lparr>jr_stages := map (\<lambda>s. touch_stage (p s) f s) (jr_stages j)\<rparr>) else j)"

definition MAX_EXECUTOR_LOSSES_BEFORE_FAIL :: nat where
  "MAX_EXECUTOR_LOSSES_BEFORE_FAIL = 5"

definition held_by_lost :: "frag_codec \<Rightarrow> bool \<Rightarrow> string \<Rightarrow> task_record \<Rightarrow> bool" where
  "held_by_lost fc allow_legacy lost_id t \<longleftrightarrow>
     tr_assigned_executor t = Some lost_id
     \<and> (tr_state t = TaskRunning \<or> tr_state t = TaskAssigned
        \<or> tr_state t = TaskSucceeded \<and> is_loop_task fc allow_legacy t)"

definition lose_task :: "task_record \<Rightarrow> task_record" where
  "lose_task t =
     (let n = saturating_add_u32 (tr_executor_loss_count t) 1;
          t1 = t\<lparr>tr_executor_loss_count := n, tr_assigned_executor := None, tr_launch_in_flight := False\<rparr>
      in if n \<ge> MAX_EXECUTOR_LOSSES_BEFORE_FAIL then
           t1\<lparr>tr_state := TaskFailed, tr_last_failure_reason := Some (''executor lost '' @ show_nat n
               @ '' consecutive times (max '' @ show_nat MAX_EXECUTOR_LOSSES_BEFORE_FAIL @ ''); task permanently failed'')\<rparr>
         else t1\<lparr>tr_state := TaskPending\<rparr>)"

definition lose_executor :: "frag_codec \<Rightarrow> bool \<Rightarrow> string \<Rightarrow> job_record \<Rightarrow> job_record" where
  "lose_executor fc allow_legacy lost_id j =
     fst (invalidate_executor_shuffle_partitions
            (touch_job (\<lambda>_. held_by_lost fc allow_legacy lost_id) lose_task (bump_recovery_epoch j)) lost_id)"

definition clear_assignments_for_bad_executor :: "string \<Rightarrow> job_record \<Rightarrow> job_record \<times> nat" where
  "clear_assignments_for_bad_executor executor_id j =
     (j\<lparr>jr_stages := map (\<lambda>s. s\<lparr>sg_tasks := map (\<lambda>t. if tr_assigned_executor t = Some executor_id
            then t\<lparr>tr_assigned_executor := None, tr_launch_in_flight := False\<rparr> else t) (sg_tasks s)\<rparr>) (jr_stages j)\<rparr>,
      length (filter (\<lambda>t. tr_assigned_executor t = Some executor_id) (job_tasks j)))"

definition stuck_assigned :: "nat \<Rightarrow> nat \<Rightarrow> task_record \<Rightarrow> bool" where
  "stuck_assigned now_ms timeout_ms t \<longleftrightarrow>
     tr_state t = TaskAssigned \<and> (case tr_assigned_at_ms t of None \<Rightarrow> False | Some at \<Rightarrow> now_ms - at > timeout_ms)"

definition reset_stuck_assigned_tasks :: "nat \<Rightarrow> nat \<Rightarrow> job_record \<Rightarrow> job_record" where
  "reset_stuck_assigned_tasks now_ms timeout_ms j =
     (if job_is_terminal (jr_state j) then j
      else touch_job (\<lambda>_. stuck_assigned now_ms timeout_ms) (\<lambda>t. (reset_task t)\<lparr>tr_assigned_at_ms := None\<rparr>) j)"

definition apply_speculation_preempt :: "string \<Rightarrow> string \<Rightarrow> nat \<Rightarrow> job_record \<Rightarrow> job_record" where
  "apply_speculation_preempt stage_id task_id attempt j =
     touch_job (\<lambda>s t. stage_id_of s = stage_id \<and> task_id_of t = task_id \<and> tr_attempt t = attempt \<and> tr_state t = TaskRunning)
       (\<lambda>t. (reset_task t)\<lparr>tr_assigned_at_ms := None, tr_last_progress_ms := None\<rparr>) j"

section \<open>Restart recovery\<close>

definition normalize_recovered_launch_state :: "job_record \<Rightarrow> job_record" where
  "normalize_recovered_launch_state j =
     (if jr_state j = JobQueued then mark_queued j
      else if job_is_terminal (jr_state j) then j
      else touch_job (\<lambda>_ t. tr_state t = TaskAssigned \<and> tr_launch_in_flight t) (\<lambda>t. t\<lparr>tr_launch_in_flight := False\<rparr>) j)"

definition has_remote_shuffle :: "task_record \<Rightarrow> bool" where
  "has_remote_shuffle t =
     (case tr_output_metadata t of None \<Rightarrow> False
      | Some m \<Rightarrow> list_ex (\<lambda>p. sp_flight_endpoint p \<noteq> []) (om_shuffle_partitions m))"

definition unknown_producers :: "string list \<Rightarrow> job_record \<Rightarrow> string list" where
  "unknown_producers known j =
     foldl (\<lambda>acc t. case tr_assigned_executor t of
                      None \<Rightarrow> acc
                    | Some e \<Rightarrow> if tr_state t = TaskSucceeded \<and> e \<notin> set known \<and> e \<notin> set acc \<and> has_remote_shuffle t
                               then acc @ [e] else acc) [] (job_tasks j)"

definition audit_shuffle_availability :: "string list \<Rightarrow> job_record \<Rightarrow> job_record" where
  "audit_shuffle_availability known j =
     (if job_is_terminal (jr_state j) then j
      else
        (let j1 = touch_job (\<lambda>_ t. (case tr_assigned_executor t of None \<Rightarrow> False | Some e \<Rightarrow> e \<notin> set known)
                               \<and> (tr_state t = TaskAssigned \<or> tr_state t = TaskRunning)) reset_task j
         in foldl (\<lambda>j e. fst (invalidate_executor_shuffle_partitions j e)) j1 (unknown_producers known j1)))"

section \<open>Launches that were not delivered\<close>

text \<open>A launch that could not be delivered is taken back, for all tasks of a job or for one of them.\<close>

definition clear_launch_in_flight_for_job :: "job_record \<Rightarrow> job_record" where
  "clear_launch_in_flight_for_job j =
     job_refresh_state (j\<lparr>jr_stages := map (\<lambda>s. stage_refresh_state (s\<lparr>sg_tasks := map (\<lambda>t.
         if tr_state t = TaskAssigned \<and> tr_launch_in_flight t then t\<lparr>tr_launch_in_flight := False\<rparr> else t) (sg_tasks s)\<rparr>))
       (jr_stages j)\<rparr>)"

definition clear_launch_in_flight_for_task :: "string \<Rightarrow> job_record \<Rightarrow> job_record" where
  "clear_launch_in_flight_for_task task_id j =
     job_refresh_state (j\<lparr>jr_stages := map (\<lambda>s.
         case position (\<lambda>t. task_id_of t = task_id \<and> tr_state t = TaskAssigned \<and> tr_launch_in_flight t) (sg_tasks s) of
           None \<Rightarrow> s
         | Some i \<Rightarrow> stage_refresh_state (s\<lparr>sg_tasks := (sg_tasks s)[i := (sg_tasks s ! i)\<lparr>tr_launch_in_flight := False\<rparr>]\<rparr>))
       (jr_stages j)\<rparr>)"

text \<open>The part of an executor's registration that touches a job: its unacknowledged launches are reopened.\<close>

definition reopen_launches :: "string \<Rightarrow> job_record \<Rightarrow> job_record" where
  "reopen_launches executor_id j =
     j\<lparr>jr_stages := map (\<lambda>s. s\<lparr>sg_tasks := map (\<lambda>t.
         if tr_state t = TaskAssigned \<and> tr_assigned_executor t = Some executor_id \<and> tr_launch_in_flight t
         then t\<lparr>tr_launch_in_flight := False\<rparr> else t) (sg_tasks s)\<rparr>) (jr_stages j)\<rparr>"

section \<open>Timestamps\<close>

text \<open>What a heartbeat refreshes: the progress of the tasks it lists, and the state of a streaming task.\<close>

definition refresh_progress_for_running_tasks :: "string \<Rightarrow> string list \<Rightarrow> nat \<Rightarrow> job_record \<Rightarrow> job_record" where
  "refresh_progress_for_running_tasks executor_id running now_ms j =
     j\<lparr>jr_stages := map (\<lambda>s. s\<lparr>sg_tasks := map (\<lambda>t.
         if tr_state t = TaskRunning \<and> tr_assigned_executor t = Some executor_id \<and> task_id_of t \<in> set running
         then t\<lparr>tr_last_progress_ms := Some now_ms\<rparr> else t) (sg_tasks s)\<rparr>) (jr_stages j)\<rparr>"

definition apply_streaming_task_state :: "nat \<Rightarrow> string \<Rightarrow> string \<Rightarrow> streaming_task_state \<Rightarrow> job_record \<Rightarrow> job_record" where
  "apply_streaming_task_state now_ms reporter stage_id state j =
     (case position (\<lambda>s. stage_id_of s = stage_id) (jr_stages j) of
        None \<Rightarrow> j
      | Some i \<Rightarrow>
          (let s = jr_stages j ! i in
           case position (\<lambda>t. task_id_of t = st_task_id state) (sg_tasks s) of
             None \<Rightarrow> j
           | Some k \<Rightarrow>
               if tr_assigned_executor (sg_tasks s ! k) \<noteq> Some reporter then j
               else j\<lparr>jr_stages := (jr_stages j)[i := s\<lparr>sg_tasks :=
                      (sg_tasks s)[k := apply_streaming_state now_ms (sg_tasks s ! k) state]\<rparr>]\<rparr>))"

text \<open>Before an assignment, pending tasks of ready stages are stamped with the time they began to wait.\<close>

definition considered :: "nat \<Rightarrow> task_record \<Rightarrow> bool" where
  "considered now_ms t \<longleftrightarrow> tr_state t = TaskPending
     \<and> \<not> (case tr_retry_backoff_until_ms t of Some until_ms \<Rightarrow> until_ms > now_ms | None \<Rightarrow> False)"

definition stamp_pending :: "nat \<Rightarrow> task_record \<Rightarrow> task_record" where
  "stamp_pending now_ms t =
     (if considered now_ms t \<and> tr_pending_since_ms t = None then t\<lparr>tr_pending_since_ms := Some now_ms\<rparr> else t)"

definition upstream_ready :: "job_record \<Rightarrow> stage_record \<Rightarrow> bool" where
  "upstream_ready j s \<longleftrightarrow> list_all (\<lambda>up. up \<in> stage_id_of ` set (filter (\<lambda>u. sg_state u = StageSucceeded) (jr_stages j)))
     (ss_upstream_stage_ids (sg_spec s))"

definition stamp_stage :: "nat \<Rightarrow> job_record \<Rightarrow> stage_record \<Rightarrow> stage_record" where
  "stamp_stage now_ms j s = (if upstream_ready j s then s\<lparr>sg_tasks := map (stamp_pending now_ms) (sg_tasks s)\<rparr> else s)"

definition stamp_pending_tasks :: "nat \<Rightarrow> job_record \<Rightarrow> job_record" where
  "stamp_pending_tasks now_ms j = j\<lparr>jr_stages := map (stamp_stage now_ms j) (jr_stages j)\<rparr>"

section \<open>Continuous tasks\<close>

text \<open>The first failed task with the id is rescued while its loss budget lasts; then every stage is refreshed.\<close>

fun rescue_tasks :: "string \<Rightarrow> task_record list \<Rightarrow> task_record list \<times> bool option" where
  "rescue_tasks task_id [] = ([], None)"
| "rescue_tasks task_id (t # ts) =
     (if task_id_of t = task_id \<and> tr_state t = TaskFailed then
        (let n = saturating_add_u32 (tr_executor_loss_count t) 1 in
         if n \<ge> MAX_EXECUTOR_LOSSES_BEFORE_FAIL then (t\<lparr>tr_executor_loss_count := n\<rparr> # ts, Some False)
         else ((reset_task t)\<lparr>tr_executor_loss_count := n, tr_last_failure_reason := None\<rparr> # ts, Some True))
      else (let (ts', r) = rescue_tasks task_id ts in (t # ts', r)))"

fun rescue_stages :: "string \<Rightarrow> stage_record list \<Rightarrow> stage_record list \<times> bool option" where
  "rescue_stages task_id [] = ([], None)"
| "rescue_stages task_id (s # ss) =
     (case rescue_tasks task_id (sg_tasks s) of
        (ts, Some r) \<Rightarrow> (s\<lparr>sg_tasks := ts\<rparr> # ss, Some r)
      | (ts, None) \<Rightarrow> (let (ss', r) = rescue_stages task_id ss in (s # ss', r)))"

definition rescue_failed_continuous_task :: "string \<Rightarrow> job_record \<Rightarrow> job_record \<times> bool" where
  "rescue_failed_continuous_task task_id j =
     (let j1 = bump_recovery_epoch j; (ss, r) = rescue_stages task_id (jr_stages j1) in
      if r = Some True then (job_refresh_state (j1\<lparr>jr_stages := map stage_refresh_state ss\<rparr>), True)
      else (j1\<lparr>jr_stages := ss\<rparr>, False))"

definition abort_continuous_input_cycle :: "job_record \<Rightarrow> job_record" where
  "abort_continuous_input_cycle j =
     j\<lparr>jr_state := JobRunning,
        jr_stages := map (\<lambda>s. stage_refresh_state (s\<lparr>sg_tasks := map (\<lambda>t. if tr_state t = TaskAssigned
          then t\<lparr>tr_state := TaskSucceeded, tr_executor_loss_count := 0, tr_launch_in_flight := False,
                 tr_assigned_at_ms := None, tr_last_progress_ms := None\<rparr> else t) (sg_tasks s)\<rparr>)) (jr_stages j)\<rparr>"

definition complete_continuous_input_cycle :: "string \<Rightarrow> job_record \<Rightarrow> job_record" where
  "complete_continuous_input_cycle task_id j =
     (if list_ex (\<lambda>t. task_id_of t = task_id \<and> tr_state t = TaskSucceeded) (job_tasks j) then
        j\<lparr>jr_state := JobRunning,
           jr_stages := map (\<lambda>s. s\<lparr>sg_tasks := map (\<lambda>t. if task_id_of t = task_id
             then t\<lparr>tr_executor_loss_count := 0\<rparr> else t) (sg_tasks s)\<rparr>) (jr_stages j)\<rparr>
      else j)"

section \<open>Status updates, cancellation and the publish window\<close>

definition coordinator_task_update :: "nat \<Rightarrow> job_record \<Rightarrow> task_status_update \<Rightarrow>
    job_record \<times> (scheduler_error + task_update_outcome)" where
  "coordinator_task_update now_ms j u =
     (if job_is_terminal (jr_state j) then (j, Inr Duplicate) else job_apply_task_update now_ms j u)"

definition cancel_job :: "job_record \<Rightarrow> job_record \<times> (scheduler_error + unit)" where
  "cancel_job j =
     (if job_is_terminal (jr_state j) then (j, Inr ())
      else if jr_state j = JobCommitting then
        (j, Inl (InvalidJob (''job '' @ job_id_of j @ '' is committing its output and can no longer be cancelled'')))
      else (job_cancel j, Inr ()))"

text \<open>A job the store holds as finished is cancelled in memory too.\<close>

definition reconcile_latched_job :: "job_record \<Rightarrow> job_record" where
  "reconcile_latched_job j = (if job_is_terminal (jr_state j) then j else job_cancel j)"

text \<open>\<open>staged\<close> says whether a task of the job declares a staged sink.\<close>

definition finalize_staged_sink_outputs :: "bool \<Rightarrow> job_record \<Rightarrow> job_record" where
  "finalize_staged_sink_outputs staged j =
     (if staged \<and> jr_state j = JobSucceeded then j\<lparr>jr_state := JobCommitting\<rparr> else j)"

definition mark_sink_publish_committed :: "job_record \<Rightarrow> job_record" where
  "mark_sink_publish_committed j = (if jr_state j = JobCommitting then j\<lparr>jr_state := JobSucceeded\<rparr> else j)"

definition mark_sink_publish_failed :: "job_record \<Rightarrow> job_record" where
  "mark_sink_publish_failed j = (if job_is_terminal (jr_state j) then j else j\<lparr>jr_state := JobFailed\<rparr>)"

end
