(* ===== verification/JobLaws.thy ===== *)
theory JobLaws
  imports JobRecovery "HOL-Library.Sublist"
begin

text \<open>
  The job record as a transition system: \<open>job_op\<close> lists the operations of the coordinator on the
  record of a job it holds (all but those of \<open>JobLife\<close>: replacing the tasks of a stage, preparing an
  input cycle and rebuilding the record from the store after a restart); \<open>job_step\<close> runs one and returns the launched assignments, \<open>job_run\<close> runs a sequence of them. The
  laws proved over every interleaving: the record stays well formed and mirrors its specification,
  attempts only grow and no attempt is launched twice, a stage is launched only when every task of
  its upstream stages has succeeded, and the retry budgets bound the failures a job absorbs.
\<close>

section \<open>Runs\<close>

datatype 'rb job_op =
    DoQueue
  | DoAdmit
  | DoAssign nat "task_assignment list"
  | DoLaunch "'rb launch_inputs"
  | DoUpdate nat task_status_update
  | DoStall nat string string nat string
  | DoRegen "missing_shuffle_partition list" nat
  | DoLose string
  | DoClear string
  | DoStuck nat nat
  | DoPreempt string string nat
  | DoNormalize
  | DoAudit "string list"
  | DoRescue string
  | DoAbortCycle
  | DoCompleteCycle string
  | DoCancel
  | DoFinalize bool
  | DoPublished
  | DoPublishFailed
  | DoClearLaunch
  | DoClearLaunchTask string
  | DoReopen string
  | DoProgress string "string list" nat
  | DoStreaming nat string string streaming_task_state
  | DoStamp nat
  | DoReconcile

text \<open>Placement only hands out pending tasks.\<close>

definition places_pending :: "task_assignment list \<Rightarrow> job_record \<Rightarrow> bool" where
  "places_pending as j \<longleftrightarrow>
     list_all (\<lambda>t. List.find (\<lambda>a. ta_task_id a = task_id_of t) as \<noteq> None \<longrightarrow> tr_state t = TaskPending) (job_tasks j)"

fun job_step :: "frag_codec \<Rightarrow> bool \<Rightarrow> ('rb \<Rightarrow> nat) \<Rightarrow> job_record \<Rightarrow> 'rb job_op \<Rightarrow>
    job_record \<times> 'rb executor_task_assignment list" where
  "job_step fc al nr j DoQueue = (mark_queued j, [])"
| "job_step fc al nr j DoAdmit = (mark_admitted j, [])"
| "job_step fc al nr j (DoAssign now as) = (if places_pending as j then apply_assignments now j as else j, [])"
| "job_step fc al nr j (DoLaunch li) =
     (case launch_assigned_task_assignments fc nr li j of (j', Inl _) \<Rightarrow> (j', []) | (j', Inr as) \<Rightarrow> (j', as))"
| "job_step fc al nr j (DoUpdate now u) = (fst (coordinator_task_update now j u), [])"
| "job_step fc al nr j (DoStall now sid tid a reason) = (fst (apply_stall_failure now j sid tid a reason), [])"
| "job_step fc al nr j (DoRegen missing max_regen) = (fst (invalidate_specific_shuffle_partitions j missing max_regen), [])"
| "job_step fc al nr j (DoLose e) = (lose_executor fc al e j, [])"
| "job_step fc al nr j (DoClear e) = (fst (clear_assignments_for_bad_executor e j), [])"
| "job_step fc al nr j (DoStuck now timeout) = (reset_stuck_assigned_tasks now timeout j, [])"
| "job_step fc al nr j (DoPreempt sid tid a) = (apply_speculation_preempt sid tid a j, [])"
| "job_step fc al nr j DoNormalize = (normalize_recovered_launch_state j, [])"
| "job_step fc al nr j (DoAudit known) = (audit_shuffle_availability known j, [])"
| "job_step fc al nr j (DoRescue tid) = (fst (rescue_failed_continuous_task tid j), [])"
| "job_step fc al nr j DoAbortCycle = (abort_continuous_input_cycle j, [])"
| "job_step fc al nr j (DoCompleteCycle tid) = (complete_continuous_input_cycle tid j, [])"
| "job_step fc al nr j DoCancel = (fst (cancel_job j), [])"
| "job_step fc al nr j (DoFinalize staged) = (finalize_staged_sink_outputs staged j, [])"
| "job_step fc al nr j DoPublished = (mark_sink_publish_committed j, [])"
| "job_step fc al nr j DoPublishFailed = (mark_sink_publish_failed j, [])"
| "job_step fc al nr j DoClearLaunch = (clear_launch_in_flight_for_job j, [])"
| "job_step fc al nr j (DoClearLaunchTask tid) = (clear_launch_in_flight_for_task tid j, [])"
| "job_step fc al nr j (DoReopen e) = (reopen_launches e j, [])"
| "job_step fc al nr j (DoProgress e running now) = (refresh_progress_for_running_tasks e running now j, [])"
| "job_step fc al nr j (DoStreaming now e sid st) = (apply_streaming_task_state now e sid st j, [])"
| "job_step fc al nr j (DoStamp now) = (stamp_pending_tasks now j, [])"
| "job_step fc al nr j DoReconcile = (reconcile_latched_job j, [])"

fun job_run :: "frag_codec \<Rightarrow> bool \<Rightarrow> ('rb \<Rightarrow> nat) \<Rightarrow> job_record \<Rightarrow> 'rb job_op list \<Rightarrow>
    job_record \<times> 'rb executor_task_assignment list" where
  "job_run fc al nr j [] = (j, [])"
| "job_run fc al nr j (x # xs) =
     (case job_step fc al nr j x of
        (j', as) \<Rightarrow> (case job_run fc al nr j' xs of (j'', bs) \<Rightarrow> (j'', as @ bs)))"

text \<open>The executors a step hands tasks to.\<close>

fun placed :: "'rb job_op \<Rightarrow> string set" where
  "placed (DoAssign now as) = ta_executor_id ` set as"
| "placed _ = {}"

section \<open>What an operation may do to a task\<close>

definition task_ok :: "task_record \<Rightarrow> bool" where
  "task_ok t \<longleftrightarrow> tr_attempt t \<le> u32_max \<and> tr_failure_count t \<le> u32_max
     \<and> (tr_launch_in_flight t \<longrightarrow> tr_state t = TaskAssigned)
     \<and> (tr_state t = TaskRunning \<longrightarrow> 0 < tr_attempt t)"

definition quiet :: "string set \<Rightarrow> task_record \<Rightarrow> task_record \<Rightarrow> bool" where
  "quiet E t t' \<longleftrightarrow> tr_spec t' = tr_spec t \<and> tr_attempt t' = tr_attempt t
     \<and> (task_ok t \<longrightarrow> task_ok t' \<and> tr_failure_count t \<le> tr_failure_count t')
     \<and> (\<forall>e. tr_assigned_executor t' = Some e \<longrightarrow> e \<in> E
         \<or> tr_assigned_executor t = Some e \<and> (task_is_terminal (tr_state t) \<longrightarrow> task_is_terminal (tr_state t')))"

lemma quiet_refl [simp]: "quiet E t t"
  by (simp add: quiet_def)

lemma quiet_trans: "quiet E a b \<Longrightarrow> quiet E b c \<Longrightarrow> quiet E a c"
  by (auto simp: quiet_def)

lemma quiet_reset [simp]: "quiet E t (reset_task t)"
  by (simp add: quiet_def reset_task_def task_ok_def)

lemma quiet_assign: "ta_executor_id ` set as \<subseteq> E \<Longrightarrow> quiet E t (assign_task now as t)"
proof (cases "List.find (\<lambda>a. ta_task_id a = task_id_of t) as")
  case (Some a)
  assume "ta_executor_id ` set as \<subseteq> E"
  moreover have "a \<in> set as" using Some by (auto simp: find_Some_iff)
  ultimately have "ta_executor_id a \<in> E" by blast
  with Some show ?thesis by (simp add: quiet_def assign_task_def task_ok_def)
qed (simp add: assign_task_def)

lemma quiet_cancel: "quiet E t (task_cancel t)"
  by (simp add: quiet_def task_cancel_def task_ok_def)

lemma quiet_lose: "quiet E t (lose_task t)"
  by (simp add: quiet_def lose_task_def task_ok_def Let_def)

lemma quiet_status:
  assumes "apply_status_update now t u = (t', r)"
  shows "quiet E t t'"
  using assms
  by (auto simp: apply_status_update_def stamp_update_def quiet_def task_ok_def Let_def
      split: if_splits option.splits)

lemma status_error_unchanged: "apply_status_update now t u = (t', Inl e) \<Longrightarrow> t' = t"
  by (auto simp: apply_status_update_def Let_def split: if_splits)

lemma status_duplicate_unchanged: "apply_status_update now t u = (t', Inr Duplicate) \<Longrightarrow> t' = t \<and> tr_state t = tu_state u"
  by (auto simp: apply_status_update_def Let_def split: if_splits)

lemma status_applied:
  assumes "apply_status_update now t u = (t', Inr Applied)"
  shows "tr_state t' = tu_state u \<and> tr_failure_count t' = tr_failure_count t \<and> tr_attempt t = tu_attempt u
    \<and> tr_assigned_executor t = Some (tu_executor_id u) \<and> \<not> task_is_terminal (tr_state t) \<and> tr_state t \<noteq> tu_state u
    \<and> (tr_state t = TaskRunning \<or> tr_state t = TaskAssigned \<or> tu_state u = TaskRunning)"
  using assms
  by (auto simp: apply_status_update_def stamp_update_def Let_def split: if_splits option.splits)

section \<open>What an operation may do to a stage\<close>

definition settled :: "stage_record \<Rightarrow> bool" where
  "settled s \<longleftrightarrow> (sg_state s = StageSucceeded \<longrightarrow> (\<forall>t \<in> set (sg_tasks s). tr_state t = TaskSucceeded))"

definition stage_rel :: "string set \<Rightarrow> stage_record \<Rightarrow> stage_record \<Rightarrow> bool" where
  "stage_rel E s s' \<longleftrightarrow> sg_spec s' = sg_spec s \<and> list_all2 (quiet E) (sg_tasks s) (sg_tasks s')
     \<and> (sg_retry_count s \<le> u32_max \<longrightarrow> sg_retry_count s \<le> sg_retry_count s' \<and> sg_retry_count s' \<le> u32_max)
     \<and> (settled s \<longrightarrow> settled s')"

lemma settled_refresh [simp]: "settled (stage_refresh_state s)"
  by (auto simp: settled_def stage_refresh_state_def stage_state_of_def list_all_iff split: if_splits)

lemma stage_rel_refl [simp]: "stage_rel E s s"
  by (simp add: stage_rel_def list.rel_refl)

lemma quiets_trans: "list_all2 (quiet E) a b \<Longrightarrow> list_all2 (quiet E) b c \<Longrightarrow> list_all2 (quiet E) a c"
  by (rule list_all2_trans [OF quiet_trans])

lemma stage_rel_trans: "stage_rel E a b \<Longrightarrow> stage_rel E b c \<Longrightarrow> stage_rel E a c"
  using quiets_trans [of E "sg_tasks a" "sg_tasks b" "sg_tasks c"] unfolding stage_rel_def by auto

lemma list_all2_map_same: "(\<And>x. x \<in> set xs \<Longrightarrow> R x (f x)) \<Longrightarrow> list_all2 R xs (map f xs)"
  by (induction xs) auto

lemma list_all2_update_same:
  assumes "\<And>x. R x x" and "i < length xs \<Longrightarrow> R (xs ! i) y"
  shows "list_all2 R xs (xs[i := y])"
  unfolding list_all2_conv_all_nth using assms
  by (metis length_list_update nth_list_update_eq nth_list_update_neq)

lemma refresh_simps [simp]:
  "sg_tasks (stage_refresh_state s) = sg_tasks s" "sg_spec (stage_refresh_state s) = sg_spec s"
  "sg_retry_count (stage_refresh_state s) = sg_retry_count s"
  "jr_stages (job_refresh_state j) = jr_stages j" "jr_spec (job_refresh_state j) = jr_spec j"
  "jr_max_stage_retries (job_refresh_state j) = jr_max_stage_retries j"
  "jr_shuffle_regen (job_refresh_state j) = jr_shuffle_regen j"
  "jr_recovery_epoch (job_refresh_state j) = jr_recovery_epoch j"
  by (simp_all add: stage_refresh_state_def job_refresh_state_def)

lemma stage_rel_refresh:
  "sg_spec s' = sg_spec s \<Longrightarrow> sg_retry_count s' = sg_retry_count s \<Longrightarrow> list_all2 (quiet E) (sg_tasks s) (sg_tasks s') \<Longrightarrow>
   stage_rel E s (stage_refresh_state s')"
  by (simp add: stage_rel_def)

lemma position_Some: "position p xs = Some i \<Longrightarrow> i < length xs \<and> p (xs ! i)"
  by (induction xs arbitrary: i) (auto split: if_splits)

lemma position_None: "position p xs = None \<longleftrightarrow> (\<forall>x \<in> set xs. \<not> p x)"
  by (induction xs) auto

lemma stage_rel_same_states:
  assumes "list_all2 (quiet E) (sg_tasks s) ts" and "map tr_state ts = map tr_state (sg_tasks s)"
  shows "stage_rel E s (s\<lparr>sg_tasks := ts\<rparr>)"
proof -
  have "tr_state ` set ts = tr_state ` set (sg_tasks s)" using assms(2) by (metis list.set_map)
  then have "settled s \<Longrightarrow> settled (s\<lparr>sg_tasks := ts\<rparr>)" unfolding settled_def by auto
  with assms(1) show ?thesis by (simp add: stage_rel_def)
qed

lemma retry_stage_rel: "stage_rel E s (retry_stage s)"
  using saturating_add_u32_le [of "sg_retry_count s" 1]
  by (simp add: stage_rel_def retry_stage_def settled_def list_all2_map_same)

text \<open>Failure accounting: what it does to the stage, and what is left when it reports no retry.\<close>

lemma quiet_count: "quiet E t (t\<lparr>tr_failure_count := saturating_add_u32 (tr_failure_count t) 1\<rparr>)"
  using saturating_add_u32_le [of "tr_failure_count t" 1] by (simp add: quiet_def task_ok_def)

lemma quiet_backoff: "quiet E a b \<Longrightarrow> quiet E a (b\<lparr>tr_retry_backoff_until_ms := x\<rparr>)"
  by (auto simp: quiet_def task_ok_def)

lemma account_ok: "idx < length (sg_tasks s) \<Longrightarrow> \<exists>s' b. account_task_failure now rp s idx m a = (s', Inr b)"
  by (auto simp: account_task_failure_def Let_def)

lemma account_rel:
  assumes "idx < length (sg_tasks s)" and "account_task_failure now rp s idx m a = (s', Inr b)"
  shows "sg_spec s' = sg_spec s \<and> list_all2 (quiet E) (sg_tasks s) (sg_tasks s')
     \<and> (sg_retry_count s \<le> u32_max \<longrightarrow> sg_retry_count s \<le> sg_retry_count s' \<and> sg_retry_count s' \<le> u32_max)
     \<and> (b \<longrightarrow> settled s') \<and> (\<not> b \<longrightarrow> map tr_state (sg_tasks s') = map tr_state (sg_tasks s))"
proof -
  let ?t = "(sg_tasks s ! idx)\<lparr>tr_failure_count := saturating_add_u32 (tr_failure_count (sg_tasks s ! idx)) 1\<rparr>"
  let ?s1 = "s\<lparr>sg_tasks := (sg_tasks s)[idx := ?t]\<rparr>"
  let ?t' = "(reset_task ?t)\<lparr>tr_retry_backoff_until_ms := (if m then None
      else Some (saturating_add_u64 now (backoff_delay rp (tr_failure_count ?t))))\<rparr>"
  have q1: "list_all2 (quiet E) (sg_tasks s) ((sg_tasks s)[idx := ?t])"
    by (rule list_all2_update_same, rule quiet_refl, rule quiet_count)
  have q2: "list_all2 (quiet E) (sg_tasks s) ((sg_tasks s)[idx := ?t'])"
    by (rule list_all2_update_same, rule quiet_refl, rule quiet_backoff, rule quiet_trans [OF quiet_count quiet_reset])
  have states: "map tr_state ((sg_tasks s)[idx := ?t]) = map tr_state (sg_tasks s)"
    using assms(1) by (simp add: map_update list_update_same_conv)
  note retry = retry_stage_rel [of _ ?s1, unfolded stage_rel_def]
  from assms(1) have "\<not> length (sg_tasks s) \<le> idx" by simp
  with assms(2) consider
      "b" "s' = stage_refresh_state (?s1\<lparr>sg_tasks := (sg_tasks ?s1)[idx := ?t']\<rparr>)"
    | "b" "s' = retry_stage ?s1" | "\<not> b" "s' = ?s1"
    unfolding account_task_failure_def Let_def by (auto split: if_splits)
  then show ?thesis
  proof cases
    case 1
    then show ?thesis using q2 by simp
  next
    case 2
    have "list_all2 (quiet E) (sg_tasks s) (sg_tasks s')"
      using retry q1 2(2) by (auto intro: quiets_trans)
    with retry 2 show ?thesis by (simp add: settled_def retry_stage_def)
  next
    case 3
    then show ?thesis using q1 states by simp
  qed
qed

lemma stage_update_rel:
  assumes "stage_apply_task_update now rp s u = (s', r)"
  shows "stage_rel E s s'"
proof (cases "position (\<lambda>t. task_id_of t = tu_task_id u) (sg_tasks s)")
  case None
  with assms show ?thesis by (simp add: stage_apply_task_update_def)
next
  case (Some idx)
  from position_Some [OF Some] have idx: "idx < length (sg_tasks s)" by simp
  obtain t o1 where t: "apply_status_update now (sg_tasks s ! idx) u = (t, o1)" by fastforce
  let ?s1 = "s\<lparr>sg_tasks := (sg_tasks s)[idx := t]\<rparr>"
  have q: "list_all2 (quiet E) (sg_tasks s) (sg_tasks ?s1)"
    using quiet_status [OF t] by (simp add: list_all2_update_same)
  note unfold = assms [unfolded stage_apply_task_update_def Some option.case t prod.case Let_def]
  consider e where "o1 = Inl e" | "o1 = Inr Duplicate" | "o1 = Inr Applied" by (metis sum.exhaust task_update_outcome.exhaust)
  then show ?thesis
  proof cases
    case 1
    with unfold status_error_unchanged [of now "sg_tasks s ! idx" u t] t show ?thesis by auto
  next
    case 2
    with unfold status_duplicate_unchanged [of now "sg_tasks s ! idx" u t] t show ?thesis by auto
  next
    case 3
    show ?thesis
    proof (cases "tu_state u = TaskFailed")
      case False
      with unfold 3 q show ?thesis by (auto simp: stage_rel_refresh)
    next
      case True
      obtain s2 b where a: "account_task_failure now rp ?s1 idx (tu_missing_shuffle_partitions u \<noteq> [])
          (ss_max_task_attempts (sg_spec s)) = (s2, Inr b)"
        using account_ok [of idx ?s1 now rp "tu_missing_shuffle_partitions u \<noteq> []" "ss_max_task_attempts (sg_spec s)"] idx by auto
      from unfold 3 True a have s': "s' = (if b then s2 else stage_refresh_state s2)" by auto
      from account_rel [OF _ a] idx have r: "sg_spec s2 = sg_spec s" "list_all2 (quiet E) (sg_tasks ?s1) (sg_tasks s2)"
        "sg_retry_count s \<le> u32_max \<longrightarrow> sg_retry_count s \<le> sg_retry_count s2 \<and> sg_retry_count s2 \<le> u32_max"
        "b \<longrightarrow> settled s2" by simp_all
      have "list_all2 (quiet E) (sg_tasks s) (sg_tasks s2)"
        using q r(2) by (rule quiets_trans)
      with r s' show ?thesis by (simp add: stage_rel_def)
    qed
  qed
qed

lemma quiet_fail: "quiet E t (t\<lparr>tr_state := TaskFailed, tr_last_failure_reason := x, tr_launch_in_flight := False,
    tr_assigned_at_ms := y, tr_last_progress_ms := z\<rparr>)"
  by (simp add: quiet_def task_ok_def)

lemma fail_stalled_rel:
  assumes "fail_stalled_task now rp s tid a reason = (s', r)"
  shows "stage_rel E s s'"
proof (cases "position (\<lambda>t. task_id_of t = tid \<and> tr_attempt t = a \<and> tr_state t = TaskRunning) (sg_tasks s)")
  case None
  with assms show ?thesis by (simp add: fail_stalled_task_def)
next
  case (Some idx)
  from position_Some [OF Some] have idx: "idx < length (sg_tasks s)" by simp
  let ?t = "(sg_tasks s ! idx)\<lparr>tr_state := TaskFailed, tr_last_failure_reason := Some reason,
                      tr_launch_in_flight := False, tr_assigned_at_ms := None, tr_last_progress_ms := None\<rparr>"
  let ?s1 = "s\<lparr>sg_tasks := (sg_tasks s)[idx := ?t]\<rparr>"
  obtain s2 b where ac: "account_task_failure now rp ?s1 idx False (ss_max_task_attempts (sg_spec s)) = (s2, Inr b)"
    using account_ok [of idx ?s1 now rp False "ss_max_task_attempts (sg_spec s)"] idx by auto
  with assms Some have s': "s' = stage_refresh_state s2" by (simp add: fail_stalled_task_def Let_def)
  have q: "list_all2 (quiet E) (sg_tasks s) (sg_tasks ?s1)" by (simp add: list_all2_update_same quiet_fail)
  from account_rel [OF _ ac] idx have r: "sg_spec s2 = sg_spec s" "list_all2 (quiet E) (sg_tasks ?s1) (sg_tasks s2)"
    "sg_retry_count s \<le> u32_max \<longrightarrow> sg_retry_count s \<le> sg_retry_count s2 \<and> sg_retry_count s2 \<le> u32_max" by simp_all
  have "list_all2 (quiet E) (sg_tasks s) (sg_tasks s2)" using q r(2) by (rule quiets_trans)
  with r s' show ?thesis by (simp add: stage_rel_def)
qed

section \<open>What an operation may do to a job\<close>

definition job_rel :: "string set \<Rightarrow> job_record \<Rightarrow> job_record \<Rightarrow> bool" where
  "job_rel E j j' \<longleftrightarrow> jr_spec j' = jr_spec j \<and> jr_max_stage_retries j' = jr_max_stage_retries j
     \<and> list_all2 (stage_rel E) (jr_stages j) (jr_stages j')"

lemma stages_refl [simp]: "list_all2 (stage_rel E) ss ss"
  by (simp add: list.rel_refl)

lemma job_rel_refl [simp]: "job_rel E j j"
  by (simp add: job_rel_def)

lemma stages_trans: "list_all2 (stage_rel E) a b \<Longrightarrow> list_all2 (stage_rel E) b c \<Longrightarrow> list_all2 (stage_rel E) a c"
  by (rule list_all2_trans [OF stage_rel_trans])

lemma job_rel_trans: "job_rel E a b \<Longrightarrow> job_rel E b c \<Longrightarrow> job_rel E a c"
  using stages_trans [of E "jr_stages a" "jr_stages b" "jr_stages c"] unfolding job_rel_def by simp

lemma job_rel_refresh [simp]: "job_rel E a (job_refresh_state b) \<longleftrightarrow> job_rel E a b"
  by (simp add: job_rel_def)

lemma touch_stage_rel: "(\<And>t. quiet E t (f t)) \<Longrightarrow> stage_rel E s (touch_stage p f s)"
  by (simp add: touch_stage_def stage_rel_refresh list_all2_map_same)

lemma touch_job_rel: "(\<And>t. quiet E t (f t)) \<Longrightarrow> job_rel E j (touch_job p f j)"
  by (simp add: touch_job_def job_rel_def list_all2_map_same touch_stage_rel)

definition inval_ok :: "(stage_record \<Rightarrow> task_record \<Rightarrow> task_record \<times> shuffle_path list) \<Rightarrow> bool" where
  "inval_ok inval \<longleftrightarrow> (\<forall>s t. if snd (inval s t) = [] then fst (inval s t) = t else fst (inval s t) = reset_task t)"

lemma inval_ok_task: "inval_ok (\<lambda>s. invalidate_task job (stage_id_of s) e)"
  by (auto simp: inval_ok_def invalidate_task_def Let_def split: option.splits)

lemma inval_ok_missing: "inval_ok (invalidate_missing job missing)"
  by (auto simp: inval_ok_def invalidate_missing_def split: list.splits)

lemma invalidate_stage_rel:
  assumes "inval_ok inval" and "invalidate_stage inval reason keyed s out = (s', out', b)"
  shows "stage_rel E s s' \<and> (\<not> b \<longrightarrow> s' = s)"
proof -
  have q: "quiet E t (fst (inval s t))" for t
  proof -
    from assms(1) have "fst (inval s t) = t \<or> fst (inval s t) = reset_task t" unfolding inval_ok_def by metis
    then show ?thesis by (auto simp del: quiet_reset intro: quiet_reset)
  qed
  have same: "map (\<lambda>t. fst (inval s t)) (sg_tasks s) = sg_tasks s" if "concat (map (\<lambda>t. snd (inval s t)) (sg_tasks s)) = []"
  proof (rule map_idI)
    fix t assume "t \<in> set (sg_tasks s)"
    with that have "snd (inval s t) = []" by auto
    with assms(1) show "fst (inval s t) = t" by (simp add: inval_ok_def)
  qed
  show ?thesis
  proof (cases "concat (map (\<lambda>t. snd (inval s t)) (sg_tasks s)) = []")
    case True
    show ?thesis
      using assms(2) unfolding invalidate_stage_def Let_def map_map comp_def if_P [OF True] same [OF True] by auto
  next
    case False
    have "s' = stage_refresh_state (s\<lparr>sg_tasks := map (\<lambda>t. fst (inval s t)) (sg_tasks s)\<rparr>)" "b"
      using assms(2) unfolding invalidate_stage_def Let_def map_map comp_def if_not_P [OF False] by simp_all
    then show ?thesis using q by (simp add: stage_rel_refresh list_all2_map_same)
  qed
qed

lemma invalidate_stages_rel:
  assumes "inval_ok inval" and "invalidate_stages inval reason keyed ss out = (ss', out', b)"
  shows "list_all2 (stage_rel E) ss ss' \<and> (\<not> b \<longrightarrow> ss' = ss)"
  using assms(2)
proof (induction ss arbitrary: out ss' out' b)
  case Nil
  then show ?case by simp
next
  case (Cons s ss)
  obtain s1 o1 b1 where i: "invalidate_stage inval reason keyed s out = (s1, o1, b1)" by (metis prod.exhaust)
  obtain ss2 o2 b2 where r: "invalidate_stages inval reason keyed ss o1 = (ss2, o2, b2)" by (metis prod.exhaust)
  from Cons.prems i r have "ss' = s1 # ss2" "b = (b1 \<or> b2)" by auto
  with invalidate_stage_rel [OF assms(1) i] Cons.IH [OF r] show ?case by simp
qed

lemma invalidate_executor_rel: "job_rel E j (fst (invalidate_executor_shuffle_partitions j e))"
proof -
  obtain ss out b where i: "invalidate_stages (\<lambda>s. invalidate_task (job_id_of j) (stage_id_of s) e) ''executor lost''
      (\<lambda>sid. is_ok (id_try_new ''stage id'' sid)) (jr_stages j) (jr_shuffle_output j) = (ss, out, b)"
    by (metis prod.exhaust)
  from invalidate_stages_rel [OF inval_ok_task i] show ?thesis
    by (simp add: invalidate_executor_shuffle_partitions_def i job_rel_def Let_def)
qed

lemma invalidate_specific_rel: "job_rel E j (fst (invalidate_specific_shuffle_partitions j missing n))"
proof -
  obtain ss out b where i: "invalidate_stages (invalidate_missing (job_id_of j) missing)
      ''shuffle partition missing on consumer fetch'' (\<lambda>_. True) (jr_stages j) (jr_shuffle_output j) = (ss, out, b)"
    by (metis prod.exhaust)
  have "list_all2 (stage_rel E) (jr_stages j) ss" using invalidate_stages_rel [OF inval_ok_missing i] by simp
  then show ?thesis
    unfolding invalidate_specific_shuffle_partitions_def Let_def i prod.case by (auto simp: job_rel_def split: option.split)
qed

lemma record_availability_simps [simp]:
  "jr_stages (record_availability j sid ps) = jr_stages j" "jr_spec (record_availability j sid ps) = jr_spec j"
  "jr_max_stage_retries (record_availability j sid ps) = jr_max_stage_retries j"
  "jr_state (record_availability j sid ps) = jr_state j"
  "jr_shuffle_regen (record_availability j sid ps) = jr_shuffle_regen j"
  by (simp_all add: record_availability_def)

text \<open>An accepted update is the stage's update, and then the job state is recomputed.\<close>

lemma job_update_cases:
  assumes "job_apply_task_update now j u = (j', r)"
  shows "(\<exists>i s. position (\<lambda>s. stage_id_of s = tu_stage_id u) (jr_stages j) = Some i
      \<and> stage_apply_task_update now (policy_of j) (jr_stages j ! i) u = (s, r)
      \<and> jr_stages j' = (jr_stages j)[i := s] \<and> jr_spec j' = jr_spec j
      \<and> jr_max_stage_retries j' = jr_max_stage_retries j \<and> jr_shuffle_regen j' = jr_shuffle_regen j
      \<and> jr_state j' = (if is_ok r then job_state_of (js_kind (jr_spec j)) (map sg_state (jr_stages j')) else jr_state j))
    \<or> j' = j \<and> r = Inl (UnknownStage (tu_stage_id u))"
proof (cases "position (\<lambda>s. stage_id_of s = tu_stage_id u) (jr_stages j)")
  case None
  with assms show ?thesis by (simp add: job_apply_task_update_def Let_def)
next
  case (Some i)
  obtain s r1 where u: "stage_apply_task_update now (policy_of j) (jr_stages j ! i) u = (s, r1)" by fastforce
  show ?thesis
  proof (cases r1)
    case (Inl e)
    with assms Some u show ?thesis by (auto simp: job_apply_task_update_def Let_def)
  next
    case (Inr oc)
    with assms Some u show ?thesis
      by (auto simp: job_apply_task_update_def Let_def job_refresh_state_def split: option.splits if_splits)
  qed
qed

lemma job_update_rel: "job_rel E j (fst (job_apply_task_update now j u))"
proof -
  obtain j' r where u: "job_apply_task_update now j u = (j', r)" by fastforce
  from job_update_cases [OF u] have "job_rel E j j'"
  proof
    assume "\<exists>i s. position (\<lambda>s. stage_id_of s = tu_stage_id u) (jr_stages j) = Some i
      \<and> stage_apply_task_update now (policy_of j) (jr_stages j ! i) u = (s, r)
      \<and> jr_stages j' = (jr_stages j)[i := s] \<and> jr_spec j' = jr_spec j
      \<and> jr_max_stage_retries j' = jr_max_stage_retries j \<and> jr_shuffle_regen j' = jr_shuffle_regen j
      \<and> jr_state j' = (if is_ok r then job_state_of (js_kind (jr_spec j)) (map sg_state (jr_stages j')) else jr_state j)"
    then obtain i s where *: "stage_apply_task_update now (policy_of j) (jr_stages j ! i) u = (s, r)"
      "jr_stages j' = (jr_stages j)[i := s]" "jr_spec j' = jr_spec j" "jr_max_stage_retries j' = jr_max_stage_retries j" by blast
    from stage_update_rel [OF *(1)] have "list_all2 (stage_rel E) (jr_stages j) ((jr_stages j)[i := s])"
      by (simp add: list_all2_update_same)
    with * show ?thesis by (simp add: job_rel_def)
  qed simp
  with u show ?thesis by simp
qed

lemma stall_rel: "job_rel E j (fst (apply_stall_failure now j sid tid a reason))"
proof (cases "position (\<lambda>s. stage_id_of s = sid) (jr_stages j)")
  case None
  then show ?thesis by (simp add: apply_stall_failure_def)
next
  case (Some i)
  obtain s r where f: "fail_stalled_task now (policy_of j) (jr_stages j ! i) tid a reason = (s, r)" by fastforce
  from fail_stalled_rel [OF f] have "list_all2 (stage_rel E) (jr_stages j) ((jr_stages j)[i := s])"
    by (simp add: list_all2_update_same)
  with Some f show ?thesis by (cases r) (simp_all add: apply_stall_failure_def job_rel_def Let_def)
qed

lemma lose_executor_rel: "job_rel E j (lose_executor fc al e j)"
proof -
  have "job_rel E j (touch_job (\<lambda>_. held_by_lost fc al e) lose_task (bump_recovery_epoch j))"
    using touch_job_rel [of _ lose_task "bump_recovery_epoch j"] quiet_lose
    by (simp add: job_rel_def bump_recovery_epoch_def)
  from job_rel_trans [OF this invalidate_executor_rel] show ?thesis by (simp add: lose_executor_def)
qed

lemma clear_rel: "job_rel E j (fst (clear_assignments_for_bad_executor e j))"
proof -
  have "quiet E t (if tr_assigned_executor t = Some e then t\<lparr>tr_assigned_executor := None, tr_launch_in_flight := False\<rparr> else t)" for t
    by (simp add: quiet_def task_ok_def)
  then show ?thesis
    unfolding clear_assignments_for_bad_executor_def fst_conv job_rel_def
    by (simp, intro list_all2_map_same stage_rel_same_states) (simp_all add: comp_def cong: map_cong)
qed

lemma cancel_rel: "job_rel E j (fst (cancel_job j))"
proof -
  have "stage_rel E s (stage_cancel s)" for s
    by (simp add: stage_rel_def stage_cancel_def settled_def list_all2_map_same quiet_cancel)
  then show ?thesis by (simp add: cancel_job_def job_cancel_def job_rel_def list_all2_map_same)
qed

lemma queued_rel: "job_rel E j (mark_queued j)"
proof -
  have "stage_rel E s (s\<lparr>sg_state := StagePending, sg_tasks := map reset_task (sg_tasks s)\<rparr>)" for s
    by (simp add: stage_rel_def settled_def list_all2_map_same)
  then show ?thesis by (simp add: mark_queued_def job_rel_def list_all2_map_same)
qed

lemma assign_rel:
  assumes "places_pending as j" and E: "ta_executor_id ` set as \<subseteq> E"
  shows "job_rel E j (apply_assignments now j as)"
proof -
  have "stage_rel E s (assign_stage now as s)" if s: "s \<in> set (jr_stages j)" for s
  proof (cases "settled s")
    case False
    then show ?thesis
      by (simp add: stage_rel_def assign_stage_def Let_def list_all2_map_same quiet_assign [OF E])
  next
    case True
    have "assign_task now as t = t" if "t \<in> set (sg_tasks s)" "tr_state t = TaskSucceeded" for t
    proof -
      have "t \<in> set (job_tasks j)" using that s by auto
      with assms(1) that(2) have "List.find (\<lambda>a. ta_task_id a = task_id_of t) as = None"
        unfolding places_pending_def list_all_iff by (metis task_state.distinct(5) option.exhaust)
      then show ?thesis by (simp add: assign_task_def)
    qed
    with True have "settled (assign_stage now as s)"
      by (auto simp: settled_def assign_stage_def Let_def split: if_splits)
    with True show ?thesis
      by (simp add: stage_rel_def assign_stage_def Let_def list_all2_map_same quiet_assign [OF E])
  qed
  then show ?thesis by (simp add: apply_assignments_def job_rel_def list_all2_map_same)
qed

lemma stuck_rel: "job_rel E j (reset_stuck_assigned_tasks now timeout j)"
proof -
  have "quiet E t ((reset_task t)\<lparr>tr_assigned_at_ms := None\<rparr>)" for t
    by (simp add: quiet_def reset_task_def task_ok_def)
  then show ?thesis by (simp add: reset_stuck_assigned_tasks_def touch_job_rel)
qed

lemma preempt_rel: "job_rel E j (apply_speculation_preempt sid tid a j)"
proof -
  have "quiet E t ((reset_task t)\<lparr>tr_assigned_at_ms := None, tr_last_progress_ms := None\<rparr>)" for t
    by (simp add: quiet_def reset_task_def task_ok_def)
  then show ?thesis by (simp add: apply_speculation_preempt_def touch_job_rel)
qed

lemma normalize_rel: "job_rel E j (normalize_recovered_launch_state j)"
proof -
  have "quiet E t (t\<lparr>tr_launch_in_flight := False\<rparr>)" for t
    by (simp add: quiet_def task_ok_def)
  then show ?thesis by (simp add: normalize_recovered_launch_state_def touch_job_rel queued_rel)
qed

lemma audit_rel: "job_rel E j (audit_shuffle_availability known j)"
proof -
  have fold: "job_rel E j (foldl (\<lambda>j e. fst (invalidate_executor_shuffle_partitions j e)) k es)" if "job_rel E j k" for k es
    using that
  proof (induction es arbitrary: k)
    case (Cons e es)
    from Cons.IH [OF job_rel_trans [OF Cons.prems invalidate_executor_rel]] show ?case by simp
  qed simp
  show ?thesis by (simp add: audit_shuffle_availability_def Let_def fold touch_job_rel)
qed

lemma rescue_tasks_quiet: "list_all2 (quiet E) ts (fst (rescue_tasks tid ts))
    \<and> (snd (rescue_tasks tid ts) \<noteq> Some True \<longrightarrow> map tr_state (fst (rescue_tasks tid ts)) = map tr_state ts)"
proof (induction ts)
  case (Cons t ts)
  then show ?case
    by (auto simp: Let_def quiet_def reset_task_def task_ok_def list.rel_refl split: prod.splits)
qed simp

lemma rescue_stages_rel:
  "list_all2 (\<lambda>s s'. sg_spec s' = sg_spec s \<and> sg_retry_count s' = sg_retry_count s \<and> list_all2 (quiet E) (sg_tasks s) (sg_tasks s')) ss
     (fst (rescue_stages tid ss))
   \<and> (snd (rescue_stages tid ss) \<noteq> Some True \<longrightarrow> list_all2 (stage_rel E) ss (fst (rescue_stages tid ss)))"
proof (induction ss)
  case (Cons s ss)
  obtain ts r where t: "rescue_tasks tid (sg_tasks s) = (ts, r)" by fastforce
  have q: "list_all2 (quiet E) (sg_tasks s) ts" "r \<noteq> Some True \<longrightarrow> map tr_state ts = map tr_state (sg_tasks s)"
    using rescue_tasks_quiet [of E "sg_tasks s" tid] t by simp_all
  show ?case
  proof (cases r)
    case None
    with Cons t show ?thesis by (auto simp: list.rel_refl split: prod.splits)
  next
    case (Some b)
    with q t stage_rel_same_states [of E s ts] show ?thesis by (auto simp: list.rel_refl)
  qed
qed simp

lemma rescue_rel: "job_rel E j (fst (rescue_failed_continuous_task tid j))"
proof -
  obtain ss r where s: "rescue_stages tid (jr_stages j) = (ss, r)" by fastforce
  have "list_all2 (stage_rel E) (jr_stages j) (map stage_refresh_state ss)"
    using conjunct1 [OF rescue_stages_rel [of E "jr_stages j" tid]] s
    by (auto simp: list_all2_conv_all_nth intro: stage_rel_refresh)
  moreover have "r \<noteq> Some True \<Longrightarrow> list_all2 (stage_rel E) (jr_stages j) ss"
    using conjunct2 [OF rescue_stages_rel [of E "jr_stages j" tid]] s by simp
  ultimately show ?thesis
    using s by (auto simp: rescue_failed_continuous_task_def bump_recovery_epoch_def job_rel_def Let_def)
qed

lemma abort_cycle_rel: "job_rel E j (abort_continuous_input_cycle j)"
  unfolding abort_continuous_input_cycle_def job_rel_def
  by (simp, intro list_all2_map_same stage_rel_refresh) (simp_all add: list_all2_map_same quiet_def task_ok_def)

lemma complete_cycle_rel: "job_rel E j (complete_continuous_input_cycle tid j)"
proof -
  have "stage_rel E s (s\<lparr>sg_tasks := map (\<lambda>t. if task_id_of t = tid then t\<lparr>tr_executor_loss_count := 0\<rparr> else t) (sg_tasks s)\<rparr>)" for s
    by (intro stage_rel_same_states list_all2_map_same) (simp_all add: quiet_def task_ok_def comp_def cong: map_cong)
  then show ?thesis by (simp add: complete_continuous_input_cycle_def job_rel_def list_all2_map_same)
qed

lemma quiet_unlaunch: "quiet E t (t\<lparr>tr_launch_in_flight := False\<rparr>)"
  by (simp add: quiet_def task_ok_def)

lemma clear_launch_rel: "job_rel E j (clear_launch_in_flight_for_job j)"
proof -
  have "stage_rel E s (stage_refresh_state (s\<lparr>sg_tasks := map (\<lambda>t.
      if tr_state t = TaskAssigned \<and> tr_launch_in_flight t then t\<lparr>tr_launch_in_flight := False\<rparr> else t) (sg_tasks s)\<rparr>))" for s
    by (intro stage_rel_refresh) (simp_all add: list_all2_map_same quiet_unlaunch)
  then show ?thesis by (simp add: clear_launch_in_flight_for_job_def job_rel_def list_all2_map_same)
qed

lemma clear_launch_task_rel: "job_rel E j (clear_launch_in_flight_for_task tid j)"
proof -
  have "stage_rel E s (case position (\<lambda>t. task_id_of t = tid \<and> tr_state t = TaskAssigned \<and> tr_launch_in_flight t) (sg_tasks s) of
      None \<Rightarrow> s
    | Some i \<Rightarrow> stage_refresh_state (s\<lparr>sg_tasks := (sg_tasks s)[i := (sg_tasks s ! i)\<lparr>tr_launch_in_flight := False\<rparr>]\<rparr>))" for s
    by (auto split: option.split intro!: stage_rel_refresh list_all2_update_same quiet_unlaunch)
  then show ?thesis by (simp add: clear_launch_in_flight_for_task_def job_rel_def list_all2_map_same)
qed

lemma reopen_rel: "job_rel E j (reopen_launches e j)"
proof -
  have "stage_rel E s (s\<lparr>sg_tasks := map (\<lambda>t. if tr_state t = TaskAssigned \<and> tr_assigned_executor t = Some e \<and> tr_launch_in_flight t
      then t\<lparr>tr_launch_in_flight := False\<rparr> else t) (sg_tasks s)\<rparr>)" for s
    by (intro stage_rel_same_states list_all2_map_same) (simp_all add: quiet_unlaunch comp_def cong: map_cong)
  then show ?thesis by (simp add: reopen_launches_def job_rel_def list_all2_map_same)
qed

lemma progress_rel: "job_rel E j (refresh_progress_for_running_tasks e running now j)"
proof -
  have "stage_rel E s (s\<lparr>sg_tasks := map (\<lambda>t. if tr_state t = TaskRunning \<and> tr_assigned_executor t = Some e \<and> task_id_of t \<in> set running
      then t\<lparr>tr_last_progress_ms := Some now\<rparr> else t) (sg_tasks s)\<rparr>)" for s
    by (intro stage_rel_same_states list_all2_map_same) (simp_all add: quiet_def task_ok_def comp_def cong: map_cong)
  then show ?thesis by (simp add: refresh_progress_for_running_tasks_def job_rel_def list_all2_map_same)
qed

lemma streaming_rel: "job_rel E j (apply_streaming_task_state now e sid st j)"
proof -
  have "stage_rel E s (s\<lparr>sg_tasks := (sg_tasks s)[k := apply_streaming_state now (sg_tasks s ! k) st]\<rparr>)" if "k < length (sg_tasks s)" for s k
  proof (rule stage_rel_same_states)
    show "list_all2 (quiet E) (sg_tasks s) ((sg_tasks s)[k := apply_streaming_state now (sg_tasks s ! k) st])"
      by (intro list_all2_update_same) (auto simp: quiet_def task_ok_def apply_streaming_state_def Let_def)
    show "map tr_state ((sg_tasks s)[k := apply_streaming_state now (sg_tasks s ! k) st]) = map tr_state (sg_tasks s)"
      using that by (simp add: map_update list_update_same_conv apply_streaming_state_def Let_def)
  qed
  then show ?thesis
    by (auto simp: apply_streaming_task_state_def job_rel_def Let_def dest!: position_Some intro!: list_all2_update_same split: option.split)
qed

lemma stamp_rel: "job_rel E j (stamp_pending_tasks now j)"
proof -
  have "stage_rel E s (stamp_stage now j s)" for s
    unfolding stamp_stage_def
    by (auto intro!: stage_rel_same_states list_all2_map_same simp: stamp_pending_def quiet_def task_ok_def)
  then show ?thesis by (simp add: stamp_pending_tasks_def job_rel_def list_all2_map_same)
qed

lemma reconcile_rel: "job_rel E j (reconcile_latched_job j)"
  using cancel_rel [of E "j\<lparr>jr_state := JobRunning\<rparr>"]
  by (auto simp: reconcile_latched_job_def cancel_job_def job_cancel_def job_rel_def)

text \<open>Every operation but a launch keeps the attempts and, apart from them, only advances the record.\<close>

lemma job_step_rel:
  assumes "\<forall>li. x \<noteq> DoLaunch li" and "placed x \<subseteq> E"
  shows "job_rel E j (fst (job_step fc al nr j x))"
proof (cases x)
  case (DoUpdate now u)
  then show ?thesis using job_update_rel by (simp add: coordinator_task_update_def)
next
  case (DoLaunch li)
  with assms show ?thesis by blast
next
  case (DoAssign now as)
  with assms(2) show ?thesis by (simp add: assign_rel)
next
  case DoAdmit
  then show ?thesis by (simp add: mark_admitted_def job_rel_def)
next
  case (DoFinalize staged)
  then show ?thesis by (simp add: finalize_staged_sink_outputs_def job_rel_def)
next
  case DoPublished
  then show ?thesis by (simp add: mark_sink_publish_committed_def job_rel_def)
next
  case DoPublishFailed
  then show ?thesis by (simp add: mark_sink_publish_failed_def job_rel_def)
qed (simp_all add: queued_rel stall_rel invalidate_specific_rel lose_executor_rel clear_rel stuck_rel preempt_rel
      normalize_rel audit_rel rescue_rel abort_cycle_rel complete_cycle_rel cancel_rel clear_launch_rel clear_launch_task_rel reopen_rel
      progress_rel streaming_rel stamp_rel reconcile_rel)

section \<open>Launching\<close>

definition launches :: "task_record \<Rightarrow> task_record \<Rightarrow> bool" where
  "launches t t' \<longleftrightarrow> tr_spec t' = tr_spec t \<and> (task_ok t \<longrightarrow> task_ok t') \<and> tr_failure_count t' = tr_failure_count t
     \<and> (tr_attempt t' = tr_attempt t \<or> tr_attempt t' = saturating_add_u32 (tr_attempt t) 1)
     \<and> (tr_state t' = tr_state t \<or> tr_state t = TaskAssigned \<and> tr_state t' = TaskPending)
     \<and> (tr_assigned_executor t' = tr_assigned_executor t \<or> tr_assigned_executor t' = None)"

lemma launches_refl [simp]: "launches t t"
  by (simp add: launches_def)

lemma launches_reset: "tr_state t = TaskAssigned \<Longrightarrow> launches t (reset_task t)"
  by (simp add: launches_def reset_task_def task_ok_def)

lemma launches_next: "tr_state t = TaskAssigned \<Longrightarrow>
    launches t (t\<lparr>tr_attempt := saturating_add_u32 (tr_attempt t) 1, tr_launch_in_flight := True\<rparr>)"
  using saturating_add_u32_le [of "tr_attempt t" 1] by (simp add: launches_def task_ok_def)

lemma attempt_try_new_Inr: "attempt_try_new n = Inr m \<Longrightarrow> m = n"
  by (simp add: attempt_try_new_def split: if_splits)

definition attempt_entry :: "string \<Rightarrow> task_record \<Rightarrow> (string \<times> string) \<times> nat" where
  "attempt_entry sid t = ((sid, task_id_of t), tr_attempt t)"

definition emitted :: "'rb executor_task_assignment \<Rightarrow> (string \<times> string) \<times> nat" where
  "emitted a = ((ea_stage_id a, ea_task_id a), ea_attempt_id a)"

lemma emitted_build [simp]:
  "emitted (build_assignment fc li job spec par i t body e lease n inputs) = ((ss_stage_id spec, task_id_of t), n)"
  by (simp add: emitted_def build_assignment_def Let_def assignment_new_def)

lemma launch_task_cases:
  assumes "launch_task fc nr li job locs spec par i t = (t', r)"
  shows "launches t t' \<and>
    (\<forall>a. r = Inr (Some a) \<longrightarrow> emitted a = attempt_entry (ss_stage_id spec) t'
       \<and> tr_attempt t' = saturating_add_u32 (tr_attempt t) 1 \<and> tr_assigned_executor t = Some (ea_executor_id a)
       \<and> (ea_executor_id a, ea_lease_generation a) \<in> set (li_executor_leases li))"
proof (cases "tr_state t \<noteq> TaskAssigned \<or> tr_launch_in_flight t")
  case True
  with assms show ?thesis by (auto simp: launch_task_def)
next
  case False
  then have st: "tr_state t = TaskAssigned" by simp
  let ?body = "tf_body (decode_or_legacy fc (ts_description (tr_spec t)))"
  let ?t1 = "t\<lparr>tr_attempt := saturating_add_u32 (tr_attempt t) 1, tr_launch_in_flight := True\<rparr>"
  note unfold = assms [unfolded launch_task_def if_not_P [OF False] Let_def]
  show ?thesis
  proof (cases "starts_with ?body ''stream:loop:'' \<and> li_inline_partitions li = None \<and> li_task_inline_partitions li = None")
    case True
    with unfold show ?thesis by auto
  next
    case nl: False
    note unfold = unfold [unfolded if_not_P [OF nl]]
    show ?thesis
    proof (cases "tr_assigned_executor t")
      case None
      with unfold show ?thesis by auto
    next
      case e: (Some e)
      show ?thesis
      proof (cases "List.find (\<lambda>el. fst el = e) (li_executor_leases li)")
        case None
        with unfold e st show ?thesis by (auto simp: launches_reset)
      next
        case el: (Some el)
        note unfold = unfold [unfolded e option.case el]
        show ?thesis
        proof (cases "attempt_try_new (tr_attempt ?t1)")
          case (Inl err)
          with unfold st launches_next [OF st] show ?thesis by auto
        next
          case n: (Inr n)
          note unfold = unfold [unfolded n sum.case]
          show ?thesis
          proof (cases "launch_input_partitions nr li locs spec ?t1 ?body")
            case (Inl err)
            with unfold launches_next [OF st] show ?thesis by auto
          next
            case (Inr inputs)
            with unfold have *: "t' = ?t1"
              "r = Inr (Some (build_assignment fc li job spec par i ?t1 ?body e (snd el) n inputs))" by auto
            have "ea_executor_id (build_assignment fc li job spec par i ?t1 ?body e (snd el) n inputs) = e"
              "ea_lease_generation (build_assignment fc li job spec par i ?t1 ?body e (snd el) n inputs) = snd el"
              by (simp_all add: build_assignment_def Let_def assignment_new_def)
            moreover have "(e, snd el) \<in> set (li_executor_leases li)"
              using el by (auto simp: find_Some_iff)
            ultimately show ?thesis using * attempt_try_new_Inr [OF n] launches_next [OF st] e
              by (simp add: attempt_entry_def)
          qed
        qed
      qed
    qed
  qed
qed

lemma launch_tasks_cases:
  assumes "launch_tasks fc nr li job locs spec par i ts = (ts', r)"
  shows "list_all2 launches ts ts' \<and>
    (\<forall>as. r = Inr as \<longrightarrow> subseq (map emitted as) (map (attempt_entry (ss_stage_id spec)) ts')
       \<and> (\<forall>a \<in> set as. \<exists>t \<in> set ts. emitted a = ((ss_stage_id spec, task_id_of t), saturating_add_u32 (tr_attempt t) 1)))"
  using assms
proof (induction ts arbitrary: i ts' r)
  case Nil
  then show ?case by auto
next
  case (Cons t ts)
  obtain t1 r1 where t: "launch_task fc nr li job locs spec par i t = (t1, r1)" by fastforce
  obtain ts2 r2 where ts: "launch_tasks fc nr li job locs spec par (Suc i) ts = (ts2, r2)" by fastforce
  note lt = launch_task_cases [OF t] and IH = Cons.IH [OF ts]
  show ?case
  proof (cases r1)
    case (Inl e)
    with Cons.prems t lt show ?thesis by (auto simp: list.rel_refl)
  next
    case r1: (Inr a)
    show ?thesis
    proof (cases r2)
      case (Inl e)
      with Cons.prems t ts lt IH r1 show ?thesis by auto
    next
      case r2: (Inr as)
      from Cons.prems t ts r1 r2 have *: "ts' = t1 # ts2" "r = Inr ((case a of None \<Rightarrow> [] | Some x \<Rightarrow> [x]) @ as)" by auto
      show ?thesis
      proof (cases a)
        case None
        with * lt IH r2 show ?thesis by auto
      next
        case (Some x)
        with lt r1 have x: "emitted x = attempt_entry (ss_stage_id spec) t1"
          "tr_attempt t1 = saturating_add_u32 (tr_attempt t) 1" "tr_spec t1 = tr_spec t" by (auto simp: launches_def)
        then have "emitted x = ((ss_stage_id spec, task_id_of t), saturating_add_u32 (tr_attempt t) 1)"
          by (simp add: attempt_entry_def)
        with * lt IH r2 Some x(1) show ?thesis by auto
      qed
    qed
  qed
qed

definition stage_launches :: "stage_record \<Rightarrow> stage_record \<Rightarrow> bool" where
  "stage_launches s s' \<longleftrightarrow> sg_spec s' = sg_spec s \<and> sg_retry_count s' = sg_retry_count s
     \<and> list_all2 launches (sg_tasks s) (sg_tasks s') \<and> (settled s \<longrightarrow> settled s')"

lemma stage_launches_refl [simp]: "stage_launches s s"
  by (simp add: stage_launches_def list.rel_refl)

lemma launches_settled:
  assumes "list_all2 launches (sg_tasks s) ts" and "settled s" and "st = sg_state s \<or> st = StageRunning"
  shows "settled (s\<lparr>sg_tasks := ts, sg_state := st\<rparr>)"
proof -
  have "tr_state t' = TaskSucceeded"
    if t: "t' \<in> set ts" and all: "\<forall>t \<in> set (sg_tasks s). tr_state t = TaskSucceeded" for t'
  proof -
    from t obtain i where "i < length ts" "ts ! i = t'" by (auto simp: in_set_conv_nth)
    with assms(1) have "launches (sg_tasks s ! i) t'" "i < length (sg_tasks s)"
      by (auto simp: list_all2_conv_all_nth)
    with all show ?thesis by (auto simp: launches_def dest: nth_mem)
  qed
  with assms(2,3) show ?thesis by (auto simp: settled_def)
qed

lemma launch_stage_cases:
  assumes "launch_stage fc nr li job locs succ s = (s', r)"
  shows "stage_launches s s' \<and>
    (\<forall>as. r = Inr as \<longrightarrow> subseq (map emitted as) (map (attempt_entry (stage_id_of s)) (sg_tasks s'))
       \<and> (\<forall>a \<in> set as. set (ss_upstream_stage_ids (sg_spec s)) \<subseteq> set succ \<and>
            (\<exists>t \<in> set (sg_tasks s). emitted a = ((stage_id_of s, task_id_of t), saturating_add_u32 (tr_attempt t) 1))))"
proof (cases "list_all (\<lambda>up. up \<in> set succ) (ss_upstream_stage_ids (sg_spec s))")
  case False
  with assms show ?thesis by (auto simp: launch_stage_def)
next
  case True
  obtain ts r1 where t: "launch_tasks fc nr li job locs (sg_spec s) (length (sg_tasks s)) 0 (sg_tasks s) = (ts, r1)" by fastforce
  note lt = launch_tasks_cases [OF t]
  have ls: "stage_launches s (s\<lparr>sg_tasks := ts, sg_state := st\<rparr>)" if "st = sg_state s \<or> st = StageRunning" for st
    using lt launches_settled [of s ts st] that by (auto simp: stage_launches_def)
  have up: "set (ss_upstream_stage_ids (sg_spec s)) \<subseteq> set succ" using True by (auto simp: list_all_iff)
  show ?thesis
  proof (cases r1)
    case (Inl e)
    with assms True t have "s' = s\<lparr>sg_tasks := ts, sg_state := sg_state s\<rparr>" "r = Inl e" by (auto simp: launch_stage_def)
    then show ?thesis using ls [of "sg_state s"] by simp
  next
    case (Inr as)
    with assms True t have "r = Inr as" "s' = s\<lparr>sg_tasks := ts, sg_state := sg_state s\<rparr> \<or> s' = s\<lparr>sg_tasks := ts, sg_state := StageRunning\<rparr>"
      by (auto simp: launch_stage_def Let_def split: if_splits)
    then show ?thesis using lt Inr ls [of "sg_state s"] ls [of StageRunning] up by auto
  qed
qed

definition attempt_list :: "stage_record list \<Rightarrow> ((string \<times> string) \<times> nat) list" where
  "attempt_list ss = concat (map (\<lambda>s. map (attempt_entry (stage_id_of s)) (sg_tasks s)) ss)"

lemma attempt_list_simps [simp]:
  "attempt_list [] = []"
  "attempt_list (s # ss) = map (attempt_entry (stage_id_of s)) (sg_tasks s) @ attempt_list ss"
  by (simp_all add: attempt_list_def)

lemma launch_stages_cases:
  assumes "launch_stages fc nr li job locs succ ss = (ss', r)"
  shows "list_all2 stage_launches ss ss' \<and>
    (\<forall>as. r = Inr as \<longrightarrow> subseq (map emitted as) (attempt_list ss')
       \<and> (\<forall>a \<in> set as. \<exists>s \<in> set ss. set (ss_upstream_stage_ids (sg_spec s)) \<subseteq> set succ \<and>
            (\<exists>t \<in> set (sg_tasks s). emitted a = ((stage_id_of s, task_id_of t), saturating_add_u32 (tr_attempt t) 1))))"
  using assms
proof (induction ss arbitrary: ss' r)
  case Nil
  then show ?case by auto
next
  case (Cons s ss)
  obtain s1 r1 where s: "launch_stage fc nr li job locs succ s = (s1, r1)" by fastforce
  obtain ss2 r2 where ss: "launch_stages fc nr li job locs succ ss = (ss2, r2)" by fastforce
  note ls = launch_stage_cases [OF s] and IH = Cons.IH [OF ss]
  show ?case
  proof (cases r1)
    case (Inl e)
    with Cons.prems s ls show ?thesis by (auto simp: list.rel_refl)
  next
    case r1: (Inr as)
    show ?thesis
    proof (cases r2)
      case (Inl e)
      with Cons.prems s ss ls IH r1 show ?thesis by auto
    next
      case r2: (Inr bs)
      from Cons.prems s ss r1 r2 have *: "ss' = s1 # ss2" "r = Inr (as @ bs)" by auto
      from ls have "stage_id_of s1 = stage_id_of s" by (auto simp: stage_launches_def)
      with ls r1 IH r2 have "subseq (map emitted as @ map emitted bs) (attempt_list (s1 # ss2))"
        by (auto intro: list_emb_append_mono)
      moreover have "\<exists>s' \<in> set (s # ss). set (ss_upstream_stage_ids (sg_spec s')) \<subseteq> set succ \<and>
            (\<exists>t \<in> set (sg_tasks s'). emitted a = ((stage_id_of s', task_id_of t), saturating_add_u32 (tr_attempt t) 1))"
        if "a \<in> set (as @ bs)" for a
        using that conjunct2 [OF ls] conjunct2 [OF IH] r1 r2 by (auto simp del: One_nat_def)
      ultimately show ?thesis using * conjunct1 [OF ls] conjunct1 [OF IH] by auto
    qed
  qed
qed

lemma launch_job_cases:
  assumes "launch_assigned_task_assignments fc nr li j = (j', r)"
  shows "jr_spec j' = jr_spec j \<and> jr_max_stage_retries j' = jr_max_stage_retries j
    \<and> jr_shuffle_regen j' = jr_shuffle_regen j
    \<and> list_all2 stage_launches (jr_stages j) (jr_stages j') \<and>
    (\<forall>as. r = Inr as \<longrightarrow> subseq (map emitted as) (attempt_list (jr_stages j'))
       \<and> (\<forall>a \<in> set as. \<exists>s \<in> set (jr_stages j).
            set (ss_upstream_stage_ids (sg_spec s)) \<subseteq> stage_id_of ` {u \<in> set (jr_stages j). sg_state u = StageSucceeded} \<and>
            (\<exists>t \<in> set (sg_tasks s). emitted a = ((stage_id_of s, task_id_of t), saturating_add_u32 (tr_attempt t) 1))))"
proof (cases "jr_state j = JobQueued")
  case True
  with assms show ?thesis by (auto simp: launch_assigned_task_assignments_def list.rel_refl)
next
  case False
  let ?succ = "map stage_id_of (filter (\<lambda>s. sg_state s = StageSucceeded) (jr_stages j))"
  obtain ss r1 where l: "launch_stages fc nr li (jr_spec j) (shuffle_location_inputs nr j) ?succ (jr_stages j) = (ss, r1)"
    by fastforce
  from assms False l have "j' = j\<lparr>jr_state := JobRunning, jr_stages := ss\<rparr>" "r = r1"
    by (auto simp: launch_assigned_task_assignments_def Let_def)
  with launch_stages_cases [OF l] show ?thesis by (simp del: One_nat_def)
qed

section \<open>Well-formed records\<close>

definition stage_ok :: "stage_record \<Rightarrow> bool" where
  "stage_ok s \<longleftrightarrow> map tr_spec (sg_tasks s) = ss_tasks (sg_spec s) \<and> list_all task_ok (sg_tasks s)
     \<and> sg_retry_count s \<le> u32_max \<and> settled s"

definition concluded :: "job_record \<Rightarrow> bool" where
  "concluded j \<longleftrightarrow> (jr_state j = JobSucceeded \<or> jr_state j = JobCommitting \<longrightarrow>
     (\<forall>s \<in> set (jr_stages j). sg_state s = StageSucceeded))"

definition job_ok :: "job_record \<Rightarrow> bool" where
  "job_ok j \<longleftrightarrow> map sg_spec (jr_stages j) = js_stages (jr_spec j) \<and> list_all stage_ok (jr_stages j) \<and> concluded j"

lemma concluded_refresh [simp]: "concluded (job_refresh_state j)"
  by (auto simp: concluded_def job_refresh_state_def job_state_of_def list_all_iff split: if_splits)

lemma concluded_running [simp]: "jr_state j \<noteq> JobSucceeded \<Longrightarrow> jr_state j \<noteq> JobCommitting \<Longrightarrow> concluded j"
  by (simp add: concluded_def)

lemma concluded_same:
  "concluded j \<Longrightarrow> jr_state j' = jr_state j \<Longrightarrow> map sg_state (jr_stages j') = map sg_state (jr_stages j) \<Longrightarrow> concluded j'"
  unfolding concluded_def by (metis (no_types, lifting) image_eqI imageE list.set_map)

lemma stage_update_error_unchanged:
  assumes "stage_apply_task_update now rp s u = (s', Inl e)"
  shows "s' = s"
proof (cases "position (\<lambda>t. task_id_of t = tu_task_id u) (sg_tasks s)")
  case None
  with assms show ?thesis by (simp add: stage_apply_task_update_def)
next
  case (Some idx)
  from position_Some [OF Some] have idx: "idx < length (sg_tasks s)" by simp
  obtain t o1 where t: "apply_status_update now (sg_tasks s ! idx) u = (t, o1)" by fastforce
  let ?s1 = "s\<lparr>sg_tasks := (sg_tasks s)[idx := t]\<rparr>"
  obtain s2 b where a: "account_task_failure now rp ?s1 idx (tu_missing_shuffle_partitions u \<noteq> [])
      (ss_max_task_attempts (sg_spec s)) = (s2, Inr b)"
    using account_ok [of idx ?s1 now rp "tu_missing_shuffle_partitions u \<noteq> []" "ss_max_task_attempts (sg_spec s)"] idx by auto
  note unfold = assms [unfolded stage_apply_task_update_def Some option.case t prod.case Let_def]
  consider e' where "o1 = Inl e'" | "o1 = Inr Duplicate" | "o1 = Inr Applied" by (metis sum.exhaust task_update_outcome.exhaust)
  then show ?thesis
  proof cases
    case 1
    with unfold status_error_unchanged [of now "sg_tasks s ! idx" u t] t show ?thesis by auto
  next
    case 2
    with unfold show ?thesis by simp
  next
    case 3
    with unfold a show ?thesis by (simp split: if_splits)
  qed
qed

lemma job_update_error_unchanged:
  assumes "job_apply_task_update now j u = (j', Inl e)"
  shows "j' = j"
proof (cases "position (\<lambda>s. stage_id_of s = tu_stage_id u) (jr_stages j)")
  case None
  with assms show ?thesis by (simp add: job_apply_task_update_def Let_def)
next
  case (Some i)
  obtain s r where u: "stage_apply_task_update now (policy_of j) (jr_stages j ! i) u = (s, r)" by fastforce
  from assms Some u have "r = Inl e" "j' = j\<lparr>jr_stages := (jr_stages j)[i := s]\<rparr>"
    by (auto simp: job_apply_task_update_def Let_def split: sum.splits)
  with stage_update_error_unchanged u show ?thesis by fastforce
qed

lemma touch_job_concluded: "concluded j \<Longrightarrow> concluded (touch_job p f j)"
  by (simp add: touch_job_def)

lemma invalidate_executor_concluded:
  assumes "concluded j"
  shows "concluded (fst (invalidate_executor_shuffle_partitions j e))"
proof -
  obtain ss out b where i: "invalidate_stages (\<lambda>s. invalidate_task (job_id_of j) (stage_id_of s) e) ''executor lost''
      (\<lambda>sid. is_ok (id_try_new ''stage id'' sid)) (jr_stages j) (jr_shuffle_output j) = (ss, out, b)"
    by (metis prod.exhaust)
  from invalidate_stages_rel [OF inval_ok_task i] show ?thesis
    by (cases b) (auto simp: invalidate_executor_shuffle_partitions_def i Let_def intro: concluded_same [OF assms])
qed

lemma invalidate_specific_concluded:
  assumes "concluded j"
  shows "concluded (fst (invalidate_specific_shuffle_partitions j missing n))"
proof -
  obtain ss out b where i: "invalidate_stages (invalidate_missing (job_id_of j) missing)
      ''shuffle partition missing on consumer fetch'' (\<lambda>_. True) (jr_stages j) (jr_shuffle_output j) = (ss, out, b)"
    by (metis prod.exhaust)
  have "\<not> b \<longrightarrow> ss = jr_stages j" using invalidate_stages_rel [OF inval_ok_missing i] by simp
  then show ?thesis
    unfolding invalidate_specific_shuffle_partitions_def Let_def i prod.case
    by (cases b) (auto simp: assms intro: concluded_same [OF assms] split: option.split)
qed

lemma update_concluded:
  assumes "concluded j"
  shows "concluded (fst (job_apply_task_update now j u))"
proof -
  obtain j' r where u: "job_apply_task_update now j u = (j', r)" by fastforce
  show ?thesis
  proof (cases r)
    case (Inl e)
    with u job_update_error_unchanged assms show ?thesis by fastforce
  next
    case (Inr oc)
    with u job_update_cases [OF u] have "jr_state j' = job_state_of (js_kind (jr_spec j)) (map sg_state (jr_stages j'))" by auto
    with u show ?thesis by (auto simp: concluded_def job_state_of_def list_all_iff split: if_splits)
  qed
qed

lemma stall_concluded:
  assumes "concluded j"
  shows "concluded (fst (apply_stall_failure now j sid tid a reason))"
proof (cases "position (\<lambda>s. stage_id_of s = sid) (jr_stages j)")
  case None
  with assms show ?thesis by (simp add: apply_stall_failure_def)
next
  case (Some i)
  let ?s = "jr_stages j ! i"
  show ?thesis
  proof (cases "position (\<lambda>t. task_id_of t = tid \<and> tr_attempt t = a \<and> tr_state t = TaskRunning) (sg_tasks ?s)")
    case None
    with Some assms show ?thesis by (simp add: apply_stall_failure_def fail_stalled_task_def concluded_def)
  next
    case p: (Some idx)
    let ?t = "(sg_tasks ?s ! idx)\<lparr>tr_state := TaskFailed, tr_last_failure_reason := Some reason,
                      tr_launch_in_flight := False, tr_assigned_at_ms := None, tr_last_progress_ms := None\<rparr>"
    let ?s1 = "?s\<lparr>sg_tasks := (sg_tasks ?s)[idx := ?t]\<rparr>"
    from position_Some [OF p] have "idx < length (sg_tasks ?s1)" by simp
    from account_ok [OF this, of now "policy_of j" False "ss_max_task_attempts (sg_spec ?s)"]
    obtain s2 b where "account_task_failure now (policy_of j) ?s1 idx False (ss_max_task_attempts (sg_spec ?s)) = (s2, Inr b)" by blast
    with Some p show ?thesis by (simp add: apply_stall_failure_def fail_stalled_task_def Let_def)
  qed
qed

lemma rescue_stages_states: "snd (rescue_stages tid ss) \<noteq> Some True \<Longrightarrow> map sg_state (fst (rescue_stages tid ss)) = map sg_state ss"
  by (induction ss) (auto split: prod.splits option.splits)

lemma rescue_concluded:
  assumes "concluded j"
  shows "concluded (fst (rescue_failed_continuous_task tid j))"
proof -
  obtain ss r where s: "rescue_stages tid (jr_stages j) = (ss, r)" by fastforce
  have "r \<noteq> Some True \<Longrightarrow> map sg_state ss = map sg_state (jr_stages j)"
    using rescue_stages_states [of tid "jr_stages j"] s by simp
  with s assms show ?thesis
    by (auto simp: rescue_failed_continuous_task_def bump_recovery_epoch_def Let_def intro: concluded_same)
qed

lemma audit_concluded: "concluded j \<Longrightarrow> concluded (audit_shuffle_availability known j)"
proof -
  assume c: "concluded j"
  have fold: "concluded (foldl (\<lambda>j e. fst (invalidate_executor_shuffle_partitions j e)) k es)" if "concluded k" for k es
    using that by (induction es arbitrary: k) (auto intro: invalidate_executor_concluded)
  from c show ?thesis by (simp add: audit_shuffle_availability_def Let_def fold touch_job_concluded)
qed

end
