(* ===== verification/JobValidation.thy ===== *)
theory JobValidation
  imports SchedError
begin

text \<open>
  Validation of a submitted job (\<open>validate_job\<close> in \<open>krishiv-scheduler/src/job/scheduler.rs\<close>): the
  structural checks, the identity checks and the cycle check of the stage graph by Kahn's
  algorithm. The loop of the algorithm is a partial function, so that not returning is a value; it
  is shown to return, and to accept exactly the acyclic graphs. The fragment check of
  \<open>krishiv-plan\<close>, which parses JSON, is the parameter \<open>check_fragments\<close>.
\<close>

section \<open>Kahn's algorithm\<close>

fun kahn_relax :: "string \<Rightarrow> nat \<Rightarrow> stage_spec list \<Rightarrow> nat list \<Rightarrow> nat list \<Rightarrow> nat list \<times> nat list" where
  "kahn_relax cur i [] in_degree queue = (in_degree, queue)"
| "kahn_relax cur i (ds # rest) in_degree queue =
     (if cur \<in> set (ss_upstream_stage_ids ds) \<and> i < length in_degree then
        (let d = in_degree ! i - 1
         in kahn_relax cur (Suc i) rest (in_degree[i := d]) (if d = 0 then queue @ [i] else queue))
      else kahn_relax cur (Suc i) rest in_degree queue)"

partial_function (option) kahn_loop :: "stage_spec list \<Rightarrow> nat list \<Rightarrow> nat list \<Rightarrow> nat \<Rightarrow> nat option" where
  "kahn_loop stages in_degree queue processed =
     (case queue of
        [] \<Rightarrow> Some processed
      | idx # queue' \<Rightarrow>
          if idx < length stages then
            (case kahn_relax (ss_stage_id (stages ! idx)) 0 stages in_degree queue' of
               (in_degree', queue'') \<Rightarrow> kahn_loop stages in_degree' queue'' (processed + 1))
          else kahn_loop stages in_degree queue' (processed + 1))"

text \<open>
  With unique stage ids the index of a stage in the id table is its own position, so the initial
  in-degrees are the numbers of distinct upstream ids.
\<close>

definition kahn_in_degree :: "stage_spec list \<Rightarrow> nat list" where
  "kahn_in_degree stages = map (\<lambda>s. length (remdups (ss_upstream_stage_ids s))) stages"

definition kahn_processed :: "stage_spec list \<Rightarrow> nat option" where
  "kahn_processed stages =
     (let in_degree = kahn_in_degree stages
      in kahn_loop stages in_degree (filter (\<lambda>i. in_degree ! i = 0) [0..<length stages]) 0)"

section \<open>Validation\<close>

fun first_duplicate :: "string list \<Rightarrow> string list \<Rightarrow> string option" where
  "first_duplicate seen [] = None"
| "first_duplicate seen (x # xs) = (if x \<in> set seen then Some x else first_duplicate (x # seen) xs)"

definition unknown_upstream :: "job_spec \<Rightarrow> (string \<times> string) option" where
  "unknown_upstream spec =
     List.find (\<lambda>(_, up). up \<notin> set (map ss_stage_id (js_stages spec)))
       (concat (map (\<lambda>s. map (Pair (ss_stage_id s)) (ss_upstream_stage_ids s)) (js_stages spec)))"

definition validate_fields :: "job_spec \<Rightarrow> scheduler_error + unit" where
  "validate_fields spec =
     (if js_job_id spec = [] then Inl (InvalidJob ''job_id must not be empty'')
      else if js_namespace_id spec = Some [] then Inl (InvalidJob ''namespace_id must not be empty when present'')
      else if (case js_namespace_id spec of None \<Rightarrow> False | Some ns \<Rightarrow> length ns > 253) then
        Inl (InvalidJob (''namespace_id '' @ [CHR 0x27] @ (case js_namespace_id spec of None \<Rightarrow> [] | Some ns \<Rightarrow> ns) @ [CHR 0x27]
             @ '' exceeds 253 chars (DNS-1123 label limit)''))
      else if js_checkpoint_interval_ms spec = Some 0 then
        Inl (InvalidJob ''checkpoint_interval_ms must be > 0; use None to disable checkpointing'')
      else if js_checkpoint_storage_path spec = Some [] then
        Inl (InvalidJob ''checkpoint_storage_path must not be empty when checkpoint_interval_ms is set'')
      else Inr ())"

text \<open>The value is None only if the cycle check does not return.\<close>

definition validate_job :: "(job_spec \<Rightarrow> string + unit) \<Rightarrow> job_spec \<Rightarrow> (scheduler_error + unit) option" where
  "validate_job check_fragments spec =
     (if js_stages spec = [] then Some (Inl (InvalidJob ''job must contain at least one stage''))
      else if list_ex (\<lambda>s. ss_tasks s = []) (js_stages spec) then
        Some (Inl (InvalidJob ''each stage must contain at least one task''))
      else case first_duplicate [] (map ss_stage_id (js_stages spec)) of
        Some dup \<Rightarrow> Some (Inl (InvalidJob (''duplicate stage id '' @ dup @ '' in job '' @ js_job_id spec)))
      | None \<Rightarrow>
      (case unknown_upstream spec of
        Some (sid, up) \<Rightarrow>
          Some (Inl (InvalidJob (''stage '' @ sid @ '' declares upstream dependency on unknown stage '' @ up)))
      | None \<Rightarrow>
      (case kahn_processed (js_stages spec) of
        None \<Rightarrow> None
      | Some processed \<Rightarrow>
          if processed \<noteq> length (js_stages spec) then Some (Inl (InvalidJob ''stage dependency graph is cyclic''))
          else case first_duplicate [] (concat (map (\<lambda>s. map ts_task_id (ss_tasks s)) (js_stages spec))) of
            Some dup \<Rightarrow> Some (Inl (InvalidJob (''duplicate task id '' @ dup @ '' in job '' @ js_job_id spec)))
          | None \<Rightarrow>
              Some (rbind (validate_fields spec)
                (\<lambda>_. case check_fragments spec of Inl e \<Rightarrow> Inl (InvalidJob e) | Inr _ \<Rightarrow> Inr ())))))"

section \<open>Laws of the checks\<close>

lemma kahn_loop_Nil: "kahn_loop stages in_degree [] processed = Some processed"
  by (simp add: kahn_loop.simps)

lemma kahn_loop_Cons:
  "kahn_loop stages in_degree (idx # queue) processed =
     (if idx < length stages then
        (case kahn_relax (ss_stage_id (stages ! idx)) 0 stages in_degree queue of
           (in_degree', queue') \<Rightarrow> kahn_loop stages in_degree' queue' (processed + 1))
      else kahn_loop stages in_degree queue (processed + 1))"
  by (simp add: kahn_loop.simps)

lemma first_duplicate_None: "first_duplicate seen xs = None \<longleftrightarrow> distinct xs \<and> set seen \<inter> set xs = {}"
  by (induction xs arbitrary: seen) auto

lemma unknown_upstream_None:
  "unknown_upstream spec = None \<longleftrightarrow>
     (\<forall>s \<in> set (js_stages spec). set (ss_upstream_stage_ids s) \<subseteq> ss_stage_id ` set (js_stages spec))"
  by (fastforce simp: unknown_upstream_def find_None_iff)

definition feeds :: "stage_spec list \<Rightarrow> nat \<Rightarrow> nat \<Rightarrow> bool" where
  "feeds stages c k \<longleftrightarrow> ss_stage_id (stages ! c) \<in> set (ss_upstream_stage_ids (stages ! k))"

lemma kahn_relax_eq:
  assumes "length in_degree = length stages" and "i \<le> length stages"
  shows "kahn_relax (ss_stage_id (stages ! c)) i (drop i stages) in_degree queue =
    (map (\<lambda>k. if i \<le> k \<and> feeds stages c k then in_degree ! k - 1 else in_degree ! k) [0..<length stages],
     queue @ filter (\<lambda>k. feeds stages c k \<and> in_degree ! k - 1 = 0) [i..<length stages])"
  using assms
proof (induction "length stages - i" arbitrary: i in_degree queue)
  case 0
  then have "map (\<lambda>k. if i \<le> k \<and> feeds stages c k then in_degree ! k - 1 else in_degree ! k) [0..<length stages] = in_degree"
    by (auto intro: nth_equalityI)
  with 0 show ?case by simp
next
  case (Suc n)
  then have i: "i < length stages" by simp
  have d: "drop i stages = stages ! i # drop (Suc i) stages" using i by (simp add: Cons_nth_drop_Suc)
  have r: "[i..<length stages] = i # [Suc i..<length stages]" using i by (simp add: upt_conv_Cons)
  let ?ind = "if feeds stages c i then in_degree[i := in_degree ! i - 1] else in_degree"
  let ?q = "if feeds stages c i \<and> in_degree ! i - 1 = 0 then queue @ [i] else queue"
  have step: "kahn_relax (ss_stage_id (stages ! c)) i (drop i stages) in_degree queue
      = kahn_relax (ss_stage_id (stages ! c)) (Suc i) (drop (Suc i) stages) ?ind ?q"
    unfolding d using i Suc.prems by (simp add: feeds_def Let_def)
  have ind: "kahn_relax (ss_stage_id (stages ! c)) (Suc i) (drop (Suc i) stages) ?ind ?q =
    (map (\<lambda>k. if Suc i \<le> k \<and> feeds stages c k then ?ind ! k - 1 else ?ind ! k) [0..<length stages],
     ?q @ filter (\<lambda>k. feeds stages c k \<and> ?ind ! k - 1 = 0) [Suc i..<length stages])"
    by (rule Suc.hyps(1)) (use Suc.hyps(2) Suc.prems i in auto)
  have m: "map (\<lambda>k. if Suc i \<le> k \<and> feeds stages c k then ?ind ! k - 1 else ?ind ! k) [0..<length stages]
      = map (\<lambda>k. if i \<le> k \<and> feeds stages c k then in_degree ! k - 1 else in_degree ! k) [0..<length stages]"
    using Suc.prems by (intro map_cong refl) (auto simp: nth_list_update le_Suc_eq not_less_eq_eq)
  have f: "filter (\<lambda>k. feeds stages c k \<and> ?ind ! k - 1 = 0) [Suc i..<length stages]
      = filter (\<lambda>k. feeds stages c k \<and> in_degree ! k - 1 = 0) [Suc i..<length stages]"
    by (rule filter_cong) auto
  show ?case unfolding step ind m f r by simp
qed

section \<open>The loop returns, with a topological order\<close>

definition waiting :: "stage_spec list \<Rightarrow> nat list \<Rightarrow> nat \<Rightarrow> nat set" where
  "waiting stages V k = {c. c < length stages \<and> feeds stages c k \<and> c \<notin> set V}"

definition kahn_inv :: "stage_spec list \<Rightarrow> nat list \<Rightarrow> nat list \<Rightarrow> nat list \<Rightarrow> bool" where
  "kahn_inv stages in_degree queue V \<longleftrightarrow>
     length in_degree = length stages \<and> distinct (V @ queue) \<and> set (V @ queue) \<subseteq> {..<length stages}
     \<and> (\<forall>k < length stages. in_degree ! k = card (waiting stages V k))
     \<and> (\<forall>k < length stages. k \<in> set (V @ queue) \<longleftrightarrow> in_degree ! k = 0)
     \<and> (\<forall>i < length V. waiting stages (take i V) (V ! i) = {})"

lemma finite_waiting [simp]: "finite (waiting stages V k)"
  by (simp add: waiting_def)

lemma waiting_snoc: "waiting stages (V @ [c]) k = waiting stages V k - {c}"
  by (auto simp: waiting_def)

lemma kahn_inv_step:
  assumes "kahn_inv stages in_degree (c # queue) V"
  shows "\<exists>in_degree' queue'. c < length stages
    \<and> kahn_relax (ss_stage_id (stages ! c)) 0 stages in_degree queue = (in_degree', queue')
    \<and> kahn_inv stages in_degree' queue' (V @ [c])"
proof -
  note inv = assms [unfolded kahn_inv_def]
  let ?n = "length stages"
  let ?ind = "map (\<lambda>k. if feeds stages c k then in_degree ! k - 1 else in_degree ! k) [0..<?n]"
  let ?new = "filter (\<lambda>k. feeds stages c k \<and> in_degree ! k - 1 = 0) [0..<?n]"
  have c: "c < ?n" "c \<notin> set V" "c \<notin> set queue" using inv by auto
  have len: "length in_degree = ?n" using inv by blast
  have relax: "kahn_relax (ss_stage_id (stages ! c)) 0 stages in_degree queue = (?ind, queue @ ?new)"
    using kahn_relax_eq [OF len, of 0 c queue] by simp
  have deg: "in_degree ! k = card (waiting stages V k)" if "k < ?n" for k using inv that by blast
  have seen: "k \<in> set (V @ c # queue) \<longleftrightarrow> in_degree ! k = 0" if "k < ?n" for k using inv that by blast
  have fed: "c \<in> waiting stages V k" if "feeds stages c k" for k using that c by (simp add: waiting_def)
  have pos: "0 < in_degree ! k" if "k < ?n" "feeds stages c k" for k
    using deg [OF that(1)] fed [OF that(2)] card_gt_0_iff [of "waiting stages V k"] by auto
  have deg': "?ind ! k = card (waiting stages (V @ [c]) k)" if k: "k < ?n" for k
  proof (cases "feeds stages c k")
    case True
    then show ?thesis using k deg [OF k] fed [OF True] by (simp add: waiting_snoc card_Diff_singleton)
  next
    case False
    then have "waiting stages V k - {c} = waiting stages V k" by (auto simp: waiting_def)
    with False show ?thesis using k deg [OF k] by (simp add: waiting_snoc)
  qed
  have fresh: "k \<notin> set (V @ c # queue)" if "k \<in> set ?new" for k
    using that pos [of k] seen [of k] by auto
  have seen': "k \<in> set ((V @ [c]) @ queue @ ?new) \<longleftrightarrow> ?ind ! k = 0" if k: "k < ?n" for k
  proof (cases "feeds stages c k")
    case True
    with pos [OF k True] seen [OF k] k show ?thesis by auto
  next
    case False
    with seen [OF k] k show ?thesis by auto
  qed
  have old: "distinct (V @ c # queue)" using inv by blast
  have "set (V @ c # queue) \<inter> set ?new = {}" using fresh by blast
  then have "distinct ((V @ c # queue) @ ?new)" using old unfolding distinct_append by simp
  then have dist: "distinct ((V @ [c]) @ queue @ ?new)" by simp
  have topo: "waiting stages (take i (V @ [c])) ((V @ [c]) ! i) = {}" if i: "i < length (V @ [c])" for i
  proof (cases "i < length V")
    case True
    with inv show ?thesis by (simp add: nth_append)
  next
    case False
    with i have "i = length V" by simp
    moreover have "waiting stages V c = {}" using deg [OF c(1)] seen [OF c(1)] by simp
    ultimately show ?thesis by simp
  qed
  have "set ((V @ [c]) @ queue @ ?new) \<subseteq> {..<?n}" using inv by auto
  with deg' seen' dist topo have "kahn_inv stages ?ind (queue @ ?new) (V @ [c])"
    unfolding kahn_inv_def by simp
  with c relax show ?thesis by blast
qed

lemma kahn_inv_length: "kahn_inv stages in_degree queue V \<Longrightarrow> length V \<le> length stages"
proof -
  assume "kahn_inv stages in_degree queue V"
  then have "distinct V" "set V \<subseteq> {..<length stages}" by (auto simp: kahn_inv_def)
  then show ?thesis using card_mono [of "{..<length stages}" "set V"] by (simp add: distinct_card)
qed

lemma kahn_loop_returns:
  assumes "kahn_inv stages in_degree queue V"
  shows "\<exists>in_degree' V'. kahn_loop stages in_degree queue (length V) = Some (length V') \<and> kahn_inv stages in_degree' [] V'"
  using assms
proof (induction "length stages - length V" arbitrary: in_degree queue V rule: less_induct)
  case less
  show ?case
  proof (cases queue)
    case Nil
    then have "kahn_loop stages in_degree queue (length V) = Some (length V)" by (simp add: kahn_loop.simps)
    with less.prems Nil show ?thesis by blast
  next
    case (Cons c q)
    from kahn_inv_step [OF less.prems [unfolded Cons]] obtain ind' q' where
      c: "c < length stages" and r: "kahn_relax (ss_stage_id (stages ! c)) 0 stages in_degree q = (ind', q')"
      and inv: "kahn_inv stages ind' q' (V @ [c])" by blast
    from kahn_inv_length [OF inv] have "length stages - length (V @ [c]) < length stages - length V" by simp
    from less.hyps [OF this inv] obtain ind'' V' where
      "kahn_loop stages ind' q' (length (V @ [c])) = Some (length V')" "kahn_inv stages ind'' [] V'" by blast
    moreover have "kahn_loop stages in_degree queue (length V) = kahn_loop stages ind' q' (length (V @ [c]))"
      using Cons c r by (simp add: kahn_loop.simps [of stages in_degree "c # q"])
    ultimately show ?thesis by auto
  qed
qed

text \<open>Identifiers are unique and every dependency names a stage of the job.\<close>

definition graph_ok :: "stage_spec list \<Rightarrow> bool" where
  "graph_ok stages \<longleftrightarrow> distinct (map ss_stage_id stages)
     \<and> (\<forall>s \<in> set stages. set (ss_upstream_stage_ids s) \<subseteq> ss_stage_id ` set stages)"

lemma kahn_start:
  assumes "graph_ok stages"
  shows "kahn_inv stages (kahn_in_degree stages) (filter (\<lambda>i. kahn_in_degree stages ! i = 0) [0..<length stages]) []"
proof -
  have "kahn_in_degree stages ! k = card (waiting stages [] k)" if k: "k < length stages" for k
  proof -
    let ?ups = "set (ss_upstream_stage_ids (stages ! k))"
    have ids: "inj_on (\<lambda>c. ss_stage_id (stages ! c)) {..<length stages}"
      using assms by (auto simp: graph_ok_def inj_on_def distinct_conv_nth)
    have known: "?ups \<subseteq> ss_stage_id ` set stages" using assms k by (simp add: graph_ok_def)
    have "up \<in> (\<lambda>c. ss_stage_id (stages ! c)) ` waiting stages [] k" if up: "up \<in> ?ups" for up
    proof -
      from up known obtain i where "i < length stages" "up = ss_stage_id (stages ! i)"
        by (metis (no_types, lifting) imageE in_set_conv_nth subsetD)
      with up show ?thesis by (auto simp: waiting_def feeds_def)
    qed
    then have "(\<lambda>c. ss_stage_id (stages ! c)) ` waiting stages [] k = ?ups"
      by (auto simp: waiting_def feeds_def)
    moreover have "inj_on (\<lambda>c. ss_stage_id (stages ! c)) (waiting stages [] k)"
      by (rule inj_on_subset [OF ids]) (auto simp: waiting_def)
    ultimately have "card (waiting stages [] k) = card ?ups" by (metis card_image)
    then show ?thesis using k by (simp add: kahn_in_degree_def length_remdups_card_conv)
  qed
  then show ?thesis by (auto simp: kahn_inv_def kahn_in_degree_def)
qed

section \<open>Exactly the acyclic graphs\<close>

definition dependency_graph :: "stage_spec list \<Rightarrow> (string \<times> string) set" where
  "dependency_graph stages = {(up, ss_stage_id s) | s up. s \<in> set stages \<and> up \<in> set (ss_upstream_stage_ids s)}"

lemma dependency_edge:
  assumes "graph_ok stages"
  shows "(a, b) \<in> dependency_graph stages \<longleftrightarrow>
    (\<exists>c k. c < length stages \<and> k < length stages \<and> feeds stages c k \<and> a = ss_stage_id (stages ! c) \<and> b = ss_stage_id (stages ! k))"
proof
  assume "(a, b) \<in> dependency_graph stages"
  then obtain s where s: "s \<in> set stages" "b = ss_stage_id s" "a \<in> set (ss_upstream_stage_ids s)"
    by (auto simp: dependency_graph_def)
  with assms have "a \<in> ss_stage_id ` set stages" by (auto simp: graph_ok_def)
  then obtain c where "c < length stages" "a = ss_stage_id (stages ! c)" by (auto simp: in_set_conv_nth)
  moreover from s obtain k where "k < length stages" "stages ! k = s" by (auto simp: in_set_conv_nth)
  ultimately show "\<exists>c k. c < length stages \<and> k < length stages \<and> feeds stages c k \<and> a = ss_stage_id (stages ! c) \<and> b = ss_stage_id (stages ! k)"
    using s by (auto simp: feeds_def)
qed (auto simp: dependency_graph_def feeds_def)

text \<open>A complete order puts every dependency before its stage.\<close>

lemma complete_order_acyclic:
  assumes ok: "graph_ok stages" and inv: "kahn_inv stages in_degree [] V" and full: "length V = length stages"
  shows "acyclic (dependency_graph stages)"
proof -
  note inv' = inv [unfolded kahn_inv_def]
  have "set V \<subseteq> {..<length stages}" "distinct V" using inv' by auto
  with full have all: "set V = {..<length stages}" by (metis card_lessThan card_subset_eq distinct_card finite_lessThan)
  define pos where "pos = (\<lambda>k. THE i. i < length V \<and> V ! i = k)"
  have pos: "pos (V ! i) = i" if "i < length V" for i
    unfolding pos_def using that \<open>distinct V\<close> by (auto simp: nth_eq_iff_index_eq)
  define rank where "rank = (\<lambda>sid. THE r. \<exists>k < length stages. ss_stage_id (stages ! k) = sid \<and> r = pos k)"
  have rank: "rank (ss_stage_id (stages ! k)) = pos k" if "k < length stages" for k
  proof -
    have "k' = k" if "k' < length stages" "ss_stage_id (stages ! k') = ss_stage_id (stages ! k)" for k'
      using ok that \<open>k < length stages\<close> by (auto simp: graph_ok_def distinct_conv_nth)
    then show ?thesis unfolding rank_def using \<open>k < length stages\<close> by (intro the_equality) auto
  qed
  have "rank a < rank b" if edge: "(a, b) \<in> dependency_graph stages" for a b
  proof -
    from edge dependency_edge [OF ok] obtain c k where
      ck: "c < length stages" "k < length stages" "feeds stages c k" "a = ss_stage_id (stages ! c)" "b = ss_stage_id (stages ! k)"
      by blast
    from ck(2) all obtain i where i: "i < length V" "V ! i = k" by (metis in_set_conv_nth lessThan_iff)
    with inv' have "waiting stages (take i V) k = {}" by blast
    with ck have "c \<in> set (take i V)" by (auto simp: waiting_def)
    then obtain m where "m < i" "V ! m = c" by (auto simp: in_set_conv_nth)
    with i pos [of m] pos [of i] ck rank show ?thesis by simp
  qed
  then have "dependency_graph stages \<subseteq> measure rank" by auto
  then show ?thesis using acyclic_subset [OF wf_acyclic [OF wf_measure]] by blast
qed

lemma acyclic_complete_order:
  assumes ok: "graph_ok stages" and inv: "kahn_inv stages in_degree [] V" and ac: "acyclic (dependency_graph stages)"
  shows "length V = length stages"
proof (rule ccontr)
  assume "length V \<noteq> length stages"
  note inv' = inv [unfolded kahn_inv_def]
  let ?R = "{..<length stages} - set V"
  have "set V \<subseteq> {..<length stages}" "distinct V" using inv' by auto
  with \<open>length V \<noteq> length stages\<close> have "?R \<noteq> {}" by (metis Diff_eq_empty_iff card_lessThan distinct_card subset_antisym)
  let ?S = "(\<lambda>k. ss_stage_id (stages ! k)) ` ?R"
  have "finite (dependency_graph stages)"
    by (rule finite_subset [of _ "(\<lambda>(c, k). (ss_stage_id (stages ! c), ss_stage_id (stages ! k))) ` ({..<length stages} \<times> {..<length stages})"])
       (auto simp: dependency_edge [OF ok])
  then have "wf (dependency_graph stages)" using ac by (rule finite_acyclic_wf)
  moreover from \<open>?R \<noteq> {}\<close> obtain x where "x \<in> ?S" by blast
  ultimately obtain b where b: "b \<in> ?S" "\<And>a. (a, b) \<in> dependency_graph stages \<Longrightarrow> a \<notin> ?S"
    by (metis wfE_min)
  then obtain k where k: "k < length stages" "k \<notin> set V" "b = ss_stage_id (stages ! k)" by auto
  from k inv' have "in_degree ! k \<noteq> 0" "in_degree ! k = card (waiting stages V k)" by auto
  then obtain c where "c \<in> waiting stages V k" by (metis card.empty ex_in_conv)
  then have c: "c < length stages" "feeds stages c k" "c \<notin> set V" by (auto simp: waiting_def)
  then have "(ss_stage_id (stages ! c), b) \<in> dependency_graph stages" using k dependency_edge [OF ok] by blast
  with b(2) c show False by blast
qed

lemma kahn_processed_exact:
  assumes "graph_ok stages"
  shows "\<exists>p. kahn_processed stages = Some p \<and> (p = length stages \<longleftrightarrow> acyclic (dependency_graph stages))"
proof -
  from kahn_loop_returns [OF kahn_start [OF assms]] obtain ind V where
    "kahn_processed stages = Some (length V)" and inv: "kahn_inv stages ind [] V"
    by (auto simp: kahn_processed_def Let_def)
  moreover have "length V = length stages \<longleftrightarrow> acyclic (dependency_graph stages)"
    using complete_order_acyclic [OF assms inv] acyclic_complete_order [OF assms inv] by blast
  ultimately show ?thesis by blast
qed

text \<open>
  C15. Validation always returns, and it accepts a job exactly when the job has stages, every
  stage has tasks, stage ids and task ids are unique, every upstream id names a stage, the stage
  graph has no cycle, and the field and fragment checks pass. The cycle check is Kahn's
  algorithm, so it terminates and is exact on every graph that reaches it.
\<close>

theorem validate_job_exact:
  "\<exists>r. validate_job check_fragments spec = Some r \<and>
     (r = Inr () \<longleftrightarrow> js_stages spec \<noteq> [] \<and> (\<forall>s \<in> set (js_stages spec). ss_tasks s \<noteq> [])
        \<and> distinct (map ss_stage_id (js_stages spec))
        \<and> (\<forall>s \<in> set (js_stages spec). set (ss_upstream_stage_ids s) \<subseteq> ss_stage_id ` set (js_stages spec))
        \<and> acyclic (dependency_graph (js_stages spec))
        \<and> distinct (concat (map (\<lambda>s. map ts_task_id (ss_tasks s)) (js_stages spec)))
        \<and> validate_fields spec = Inr () \<and> is_ok (check_fragments spec))"
proof -
  let ?ss = "js_stages spec"
  have dup: "first_duplicate [] (map ss_stage_id ?ss) = None \<longleftrightarrow> distinct (map ss_stage_id ?ss)"
    by (simp add: first_duplicate_None)
  have tasks: "first_duplicate [] (concat (map (\<lambda>s. map ts_task_id (ss_tasks s)) ?ss)) = None
      \<longleftrightarrow> distinct (concat (map (\<lambda>s. map ts_task_id (ss_tasks s)) ?ss))"
    by (simp add: first_duplicate_None)
  have rest: "rbind (validate_fields spec) (\<lambda>_. case check_fragments spec of Inl e \<Rightarrow> Inl (InvalidJob e) | Inr _ \<Rightarrow> Inr ()) = Inr ()
      \<longleftrightarrow> validate_fields spec = Inr () \<and> is_ok (check_fragments spec)"
    by (cases "validate_fields spec"; cases "check_fragments spec") auto
  show ?thesis
  proof (cases "?ss = [] \<or> list_ex (\<lambda>s. ss_tasks s = []) ?ss \<or> first_duplicate [] (map ss_stage_id ?ss) \<noteq> None \<or> unknown_upstream spec \<noteq> None")
    case True
    then consider "?ss = []" | "list_ex (\<lambda>s. ss_tasks s = []) ?ss" "?ss \<noteq> []"
      | d where "first_duplicate [] (map ss_stage_id ?ss) = Some d" "?ss \<noteq> []" "\<not> list_ex (\<lambda>s. ss_tasks s = []) ?ss"
      | sid up where "unknown_upstream spec = Some (sid, up)" "first_duplicate [] (map ss_stage_id ?ss) = None"
          "?ss \<noteq> []" "\<not> list_ex (\<lambda>s. ss_tasks s = []) ?ss"
      by (metis not_Some_eq prod.exhaust)
    then show ?thesis
    proof cases
      case 1
      then show ?thesis by (simp add: validate_job_def)
    next
      case 2
      then show ?thesis by (auto simp: validate_job_def list_ex_iff)
    next
      case 3
      with dup show ?thesis by (auto simp: validate_job_def)
    next
      case 4
      from 4(1) have "\<not> (\<forall>s \<in> set ?ss. set (ss_upstream_stage_ids s) \<subseteq> ss_stage_id ` set ?ss)"
        unfolding unknown_upstream_None [symmetric] by simp
      with 4 show ?thesis by (simp add: validate_job_def)
    qed
  next
    case False
    then have f: "?ss \<noteq> []" "\<not> list_ex (\<lambda>s. ss_tasks s = []) ?ss" "first_duplicate [] (map ss_stage_id ?ss) = None"
      "unknown_upstream spec = None" by blast+
    then have ok: "graph_ok ?ss" using dup unknown_upstream_None [of spec] by (simp add: graph_ok_def)
    have t: "\<forall>s \<in> set ?ss. ss_tasks s \<noteq> []" using f(2) by (auto simp: list_ex_iff)
    from kahn_processed_exact [OF ok] obtain p where
      p: "kahn_processed ?ss = Some p" "p = length ?ss \<longleftrightarrow> acyclic (dependency_graph ?ss)" by blast
    have v: "validate_job check_fragments spec =
      (if p \<noteq> length ?ss then Some (Inl (InvalidJob ''stage dependency graph is cyclic''))
       else case first_duplicate [] (concat (map (\<lambda>s. map ts_task_id (ss_tasks s)) ?ss)) of
            Some dup \<Rightarrow> Some (Inl (InvalidJob (''duplicate task id '' @ dup @ '' in job '' @ js_job_id spec)))
          | None \<Rightarrow> Some (rbind (validate_fields spec)
                (\<lambda>_. case check_fragments spec of Inl e \<Rightarrow> Inl (InvalidJob e) | Inr _ \<Rightarrow> Inr ())))"
      using f p(1) by (simp add: validate_job_def)
    have "(\<forall>s \<in> set ?ss. ss_tasks s \<noteq> []) \<and> distinct (map ss_stage_id ?ss)
        \<and> (\<forall>s \<in> set ?ss. set (ss_upstream_stage_ids s) \<subseteq> ss_stage_id ` set ?ss)" using t ok by (simp add: graph_ok_def)
    then show ?thesis unfolding v using f(1) p(2) tasks rest by (auto split: option.split)
  qed
qed

theorem validate_job_exact_witness:
  "\<exists>r. validate_job (\<lambda>_. Inr ()) (with_stage (job_spec_new ''j'' ''n'' BatchJob)
       (with_upstream_stage (with_task (stage_spec_new ''s'' ''s'') (task_spec_new ''t'' ''d'')) ''s'')) = Some r \<and> r \<noteq> Inr ()"
proof -
  let ?st = "with_upstream_stage (with_task (stage_spec_new ''s'' ''s'') (task_spec_new ''t'' ''d'')) ''s''"
  let ?spec = "with_stage (job_spec_new ''j'' ''n'' BatchJob) ?st"
  have st: "js_stages ?spec = [?st]" by (simp add: with_stage_def job_spec_new_def)
  have "(''s'', ''s'') \<in> dependency_graph [?st]"
    by (auto simp: dependency_graph_def with_upstream_stage_def with_task_def stage_spec_new_def)
  then have "\<not> acyclic (dependency_graph (js_stages ?spec))" unfolding st acyclic_def by blast
  with validate_job_exact [of "\<lambda>_. Inr ()" ?spec] show ?thesis by blast
qed

end
