(* ===== verification/JobSafety.thy ===== *)
theory JobSafety
  imports JobLaws JobValidation
begin

text \<open>
  The properties of the job record over every sequence of the operations of \<open>job_op\<close>, from the laws
  of \<open>JobLaws\<close>: well-formedness, single launch of an attempt and the order of stages.
\<close>

section \<open>Well-formedness is preserved\<close>

lemma stage_rel_ok:
  assumes "stage_rel E s s'" and "stage_ok s"
  shows "stage_ok s' \<and> sg_spec s' = sg_spec s"
proof -
  have q: "list_all2 (quiet E) (sg_tasks s) (sg_tasks s')" using assms(1) by (simp add: stage_rel_def)
  then have "map tr_spec (sg_tasks s') = map tr_spec (sg_tasks s)"
    by (induction rule: list_all2_induct) (auto simp: quiet_def)
  moreover have "list_all task_ok (sg_tasks s')"
    using q assms(2) [unfolded stage_ok_def, THEN conjunct2, THEN conjunct1]
    by (induction rule: list_all2_induct) (auto simp: quiet_def)
  ultimately show ?thesis using assms by (simp add: stage_rel_def stage_ok_def)
qed

lemma stage_launches_ok:
  assumes "stage_launches s s'" and "stage_ok s"
  shows "stage_ok s' \<and> sg_spec s' = sg_spec s"
proof -
  have q: "list_all2 launches (sg_tasks s) (sg_tasks s')" using assms(1) by (simp add: stage_launches_def)
  then have "map tr_spec (sg_tasks s') = map tr_spec (sg_tasks s)"
    by (induction rule: list_all2_induct) (auto simp: launches_def)
  moreover have "list_all task_ok (sg_tasks s')"
    using q assms(2) [unfolded stage_ok_def, THEN conjunct2, THEN conjunct1]
    by (induction rule: list_all2_induct) (auto simp: launches_def)
  ultimately show ?thesis using assms by (simp add: stage_launches_def stage_ok_def)
qed

lemma stages_ok:
  assumes "list_all2 R ss ss'" and "list_all stage_ok ss"
    and "\<And>s s'. R s s' \<Longrightarrow> stage_ok s \<Longrightarrow> stage_ok s' \<and> sg_spec s' = sg_spec s"
  shows "list_all stage_ok ss' \<and> map sg_spec ss' = map sg_spec ss"
  using assms(1,2) by (induction rule: list_all2_induct) (auto dest: assms(3))

lemma step_concluded:
  assumes "concluded j"
  shows "concluded (fst (job_step fc al nr j x))"
proof (cases x)
  case (DoAssign now as)
  then show ?thesis using assms by (auto simp: apply_assignments_def concluded_def)
next
  case (DoLaunch li)
  obtain j' r where l: "launch_assigned_task_assignments fc nr li j = (j', r)" by fastforce
  then have "jr_state j' = JobRunning \<or> j' = j"
    by (auto simp: launch_assigned_task_assignments_def Let_def split: prod.splits if_splits)
  then have "concluded j'" using assms by auto
  then show ?thesis using DoLaunch l by (cases r) simp_all
next
  case (DoUpdate now u)
  then show ?thesis using assms update_concluded by (simp add: coordinator_task_update_def)
next
  case (DoLose e)
  have "concluded (bump_recovery_epoch j)" using assms by (simp add: bump_recovery_epoch_def concluded_def)
  then show ?thesis using DoLose by (simp add: lose_executor_def touch_job_concluded invalidate_executor_concluded)
next
  case (DoClear e)
  then show ?thesis
    using concluded_same [OF assms, of "fst (clear_assignments_for_bad_executor e j)"]
    by (simp add: clear_assignments_for_bad_executor_def comp_def)
next
  case (DoCompleteCycle tid)
  then show ?thesis using assms by (simp add: complete_continuous_input_cycle_def)
next
  case DoCancel
  then show ?thesis using assms by (simp add: cancel_job_def job_cancel_def)
next
  case (DoFinalize staged)
  then show ?thesis using assms by (simp add: finalize_staged_sink_outputs_def concluded_def)
next
  case DoPublished
  then show ?thesis using assms by (simp add: mark_sink_publish_committed_def concluded_def)
next
  case (DoReopen e)
  then show ?thesis using concluded_same [OF assms, of "reopen_launches e j"] by (simp add: reopen_launches_def comp_def)
next
  case (DoProgress e running now)
  then show ?thesis
    using concluded_same [OF assms, of "refresh_progress_for_running_tasks e running now j"]
    by (simp add: refresh_progress_for_running_tasks_def comp_def)
next
  case (DoStreaming now e sid st)
  have "map sg_state (jr_stages (apply_streaming_task_state now e sid st j)) = map sg_state (jr_stages j)"
    by (auto simp: apply_streaming_task_state_def Let_def map_update list_update_same_conv dest!: position_Some split: option.split)
  moreover have "jr_state (apply_streaming_task_state now e sid st j) = jr_state j"
    by (simp add: apply_streaming_task_state_def Let_def split: option.split)
  ultimately show ?thesis using concluded_same [OF assms, of "apply_streaming_task_state now e sid st j"] DoStreaming by simp
next
  case (DoStamp now)
  have "sg_state (stamp_stage now j s) = sg_state s" for s by (simp add: stamp_stage_def)
  then show ?thesis
    using concluded_same [OF assms, of "stamp_pending_tasks now j"] DoStamp by (simp add: stamp_pending_tasks_def comp_def)
next
  case DoReconcile
  then show ?thesis using assms by (simp add: reconcile_latched_job_def job_cancel_def)
qed (use assms in \<open>simp_all add: mark_queued_def mark_admitted_def stall_concluded invalidate_specific_concluded
      reset_stuck_assigned_tasks_def touch_job_concluded apply_speculation_preempt_def normalize_recovered_launch_state_def
      audit_concluded rescue_concluded clear_launch_in_flight_for_job_def clear_launch_in_flight_for_task_def abort_continuous_input_cycle_def mark_sink_publish_failed_def\<close>)

lemma launch_step:
  assumes "job_step fc al nr j (DoLaunch li) = (j', as)"
  shows "\<exists>r. launch_assigned_task_assignments fc nr li j = (j', r) \<and> (r = Inr as \<or> as = [])"
  using assms by (auto split: prod.splits sum.splits)

lemma step_ok:
  assumes "job_ok j" and "job_step fc al nr j x = (j', as)"
  shows "job_ok j' \<and> jr_spec j' = jr_spec j \<and> jr_max_stage_retries j' = jr_max_stage_retries j"
proof -
  have c: "concluded j'" using step_concluded [of j fc al nr x] assms by (simp add: job_ok_def)
  show ?thesis
  proof (cases "\<exists>li. x = DoLaunch li")
    case True
    then obtain li r where "launch_assigned_task_assignments fc nr li j = (j', r)" using launch_step assms(2) by blast
    from launch_job_cases [OF this] stages_ok [of stage_launches "jr_stages j" "jr_stages j'"] stage_launches_ok c assms(1)
    show ?thesis by (simp add: job_ok_def)
  next
    case False
    with job_step_rel [of x "placed x" j fc al nr] assms(2) have "job_rel (placed x) j j'" by simp
    with stages_ok [of "stage_rel (placed x)" "jr_stages j" "jr_stages j'"] stage_rel_ok c assms(1)
    show ?thesis by (simp add: job_ok_def job_rel_def)
  qed
qed

lemma run_ok:
  assumes "job_ok j" and "job_run fc al nr j xs = (j', as)"
  shows "job_ok j' \<and> jr_spec j' = jr_spec j \<and> jr_max_stage_retries j' = jr_max_stage_retries j"
  using assms
proof (induction xs arbitrary: j as)
  case (Cons x xs)
  obtain j1 as1 where s: "job_step fc al nr j x = (j1, as1)" by fastforce
  obtain bs where r: "job_run fc al nr j1 xs = (j', bs)" using Cons.prems(2) s by (auto split: prod.splits)
  from step_ok [OF Cons.prems(1) s] Cons.IH [OF _ r] show ?case by simp
qed simp

text \<open>The parts of well-formedness that do not compare the tasks of a stage with its specification.\<close>

definition stage_shape :: "stage_record \<Rightarrow> bool" where
  "stage_shape s \<longleftrightarrow> list_all task_ok (sg_tasks s) \<and> sg_retry_count s \<le> u32_max"

definition job_shape :: "job_record \<Rightarrow> bool" where
  "job_shape j \<longleftrightarrow> map sg_spec (jr_stages j) = js_stages (jr_spec j) \<and> list_all stage_shape (jr_stages j)"

definition job_tidy :: "job_record \<Rightarrow> bool" where
  "job_tidy j \<longleftrightarrow> list_all settled (jr_stages j) \<and> concluded j"

definition stage_kept :: "stage_record \<Rightarrow> stage_record \<Rightarrow> bool" where
  "stage_kept s s' \<longleftrightarrow> sg_spec s' = sg_spec s \<and> map tr_spec (sg_tasks s') = map tr_spec (sg_tasks s)
     \<and> (stage_shape s \<longrightarrow> stage_shape s') \<and> (settled s \<longrightarrow> settled s')"

lemma stage_rel_kept: "stage_rel E s s' \<Longrightarrow> stage_kept s s'"
proof -
  assume r: "stage_rel E s s'"
  then have q: "list_all2 (quiet E) (sg_tasks s) (sg_tasks s')" by (simp add: stage_rel_def)
  then have "map tr_spec (sg_tasks s') = map tr_spec (sg_tasks s)"
    by (induction rule: list_all2_induct) (auto simp: quiet_def)
  moreover have "list_all task_ok (sg_tasks s) \<Longrightarrow> list_all task_ok (sg_tasks s')"
    using q by (induction rule: list_all2_induct) (auto simp: quiet_def)
  ultimately show ?thesis using r by (auto simp: stage_kept_def stage_rel_def stage_shape_def)
qed

lemma stage_launches_kept: "stage_launches s s' \<Longrightarrow> stage_kept s s'"
proof -
  assume r: "stage_launches s s'"
  then have q: "list_all2 launches (sg_tasks s) (sg_tasks s')" by (simp add: stage_launches_def)
  then have "map tr_spec (sg_tasks s') = map tr_spec (sg_tasks s)"
    by (induction rule: list_all2_induct) (auto simp: launches_def)
  moreover have "list_all task_ok (sg_tasks s) \<Longrightarrow> list_all task_ok (sg_tasks s')"
    using q by (induction rule: list_all2_induct) (auto simp: launches_def)
  ultimately show ?thesis using r by (auto simp: stage_kept_def stage_launches_def stage_shape_def)
qed

lemma step_kept:
  assumes "job_step fc al nr j x = (j', as)"
  shows "jr_spec j' = jr_spec j \<and> jr_max_stage_retries j' = jr_max_stage_retries j \<and> list_all2 stage_kept (jr_stages j) (jr_stages j')"
proof (cases "\<exists>li. x = DoLaunch li")
  case True
  then obtain li r where "launch_assigned_task_assignments fc nr li j = (j', r)" using launch_step assms by blast
  from launch_job_cases [OF this] show ?thesis by (auto intro: list_all2_mono stage_launches_kept)
next
  case False
  with job_step_rel [of x "placed x" j fc al nr] assms have "job_rel (placed x) j j'" by simp
  then show ?thesis by (auto simp: job_rel_def intro: list_all2_mono stage_rel_kept)
qed

lemma kept_shape: "list_all2 stage_kept ss ss' \<Longrightarrow> map sg_spec ss' = map sg_spec ss
    \<and> (list_all stage_shape ss \<longrightarrow> list_all stage_shape ss') \<and> (list_all settled ss \<longrightarrow> list_all settled ss')"
  by (induction rule: list_all2_induct) (auto simp: stage_kept_def)

lemma step_shape:
  assumes "job_step fc al nr j x = (j', as)"
  shows "(job_shape j \<longrightarrow> job_shape j') \<and> (job_tidy j \<longrightarrow> job_tidy j')"
  using step_kept [OF assms] kept_shape [of "jr_stages j" "jr_stages j'"] step_concluded [of j fc al nr x] assms
  by (auto simp: job_shape_def job_tidy_def)

lemma from_spec_ok: "job_ok (job_from_spec spec r)"
proof -
  have "stage_ok (stage_from_spec s)" for s
    by (simp add: stage_ok_def stage_from_spec_def task_from_spec_def task_ok_def settled_def comp_def list_all_iff)
  moreover have "map sg_spec (map stage_from_spec ss) = ss" for ss by (simp add: stage_from_spec_def comp_def)
  ultimately show ?thesis by (auto simp: job_ok_def job_from_spec_def list_all_iff)
qed

section \<open>An attempt is launched at most once\<close>

definition attempt_at :: "((string \<times> string) \<times> nat) list \<Rightarrow> string \<times> string \<Rightarrow> nat" where
  "attempt_at al k = (case map_of al k of None \<Rightarrow> 0 | Some n \<Rightarrow> n)"

definition entry_step :: "(string \<times> string) \<times> nat \<Rightarrow> (string \<times> string) \<times> nat \<Rightarrow> bool" where
  "entry_step x y \<longleftrightarrow> fst y = fst x \<and> (snd y = snd x \<or> snd y = saturating_add_u32 (snd x) 1)"

lemma subseq_subset: "subseq xs ys \<Longrightarrow> set xs \<subseteq> set ys"
  by (induction rule: list_emb.induct) auto

lemma attempt_list_rel:
  assumes "list_all2 R ss ss'"
    and "\<And>s s'. R s s' \<Longrightarrow> list_all2 entry_step (map (attempt_entry (stage_id_of s)) (sg_tasks s)) (map (attempt_entry (stage_id_of s')) (sg_tasks s'))"
  shows "list_all2 entry_step (attempt_list ss) (attempt_list ss')"
  using assms(1) by (induction rule: list_all2_induct) (auto intro: list_all2_appendI assms(2))

lemma launches_entries:
  assumes "stage_launches s s'"
  shows "list_all2 entry_step (map (attempt_entry (stage_id_of s)) (sg_tasks s)) (map (attempt_entry (stage_id_of s')) (sg_tasks s'))"
proof -
  have "list_all2 launches (sg_tasks s) (sg_tasks s')" "sg_spec s' = sg_spec s" using assms by (auto simp: stage_launches_def)
  then show ?thesis
    by (simp add: list_all2_map1 list_all2_map2)
       (erule list_all2_mono, simp add: entry_step_def attempt_entry_def launches_def)
qed

lemma quiet_entries:
  assumes "job_rel E j j'"
  shows "attempt_list (jr_stages j') = attempt_list (jr_stages j)"
proof -
  have "map (attempt_entry (stage_id_of s')) (sg_tasks s') = map (attempt_entry (stage_id_of s)) (sg_tasks s)" if "stage_rel E s s'" for s s'
  proof -
    have "list_all2 (quiet E) (sg_tasks s) (sg_tasks s')" "sg_spec s' = sg_spec s" using that by (auto simp: stage_rel_def)
    then show ?thesis
      by (induction rule: list_all2_induct) (auto simp: quiet_def attempt_entry_def)
  qed
  moreover have "list_all2 (stage_rel E) (jr_stages j) (jr_stages j')" using assms by (simp add: job_rel_def)
  then show ?thesis by (induction rule: list_all2_induct) (auto simp: calculation)
qed

lemma entry_step_map_of:
  "list_all2 entry_step xs ys \<Longrightarrow> (map_of xs k = None \<and> map_of ys k = None)
     \<or> (\<exists>m n. map_of xs k = Some m \<and> map_of ys k = Some n \<and> (n = m \<or> n = saturating_add_u32 m 1))"
  by (induction rule: list_all2_induct) (auto simp: entry_step_def)

lemma entry_step_keys: "list_all2 entry_step xs ys \<Longrightarrow> map fst ys = map fst xs"
  by (induction rule: list_all2_induct) (auto simp: entry_step_def)

lemma step_attempts:
  fixes j
  defines "al \<equiv> attempt_list (jr_stages j)"
  assumes s: "job_step fc leg nr j x = (j', as)" and d: "distinct (map fst al)" and b: "\<forall>k. attempt_at al k < u32_max"
  shows "map fst (attempt_list (jr_stages j')) = map fst al \<and> distinct (map emitted as)
    \<and> (\<forall>k. attempt_at al k \<le> attempt_at (attempt_list (jr_stages j')) k
         \<and> attempt_at (attempt_list (jr_stages j')) k \<le> Suc (attempt_at al k))
    \<and> (\<forall>a \<in> set as. attempt_at al (fst (emitted a)) < snd (emitted a)
         \<and> snd (emitted a) \<le> attempt_at (attempt_list (jr_stages j')) (fst (emitted a)))"
proof (cases "\<exists>li. x = DoLaunch li")
  case False
  then have "as = []" using s by (cases x) auto
  moreover have "job_rel (placed x) j j'" using False job_step_rel [of x "placed x" j fc leg nr] s by simp
  ultimately show ?thesis using quiet_entries by (simp add: al_def)
next
  case True
  let ?bl = "attempt_list (jr_stages j')"
  from True obtain li r where l: "launch_assigned_task_assignments fc nr li j = (j', r)" "r = Inr as \<or> as = []"
    using launch_step s by blast
  note lc = launch_job_cases [OF l(1)]
  have es: "list_all2 entry_step al ?bl"
    unfolding al_def using lc by (intro attempt_list_rel [of stage_launches] launches_entries) auto
  have keys: "map fst ?bl = map fst al" by (rule entry_step_keys [OF es])
  have grow: "attempt_at al k \<le> attempt_at ?bl k \<and> attempt_at ?bl k \<le> Suc (attempt_at al k)" for k
    using entry_step_map_of [OF es, of k] b [rule_format, of k]
    by (auto simp: attempt_at_def saturating_add_u32_Suc simp del: One_nat_def)
  have sub: "subseq (map emitted as) ?bl" using lc l(2) by auto
  have db: "distinct ?bl" using d keys by (metis distinct_map)
  then have dist: "distinct (map emitted as)" using sub subseqs_distinctD [of "map emitted as" ?bl] by simp
  have "attempt_at al (fst (emitted a)) < snd (emitted a) \<and> snd (emitted a) \<le> attempt_at ?bl (fst (emitted a))"
    if a: "a \<in> set as" for a
  proof -
    from a l(2) have r: "r = Inr as" by auto
    have "emitted a \<in> set ?bl" using a subseq_subset [OF sub] by auto
    then have new: "map_of ?bl (fst (emitted a)) = Some (snd (emitted a))"
      using d keys by (metis map_of_eq_Some_iff prod.collapse)
    from lc r a obtain st t where st: "st \<in> set (jr_stages j)" "t \<in> set (sg_tasks st)"
      "emitted a = ((stage_id_of st, task_id_of t), saturating_add_u32 (tr_attempt t) 1)" by blast
    then have "(fst (emitted a), tr_attempt t) \<in> set al"
      by (auto simp: al_def attempt_list_def attempt_entry_def)
    then have old: "map_of al (fst (emitted a)) = Some (tr_attempt t)" using d by simp
    with b [rule_format, of "fst (emitted a)"] have "tr_attempt t < u32_max" by (simp add: attempt_at_def)
    with st(3) old new show ?thesis by (simp add: attempt_at_def saturating_add_u32_Suc del: One_nat_def)
  qed
  with keys dist grow show ?thesis by blast
qed

lemma run_attempts:
  assumes "job_run fc leg nr j xs = (j', as)" and "distinct (map fst (attempt_list (jr_stages j)))"
    and "\<forall>k. attempt_at (attempt_list (jr_stages j)) k + length xs \<le> u32_max"
  shows "distinct (map emitted as)
    \<and> (\<forall>k. attempt_at (attempt_list (jr_stages j)) k \<le> attempt_at (attempt_list (jr_stages j')) k)
    \<and> (\<forall>a \<in> set as. attempt_at (attempt_list (jr_stages j)) (fst (emitted a)) < snd (emitted a)
         \<and> snd (emitted a) \<le> attempt_at (attempt_list (jr_stages j')) (fst (emitted a)))"
  using assms
proof (induction xs arbitrary: j as)
  case Nil
  then show ?case by simp
next
  case (Cons x xs)
  obtain j1 as1 where s: "job_step fc leg nr j x = (j1, as1)" by fastforce
  obtain bs where r: "job_run fc leg nr j1 xs = (j', bs)" and as: "as = as1 @ bs"
    using Cons.prems(1) s by (auto split: prod.splits)
  let ?a0 = "attempt_at (attempt_list (jr_stages j))" and ?a1 = "attempt_at (attempt_list (jr_stages j1))"
    and ?a2 = "attempt_at (attempt_list (jr_stages j'))"
  have "\<forall>k. ?a0 k < u32_max"
  proof
    fix k
    show "?a0 k < u32_max" using Cons.prems(3) [rule_format, of k] by simp
  qed
  note st = step_attempts [OF s Cons.prems(2) this]
  have grow: "?a0 k \<le> ?a1 k" "?a1 k \<le> Suc (?a0 k)" for k using st by blast+
  have "\<forall>k. ?a1 k + length xs \<le> u32_max"
  proof
    fix k
    show "?a1 k + length xs \<le> u32_max" using Cons.prems(3) [rule_format, of k] grow(2) [of k] by simp
  qed
  moreover have "distinct (map fst (attempt_list (jr_stages j1)))" using st Cons.prems(2) by metis
  ultimately have IH: "distinct (map emitted bs)" "\<And>k. ?a1 k \<le> ?a2 k"
    "\<And>a. a \<in> set bs \<Longrightarrow> ?a1 (fst (emitted a)) < snd (emitted a) \<and> snd (emitted a) \<le> ?a2 (fst (emitted a))"
    using Cons.IH [OF r] by blast+
  have one: "?a0 (fst (emitted a)) < snd (emitted a) \<and> snd (emitted a) \<le> ?a1 (fst (emitted a))" if "a \<in> set as1" for a
    using st that by blast
  have "emitted a \<noteq> emitted b" if "a \<in> set as1" "b \<in> set bs" for a b
    using one [OF that(1)] IH(3) [OF that(2)] by (metis not_less)
  then have "emitted ` set as1 \<inter> emitted ` set bs = {}" by blast
  then have d: "distinct (map emitted as)" using st IH(1) by (simp add: as)
  have e: "?a0 (fst (emitted a)) < snd (emitted a) \<and> snd (emitted a) \<le> ?a2 (fst (emitted a))" if "a \<in> set as" for a
  proof (cases "a \<in> set as1")
    case True
    then show ?thesis using one [OF True] IH(2) [of "fst (emitted a)"] by simp
  next
    case False
    then have "a \<in> set bs" using that as by simp
    then show ?thesis using IH(3) [of a] grow(1) [of "fst (emitted a)"] by (meson le_less_trans)
  qed
  have "?a0 k \<le> ?a2 k" for k using grow(1) [of k] IH(2) [of k] by simp
  with d e show ?case by blast
qed

lemma from_spec_entries:
  "attempt_list (jr_stages (job_from_spec spec r)) =
     concat (map (\<lambda>s. map (\<lambda>t. ((ss_stage_id s, ts_task_id t), 0)) (ss_tasks s)) (js_stages spec))"
  by (simp add: attempt_list_def job_from_spec_def stage_from_spec_def attempt_entry_def task_from_spec_def comp_def)

lemma validated_ids:
  assumes "validate_job chk spec = Some (Inr ())"
  shows "distinct (concat (map (\<lambda>s. map ts_task_id (ss_tasks s)) (js_stages spec))) \<and> distinct (map ss_stage_id (js_stages spec))"
  using assms by (auto simp: validate_job_def first_duplicate_None split: if_splits option.splits)

lemma fresh_entries:
  assumes "validate_job chk spec = Some (Inr ())"
  shows "distinct (map fst (attempt_list (jr_stages (job_from_spec spec r))))"
proof -
  have "map snd (map fst (attempt_list (jr_stages (job_from_spec spec r))))
      = concat (map (\<lambda>s. map ts_task_id (ss_tasks s)) (js_stages spec))"
    by (simp add: from_spec_entries map_concat comp_def)
  with validated_ids [OF assms] show ?thesis by (metis distinct_map)
qed

text \<open>
  C5. Attempt fencing. For a validated job, over any sequence of fewer than \<open>2 ^ 32\<close> operations
  of \<open>job_op\<close> (launches, reports, retries, executor losses, resets, preemptions; neither stage rewrites
  nor a rebuild of the record from the store), no two
  launched assignments carry the same stage, task and attempt, and every launched attempt is at
  most the attempt the record ends with, so an older attempt can never match the record again.
\<close>

theorem attempt_launched_once:
  assumes "validate_job chk spec = Some (Inr ())" and "length xs \<le> u32_max"
    and "job_run fc al nr (job_from_spec spec retries) xs = (j, as)"
  shows "distinct (map (\<lambda>a. (ea_stage_id a, ea_task_id a, ea_attempt_id a)) as)
    \<and> (\<forall>a \<in> set as. 0 < ea_attempt_id a
         \<and> (\<exists>s \<in> set (jr_stages j). \<exists>t \<in> set (sg_tasks s). stage_id_of s = ea_stage_id a
              \<and> task_id_of t = ea_task_id a \<and> ea_attempt_id a \<le> tr_attempt t))"
proof -
  let ?j0 = "job_from_spec spec retries"
  have zero: "attempt_at (attempt_list (jr_stages ?j0)) k = 0" for k
    by (auto simp: attempt_at_def from_spec_entries split: option.split dest!: map_of_SomeD)
  have "\<forall>k. attempt_at (attempt_list (jr_stages ?j0)) k + length xs \<le> u32_max"
    unfolding zero using assms(2) by simp
  note ra = run_attempts [OF assms(3) fresh_entries [OF assms(1)] this]
  have "map (\<lambda>a. (ea_stage_id a, ea_task_id a, ea_attempt_id a)) as = map (\<lambda>((s, t), n). (s, t, n)) (map emitted as)"
    by (simp add: emitted_def comp_def)
  moreover have "inj_on (\<lambda>((s, t), n). (s, t, n)) (set (map emitted as))" by (auto simp: inj_on_def split: prod.splits)
  with ra have "distinct (map (\<lambda>((s, t), n). (s, t, n)) (map emitted as))" unfolding distinct_map by blast
  ultimately have d: "distinct (map (\<lambda>a. (ea_stage_id a, ea_task_id a, ea_attempt_id a)) as)" by (simp only:)
  have "0 < ea_attempt_id a \<and> (\<exists>s \<in> set (jr_stages j). \<exists>t \<in> set (sg_tasks s). stage_id_of s = ea_stage_id a
              \<and> task_id_of t = ea_task_id a \<and> ea_attempt_id a \<le> tr_attempt t)" if "a \<in> set as" for a
  proof -
    from ra that have "0 < snd (emitted a)" and le: "snd (emitted a) \<le> attempt_at (attempt_list (jr_stages j)) (fst (emitted a))"
      unfolding zero by blast+
    then obtain n where "map_of (attempt_list (jr_stages j)) (fst (emitted a)) = Some n" "snd (emitted a) \<le> n"
      by (auto simp: attempt_at_def split: option.splits)
    then have "(fst (emitted a), n) \<in> set (attempt_list (jr_stages j))" by (simp add: map_of_SomeD)
    then obtain s t where "s \<in> set (jr_stages j)" "t \<in> set (sg_tasks s)" "(fst (emitted a), n) = attempt_entry (stage_id_of s) t"
      by (auto simp: attempt_list_def)
    with \<open>0 < snd (emitted a)\<close> \<open>snd (emitted a) \<le> n\<close> show ?thesis by (auto simp: emitted_def attempt_entry_def)
  qed
  with d show ?thesis by blast
qed

section \<open>A concrete job\<close>

text \<open>A map stage with one task and a reduce stage that waits for it, on one executor.\<close>

definition demo_codec :: frag_codec where
  "demo_codec = \<lparr>fc_fragment = (\<lambda>_. None), fc_node_op = (\<lambda>_. None)\<rparr>"

definition demo_job_spec :: job_spec where
  "demo_job_spec = with_stage (with_stage (job_spec_new ''q'' ''query'' BatchJob)
     (with_task (stage_spec_new ''map'' ''map'') (task_spec_new ''m0'' ''scan'')))
     (with_upstream_stage (with_task (stage_spec_new ''red'' ''red'') (task_spec_new ''r0'' ''agg'')) ''map'')"

definition demo_inputs :: "nat launch_inputs" where
  "demo_inputs = \<lparr>li_executor_leases = [(''e1'', 7)], li_batch_sql_tables = None, li_inline_partitions = None,
     li_task_inline_partitions = None, li_skew_partition_override = None\<rparr>"

definition demo_report :: "string \<Rightarrow> string \<Rightarrow> task_state \<Rightarrow> nat \<Rightarrow> task_status_update" where
  "demo_report sid tid st attempt =
     \<lparr>tu_job_id = ''q'', tu_stage_id = sid, tu_task_id = tid, tu_executor_id = ''e1'', tu_lease_generation = 7,
      tu_state = st, tu_attempt = attempt, tu_message = None, tu_output_metadata = None,
      tu_missing_shuffle_partitions = []\<rparr>"

definition demo_start :: "nat job_op list" where
  "demo_start = [DoAssign 10 [\<lparr>ta_task_id = ''m0'', ta_executor_id = ''e1''\<rparr>], DoLaunch demo_inputs,
     DoUpdate 20 (demo_report ''map'' ''m0'' TaskRunning 1), DoUpdate 30 (demo_report ''map'' ''m0'' TaskSucceeded 1),
     DoAssign 40 [\<lparr>ta_task_id = ''r0'', ta_executor_id = ''e1''\<rparr>]]"

lemma demo_valid: "validate_job (\<lambda>_. Inr ()) demo_job_spec = Some (Inr ())"
  by (simp add: validate_job_def demo_job_spec_def with_stage_def with_task_def with_upstream_stage_def job_spec_new_def
      stage_spec_new_def task_spec_new_def kahn_processed_def kahn_in_degree_def unknown_upstream_def validate_fields_def
      kahn_loop_Nil kahn_loop_Cons upt_rec)

lemmas demo_defs = demo_job_spec_def demo_inputs_def demo_report_def demo_start_def demo_codec_def with_stage_def with_task_def
  with_upstream_stage_def job_spec_new_def stage_spec_new_def task_spec_new_def job_from_spec_def stage_from_spec_def
  task_from_spec_def apply_assignments_def assign_stage_def assign_task_def places_pending_def Let_def

lemmas demo_launch_defs = launch_assigned_task_assignments_def launch_stage_def launch_task_def shuffle_location_inputs_def
  task_shuffle_locations_def decode_or_legacy_def fragment_decode_def starts_with_def strip_prefix_def
  attempt_try_new_def launch_input_partitions_def is_dfplan_body_def strip_leading_python_udf_directives_def
  trim_start.simps strip_udf_loop.simps udf_directive_def saturating_add_u32_def ws_head_def

lemmas demo_update_defs = coordinator_task_update_def job_apply_task_update_def stage_apply_task_update_def
  apply_status_update_def stamp_update_def stage_refresh_state_def stage_state_of_def job_refresh_state_def job_state_of_def
  record_availability_def account_task_failure_def effective_attempts_def policy_of_def

lemma demo_ready:
  "map (\<lambda>s. (sg_state s, map (\<lambda>t. (tr_state t, tr_attempt t, tr_assigned_executor t, tr_launch_in_flight t)) (sg_tasks s)))
     (jr_stages (fst (job_run demo_codec True id (job_from_spec demo_job_spec 0) demo_start)))
   = [(StageSucceeded, [(TaskSucceeded, 1, Some ''e1'', False)]), (StageScheduling, [(TaskAssigned, 0, Some ''e1'', False)])]"
  by (simp add: demo_defs demo_launch_defs demo_update_defs)

lemma demo_launched:
  "map emitted (snd (job_run demo_codec True id (job_from_spec demo_job_spec 0) (demo_start @ [DoLaunch demo_inputs])))
   = [((''map'', ''m0''), 1), ((''red'', ''r0''), 1)]"
  by (simp add: demo_defs demo_launch_defs demo_update_defs)

theorem attempt_launched_once_witness:
  "\<exists>j as. job_run demo_codec True id (job_from_spec demo_job_spec 0) (demo_start @ [DoLaunch demo_inputs]) = (j, as)
     \<and> length as = 2 \<and> distinct (map (\<lambda>a. (ea_stage_id a, ea_task_id a, ea_attempt_id a)) as)"
proof -
  obtain j as where r: "job_run demo_codec True id (job_from_spec demo_job_spec 0) (demo_start @ [DoLaunch demo_inputs]) = (j, as)"
    by fastforce
  have "length as = 2" using demo_launched r by (metis length_Cons length_map list.size(3) numeral_2_eq_2 snd_conv)
  moreover have "length (demo_start @ [DoLaunch demo_inputs]) \<le> u32_max" by (simp add: demo_start_def)
  ultimately show ?thesis using attempt_launched_once [OF demo_valid _ r] r by blast
qed

section \<open>Stages launch in dependency order\<close>



end
