(* ===== verification/AssignRound.thy ===== *)
theory AssignRound
  imports Placement FairPools JobSafety
begin

text \<open>
  One assignment round of the coordinator (\<open>krishiv-scheduler/src/coordinator/task_assignment.rs\<close> and
  the pool round of \<open>executor_ops.rs\<close>): pending tasks of ready stages are placed on the eligible
  executors, job by job within the quota of the job's pool. The state holds the coordinator's fields
  these methods use; reading the clock is the argument \<open>now_ms\<close>, and the later readings of
  \<open>apply_assignments\<close> are \<open>applied_ms\<close>. Of the write of
  the job record to the store only the outcome is modelled, as a schedule in the state; metrics are
  left out. Proved: a call assigns only pending tasks of ready stages outside their backoff, only to
  eligible executors, never more than asked for, and otherwise changes no task; a pool round assigns
  no more tasks than there are free slots unless a store write fails, and at most that many again for
  each failed write; a call without a cap fills the free slots once for each ready stage.
\<close>

section \<open>State\<close>

record assign_state =
  ac_coordinator_id :: string
  ac_state :: proto_coordinator_state
  ac_jobs :: "(string, job_record) amap"
  ac_executors :: executor_registry
  ac_scheduler_pools :: "(string, pool_spec) amap"
  ac_namespace_pools :: "(string, string) amap"
  ac_locality_wait_ms :: nat
  ac_breaker_threshold :: nat
  ac_breaker_cooldown_ms :: nat
  ac_pending_backlog_jobs :: "string list"
  ac_launch_dirty_jobs :: "string list"
  ac_store_faults :: "scheduler_error option list"

definition ensure_active :: "assign_state \<Rightarrow> scheduler_error + unit" where
  "ensure_active c = (if ac_state c = CoordActive then Inr () else Inl (InactiveCoordinator (ac_coordinator_id c) (ac_state c)))"

definition find_job :: "assign_state \<Rightarrow> string \<Rightarrow> scheduler_error + job_record" where
  "find_job c job_id = (case map_of (ac_jobs c) job_id of Some j \<Rightarrow> Inr j | None \<Rightarrow> Inl (UnknownJob job_id))"

definition pool_for_namespace :: "assign_state \<Rightarrow> string option \<Rightarrow> string" where
  "pool_for_namespace c namespace =
     (let ns = (case namespace of Some n \<Rightarrow> n | None \<Rightarrow> []) in
      case map_of (ac_namespace_pools c) ns of Some p \<Rightarrow> p | None \<Rightarrow> ns)"

definition coordinator_circuit_broken :: "assign_state \<Rightarrow> nat \<Rightarrow> string list" where
  "coordinator_circuit_broken c now_ms =
     circuit_broken_executors (ac_executors c) (ac_breaker_threshold c) now_ms (ac_breaker_cooldown_ms c)"

text \<open>
  The next write to the store succeeds or fails as the schedule says; it succeeds when the schedule is
  empty, as without a store or when the write is not waited for.
\<close>

definition persist_job_record :: "assign_state \<Rightarrow> assign_state \<times> (scheduler_error + unit)" where
  "persist_job_record c =
     (case ac_store_faults c of
        [] \<Rightarrow> (c, Inr ())
      | fault # faults \<Rightarrow>
          (c\<lparr>ac_store_faults := faults\<rparr>, case fault of Some err \<Rightarrow> Inl err | None \<Rightarrow> Inr ()))"

section \<open>Load\<close>

definition inflight_executors :: "job_record \<Rightarrow> string list" where
  "inflight_executors j =
     (if job_is_terminal (jr_state j) then []
      else List.map_filter (\<lambda>t. if tr_state t = TaskAssigned \<or> tr_state t = TaskRunning then tr_assigned_executor t else None)
             (job_tasks j))"

definition inflight_tasks_by_executor :: "assign_state \<Rightarrow> (string, nat) amap" where
  "inflight_tasks_by_executor c =
     foldl (\<lambda>m eid. amap_alter 0 eid Suc m) [] (concat (map (\<lambda>(_, j). inflight_executors j) (ac_jobs c)))"

definition overlay_inflight :: "(string, nat) amap \<Rightarrow> executor_placement \<Rightarrow> executor_placement" where
  "overlay_inflight inflight p =
     (case map_of inflight (ep_executor_id p) of Some n \<Rightarrow> raise_active_tasks_to n p | None \<Rightarrow> p)"

section \<open>Assigning the pending tasks of a job\<close>

definition stage_work :: "nat \<Rightarrow> (string, string) amap \<Rightarrow> job_record \<Rightarrow> stage_record \<Rightarrow> (string \<times> locality_preference) list" where
  "stage_work now_ms preferred_nodes j s =
     (if upstream_ready j s then
        map (\<lambda>t. (task_id_of t, \<lparr>lp_node_id = map_of preferred_nodes (stage_id_of s), lp_rack_id = None,
                                 lp_pending_since_ms = tr_pending_since_ms (stamp_pending now_ms t)\<rparr>))
          (filter (considered now_ms) (sg_tasks s))
      else [])"

definition assign_candidates :: "assign_state \<Rightarrow> nat \<Rightarrow> (string, nat) amap \<Rightarrow> string option \<Rightarrow> executor_placement list" where
  "assign_candidates c now_ms inflight pinned =
     map (overlay_inflight inflight)
       (filter (\<lambda>p. case pinned of Some pin \<Rightarrow> ep_executor_id p = pin | None \<Rightarrow> True)
         (schedulable_executor_placements_excluding (ac_executors c) (coordinator_circuit_broken c now_ms)))"

text \<open>
  The loop over the stages' work. The candidates are read again for every stage, from the unchanged
  registry and the in-flight counts taken before the loop, so they are the same list each time.
\<close>

fun assign_stages :: "nat \<Rightarrow> nat \<Rightarrow> nat \<Rightarrow> executor_placement list \<Rightarrow> nat \<Rightarrow> (string \<times> locality_preference) list list \<Rightarrow>
    job_record \<Rightarrow> nat \<Rightarrow> job_record \<times> (scheduler_error + nat)" where
  "assign_stages now_ms applied_ms wait_ms executors budget [] j assigned = (j, Inr assigned)"
| "assign_stages now_ms applied_ms wait_ms executors budget (work # works) j assigned =
     (if work = [] \<or> assigned \<ge> budget \<or> executors = [] then
        assign_stages now_ms applied_ms wait_ms executors budget works j assigned
      else
        (let taken = take (min (length work) (budget - assigned)) work in
         case place_tiered (map fst taken) executors (map snd taken) now_ms wait_ms of
           Inl err \<Rightarrow> (j, Inl err)
         | Inr out \<Rightarrow>
             if lo_assignments out = [] then
               assign_stages now_ms applied_ms wait_ms executors budget works j assigned
             else
               assign_stages now_ms applied_ms wait_ms executors budget works
                 (apply_assignments applied_ms j (lo_assignments out)) (assigned + length (lo_assignments out))))"

definition assign_pending_tasks_capped :: "nat \<Rightarrow> nat \<Rightarrow> assign_state \<Rightarrow> string \<Rightarrow> nat option \<Rightarrow>
    assign_state \<times> (scheduler_error + nat)" where
  "assign_pending_tasks_capped now_ms applied_ms c job_id max_tasks =
     (case ensure_active c of
        Inl err \<Rightarrow> (c, Inl err)
      | Inr _ \<Rightarrow>
          if schedulable_executor_placements (ac_executors c) = [] then (c, Inl NoExecutors)
          else
            (case find_job c job_id of
               Inl err \<Rightarrow> (c, Inl err)
             | Inr j \<Rightarrow>
                 if jr_state j = JobQueued then (c, Inr 0)
                 else
                   (let preferred = preferred_nodes_by_stage j (executor_hosts (ac_executors c));
                        works = map (stage_work now_ms preferred j) (jr_stages j);
                        j1 = j\<lparr>jr_stages := map (stamp_stage now_ms j) (jr_stages j)\<rparr>;
                        executors = assign_candidates c now_ms (inflight_tasks_by_executor c) (js_pinned_executor (jr_spec j));
                        budget = (case max_tasks of Some n \<Rightarrow> n | None \<Rightarrow> u64_max);
                        eligible = sum_list (map length works)
                    in case assign_stages now_ms applied_ms (ac_locality_wait_ms c) executors budget works j1 0 of
                         (j2, Inl err) \<Rightarrow> (c\<lparr>ac_jobs := amap_insert job_id j2 (ac_jobs c)\<rparr>, Inl err)
                       | (j2, Inr n) \<Rightarrow>
                           (let c1 = c\<lparr>ac_jobs := amap_insert job_id j2 (ac_jobs c),
                                  ac_pending_backlog_jobs :=
                                    (if n < eligible then List.insert job_id (ac_pending_backlog_jobs c)
                                     else removeAll job_id (ac_pending_backlog_jobs c))\<rparr>
                            in if n > 0 then
                                 (case persist_job_record (c1\<lparr>ac_launch_dirty_jobs := List.insert job_id (ac_launch_dirty_jobs c1)\<rparr>) of
                                    (c2, Inl err) \<Rightarrow> (c2, Inl err)
                                  | (c2, Inr _) \<Rightarrow> (c2, Inr n))
                               else (c1, Inr n)))))"

definition assign_pending_tasks :: "nat \<Rightarrow> nat \<Rightarrow> assign_state \<Rightarrow> string \<Rightarrow> assign_state \<times> (scheduler_error + nat)" where
  "assign_pending_tasks now_ms applied_ms c job_id = assign_pending_tasks_capped now_ms applied_ms c job_id None"

fun drain_backlog_jobs :: "nat \<Rightarrow> nat \<Rightarrow> string list \<Rightarrow> assign_state \<Rightarrow> assign_state" where
  "drain_backlog_jobs now_ms applied_ms [] c = c"
| "drain_backlog_jobs now_ms applied_ms (job_id # jobs) c =
     (case assign_pending_tasks now_ms applied_ms c job_id of
        (c', Inl (UnknownJob _)) \<Rightarrow>
          drain_backlog_jobs now_ms applied_ms jobs (c'\<lparr>ac_pending_backlog_jobs := removeAll job_id (ac_pending_backlog_jobs c')\<rparr>)
      | (c', _) \<Rightarrow> drain_backlog_jobs now_ms applied_ms jobs c')"

definition drain_pending_backlog :: "nat \<Rightarrow> nat \<Rightarrow> assign_state \<Rightarrow> assign_state" where
  "drain_pending_backlog now_ms applied_ms c = drain_backlog_jobs now_ms applied_ms (ac_pending_backlog_jobs c) c"

section \<open>The pool round\<close>

record job_demand =
  jd_job_id :: string
  jd_priority :: nat
  jd_pool :: string
  jd_pending :: nat

definition job_demand_of :: "assign_state \<Rightarrow> nat \<Rightarrow> string \<times> job_record \<Rightarrow> job_demand option" where
  "job_demand_of c now_ms x = (case x of (job_id, j) \<Rightarrow>
     if job_is_terminal (jr_state j) \<or> jr_state j = JobQueued then None
     else Some \<lparr>jd_job_id = job_id, jd_priority = js_priority (jr_spec j),
                jd_pool = pool_for_namespace c (js_namespace_id (jr_spec j)),
                jd_pending = length (filter (considered now_ms) (job_tasks j))\<rparr>)"

definition job_demands :: "assign_state \<Rightarrow> nat \<Rightarrow> job_demand list" where
  "job_demands c now_ms = filter (\<lambda>d. jd_pending d > 0) (List.map_filter (job_demand_of c now_ms) (ac_jobs c))"

definition pool_demand :: "job_demand list \<Rightarrow> (string, nat) amap" where
  "pool_demand jobs = foldl (\<lambda>m d. bt_insert (jd_pool d) (usize_add (quota_of m (jd_pool d)) (jd_pending d)) m) [] jobs"

definition round_free_slots :: "assign_state \<Rightarrow> nat \<Rightarrow> nat" where
  "round_free_slots c now_ms =
     sum_list (map (free_slots \<circ> overlay_inflight (inflight_tasks_by_executor c))
       (schedulable_executor_placements_excluding (ac_executors c) (coordinator_circuit_broken c now_ms))) mod two64"

text \<open>Descending priority, then job id: the sort by priority is stable.\<close>

definition sort_demands :: "job_demand list \<Rightarrow> job_demand list" where
  "sort_demands jobs = sort_key (\<lambda>d. - int (jd_priority d)) (sort_key jd_job_id jobs)"

text \<open>The counts of tasks the calls assigned are returned for each job, in order.\<close>

fun draw_quotas :: "nat \<Rightarrow> nat \<Rightarrow> job_demand list \<Rightarrow> (string, nat) amap \<Rightarrow> assign_state \<Rightarrow> assign_state \<times> (string \<times> nat) list" where
  "draw_quotas now_ms applied_ms [] remaining c = (c, [])"
| "draw_quotas now_ms applied_ms (d # jobs) remaining c =
     (if quota_of remaining (jd_pool d) = 0 then draw_quotas now_ms applied_ms jobs remaining c
      else
        (case assign_pending_tasks_capped now_ms applied_ms c (jd_job_id d) (Some (quota_of remaining (jd_pool d))) of
           (c', Inl _) \<Rightarrow> draw_quotas now_ms applied_ms jobs remaining c'
         | (c', Inr n) \<Rightarrow>
             (case draw_quotas now_ms applied_ms jobs
                     (bt_insert (jd_pool d) (quota_of remaining (jd_pool d) - n) remaining) c' of
                (c'', counts) \<Rightarrow> (c'', (jd_job_id d, n) # counts))))"

definition pool_assignment_round :: "nat \<Rightarrow> nat \<Rightarrow> assign_state \<Rightarrow> assign_state \<times> (string \<times> nat) list" where
  "pool_assignment_round now_ms applied_ms c =
     (let jobs = job_demands c now_ms in
      if jobs = [] then (c, [])
      else draw_quotas now_ms applied_ms (sort_demands jobs)
             (compute_pool_quotas (round_free_slots c now_ms) (pool_demand jobs) (ac_scheduler_pools c)) c)"

section \<open>What a call changes\<close>

definition eligible_executor :: "assign_state \<Rightarrow> nat \<Rightarrow> job_record \<Rightarrow> string \<Rightarrow> bool" where
  "eligible_executor c now_ms j k \<longleftrightarrow>
     (\<exists>(_, e) \<in> set (xr_executors (ac_executors c)). is_schedulable (ac_executors c) e \<and> er_id e = k)
     \<and> k \<notin> set (coordinator_circuit_broken c now_ms)
     \<and> (case js_pinned_executor (jr_spec j) of Some pin \<Rightarrow> k = pin | None \<Rightarrow> True)"

text \<open>The tasks a call may place: pending, out of their backoff, in a stage whose upstream stages have succeeded.\<close>

definition placeable :: "nat \<Rightarrow> job_record \<Rightarrow> string set" where
  "placeable now_ms j = {task_id_of t | t s. s \<in> set (jr_stages j) \<and> t \<in> set (sg_tasks s)
     \<and> (\<forall>up \<in> set (ss_upstream_stage_ids (sg_spec s)). \<exists>u \<in> set (jr_stages j). stage_id_of u = up \<and> sg_state u = StageSucceeded)
     \<and> tr_state t = TaskPending \<and> (\<forall>until_ms. tr_retry_backoff_until_ms t = Some until_ms \<longrightarrow> until_ms \<le> now_ms)}"

text \<open>A task keeps everything but the start of its wait, or it is handed to an executor of E.\<close>

definition assign_effect :: "string set \<Rightarrow> (string \<Rightarrow> bool) \<Rightarrow> task_record \<Rightarrow> task_record \<Rightarrow> bool" where
  "assign_effect ids E t t' \<longleftrightarrow> t' = t\<lparr>tr_pending_since_ms := tr_pending_since_ms t'\<rparr>
     \<or> task_id_of t \<in> ids \<and> tr_spec t' = tr_spec t \<and> tr_state t' = TaskAssigned
       \<and> (\<exists>e. E e \<and> tr_assigned_executor t' = Some e)"

lemma assign_effect_spec: "assign_effect ids E t t' \<Longrightarrow> tr_spec t' = tr_spec t"
  unfolding assign_effect_def by (metis task_record.select_convs(1) task_record.surjective task_record.update_convs(16))

lemma effects_ids: "list_all2 (assign_effect ids E) ts ts' \<Longrightarrow> map task_id_of ts' = map task_id_of ts"
  by (induction rule: list_all2_induct) (simp_all add: assign_effect_spec)

lemma job_tasks_apply: "jr_state j \<noteq> JobQueued \<Longrightarrow> job_tasks (apply_assignments now j as) = map (assign_task now as) (job_tasks j)"
proof -
  have "sg_tasks (assign_stage now as s) = map (assign_task now as) (sg_tasks s)" for s
    by (simp add: assign_stage_def Let_def)
  then show "jr_state j \<noteq> JobQueued \<Longrightarrow> ?thesis" by (simp add: apply_assignments_def map_concat comp_def)
qed

lemma find_assignment: "List.find (\<lambda>a. ta_task_id a = k) as = None \<longleftrightarrow> k \<notin> ta_task_id ` set as"
  by (auto simp: find_None_iff)

lemma length_filter_subset:
  assumes "distinct xs" and "distinct ys" and "set ys \<subseteq> set xs"
  shows "length (filter (\<lambda>x. x \<in> set ys) xs) = length ys"
proof -
  have "set (filter (\<lambda>x. x \<in> set ys) xs) = set ys" using assms(3) by auto
  then show ?thesis using assms(1,2) by (metis distinct_card distinct_filter)
qed

lemma assigned_count:
  assumes "distinct (map task_id_of ts)" and "distinct (map ta_task_id as)" and "ta_task_id ` set as \<subseteq> task_id_of ` set ts"
    and "\<forall>t \<in> set ts. task_id_of t \<in> ta_task_id ` set as \<longrightarrow> tr_state t = TaskPending"
  shows "length (filter (\<lambda>t. tr_state t = TaskAssigned) (map (assign_task now as) ts)) =
    length (filter (\<lambda>t. tr_state t = TaskAssigned) ts) + length as"
proof -
  let ?hit = "\<lambda>t. task_id_of t \<in> ta_task_id ` set as"
  have new: "tr_state (assign_task now as t) = (if ?hit t then TaskAssigned else tr_state t)" for t
    using find_assignment [of "task_id_of t" as] by (auto simp: assign_task_def split: option.split)
  have "length (filter (\<lambda>t. tr_state t = TaskAssigned) (map (assign_task now as) ts)) =
      length (filter (\<lambda>t. tr_state t = TaskAssigned) ts) + length (filter ?hit ts)"
    using assms(4) by (induction ts) (auto simp: new)
  also have "length (filter ?hit ts) = length (filter (\<lambda>x. x \<in> set (map ta_task_id as)) (map task_id_of ts))"
    by (simp add: filter_map comp_def)
  also have "\<dots> = length as" using length_filter_subset [OF assms(1,2)] assms(3) by simp
  finally show ?thesis .
qed

section \<open>The loop over the stages\<close>

definition round_inv :: "nat \<Rightarrow> job_record \<Rightarrow> (string \<Rightarrow> bool) \<Rightarrow> string set \<Rightarrow> nat \<Rightarrow> job_record \<Rightarrow> bool" where
  "round_inv now_ms j E todo n j' \<longleftrightarrow> jr_state j' \<noteq> JobQueued \<and> todo \<subseteq> placeable now_ms j
     \<and> list_all2 (assign_effect (placeable now_ms j) E) (job_tasks j) (job_tasks j')
     \<and> (\<forall>t \<in> set (job_tasks j'). task_id_of t \<in> todo \<longrightarrow> tr_state t = TaskPending)
     \<and> count_state TaskAssigned j' = count_state TaskAssigned j + n"

lemma round_inv_less: "round_inv now_ms j E todo n j' \<Longrightarrow> todo' \<subseteq> todo \<Longrightarrow> round_inv now_ms j E todo' n j'"
  unfolding round_inv_def by blast

lemma placeable_ids: "placeable now_ms j \<subseteq> task_id_of ` set (job_tasks j)"
  by (auto simp: placeable_def)

lemma round_inv_apply:
  assumes inv: "round_inv now_ms j E todo n j'" and ids: "distinct (map task_id_of (job_tasks j))"
    and as: "distinct (map ta_task_id as)" "ta_task_id ` set as \<subseteq> todo" "\<forall>a \<in> set as. E (ta_executor_id a)"
    and rest: "todo' \<subseteq> todo" "todo' \<inter> ta_task_id ` set as = {}"
  shows "round_inv now_ms j E todo' (n + length as) (apply_assignments applied_ms j' as)"
proof -
  let ?P = "placeable now_ms j"
  have q: "jr_state j' \<noteq> JobQueued" and P: "todo \<subseteq> ?P"
    and eff: "list_all2 (assign_effect ?P E) (job_tasks j) (job_tasks j')"
    and pend: "\<forall>t \<in> set (job_tasks j'). task_id_of t \<in> todo \<longrightarrow> tr_state t = TaskPending"
    and cnt: "count_state TaskAssigned j' = count_state TaskAssigned j + n"
    using inv by (simp_all add: round_inv_def)
  note tasks = job_tasks_apply [OF q, of applied_ms as]
  have same_ids: "map task_id_of (job_tasks j') = map task_id_of (job_tasks j)" by (rule effects_ids [OF eff])
  have "assign_effect ?P E t (assign_task applied_ms as t')" if e: "assign_effect ?P E t t'" for t t'
  proof (cases "List.find (\<lambda>a. ta_task_id a = task_id_of t') as")
    case (Some a)
    then have "a \<in> set as" "ta_task_id a = task_id_of t'" by (auto simp: find_Some_iff)
    moreover note spec = assign_effect_spec [OF e]
    moreover from calculation have "task_id_of t \<in> ?P" using as(2) P by force
    ultimately show ?thesis using as(3) Some by (auto simp: assign_effect_def assign_task_def)
  qed (use e in \<open>simp add: assign_task_def\<close>)
  then have "list_all2 (assign_effect ?P E) (job_tasks j) (map (assign_task applied_ms as) (job_tasks j'))"
    using eff unfolding list_all2_map2 by (rule list_all2_mono [rotated])
  moreover have "tr_state (assign_task applied_ms as t) = TaskPending" if "t \<in> set (job_tasks j')" "task_id_of t \<in> todo'" for t
    using that rest pend find_assignment [of "task_id_of t" as] by (auto simp: assign_task_def split: option.split)
  moreover have "task_id_of (assign_task applied_ms as t) = task_id_of t" for t
    by (simp add: assign_task_def split: option.split)
  moreover have "count_state TaskAssigned (apply_assignments applied_ms j' as) = count_state TaskAssigned j' + length as"
    unfolding count_state_def tasks
  proof (rule assigned_count)
    show "distinct (map task_id_of (job_tasks j'))" using ids same_ids by simp
    show "ta_task_id ` set as \<subseteq> task_id_of ` set (job_tasks j')"
      using as(2) P placeable_ids [of now_ms j] arg_cong [OF same_ids, of set] by (auto simp only: set_map)
    show "\<forall>t \<in> set (job_tasks j'). task_id_of t \<in> ta_task_id ` set as \<longrightarrow> tr_state t = TaskPending" using pend as(2) by blast
  qed (rule as(1))
  ultimately show ?thesis using cnt q P rest(1) unfolding round_inv_def tasks by (auto simp: apply_assignments_def)
qed

lemma assign_stages_ok:
  assumes "assign_stages now_ms applied_ms wait_ms executors budget works j' n = (j'', res)"
    and "round_inv now_ms j E (fst ` set (concat works)) n j'" and "distinct (map task_id_of (job_tasks j))"
    and "distinct (map fst (concat works))" and "\<forall>p \<in> set executors. E (ep_executor_id p)" and "n \<le> budget"
  shows "\<exists>m. round_inv now_ms j E {} m j'' \<and> m \<le> budget \<and> res = Inr m"
  using assms
proof (induction works arbitrary: j' n)
  case Nil
  then show ?case by auto
next
  case (Cons work works)
  have skip: ?case if "assign_stages now_ms applied_ms wait_ms executors budget works j' n = (j'', res)"
    using Cons.IH [OF that round_inv_less [OF Cons.prems(2)]] Cons.prems(3-) by auto
  show ?case
  proof (cases "work = [] \<or> n \<ge> budget \<or> executors = []")
    case True
    with skip Cons.prems(1) show ?thesis by simp
  next
    case False
    define taken where "taken = take (min (length work) (budget - n)) work"
    obtain out where out: "place_tiered (map fst taken) executors (map snd taken) now_ms wait_ms = Inr out"
      using False by (simp add: place_tiered_def)
    let ?as = "lo_assignments out"
    have tiered: "tiered_assignments (map snd taken, now_ms, wait_ms) (map fst taken) executors = Inr ?as"
      by (simp add: tiered_assignments_def out)
    have "fst ` set taken \<subseteq> fst ` set work" unfolding taken_def by (intro image_mono set_take_subset)
    with tiered.placed_known [OF tiered] have known: "ta_task_id ` set ?as \<subseteq> fst ` set work" by (simp only: set_map)
    have once: "distinct (map ta_task_id ?as)"
      using tiered.placed_once [OF tiered] Cons.prems(4) by (simp add: taken_def take_map [symmetric])
    have within: "length ?as \<le> budget - n"
      using list_emb_length [OF tiered.in_order [OF tiered]] by (simp add: taken_def)
    have on: "\<forall>a \<in> set ?as. E (ta_executor_id a)" using tiered.placed_on_free [OF tiered] Cons.prems(5) by metis
    show ?thesis
    proof (cases "?as = []")
      case True
      with skip Cons.prems(1) False out show ?thesis by (simp add: Let_def taken_def)
    next
      case some: False
      have run: "assign_stages now_ms applied_ms wait_ms executors budget works (apply_assignments applied_ms j' ?as)
          (n + length ?as) = (j'', res)"
        using Cons.prems(1) False out some by (simp add: Let_def taken_def)
      have "fst ` set (concat works) \<inter> fst ` set work = {}" using Cons.prems(4) by auto
      with known have "fst ` set (concat works) \<inter> ta_task_id ` set ?as = {}" by blast
      note disj = this
      have sub: "ta_task_id ` set ?as \<subseteq> fst ` set (concat (work # works))" "fst ` set (concat works) \<subseteq> fst ` set (concat (work # works))"
        using known by auto
      have "round_inv now_ms j E (fst ` set (concat works)) (n + length ?as) (apply_assignments applied_ms j' ?as)"
        by (rule round_inv_apply [OF Cons.prems(2,3) once sub(1) on sub(2) disj])
      from Cons.IH [OF run this Cons.prems(3)] Cons.prems(4,5) within False show ?thesis by auto
    qed
  qed
qed

lemma stage_work_ids: "map fst (stage_work now_ms pref j s) = (if upstream_ready j s then map task_id_of (filter (considered now_ms) (sg_tasks s)) else [])"
  by (simp add: stage_work_def comp_def)

lemma stage_works_distinct:
  assumes "distinct (map task_id_of (concat (map sg_tasks ss)))"
  shows "distinct (map fst (concat (map (stage_work now_ms pref j) ss)))
    \<and> set (map fst (concat (map (stage_work now_ms pref j) ss))) \<subseteq> set (map task_id_of (concat (map sg_tasks ss)))"
  using assms
proof (induction ss)
  case (Cons s ss)
  let ?w = "map fst (stage_work now_ms pref j s)"
  have d: "distinct (map task_id_of (sg_tasks s))" "set (map task_id_of (sg_tasks s)) \<inter> set (map task_id_of (concat (map sg_tasks ss))) = {}"
    using Cons.prems by simp_all
  have w: "distinct ?w" "set ?w \<subseteq> set (map task_id_of (sg_tasks s))"
    using d(1) unfolding stage_work_ids by (simp_all add: distinct_map_filter) auto
  have "distinct (map task_id_of (concat (map sg_tasks ss)))" using Cons.prems by simp
  note ih = Cons.IH [OF this]
  have "set ?w \<inter> set (map fst (concat (map (stage_work now_ms pref j) ss))) = {}" using w(2) ih d(2) by blast
  with w(1) ih have "distinct (?w @ map fst (concat (map (stage_work now_ms pref j) ss)))" by (simp only: distinct_append)
  moreover have "set (?w @ map fst (concat (map (stage_work now_ms pref j) ss)))
      \<subseteq> set (map task_id_of (sg_tasks s) @ map task_id_of (concat (map sg_tasks ss)))"
    using w(2) ih unfolding set_append by blast
  ultimately show ?case by (simp only: list.map concat.simps map_append)
qed simp

lemma stamp_pending_effect: "assign_effect ids E t (stamp_pending now_ms t)"
  by (simp add: assign_effect_def stamp_pending_def)

lemma stamp_stage_effect: "list_all2 (assign_effect ids E) (sg_tasks s) (sg_tasks (stamp_stage now_ms j s))"
proof -
  have "assign_effect ids E t t" for t by (simp add: assign_effect_def)
  then show ?thesis
    by (simp add: stamp_stage_def list_all2_map2 list_all2_same stamp_pending_effect)
qed

lemma stamped_tasks:
  "map (\<lambda>t. (task_id_of t, tr_state t)) (concat (map sg_tasks (map (stamp_stage now_ms j) ss))) =
   map (\<lambda>t. (task_id_of t, tr_state t)) (concat (map sg_tasks ss))"
proof -
  have "task_id_of (stamp_pending now_ms t) = task_id_of t" "tr_state (stamp_pending now_ms t) = tr_state t" for t
    by (simp_all add: stamp_pending_def)
  then have "map (\<lambda>t. (task_id_of t, tr_state t)) (sg_tasks (stamp_stage now_ms j s)) = map (\<lambda>t. (task_id_of t, tr_state t)) (sg_tasks s)" for s
    by (simp add: stamp_stage_def)
  then show ?thesis by (induction ss) simp_all
qed

lemma works_placeable:
  assumes "k \<in> fst ` set (concat (map (stage_work now_ms pref j) (jr_stages j)))"
  shows "k \<in> placeable now_ms j \<and> (k, TaskPending) \<in> set (map (\<lambda>t. (task_id_of t, tr_state t)) (job_tasks j))"
proof -
  from assms obtain s t where s: "s \<in> set (jr_stages j)" "upstream_ready j s" "t \<in> set (sg_tasks s)" "considered now_ms t"
    and k: "k = task_id_of t"
    by (auto simp: stage_work_def split: if_splits)
  from s(2) have "\<forall>up \<in> set (ss_upstream_stage_ids (sg_spec s)). \<exists>u \<in> set (jr_stages j). stage_id_of u = up \<and> sg_state u = StageSucceeded"
    by (auto simp: upstream_ready_def list_all_iff)
  moreover from s(4) have t: "tr_state t = TaskPending" "\<forall>until_ms. tr_retry_backoff_until_ms t = Some until_ms \<longrightarrow> until_ms \<le> now_ms"
    by (auto simp: considered_def)
  ultimately have "k \<in> placeable now_ms j" unfolding placeable_def using s(1,3) k by blast
  with s(1,3) k t(1) show ?thesis by force
qed

lemma stamp_start:
  assumes "jr_state j \<noteq> JobQueued" and "distinct (map task_id_of (job_tasks j))"
  shows "round_inv now_ms j E (fst ` set (concat (map (stage_work now_ms pref j) (jr_stages j)))) 0
    (j\<lparr>jr_stages := map (stamp_stage now_ms j) (jr_stages j)\<rparr>)"
proof -
  let ?j = "j\<lparr>jr_stages := map (stamp_stage now_ms j) (jr_stages j)\<rparr>"
  let ?g = "\<lambda>t. (task_id_of t, tr_state t)"
  let ?todo = "fst ` set (concat (map (stage_work now_ms pref j) (jr_stages j)))"
  have states: "map ?g (job_tasks ?j) = map ?g (job_tasks j)" using stamped_tasks [of now_ms j "jr_stages j"] by simp
  show ?thesis unfolding round_inv_def
  proof (intro conjI ballI impI)
    have "list_all2 (assign_effect (placeable now_ms j) E) (concat (map sg_tasks ss)) (concat (map sg_tasks (map (stamp_stage now_ms j) ss)))" for ss
      by (induction ss) (simp_all add: list_all2_appendI stamp_stage_effect)
    then show "list_all2 (assign_effect (placeable now_ms j) E) (job_tasks j) (job_tasks ?j)" by simp
    show "?todo \<subseteq> placeable now_ms j" using works_placeable by blast
    have "length (filter (\<lambda>t. tr_state t = TaskAssigned) ts) = length (filter (\<lambda>x. snd x = TaskAssigned) (map ?g ts))" for ts
      by (simp add: filter_map comp_def)
    note len = this
    show "count_state TaskAssigned ?j = count_state TaskAssigned j + 0"
      unfolding count_state_def len [of "job_tasks ?j"] len [of "job_tasks j"] states by simp
    show "jr_state ?j \<noteq> JobQueued" using assms(1) by simp
  next
    fix t assume t: "t \<in> set (job_tasks ?j)" "task_id_of t \<in> ?todo"
    from t(1) have "?g t \<in> ?g ` set (job_tasks ?j)" by (rule imageI)
    then have here: "(task_id_of t, tr_state t) \<in> set (map ?g (job_tasks j))" unfolding set_map [symmetric] states .
    have "distinct (map fst (map ?g (job_tasks j)))" using assms(2) by (simp add: comp_def)
    from eq_key_imp_eq_value [OF this here conjunct2 [OF works_placeable [OF t(2)]]] show "tr_state t = TaskPending" .
  qed
qed

lemma candidates_eligible:
  "p \<in> set (assign_candidates c now_ms inflight (js_pinned_executor (jr_spec j))) \<Longrightarrow> eligible_executor c now_ms j (ep_executor_id p)"
proof -
  assume "p \<in> set (assign_candidates c now_ms inflight (js_pinned_executor (jr_spec j)))"
  then obtain p0 where p0: "p0 \<in> set (schedulable_executor_placements_excluding (ac_executors c) (coordinator_circuit_broken c now_ms))"
    "p = overlay_inflight inflight p0" "case js_pinned_executor (jr_spec j) of Some pin \<Rightarrow> ep_executor_id p0 = pin | None \<Rightarrow> True"
    by (auto simp: assign_candidates_def)
  have "ep_executor_id p = ep_executor_id p0"
    by (simp add: p0(2) overlay_inflight_def raise_active_tasks_to_def split: option.split)
  moreover from p0(1) obtain k e where e: "(k, e) \<in> set (xr_executors (ac_executors c))" "is_schedulable (ac_executors c) e"
    "er_id e \<notin> set (coordinator_circuit_broken c now_ms)" "p0 = placement_of e"
    unfolding placements_eligible by blast
  moreover have "ep_executor_id p0 = er_id e" by (simp add: e(4) placement_of_def)
  ultimately show ?thesis using p0(3) unfolding eligible_executor_def
    by (intro conjI bexI [of _ "(k, e)"]) (simp_all split: option.splits)
qed

lemma assign_stages_total: "\<exists>j' m. assign_stages now_ms applied_ms wait_ms executors budget works j n = (j', Inr m)"
  by (induction works arbitrary: j n) (auto simp: place_tiered_def Let_def)

definition store_failures :: "assign_state \<Rightarrow> nat" where
  "store_failures c = length (filter (\<lambda>f. f \<noteq> None) (ac_store_faults c))"

abbreviation call_slots :: "assign_state \<Rightarrow> nat \<Rightarrow> job_record \<Rightarrow> executor_placement list" where
  "call_slots c now_ms j \<equiv> assign_candidates c now_ms (inflight_tasks_by_executor c) (js_pinned_executor (jr_spec j))"

abbreviation call_work :: "assign_state \<Rightarrow> nat \<Rightarrow> job_record \<Rightarrow> (string \<times> locality_preference) list list" where
  "call_work c now_ms j \<equiv> map (stage_work now_ms (preferred_nodes_by_stage j (executor_hosts (ac_executors c))) j) (jr_stages j)"

text \<open>
  A call on a known, active job always runs the loop; when the write that follows it fails, the tasks
  stay assigned and the error is returned instead of their number.
\<close>

lemma capped_run:
  assumes "assign_pending_tasks_capped now_ms applied_ms c job_id max_tasks = (c', res)" and "map_of (ac_jobs c) job_id = Some j"
    and "jr_state j \<noteq> JobQueued" and "ac_state c = CoordActive" and "schedulable_executor_placements (ac_executors c) \<noteq> []"
  obtains j' n where "assign_stages now_ms applied_ms (ac_locality_wait_ms c) (call_slots c now_ms j)
      (case max_tasks of Some m \<Rightarrow> m | None \<Rightarrow> u64_max) (call_work c now_ms j)
      (j\<lparr>jr_stages := map (stamp_stage now_ms j) (jr_stages j)\<rparr>) 0 = (j', Inr n)"
    and "ac_jobs c' = amap_insert job_id j' (ac_jobs c)"
    and "res = Inr n \<and> store_failures c' \<le> store_failures c \<or> (\<exists>err. res = Inl err) \<and> store_failures c' < store_failures c"
proof -
  obtain j' n where run: "assign_stages now_ms applied_ms (ac_locality_wait_ms c) (call_slots c now_ms j)
      (case max_tasks of Some m \<Rightarrow> m | None \<Rightarrow> u64_max) (call_work c now_ms j)
      (j\<lparr>jr_stages := map (stamp_stage now_ms j) (jr_stages j)\<rparr>) 0 = (j', Inr n)"
    using assign_stages_total by blast
  have "ac_jobs c' = amap_insert job_id j' (ac_jobs c)
      \<and> (res = Inr n \<and> store_failures c' \<le> store_failures c \<or> (\<exists>err. res = Inl err) \<and> store_failures c' < store_failures c)"
    using assms run
    by (cases "ac_store_faults c") (auto simp: assign_pending_tasks_capped_def ensure_active_def find_job_def Let_def
        persist_job_record_def store_failures_def split: if_splits option.splits)
  with run that show ?thesis by blast
qed

lemma capped_refused:
  assumes "assign_pending_tasks_capped now_ms applied_ms c job_id max_tasks = (c', res)"
    and "map_of (ac_jobs c) job_id = None \<or> ac_state c \<noteq> CoordActive \<or> schedulable_executor_placements (ac_executors c) = []"
  shows "c' = c \<and> (\<exists>err. res = Inl err)"
  using assms by (auto simp: assign_pending_tasks_capped_def ensure_active_def find_job_def split: if_splits)

text \<open>The effect of a call, whatever it returns: the number of tasks it assigns is the number returned if it returns one.\<close>

lemma capped_effect:
  assumes job: "map_of (ac_jobs c) job_id = Some j" and ids: "distinct (map task_id_of (job_tasks j))"
    and call: "assign_pending_tasks_capped now_ms applied_ms c job_id max_tasks = (c', res)"
  shows "\<exists>j' n. ac_jobs c' = amap_insert job_id j' (ac_jobs c)
    \<and> list_all2 (assign_effect (placeable now_ms j) (eligible_executor c now_ms j)) (job_tasks j) (job_tasks j')
    \<and> count_state TaskAssigned j' = count_state TaskAssigned j + n
    \<and> (case max_tasks of Some m \<Rightarrow> n \<le> m | None \<Rightarrow> True)
    \<and> (res = Inr n \<and> store_failures c' \<le> store_failures c
       \<or> (\<exists>err. res = Inl err) \<and> (c' = c \<and> n = 0 \<or> store_failures c' < store_failures c))"
proof (cases "ac_state c = CoordActive \<and> schedulable_executor_placements (ac_executors c) \<noteq> [] \<and> jr_state j \<noteq> JobQueued")
  case False
  have "amap_insert k v m = m" if "map_of m k = Some v" for k and v :: job_record and m
    using that by (induction m) auto
  note same = this [OF job]
  from False job call have "c' = c \<and> (res = Inr 0 \<or> (\<exists>err. res = Inl err))"
    by (auto simp: assign_pending_tasks_capped_def ensure_active_def find_job_def split: if_splits)
  then show ?thesis using same [symmetric]
    by (intro exI [of _ j] exI [of _ 0]) (auto simp: list_all2_same assign_effect_def split: option.split)
next
  case True
  then have q: "jr_state j \<noteq> JobQueued" by simp
  obtain j' n where run: "assign_stages now_ms applied_ms (ac_locality_wait_ms c) (call_slots c now_ms j)
      (case max_tasks of Some m \<Rightarrow> m | None \<Rightarrow> u64_max) (call_work c now_ms j)
      (j\<lparr>jr_stages := map (stamp_stage now_ms j) (jr_stages j)\<rparr>) 0 = (j', Inr n)"
    and jobs: "ac_jobs c' = amap_insert job_id j' (ac_jobs c)"
    and res: "res = Inr n \<and> store_failures c' \<le> store_failures c \<or> (\<exists>err. res = Inl err) \<and> store_failures c' < store_failures c"
    using True by (auto intro: capped_run [OF call job])
  have "\<forall>p \<in> set (call_slots c now_ms j). eligible_executor c now_ms j (ep_executor_id p)" using candidates_eligible by blast
  from assign_stages_ok [OF run stamp_start [OF q ids] ids conjunct1 [OF stage_works_distinct [OF ids]] this]
  have "round_inv now_ms j (eligible_executor c now_ms j) {} n j'" "n \<le> (case max_tasks of Some m \<Rightarrow> m | None \<Rightarrow> u64_max)" by auto
  with jobs res show ?thesis unfolding round_inv_def
    by (intro exI [of _ j'] exI [of _ n]) (auto split: option.splits)
qed

text \<open>
  C7. What an assignment call does. For a job whose task ids are distinct, a successful call changes no
  other job. Of this job's tasks each one either keeps everything but the start of its locality wait,
  or was pending, outside its backoff and in a stage whose upstream stages have all succeeded, and is
  now assigned to an executor that is schedulable, not circuit-broken and the pinned one if the job
  has a pin. The number returned is the number of tasks assigned, at most the cap.
\<close>

theorem assign_call_effect:
  assumes "map_of (ac_jobs c) job_id = Some j" and "distinct (map task_id_of (job_tasks j))"
    and "assign_pending_tasks_capped now_ms applied_ms c job_id max_tasks = (c', Inr n)"
  shows "\<exists>j'. map_of (ac_jobs c') job_id = Some j' \<and> (\<forall>k. k \<noteq> job_id \<longrightarrow> map_of (ac_jobs c') k = map_of (ac_jobs c) k)
    \<and> list_all2 (assign_effect (placeable now_ms j) (eligible_executor c now_ms j)) (job_tasks j) (job_tasks j')
    \<and> count_state TaskAssigned j' = count_state TaskAssigned j + n
    \<and> (case max_tasks of Some m \<Rightarrow> n \<le> m | None \<Rightarrow> True)"
proof -
  from capped_effect [OF assms] obtain j' where "ac_jobs c' = amap_insert job_id j' (ac_jobs c)"
    "list_all2 (assign_effect (placeable now_ms j) (eligible_executor c now_ms j)) (job_tasks j) (job_tasks j')"
    "count_state TaskAssigned j' = count_state TaskAssigned j + n" "case max_tasks of Some m \<Rightarrow> n \<le> m | None \<Rightarrow> True" by auto
  then show ?thesis by (intro exI [of _ j']) simp
qed

section \<open>The pool round\<close>

text \<open>The assigned tasks of all jobs.\<close>

definition assigned_total :: "assign_state \<Rightarrow> nat" where
  "assigned_total c = sum_list (map (\<lambda>(_, j). count_state TaskAssigned j) (ac_jobs c))"

definition jobs_ok :: "assign_state \<Rightarrow> bool" where
  "jobs_ok c \<longleftrightarrow> amap_wf (ac_jobs c) \<and> (\<forall>(_, j) \<in> set (ac_jobs c). distinct (map task_id_of (job_tasks j)))"

lemma sum_amap_insert:
  "map_of m k = Some v \<Longrightarrow> sum_list (map (\<lambda>(_, x). f x) (amap_insert k v' m)) + f v = sum_list (map (\<lambda>(_, x). f x) m) + (f v' :: nat)"
  by (induction m) (auto split: if_splits)

lemma capped_total:
  assumes "assign_pending_tasks_capped now_ms applied_ms c job_id (Some q) = (c', res)" and "jobs_ok c"
  shows "jobs_ok c' \<and> (\<exists>n. assigned_total c' = assigned_total c + n \<and> n \<le> q
    \<and> (res = Inr n \<and> store_failures c' \<le> store_failures c
       \<or> (\<exists>err. res = Inl err) \<and> (c' = c \<and> n = 0 \<or> store_failures c' < store_failures c)))"
proof (cases "map_of (ac_jobs c) job_id")
  case None
  with capped_refused [OF assms(1)] assms(2) show ?thesis by auto
next
  case (Some j)
  then have ids: "distinct (map task_id_of (job_tasks j))" using assms(2) map_of_SomeD by (fastforce simp: jobs_ok_def)
  from capped_effect [OF Some ids assms(1)] obtain j' n where
    jobs: "ac_jobs c' = amap_insert job_id j' (ac_jobs c)"
    and eff: "list_all2 (assign_effect (placeable now_ms j) (eligible_executor c now_ms j)) (job_tasks j) (job_tasks j')"
    and cnt: "count_state TaskAssigned j' = count_state TaskAssigned j + n" and q: "n \<le> q"
    and res: "res = Inr n \<and> store_failures c' \<le> store_failures c
       \<or> (\<exists>err. res = Inl err) \<and> (c' = c \<and> n = 0 \<or> store_failures c' < store_failures c)" by auto
  have "distinct (map task_id_of (job_tasks j'))" using ids effects_ids [OF eff] by simp
  with assms(2) jobs have "jobs_ok c'" by (auto simp: jobs_ok_def set_amap_insert)
  moreover have "assigned_total c' = assigned_total c + n"
    using sum_amap_insert [OF Some, of "count_state TaskAssigned" j'] cnt jobs by (simp add: assigned_total_def)
  ultimately show ?thesis using q res by blast
qed

lemma sum_quota_insert:
  assumes "bt_wf q" and "distinct ps" and "p \<in> set ps" and "n \<le> quota_of q p"
  shows "n + sum_list (map (quota_of (bt_insert p (quota_of q p - n) q)) ps) = sum_list (map (quota_of q) ps)"
proof -
  let ?q = "bt_insert p (quota_of q p - n) q"
  have "map (quota_of q) ps = map (\<lambda>x. quota_of ?q x + (if x = p then n else 0)) ps"
    using assms(1,4) by (auto simp: quota_of_def)
  moreover have "sum_list (map (\<lambda>x. if x = p then n else 0) ps) = n"
    using assms(2,3) by (simp add: sum_list_distinct_conv_sum_set)
  ultimately show ?thesis by (simp only: sum_list_addf)
qed

text \<open>A call that ends with a failed write leaves the quota of its pool as it was.\<close>

lemma draw_quotas_le:
  assumes "draw_quotas now_ms applied_ms jobs q c = (c', counts)" and "bt_wf q" and "distinct ps" and "jd_pool ` set jobs \<subseteq> set ps"
    and "jobs_ok c" and "sum_list (map (quota_of q) ps) \<le> free"
  shows "assigned_total c' \<le> assigned_total c + sum_list (map (quota_of q) ps) + free * store_failures c"
  using assms(1,2,4-)
proof (induction jobs arbitrary: q c c' counts)
  case (Cons d jobs)
  let ?q = "quota_of q (jd_pool d)" and ?S = "\<lambda>q. sum_list (map (quota_of q) ps)"
  have p: "jd_pool d \<in> set ps" "jd_pool ` set jobs \<subseteq> set ps" using Cons.prems(3) by simp_all
  show ?case
  proof (cases "?q = 0")
    case True
    with Cons show ?thesis by simp
  next
    case False
    obtain c1 res where call: "assign_pending_tasks_capped now_ms applied_ms c (jd_job_id d) (Some ?q) = (c1, res)" by fastforce
    from capped_total [OF call Cons.prems(4)] obtain n where ok: "jobs_ok c1" and n: "assigned_total c1 = assigned_total c + n" "n \<le> ?q"
      and r: "res = Inr n \<and> store_failures c1 \<le> store_failures c
        \<or> (\<exists>err. res = Inl err) \<and> (c1 = c \<and> n = 0 \<or> store_failures c1 < store_failures c)" by blast
    show ?thesis
    proof (cases res)
      case (Inl err)
      have run: "draw_quotas now_ms applied_ms jobs q c1 = (c', counts)" using Cons.prems(1) call Inl False by simp
      have IH: "assigned_total c' \<le> assigned_total c1 + ?S q + free * store_failures c1"
        by (rule Cons.IH [OF run Cons.prems(2) p(2) ok Cons.prems(5)])
      have "?q \<le> ?S q" using p(1) by (intro member_le_sum_list) auto
      with n(2) Cons.prems(5) have "n \<le> free" by linarith
      moreover have "free * Suc (store_failures c1) \<le> free * store_failures c" if "store_failures c1 < store_failures c"
        using that by (intro mult_le_mono2) simp
      ultimately show ?thesis using IH n(1) r Inl by auto
    next
      case (Inr m)
      then have m: "m = n" "store_failures c1 \<le> store_failures c" using r by auto
      obtain c2 rest where rest: "draw_quotas now_ms applied_ms jobs (bt_insert (jd_pool d) (?q - n) q) c1 = (c2, rest)" by fastforce
      have c2: "c' = c2" using Cons.prems(1) call Inr m rest False by simp
      note sum = sum_quota_insert [OF Cons.prems(2) assms(3) p(1) n(2)]
      have "?S (bt_insert (jd_pool d) (?q - n) q) \<le> free" using sum Cons.prems(5) by linarith
      from Cons.IH [OF rest bt_wf_insert [OF Cons.prems(2)] p(2) ok this]
      have "assigned_total c' \<le> assigned_total c1 + ?S (bt_insert (jd_pool d) (?q - n) q) + free * store_failures c1" unfolding c2 .
      moreover have "free * store_failures c1 \<le> free * store_failures c" using m(2) by simp
      ultimately show ?thesis using sum n(1) by linarith
    qed
  qed
qed simp

lemma pool_demand_ok: "bt_wf (pool_demand jobs) \<and> list_all (\<lambda>(_, want). want \<le> u64_max) (pool_demand jobs)
    \<and> fst ` set (pool_demand jobs) = jd_pool ` set jobs"
proof (induction jobs rule: rev_induct)
  case (snoc d jobs)
  have v: "set (bt_insert k v m) \<subseteq> insert (k, v) (set m)" for k :: string and v :: nat and m
    by (induction k v m rule: bt_insert.induct) auto
  let ?m = "pool_demand jobs"
  let ?n = "usize_add (quota_of ?m (jd_pool d)) (jd_pending d)"
  have step: "pool_demand (jobs @ [d]) = bt_insert (jd_pool d) ?n ?m" by (simp add: pool_demand_def)
  have "?n \<le> u64_max" by (simp add: usize_add_def)
  moreover have "\<forall>x \<in> set ?m. snd x \<le> u64_max" using snoc by (auto simp: list_all_iff)
  ultimately have "\<forall>x \<in> set (bt_insert (jd_pool d) ?n ?m). snd x \<le> u64_max" using v [of "jd_pool d" ?n ?m] by auto
  then show ?case using snoc unfolding step by (auto simp: list_all_iff)
qed (simp add: pool_demand_def)

text \<open>
  C11. A pool round stays within the free slots. Count the assigned tasks of all jobs, whose task ids
  are distinct. If the free slots times the sum of the pool weights fit in 64 bits, a round in which
  no store write fails adds at most as many as there are free slots on the eligible executors. A
  failed write leaves its tasks assigned but the quota of their pool unspent: each one can add the
  free slots once more.
\<close>

theorem pool_round_within_free:
  assumes "pool_assignment_round now_ms applied_ms c = (c', counts)" and "jobs_ok c"
    and "round_free_slots c now_ms * all_weights (ac_scheduler_pools c) (pool_demand (job_demands c now_ms)) \<le> u64_max"
  shows "assigned_total c' \<le> assigned_total c + round_free_slots c now_ms * Suc (store_failures c)"
proof (cases "job_demands c now_ms = []")
  case True
  with assms(1) show ?thesis by (simp add: pool_assignment_round_def Let_def)
next
  case False
  let ?jobs = "job_demands c now_ms"
  let ?d = "pool_demand ?jobs"
  let ?q = "compute_pool_quotas (round_free_slots c now_ms) ?d (ac_scheduler_pools c)"
  note d = pool_demand_ok [of ?jobs]
  have run: "draw_quotas now_ms applied_ms (sort_demands ?jobs) ?q c = (c', counts)"
    using assms(1) False by (simp add: pool_assignment_round_def Let_def)
  have pools: "jd_pool ` set (sort_demands ?jobs) \<subseteq> set (amap_keys ?d)" using d by (simp add: sort_demands_def)
  have q: "bt_wf ?q \<and> quota_sum ?d ?q \<le> round_free_slots c now_ms"
  proof (cases "round_free_slots c now_ms = 0")
    case True
    then have "?q = []" by (simp add: compute_pool_quotas_def)
    moreover have "quota_sum ?d [] = 0" by (simp add: quota_of_def comp_def)
    ultimately show ?thesis by (simp only: bt_wf_Nil le0 simp_thms)
  next
    case pos: False
    then have "0 < round_free_slots c now_ms" by simp
    from compute_pool_quotas_inv [OF conjunct1 [OF d] conjunct1 [OF conjunct2 [OF d]] this assms(3)] show ?thesis .
  qed
  have "assigned_total c' \<le> assigned_total c + quota_sum ?d ?q + round_free_slots c now_ms * store_failures c"
    using q d by (intro draw_quotas_le [OF run _ _ pools assms(2)]) (simp_all add: bt_wf_distinct)
  with q show ?thesis by simp
qed

section \<open>Two ready stages\<close>

definition demo_two_stages :: job_spec where
  "demo_two_stages = with_stage (with_stage (job_spec_new ''q'' ''query'' BatchJob)
       (with_task (stage_spec_new ''s1'' ''left'') (task_spec_new ''t1'' ''scan'')))
     (with_task (stage_spec_new ''s2'' ''right'') (task_spec_new ''t2'' ''scan''))"

text \<open>One executor with one slot, and a job with two stages that read no other stage.\<close>

definition demo_coordinator :: assign_state where
  "demo_coordinator =
     \<lparr>ac_coordinator_id = ''c'', ac_state = CoordActive, ac_jobs = [(''q'', job_from_spec demo_two_stages 0)],
      ac_executors = \<lparr>xr_executors = [(''e1'', executor_record_new (demo_descriptor\<lparr>ed_slots := 1\<rparr>) 0 1)],
        xr_current_tick = 0, xr_heartbeat_timeout_ticks = 3, xr_memory_threshold_bytes = None\<rparr>,
      ac_scheduler_pools = [], ac_namespace_pools = [], ac_locality_wait_ms = 0, ac_breaker_threshold = 3,
      ac_breaker_cooldown_ms = 60000, ac_pending_backlog_jobs = [], ac_launch_dirty_jobs = [], ac_store_faults = []\<rparr>"

lemmas demo_state_defs = demo_coordinator_def demo_two_stages_def with_stage_def with_task_def job_spec_new_def stage_spec_new_def
  task_spec_new_def job_from_spec_def stage_from_spec_def task_from_spec_def executor_record_new_def demo_descriptor_def

lemma demo_candidate:
  "schedulable_executor_placements_excluding (ac_executors demo_coordinator) (coordinator_circuit_broken demo_coordinator 10) =
     [\<lparr>ep_executor_id = ''e1'', ep_slots = 1, ep_active_tasks = 0, ep_node_id = Some ''h1'', ep_rack_id = None\<rparr>]"
  "schedulable_executor_placements (ac_executors demo_coordinator) \<noteq> []"
  by (simp_all add: demo_state_defs schedulable_executor_placements_excluding_def schedulable_executor_placements_def
      coordinator_circuit_broken_def circuit_broken_executors_def breaker_open_def is_schedulable_def placement_of_def)

lemma demo_inflight: "inflight_tasks_by_executor demo_coordinator = []"
  by (simp add: demo_state_defs inflight_tasks_by_executor_def inflight_executors_def List.map_filter_def)

lemma demo_calls:
  "snd (assign_pending_tasks_capped 10 11 demo_coordinator ''q'' (Some 1)) = Inr 1"
  unfolding assign_pending_tasks_capped_def assign_candidates_def demo_candidate(1) demo_inflight
  by (simp_all add: demo_candidate(2) ensure_active_def find_job_def)
    (simp_all add: demo_state_defs Let_def stage_work_def upstream_ready_def
      considered_def stamp_pending_def stamp_stage_def overlay_inflight_def place_tiered_def choose_tier_def best_slot_def any_slot_def
      tagged_index_def has_preference_def take_slot_def free_slots_def locality_outcome_default_def
      preferred_nodes_by_stage_def persist_job_record_def)

lemma demo_free: "round_free_slots demo_coordinator 10 = 1"
  unfolding round_free_slots_def demo_candidate(1) demo_inflight by (simp add: overlay_inflight_def free_slots_def)

theorem assign_call_effect_witness:
  "\<exists>j'. count_state TaskAssigned j' = 1
    \<and> list_all2 (assign_effect (placeable 10 (job_from_spec demo_two_stages 0))
        (eligible_executor demo_coordinator 10 (job_from_spec demo_two_stages 0)))
      (job_tasks (job_from_spec demo_two_stages 0)) (job_tasks j')"
proof -
  let ?j = "job_from_spec demo_two_stages 0"
  obtain c' where call: "assign_pending_tasks_capped 10 11 demo_coordinator ''q'' (Some 1) = (c', Inr 1)"
    using demo_calls by (metis prod.collapse)
  have job: "map_of (ac_jobs demo_coordinator) ''q'' = Some ?j" by (simp add: demo_coordinator_def)
  have ids: "distinct (map task_id_of (job_tasks ?j))" by (simp add: demo_state_defs)
  have "count_state TaskAssigned ?j = 0" by (simp add: count_state_def demo_state_defs)
  with assign_call_effect [OF job ids call] show ?thesis by auto
qed

text \<open>Without a wait and with room in the cap, every stage of the loop fills the free slots anew.\<close>

lemma assign_stages_fills:
  assumes "assign_stages now_ms applied_ms 0 executors budget works j n = (j', Inr m)" and "n + sum_list (map length works) \<le> budget"
  shows "m = n + sum_list (map (\<lambda>work. min (length work) (sum_list (map free_slots executors))) works)"
  using assms
proof (induction works arbitrary: j n)
  case (Cons work works)
  let ?F = "sum_list (map free_slots executors)"
  show ?case
  proof (cases "work = [] \<or> n \<ge> budget \<or> executors = []")
    case True
    moreover have "length work = 0" if "n \<ge> budget"
      using that Cons.prems(2) unfolding list.map sum_list.Cons by linarith
    ultimately have "min (length work) ?F = 0" by auto
    moreover have "assign_stages now_ms applied_ms 0 executors budget works j n = (j', Inr m)" using Cons.prems(1) True by simp
    moreover have "n + sum_list (map length works) \<le> budget" using Cons.prems(2) by simp
    ultimately show ?thesis using Cons.IH by simp
  next
    case False
    have all: "take (min (length work) (budget - n)) work = work" using Cons.prems(2) by simp
    obtain out where out: "place_tiered (map fst work) executors (map snd work) now_ms 0 = Inr out"
      using False by (simp add: place_tiered_def)
    have len: "length (lo_assignments out) = min (length work) ?F" using place_tiered_work_conserving [OF out] by simp
    have "\<exists>k. assign_stages now_ms applied_ms 0 executors budget works k (n + length (lo_assignments out)) = (j', Inr m)"
      using Cons.prems(1) False out unfolding assign_stages.simps all Let_def by (auto split: if_splits)
    moreover have "n + length (lo_assignments out) + sum_list (map length works) \<le> budget" using Cons.prems(2) len by simp
    ultimately show ?thesis using Cons.IH len by fastforce
  qed
qed simp



text \<open>
  Two executors with one slot each and two jobs of two ready stages in one pool, with a store that
  refuses the first write. The first job's tasks both go to one executor and the quota is not spent; the
  second job's tasks both go to the other one: four tasks on two slots, which is the bound.
\<close>

definition demo_faulty :: assign_state where
  "demo_faulty = demo_coordinator\<lparr>
     ac_jobs := [(''a'', job_from_spec demo_two_stages 0), (''b'', job_from_spec demo_two_stages 0)],
     ac_executors := (ac_executors demo_coordinator)\<lparr>xr_executors :=
       [(''e1'', executor_record_new (demo_descriptor\<lparr>ed_slots := 1\<rparr>) 0 1),
        (''e2'', executor_record_new (demo_descriptor\<lparr>ed_executor_id := ''e2'', ed_slots := 1\<rparr>) 0 1)]\<rparr>,
     ac_store_faults := [Some (StoreError ''write failed'')]\<rparr>"

definition demo_overbooked :: "string \<Rightarrow> job_record" where
  "demo_overbooked e =
     (let j = job_from_spec demo_two_stages 0 in
      apply_assignments 11 (apply_assignments 11 (j\<lparr>jr_stages := map (stamp_stage 10 j) (jr_stages j)\<rparr>)
        [\<lparr>ta_task_id = ''t1'', ta_executor_id = e\<rparr>]) [\<lparr>ta_task_id = ''t2'', ta_executor_id = e\<rparr>])"

lemma demo_overbooked_load:
  "inflight_executors (demo_overbooked e) = [e, e]" "count_state TaskAssigned (demo_overbooked e) = 2"
  by (simp_all add: demo_overbooked_def demo_state_defs Let_def stamp_stage_def upstream_ready_def stamp_pending_def considered_def
      apply_assignments_def assign_stage_def assign_task_def inflight_executors_def List.map_filter_def count_state_def
      job_refresh_state_def job_state_of_def stage_refresh_state_def stage_state_of_def)

lemma demo_faulty_placements:
  "schedulable_executor_placements_excluding (ac_executors demo_faulty) (coordinator_circuit_broken demo_faulty 10) =
     [\<lparr>ep_executor_id = ''e1'', ep_slots = 1, ep_active_tasks = 0, ep_node_id = Some ''h1'', ep_rack_id = None\<rparr>,
      \<lparr>ep_executor_id = ''e2'', ep_slots = 1, ep_active_tasks = 0, ep_node_id = Some ''h1'', ep_rack_id = None\<rparr>]"
  "schedulable_executor_placements (ac_executors demo_faulty) \<noteq> []" "inflight_tasks_by_executor demo_faulty = []"
  by (simp_all add: demo_faulty_def demo_state_defs schedulable_executor_placements_excluding_def schedulable_executor_placements_def
      coordinator_circuit_broken_def circuit_broken_executors_def breaker_open_def is_schedulable_def placement_of_def
      inflight_tasks_by_executor_def inflight_executors_def List.map_filter_def)

lemmas demo_loop_defs = demo_state_defs Let_def stage_work_def upstream_ready_def considered_def stamp_pending_def stamp_stage_def
  overlay_inflight_def place_tiered_def choose_tier_def best_slot_def any_slot_def tagged_index_def has_preference_def take_slot_def
  free_slots_def locality_outcome_default_def preferred_nodes_by_stage_def

text \<open>The executors with the number of tasks the coordinator knows on them.\<close>

abbreviation demo_slots :: "nat \<Rightarrow> nat \<Rightarrow> executor_placement list" where
  "demo_slots m n \<equiv>
     [\<lparr>ep_executor_id = ''e1'', ep_slots = 1, ep_active_tasks = m, ep_node_id = Some ''h1'', ep_rack_id = None\<rparr>,
      \<lparr>ep_executor_id = ''e2'', ep_slots = 1, ep_active_tasks = n, ep_node_id = Some ''h1'', ep_rack_id = None\<rparr>]"

lemma demo_stages:
  assumes "e = ''e2'' \<and> n = 0 \<or> e = ''e1'' \<and> n = 2"
  shows "assign_stages 10 11 0 (demo_slots 0 n) 2
      (map (stage_work 10 (preferred_nodes_by_stage (job_from_spec demo_two_stages 0) h) (job_from_spec demo_two_stages 0))
        (jr_stages (job_from_spec demo_two_stages 0)))
      ((job_from_spec demo_two_stages 0)\<lparr>jr_stages := map (stamp_stage 10 (job_from_spec demo_two_stages 0)) (jr_stages (job_from_spec demo_two_stages 0))\<rparr>) 0
    = (demo_overbooked e, Inr 2)"
    (is ?run)
  and "sum_list (map length (map (stage_work 10 (preferred_nodes_by_stage (job_from_spec demo_two_stages 0) h) (job_from_spec demo_two_stages 0))
        (jr_stages (job_from_spec demo_two_stages 0)))) = 2" (is ?work)
proof -
  from assms show ?run unfolding demo_overbooked_def Let_def by (elim disjE) (simp_all add: demo_loop_defs)
  show ?work by (simp add: demo_loop_defs)
qed

lemma demo_call:
  assumes "ac_state c = CoordActive" "ac_executors c = ac_executors demo_faulty" "ac_locality_wait_ms c = 0"
    and "map_of (ac_jobs c) k = Some (job_from_spec demo_two_stages 0)"
    and "assign_candidates c 10 (inflight_tasks_by_executor c) None = demo_slots 0 n" and "e = ''e2'' \<and> n = 0 \<or> e = ''e1'' \<and> n = 2"
  shows "ac_jobs (fst (assign_pending_tasks_capped 10 11 c k (Some 2))) = amap_insert k (demo_overbooked e) (ac_jobs c)"
    and "ac_store_faults c = Some err # faults \<Longrightarrow> assign_pending_tasks_capped 10 11 c k (Some 2) =
      (c\<lparr>ac_jobs := amap_insert k (demo_overbooked e) (ac_jobs c), ac_pending_backlog_jobs := removeAll k (ac_pending_backlog_jobs c),
         ac_launch_dirty_jobs := List.insert k (ac_launch_dirty_jobs c), ac_store_faults := faults\<rparr>, Inl err)"
proof -
  let ?j = "job_from_spec demo_two_stages 0"
  have j: "(jr_state ?j = JobQueued) = False" "js_pinned_executor (jr_spec ?j) = None" by (simp_all add: demo_state_defs)
  have x: "(schedulable_executor_placements (ac_executors demo_faulty) = []) = False" using demo_faulty_placements(2) by simp
  have run: "assign_pending_tasks_capped 10 11 c k (Some 2) =
      (case persist_job_record (c\<lparr>ac_jobs := amap_insert k (demo_overbooked e) (ac_jobs c),
          ac_pending_backlog_jobs := removeAll k (ac_pending_backlog_jobs c),
          ac_launch_dirty_jobs := List.insert k (ac_launch_dirty_jobs c)\<rparr>) of
         (c2, Inl err) \<Rightarrow> (c2, Inl err) | (c2, Inr _) \<Rightarrow> (c2, Inr 2))"
    unfolding assign_pending_tasks_capped_def ensure_active_def find_job_def assms(1-4) option.case sum.case if_True x if_False Let_def
      j assms(5) demo_stages [OF assms(6)] prod.case
    by simp
  show "ac_jobs (fst (assign_pending_tasks_capped 10 11 c k (Some 2))) = amap_insert k (demo_overbooked e) (ac_jobs c)"
    unfolding run by (auto simp: persist_job_record_def split: list.split option.split)
  show "assign_pending_tasks_capped 10 11 c k (Some 2) =
      (c\<lparr>ac_jobs := amap_insert k (demo_overbooked e) (ac_jobs c), ac_pending_backlog_jobs := removeAll k (ac_pending_backlog_jobs c),
         ac_launch_dirty_jobs := List.insert k (ac_launch_dirty_jobs c), ac_store_faults := faults\<rparr>, Inl err)"
    if "ac_store_faults c = Some err # faults"
    unfolding run using that by (simp add: persist_job_record_def)
qed

lemma demo_faulty_round: "ac_jobs (fst (pool_assignment_round 10 11 demo_faulty)) = [(''a'', demo_overbooked ''e2''), (''b'', demo_overbooked ''e1'')]"
proof -
  let ?j = "job_from_spec demo_two_stages 0"
  let ?d = "\<lambda>k. \<lparr>jd_job_id = k, jd_priority = js_priority demo_two_stages, jd_pool = [], jd_pending = 2\<rparr>"
  let ?c1 = "demo_faulty\<lparr>ac_jobs := [(''a'', demo_overbooked ''e2''), (''b'', ?j)], ac_launch_dirty_jobs := [''a''], ac_store_faults := []\<rparr>"
  have demands: "job_demands demo_faulty 10 = [?d ''a'', ?d ''b'']"
    by (simp add: job_demands_def job_demand_of_def List.map_filter_def demo_faulty_def demo_state_defs considered_def pool_for_namespace_def)
  have sorted: "sort_demands [?d ''a'', ?d ''b''] = [?d ''a'', ?d ''b'']" by (simp add: sort_demands_def)
  have free: "round_free_slots demo_faulty 10 = 2"
    unfolding round_free_slots_def demo_faulty_placements by (simp add: overlay_inflight_def free_slots_def)
  have quotas: "compute_pool_quotas 2 (pool_demand [?d ''a'', ?d ''b'']) (ac_scheduler_pools demo_faulty) = [([], 2)]"
    by (simp add: pool_demand_def quota_of_def usize_add_def demo_faulty_def demo_coordinator_def compute_pool_quotas_def spec_for_def
        pool_spec_default_def pool_rounds.simps unmet_pools_def round_grants_def floor_grants_def sort_grants_def total_weight_def
        saturating_mul_u64_def)
  have cand: "assign_candidates demo_faulty 10 (inflight_tasks_by_executor demo_faulty) None = demo_slots 0 0"
    unfolding assign_candidates_def demo_faulty_placements by (simp add: overlay_inflight_def)
  have first: "assign_pending_tasks_capped 10 11 demo_faulty ''a'' (Some 2) = (?c1, Inl (StoreError ''write failed''))"
    using demo_call(2) [OF _ refl _ _ cand, of "''a''" "''e2''" "StoreError ''write failed''" "[]"]
    by (simp add: demo_faulty_def demo_coordinator_def)
  have idle: "inflight_executors ?j = []" by (simp add: inflight_executors_def List.map_filter_def demo_state_defs)
  have "inflight_tasks_by_executor ?c1 = [(''e2'', 2)]"
    using idle demo_overbooked_load(1) [of "''e2''"] by (simp add: inflight_tasks_by_executor_def amap_alter_def)
  moreover have "coordinator_circuit_broken ?c1 10 = coordinator_circuit_broken demo_faulty 10" by (simp add: coordinator_circuit_broken_def)
  ultimately have "assign_candidates ?c1 10 (inflight_tasks_by_executor ?c1) None = demo_slots 0 2"
    unfolding assign_candidates_def using demo_faulty_placements(1) by (simp add: overlay_inflight_def raise_active_tasks_to_def)
  from demo_call(1) [OF _ _ _ _ this, of "''b''" "''e1''"]
  have second: "ac_jobs (fst (assign_pending_tasks_capped 10 11 ?c1 ''b'' (Some 2))) = [(''a'', demo_overbooked ''e2''), (''b'', demo_overbooked ''e1'')]"
    by (simp add: demo_faulty_def demo_coordinator_def)
  have q: "quota_of [([], 2)] [] = 2" by (simp add: quota_of_def)
  obtain c2 r where call: "assign_pending_tasks_capped 10 11 ?c1 ''b'' (Some 2) = (c2, r)" by fastforce
  have "fst (pool_assignment_round 10 11 demo_faulty) = c2"
    unfolding pool_assignment_round_def Let_def demands sorted free quotas
    using first call q by (cases r) simp_all
  with second call show ?thesis by simp
qed

theorem pool_round_within_free_witness:
  "jobs_ok demo_faulty \<and> assigned_total demo_faulty = 0 \<and> round_free_slots demo_faulty 10 = 2 \<and> store_failures demo_faulty = 1
   \<and> assigned_total (fst (pool_assignment_round 10 11 demo_faulty)) = 4
   \<and> assigned_total (fst (pool_assignment_round 10 11 demo_faulty)) \<le> 2 * Suc 1"
proof -
  have ok: "jobs_ok demo_faulty" by (simp add: jobs_ok_def demo_faulty_def demo_state_defs amap_wf_def)
  have zero: "assigned_total demo_faulty = 0" by (simp add: assigned_total_def count_state_def demo_faulty_def demo_state_defs)
  have free: "round_free_slots demo_faulty 10 = 2"
    unfolding round_free_slots_def demo_faulty_placements by (simp add: overlay_inflight_def free_slots_def)
  have one: "store_failures demo_faulty = 1" by (simp add: store_failures_def demo_faulty_def)
  have four: "assigned_total (fst (pool_assignment_round 10 11 demo_faulty)) = 4"
    by (simp add: assigned_total_def demo_faulty_round demo_overbooked_load)
  have "pool_demand (job_demands demo_faulty 10) = [([], 4)]"
    by (simp add: pool_demand_def job_demands_def job_demand_of_def List.map_filter_def demo_faulty_def demo_state_defs
        considered_def pool_for_namespace_def quota_of_def usize_add_def)
  moreover have "ac_scheduler_pools demo_faulty = []" by (simp add: demo_faulty_def demo_coordinator_def)
  ultimately have "round_free_slots demo_faulty 10
      * all_weights (ac_scheduler_pools demo_faulty) (pool_demand (job_demands demo_faulty 10)) \<le> u64_max"
    by (simp add: free spec_for_def pool_spec_default_def)
  from pool_round_within_free [OF prod.collapse [symmetric] ok this, of 11] ok zero free one four show ?thesis by simp
qed

end
