(* ===== verification/JobStore.thy ===== *)
theory JobStore
  imports JobSafety
begin

text \<open>
  The durable form of a job record (\<open>krishiv-scheduler/src/store.rs\<close>): the conversions to the
  persisted types and back, composed. They decide what a restarted coordinator knows of a job. The
  lifecycle states travel as their display strings and the parsers invert them, which is proved, so
  the composition copies them; identifiers are those of an existing record and parse. The file
  formats around the conversions, etcd and RocksDB are not modelled.
\<close>

section \<open>States as strings\<close>

definition parse_job_kind :: "string \<Rightarrow> scheduler_error + job_kind" where
  "parse_job_kind v =
     (if v = ''batch'' then Inr BatchJob
      else if v = ''streaming'' then Inr StreamingJob
      else Inl (InvalidJob (''unknown persisted job kind: '' @ v)))"

definition parse_job_state :: "string \<Rightarrow> scheduler_error + job_state" where
  "parse_job_state v =
     (if v = ''queued'' then Inr JobQueued
      else if v = ''accepted'' then Inr JobAccepted
      else if v = ''planning'' then Inr JobPlanning
      else if v = ''running'' then Inr JobRunning
      else if v = ''committing'' then Inr JobCommitting
      else if v = ''succeeded'' then Inr JobSucceeded
      else if v = ''failed'' then Inr JobFailed
      else if v = ''cancelled'' then Inr JobCancelled
      else Inl (InvalidJob (''unknown persisted job state: '' @ v)))"

definition parse_stage_state :: "string \<Rightarrow> scheduler_error + stage_state" where
  "parse_stage_state v =
     (if v = ''pending'' then Inr StagePending
      else if v = ''scheduling'' then Inr StageScheduling
      else if v = ''running'' then Inr StageRunning
      else if v = ''succeeded'' then Inr StageSucceeded
      else if v = ''failed'' then Inr StageFailed
      else if v = ''retrying'' then Inr StageRetrying
      else if v = ''cancelled'' then Inr StageCancelled
      else Inl (InvalidJob (''unknown persisted stage state: '' @ v)))"

definition parse_task_state :: "string \<Rightarrow> scheduler_error + task_state" where
  "parse_task_state v =
     (if v = ''pending'' then Inr TaskPending
      else if v = ''assigned'' then Inr TaskAssigned
      else if v = ''running'' then Inr TaskRunning
      else if v = ''succeeded'' then Inr TaskSucceeded
      else if v = ''failed'' then Inr TaskFailed
      else if v = ''retrying'' then Inr TaskRetrying
      else if v = ''cancelled'' then Inr TaskCancelled
      else Inl (InvalidJob (''unknown persisted task state: '' @ v)))"

lemma parse_display [simp]:
  "parse_job_kind (job_kind_display k) = Inr k"
  "parse_job_state (job_state_display js) = Inr js"
  "parse_stage_state (stage_state_display ss) = Inr ss"
  "parse_task_state (task_state_display ts) = Inr ts"
proof -
  show "parse_job_kind (job_kind_display k) = Inr k" by (cases k) (simp_all add: parse_job_kind_def)
  show "parse_job_state (job_state_display js) = Inr js" by (cases js) (simp_all add: parse_job_state_def)
  show "parse_stage_state (stage_state_display ss) = Inr ss" by (cases ss) (simp_all add: parse_stage_state_def)
  show "parse_task_state (task_state_display ts) = Inr ts" by (cases ts) (simp_all add: parse_task_state_def)
qed

section \<open>What comes back\<close>

definition restored_task_spec :: "task_spec \<Rightarrow> task_spec" where
  "restored_task_spec ts =
     (task_spec_new (ts_task_id ts) (ts_description ts))
       \<lparr>ts_task_timeout_secs := ts_task_timeout_secs ts, ts_sink_contract := ts_sink_contract ts,
        ts_shuffle_write := ts_shuffle_write ts\<rparr>"

definition restored_stage_spec :: "stage_spec \<Rightarrow> stage_spec" where
  "restored_stage_spec s =
     foldl with_task (stage_spec_new (ss_stage_id s) (ss_name s)) (map restored_task_spec (ss_tasks s))"

definition restored_job_spec :: "job_spec \<Rightarrow> job_spec" where
  "restored_job_spec spec =
     (foldl with_stage (job_spec_new (js_job_id spec) (js_name spec) (js_kind spec))
        (map restored_stage_spec (js_stages spec)))
       \<lparr>js_priority := js_priority spec, js_namespace_id := js_namespace_id spec,
        js_cpu_limit_nanos := js_cpu_limit_nanos spec, js_memory_limit_bytes := js_memory_limit_bytes spec\<rparr>"

definition restored_metadata :: "task_output_metadata \<Rightarrow> task_output_metadata" where
  "restored_metadata m =
     \<lparr>om_output_kind = om_output_kind m, om_row_count = om_row_count m,
      om_shuffle_partitions = om_shuffle_partitions m, om_runtime_stats = None\<rparr>"

definition restored_task :: "task_record \<Rightarrow> task_record" where
  "restored_task t =
     \<lparr>tr_spec = restored_task_spec (tr_spec t), tr_state = tr_state t, tr_assigned_executor = tr_assigned_executor t,
      tr_attempt = tr_attempt t, tr_launch_in_flight = False,
      tr_output_metadata = map_option restored_metadata (tr_output_metadata t),
      tr_last_failure_reason = tr_last_failure_reason t, tr_failure_count = tr_failure_count t,
      tr_executor_loss_count = tr_executor_loss_count t, tr_last_watermark_ms = None,
      tr_last_source_offset = None, tr_assigned_at_ms = None, tr_last_progress_ms = None,
      tr_completed_duration_ms = None, tr_retry_backoff_until_ms = None, tr_pending_since_ms = None\<rparr>"

definition restored_stage :: "stage_record \<Rightarrow> stage_record" where
  "restored_stage s =
     \<lparr>sg_spec = restored_stage_spec (sg_spec s), sg_state = sg_state s, sg_retry_count = sg_retry_count s,
      sg_tasks = map restored_task (sg_tasks s)\<rparr>"

text \<open>Of the shuffle output only the available partitions are written.\<close>

definition restored_output :: "string \<Rightarrow> (string, shuffle_metadata) amap \<Rightarrow> (string, shuffle_metadata) amap" where
  "restored_output job_id output =
     foldl (\<lambda>m (stage_id, partition_id). amap_alter [] stage_id
         (\<lambda>meta. mark_available meta \<lparr>path_job_id = job_id, path_stage_id = stage_id, path_partition_id = partition_id\<rparr>) m)
       [] (concat (map (\<lambda>(stage_id, meta). map (\<lambda>p. (stage_id, path_partition_id p)) (available_paths meta)) output))"

definition restored_job :: "job_record \<Rightarrow> job_record" where
  "restored_job j =
     \<lparr>jr_spec = restored_job_spec (jr_spec j), jr_state = jr_state j, jr_max_stage_retries = jr_max_stage_retries j,
      jr_retry_backoff_base_ms = 1000, jr_retry_backoff_cap_ms = 30000,
      jr_stages = map restored_stage (jr_stages j), jr_shuffle_output = restored_output (job_id_of j) (jr_shuffle_output j),
      jr_resource_usage = jr_resource_usage j, jr_shuffle_regen_total = 0, jr_shuffle_regen = [],
      jr_recovery_epoch = 0\<rparr>"

section \<open>What is kept and what is lost\<close>

lemma with_tasks [simp]: "foldl with_task s ts = s\<lparr>ss_tasks := ss_tasks s @ ts\<rparr>"
  by (induction ts arbitrary: s) (simp_all add: with_task_def)

lemma with_stages [simp]: "foldl with_stage j ss = j\<lparr>js_stages := js_stages j @ ss\<rparr>"
  by (induction ss arbitrary: j) (simp_all add: with_stage_def)

lemma restored_task_spec_simps [simp]:
  "ts_task_id (restored_task_spec ts) = ts_task_id ts" "restored_task_spec (restored_task_spec ts) = restored_task_spec ts"
  by (simp_all add: restored_task_spec_def task_spec_new_def)

lemma restored_stage_spec_simps [simp]:
  "ss_stage_id (restored_stage_spec s) = ss_stage_id s" "ss_tasks (restored_stage_spec s) = map restored_task_spec (ss_tasks s)"
  "ss_upstream_stage_ids (restored_stage_spec s) = []" "ss_max_task_attempts (restored_stage_spec s) = 1"
  "restored_stage_spec (restored_stage_spec s) = restored_stage_spec s"
  by (simp_all add: restored_stage_spec_def stage_spec_new_def comp_def)

lemma restored_job_spec_simps [simp]:
  "js_stages (restored_job_spec spec) = map restored_stage_spec (js_stages spec)"
  "restored_job_spec (restored_job_spec spec) = restored_job_spec spec"
  by (simp_all add: restored_job_spec_def job_spec_new_def comp_def)

lemma restored_task_ok: "task_ok t \<Longrightarrow> task_ok (restored_task t)"
  by (simp add: task_ok_def restored_task_def)

lemma restored_settled: "settled s \<Longrightarrow> settled (restored_stage s)"
  by (auto simp: settled_def restored_stage_def restored_task_def)

lemma restored_shape: "job_shape j \<Longrightarrow> job_shape (restored_job j)"
proof -
  assume s: "job_shape j"
  then have "map restored_stage_spec (map sg_spec (jr_stages j)) = map restored_stage_spec (js_stages (jr_spec j))"
    by (simp add: job_shape_def)
  moreover have "stage_shape s \<Longrightarrow> stage_shape (restored_stage s)" for s
    by (auto simp: stage_shape_def restored_stage_def list_all_iff restored_task_ok)
  ultimately show ?thesis using s by (auto simp: job_shape_def restored_job_def restored_stage_def list_all_iff comp_def)
qed

lemma restored_tidy: "job_tidy j \<Longrightarrow> job_tidy (restored_job j)"
proof -
  have "sg_state (restored_stage s) = sg_state s" for s by (simp add: restored_stage_def)
  then show "job_tidy j \<Longrightarrow> ?thesis" by (auto simp: job_tidy_def restored_job_def list_all_iff restored_settled concluded_def)
qed

text \<open>
  The order of the stages is not written: after a restart no stage waits for another one. Nor are a
  stage's kind and attempts, a task's shuffle read, the checkpoint settings and the pinned executor.
\<close>

lemma restored_order_lost: "s \<in> set (jr_stages (restored_job j)) \<Longrightarrow> ss_upstream_stage_ids (sg_spec s) = []"
  by (auto simp: restored_job_def restored_stage_def)

lemma restored_settings_lost:
  "js_checkpoint_interval_ms (jr_spec (restored_job j)) = None" "js_checkpoint_storage_path (jr_spec (restored_job j)) = None"
  "js_pinned_executor (jr_spec (restored_job j)) = None"
  by (simp_all add: restored_job_def restored_job_spec_def job_spec_new_def)

text \<open>
  The consequence: on a job with a reducing stage whose mapping stage has not started, a launch of the
  unharmed record emits nothing, and a launch of the restored one emits the reducing task.
\<close>

lemma restart_launches_early:
  "map emitted (snd (job_run demo_codec True id (job_from_spec demo_job_spec 0)
     [DoAssign 10 [\<lparr>ta_task_id = ''r0'', ta_executor_id = ''e1''\<rparr>], DoLaunch demo_inputs])) = []"
  "map emitted (snd (job_run demo_codec True id (restored_job (job_from_spec demo_job_spec 0))
     [DoAssign 10 [\<lparr>ta_task_id = ''r0'', ta_executor_id = ''e1''\<rparr>], DoLaunch demo_inputs])) = [((''red'', ''r0''), 1)]"
  by (simp_all add: demo_defs demo_launch_defs demo_update_defs restored_job_def restored_job_spec_def restored_stage_def
      restored_stage_spec_def restored_task_def restored_task_spec_def restored_output_def)

end
