(* ===== verification/JobRetries.thy ===== *)
theory JobRetries
  imports JobSafety
begin

text \<open>
  Retry budgets (job/record.rs, \<open>account_task_failure\<close>): every failure the accounting
  absorbs spends the budget of its stage.
\<close>

section \<open>Retry budgets\<close>

definition stage_budget :: "nat \<Rightarrow> stage_record \<Rightarrow> nat" where
  "stage_budget retries s = (retries - sg_retry_count s)
     + sum_list (map (\<lambda>t. max (ss_max_task_attempts (sg_spec s)) MISSING_SHUFFLE_MAX_ATTEMPTS - tr_failure_count t) (sg_tasks s))"

definition job_budget :: "job_record \<Rightarrow> nat" where
  "job_budget j = sum_list (map (stage_budget (jr_max_stage_retries j)) (jr_stages j))"

text \<open>Whether an operation reports a failure that does not fail the job.\<close>

fun absorbed :: "job_record \<Rightarrow> 'rb job_op \<Rightarrow> bool" where
  "absorbed j (DoUpdate now u) =
     (tu_state u = TaskFailed \<and> snd (coordinator_task_update now j u) = Inr Applied
      \<and> jr_state (fst (coordinator_task_update now j u)) \<noteq> JobFailed)"
| "absorbed j (DoStall now sid tid a reason) =
     (snd (apply_stall_failure now j sid tid a reason) = Inr True
      \<and> jr_state (fst (apply_stall_failure now j sid tid a reason)) \<noteq> JobFailed)"
| "absorbed j _ = False"

lemma sum_list_mono_all2:
  "list_all2 R xs ys \<Longrightarrow> (\<And>x y. R x y \<Longrightarrow> x \<in> set xs \<Longrightarrow> g y \<le> (f x :: nat)) \<Longrightarrow> sum_list (map g ys) \<le> sum_list (map f xs)"
proof (induction rule: list_all2_induct)
  case (Cons x xs y ys)
  have "g y \<le> f x" using Cons.hyps Cons.prems by simp
  moreover have "sum_list (map g ys) \<le> sum_list (map f xs)" using Cons by simp
  ultimately show ?case by simp
qed simp

lemma stage_budget_mono:
  assumes "sg_spec s' = sg_spec s" and "sg_retry_count s \<le> sg_retry_count s'"
    and "list_all2 (\<lambda>t t'. tr_failure_count t \<le> tr_failure_count t') (sg_tasks s) (sg_tasks s')"
  shows "stage_budget r s' \<le> stage_budget r s"
  unfolding stage_budget_def assms(1)
  by (intro add_mono sum_list_mono_all2 [OF assms(3)]) (use assms(2) in simp_all)

lemma quiet_counts: "list_all2 (quiet E) ts ts' \<Longrightarrow> list_all task_ok ts \<Longrightarrow> list_all2 (\<lambda>t t'. tr_failure_count t \<le> tr_failure_count t') ts ts'"
  by (induction rule: list_all2_induct) (auto simp: quiet_def)

lemma stage_rel_budget: "stage_rel E s s' \<Longrightarrow> stage_shape s \<Longrightarrow> stage_budget r s' \<le> stage_budget r s"
  by (intro stage_budget_mono quiet_counts) (auto simp: stage_rel_def stage_shape_def)

lemma stage_launches_budget: "stage_launches s s' \<Longrightarrow> stage_budget r s' \<le> stage_budget r s"
  by (intro stage_budget_mono) (auto simp: stage_launches_def launches_def elim!: list_all2_mono)

lemma step_budget:
  assumes "job_shape j" and "job_step fc al nr j x = (j', as)"
  shows "job_budget j' \<le> job_budget j"
proof -
  have ok: "\<And>s. s \<in> set (jr_stages j) \<Longrightarrow> stage_shape s" using assms(1) by (simp add: job_shape_def list_all_iff)
  have r: "jr_max_stage_retries j' = jr_max_stage_retries j" using step_kept [OF assms(2)] by simp
  show ?thesis
  proof (cases "\<exists>li. x = DoLaunch li")
    case True
    then obtain li q where "launch_assigned_task_assignments fc nr li j = (j', q)" using launch_step assms(2) by blast
    from launch_job_cases [OF this] have "list_all2 stage_launches (jr_stages j) (jr_stages j')" by blast
    then show ?thesis unfolding job_budget_def r by (rule sum_list_mono_all2) (rule stage_launches_budget)
  next
    case False
    with job_step_rel [of x "placed x" j fc al nr] assms(2) have "list_all2 (stage_rel (placed x)) (jr_stages j) (jr_stages j')" by (simp add: job_rel_def)
    then show ?thesis unfolding job_budget_def r by (rule sum_list_mono_all2) (rule stage_rel_budget [OF _ ok])
  qed
qed

definition widths_ok :: "job_spec \<Rightarrow> nat \<Rightarrow> bool" where
  "widths_ok spec retries \<longleftrightarrow> retries \<le> u32_max \<and> (\<forall>s \<in> set (js_stages spec). ss_max_task_attempts s \<le> u32_max)"

lemma sum_list_map_update:
  "i < length xs \<Longrightarrow> sum_list (map f (xs[i := y])) + f (xs ! i) = sum_list (map f xs) + (f y :: nat)"
proof (induction xs arbitrary: i)
  case (Cons x xs)
  then show ?case by (cases i) (auto simp: algebra_simps)
qed simp

lemma account_absorbs:
  assumes idx: "idx < length (sg_tasks s)"
    and a: "account_task_failure now rp s idx m (ss_max_task_attempts (sg_spec s)) = (s', Inr True)"
    and ok: "list_all task_ok (sg_tasks s)" "sg_retry_count s \<le> u32_max"
    and w: "rp_max_stage_retries rp \<le> u32_max" "ss_max_task_attempts (sg_spec s) \<le> u32_max"
  shows "stage_budget (rp_max_stage_retries rp) s' < stage_budget (rp_max_stage_retries rp) s"
proof -
  let ?B = "max (ss_max_task_attempts (sg_spec s)) MISSING_SHUFFLE_MAX_ATTEMPTS"
  let ?f = "\<lambda>t. ?B - tr_failure_count t"
  let ?n = "saturating_add_u32 (tr_failure_count (sg_tasks s ! idx)) 1"
  let ?t = "(sg_tasks s ! idx)\<lparr>tr_failure_count := ?n\<rparr>"
  let ?s1 = "s\<lparr>sg_tasks := (sg_tasks s)[idx := ?t]\<rparr>"
  let ?t' = "(reset_task ?t)\<lparr>tr_retry_backoff_until_ms := (if m then None
      else Some (saturating_add_u64 now (backoff_delay rp (tr_failure_count ?t))))\<rparr>"
  have mono: "sum_list (map ?f ((sg_tasks s)[idx := t])) \<le> sum_list (map ?f (sg_tasks s))" if "tr_failure_count t = ?n" for t
  proof (rule sum_list_mono_all2 [of "\<lambda>t t'. tr_failure_count t \<le> tr_failure_count t'"])
    have "tr_failure_count (sg_tasks s ! idx) \<le> ?n"
      using ok(1) idx saturating_add_u32_le [of "tr_failure_count (sg_tasks s ! idx)" 1] by (simp add: list_all_length task_ok_def)
    then show "list_all2 (\<lambda>t t'. tr_failure_count t \<le> tr_failure_count t') (sg_tasks s) ((sg_tasks s)[idx := t])"
      using that by (intro list_all2_update_same) simp_all
  qed simp
  from idx have "\<not> length (sg_tasks s) \<le> idx" by simp
  with a have "?n < effective_attempts m (ss_max_task_attempts (sg_spec s))
        \<and> s' = stage_refresh_state (?s1\<lparr>sg_tasks := (sg_tasks ?s1)[idx := ?t']\<rparr>)
      \<or> sg_retry_count s < rp_max_stage_retries rp \<and> s' = retry_stage ?s1"
    unfolding account_task_failure_def Let_def by (auto split: if_splits)
  then consider
      t' where "?n < effective_attempts m (ss_max_task_attempts (sg_spec s))" "tr_failure_count t' = ?n"
        "s' = stage_refresh_state (s\<lparr>sg_tasks := (sg_tasks s)[idx := t']\<rparr>)"
    | "sg_retry_count s < rp_max_stage_retries rp" "s' = retry_stage ?s1"
  proof (rule disjE)
    assume "?n < effective_attempts m (ss_max_task_attempts (sg_spec s))
        \<and> s' = stage_refresh_state (?s1\<lparr>sg_tasks := (sg_tasks ?s1)[idx := ?t']\<rparr>)"
    moreover have "tr_failure_count ?t' = ?n" by (simp add: reset_task_def)
    ultimately show thesis using that(1) [of ?t'] by simp
  qed (use that(2) in blast)
  then show ?thesis
  proof cases
    case 1
    have "?n < ?B" using 1(1) by (auto simp: effective_attempts_def split: if_splits)
    moreover have "?B \<le> u32_max" using w(2) by (simp add: MISSING_SHUFFLE_MAX_ATTEMPTS_def)
    ultimately have n: "?n = Suc (tr_failure_count (sg_tasks s ! idx))" "tr_failure_count (sg_tasks s ! idx) < ?B"
      by (auto simp: saturating_add_u32_def min_def split: if_splits)
    have "sum_list (map ?f ((sg_tasks s)[idx := t'])) + ?f (sg_tasks s ! idx) = sum_list (map ?f (sg_tasks s)) + ?f t'"
      using idx by (rule sum_list_map_update)
    moreover have "?f t' < ?f (sg_tasks s ! idx)" using n 1(2) by simp
    ultimately have "sum_list (map ?f ((sg_tasks s)[idx := t'])) < sum_list (map ?f (sg_tasks s))" by linarith
    then show ?thesis using 1(3) by (simp add: stage_budget_def)
  next
    case 2
    have same: "sum_list (map ?f (map reset_task ts)) = sum_list (map ?f ts)" for ts
      by (simp add: comp_def reset_task_def)
    have "sg_retry_count s' = Suc (sg_retry_count s)"
      using 2 w(1) saturating_add_u32_Suc [of "sg_retry_count s"] by (simp add: retry_stage_def)
    moreover have "sg_tasks s' = map reset_task ((sg_tasks s)[idx := ?t])" "sg_spec s' = sg_spec s" using 2 by (simp_all add: retry_stage_def)
    ultimately show ?thesis
      unfolding stage_budget_def using same mono [of ?t] 2(1) by (simp del: map_map)
  qed
qed

text \<open>A failed task, accounted: either the stage fails or its budget shrinks.\<close>

lemma account_failed_task:
  assumes idx: "idx < length (sg_tasks s)" and t: "tr_state t = TaskFailed" "tr_failure_count t = tr_failure_count (sg_tasks s ! idx)"
    and q: "quiet E (sg_tasks s ! idx) t" and ok: "stage_shape s"
    and w: "rp_max_stage_retries rp \<le> u32_max" "ss_max_task_attempts (sg_spec s) \<le> u32_max"
    and a: "account_task_failure now rp (s\<lparr>sg_tasks := (sg_tasks s)[idx := t]\<rparr>) idx m (ss_max_task_attempts (sg_spec s)) = (s', Inr b)"
  shows "if b then stage_budget (rp_max_stage_retries rp) s' < stage_budget (rp_max_stage_retries rp) s
    else sg_state (stage_refresh_state s') = StageFailed"
proof -
  let ?s1 = "s\<lparr>sg_tasks := (sg_tasks s)[idx := t]\<rparr>"
  have idx1: "idx < length (sg_tasks ?s1)" using idx by simp
  show ?thesis
  proof (cases b)
    case True
    have "sum_list (map f ((sg_tasks s)[idx := t])) = sum_list (map f (sg_tasks s))" if "f t = f (sg_tasks s ! idx)" for f :: "task_record \<Rightarrow> nat"
      using sum_list_map_update [OF idx, of f t] that by simp
    then have same: "stage_budget r ?s1 = stage_budget r s" for r by (simp add: stage_budget_def t(2))
    have "list_all task_ok (sg_tasks ?s1)"
      using ok q idx by (auto simp: stage_shape_def list_all_length nth_list_update quiet_def)
    moreover have "sg_retry_count ?s1 \<le> u32_max" "ss_max_task_attempts (sg_spec ?s1) \<le> u32_max" using ok w by (simp_all add: stage_shape_def)
    ultimately have "stage_budget (rp_max_stage_retries rp) s' < stage_budget (rp_max_stage_retries rp) ?s1"
      using account_absorbs [OF idx1, of now rp m s'] a True w(1) by simp
    then show ?thesis using True same by simp
  next
    case False
    from account_rel [OF idx1 a] False have "map tr_state (sg_tasks s') = map tr_state ((sg_tasks s)[idx := t])" by simp
    then have "TaskFailed \<in> set (map tr_state (sg_tasks s'))"
      using idx t(1) by (metis length_list_update length_map nth_list_update_eq nth_map nth_mem)
    then have "list_ex (\<lambda>t. t = TaskFailed) (map tr_state (sg_tasks s'))"
      "\<not> list_all (\<lambda>t. t = TaskSucceeded) (map tr_state (sg_tasks s'))"
      unfolding list_ex_iff list_all_iff by blast+
    then show ?thesis using False
      by (simp add: stage_refresh_state_def stage_state_of_def)
  qed
qed

lemma stage_update_failed:
  assumes u: "stage_apply_task_update now rp s u = (s', Inr Applied)" and f: "tu_state u = TaskFailed" and ok: "stage_shape s"
    and w: "rp_max_stage_retries rp \<le> u32_max" "ss_max_task_attempts (sg_spec s) \<le> u32_max"
  shows "sg_state s' = StageFailed \<or> stage_budget (rp_max_stage_retries rp) s' < stage_budget (rp_max_stage_retries rp) s"
proof (cases "position (\<lambda>t. task_id_of t = tu_task_id u) (sg_tasks s)")
  case None
  with u show ?thesis by (simp add: stage_apply_task_update_def)
next
  case (Some idx)
  from position_Some [OF Some] have idx: "idx < length (sg_tasks s)" by simp
  obtain t o1 where t: "apply_status_update now (sg_tasks s ! idx) u = (t, o1)" by fastforce
  let ?s1 = "s\<lparr>sg_tasks := (sg_tasks s)[idx := t]\<rparr>"
  obtain s2 b where a: "account_task_failure now rp ?s1 idx (tu_missing_shuffle_partitions u \<noteq> [])
      (ss_max_task_attempts (sg_spec s)) = (s2, Inr b)"
    using account_ok [of idx ?s1 now rp "tu_missing_shuffle_partitions u \<noteq> []" "ss_max_task_attempts (sg_spec s)"] idx by auto
  note unfold = u [unfolded stage_apply_task_update_def Some option.case t prod.case Let_def]
  from unfold have o1: "o1 = Inr Applied" by (auto split: sum.splits task_update_outcome.splits)
  with unfold f a have s': "s' = (if b then s2 else stage_refresh_state s2)" by auto
  from status_applied [of now "sg_tasks s ! idx" u t] t o1 f have "tr_state t = TaskFailed"
    "tr_failure_count t = tr_failure_count (sg_tasks s ! idx)" by auto
  from account_failed_task [OF idx this quiet_status [OF t] ok w a] s' show ?thesis by (cases b) simp_all
qed

lemma stage_stall_failed:
  assumes u: "fail_stalled_task now rp s tid attempt reason = (s', Inr True)" and ok: "stage_shape s"
    and w: "rp_max_stage_retries rp \<le> u32_max" "ss_max_task_attempts (sg_spec s) \<le> u32_max"
  shows "sg_state s' = StageFailed \<or> stage_budget (rp_max_stage_retries rp) s' < stage_budget (rp_max_stage_retries rp) s"
proof (cases "position (\<lambda>t. task_id_of t = tid \<and> tr_attempt t = attempt \<and> tr_state t = TaskRunning) (sg_tasks s)")
  case None
  with u show ?thesis by (simp add: fail_stalled_task_def)
next
  case (Some idx)
  from position_Some [OF Some] have idx: "idx < length (sg_tasks s)" by simp
  let ?t = "(sg_tasks s ! idx)\<lparr>tr_state := TaskFailed, tr_last_failure_reason := Some reason,
                      tr_launch_in_flight := False, tr_assigned_at_ms := None, tr_last_progress_ms := None\<rparr>"
  let ?s1 = "s\<lparr>sg_tasks := (sg_tasks s)[idx := ?t]\<rparr>"
  obtain s2 b where a: "account_task_failure now rp ?s1 idx False (ss_max_task_attempts (sg_spec s)) = (s2, Inr b)"
    using account_ok [of idx ?s1 now rp False "ss_max_task_attempts (sg_spec s)"] idx by auto
  with u Some have s': "s' = stage_refresh_state s2" by (simp add: fail_stalled_task_def Let_def)
  have "stage_budget r (stage_refresh_state s2) = stage_budget r s2" for r by (simp add: stage_budget_def)
  with account_failed_task [OF idx _ _ quiet_fail ok w a] s' show ?thesis by (cases b) simp_all
qed

lemma job_budget_update:
  assumes "i < length (jr_stages j)" and "jr_stages j' = (jr_stages j)[i := s]"
    and "jr_max_stage_retries j' = jr_max_stage_retries j"
    and "stage_budget (jr_max_stage_retries j) s < stage_budget (jr_max_stage_retries j) (jr_stages j ! i)"
  shows "job_budget j' < job_budget j"
  using sum_list_map_update [OF assms(1), of "stage_budget (jr_max_stage_retries j)" s] assms(2-4)
  unfolding job_budget_def by simp

lemma failed_stage_job:
  assumes "i < length (jr_stages j)" and "sg_state (jr_stages j ! i) = StageFailed"
  shows "job_state_of k (map sg_state (jr_stages j)) = JobFailed"
proof -
  have "StageFailed \<in> set (map sg_state (jr_stages j))" using assms by (metis length_map nth_map nth_mem)
  then have "list_ex (\<lambda>s. s = StageFailed) (map sg_state (jr_stages j))"
    "\<not> list_all (\<lambda>s. s = StageSucceeded) (map sg_state (jr_stages j))"
    unfolding list_ex_iff list_all_iff by blast+
  then show ?thesis by (simp add: job_state_of_def)
qed

lemma absorbed_decreases:
  assumes ok: "job_shape j" and w: "widths_ok (jr_spec j) (jr_max_stage_retries j)" and x: "absorbed j x"
  shows "job_budget (fst (job_step fc al nr j x)) < job_budget j"
proof -
  have sok: "stage_shape (jr_stages j ! i)" "ss_max_task_attempts (sg_spec (jr_stages j ! i)) \<le> u32_max" if "i < length (jr_stages j)" for i
  proof -
    show "stage_shape (jr_stages j ! i)" using ok that by (simp add: job_shape_def list_all_length)
    have "sg_spec (jr_stages j ! i) \<in> set (js_stages (jr_spec j))"
      using ok that by (metis (no_types, lifting) job_shape_def length_map nth_map nth_mem)
    then show "ss_max_task_attempts (sg_spec (jr_stages j ! i)) \<le> u32_max" using w by (simp add: widths_ok_def)
  qed
  have rw: "rp_max_stage_retries (policy_of j) \<le> u32_max" "rp_max_stage_retries (policy_of j) = jr_max_stage_retries j"
    using w by (simp_all add: widths_ok_def policy_of_def)
  show ?thesis
  proof (cases x)
    case (DoUpdate now u)
    obtain j' where c: "coordinator_task_update now j u = (j', Inr Applied)" and f: "tu_state u = TaskFailed" "jr_state j' \<noteq> JobFailed"
      using x DoUpdate by (cases "coordinator_task_update now j u") auto
    then have ju: "job_apply_task_update now j u = (j', Inr Applied)" by (simp add: coordinator_task_update_def split: if_splits)
    from job_update_cases [OF ju] obtain i s where
      i: "position (\<lambda>s. stage_id_of s = tu_stage_id u) (jr_stages j) = Some i"
      and s: "stage_apply_task_update now (policy_of j) (jr_stages j ! i) u = (s, Inr Applied)"
      and j': "jr_stages j' = (jr_stages j)[i := s]" "jr_max_stage_retries j' = jr_max_stage_retries j"
        "jr_state j' = job_state_of (js_kind (jr_spec j)) (map sg_state (jr_stages j'))" by auto
    have il: "i < length (jr_stages j)" using position_Some [OF i] by simp
    have "sg_state s \<noteq> StageFailed" using f(2) j' failed_stage_job [of i j'] il by auto
    with stage_update_failed [OF s f(1) sok(1) [OF il] rw(1) sok(2) [OF il]] rw(2)
    show ?thesis using job_budget_update [OF il j'(1,2)] DoUpdate c by simp
  next
    case (DoStall now sid tid a reason)
    obtain j' where c: "apply_stall_failure now j sid tid a reason = (j', Inr True)" and f: "jr_state j' \<noteq> JobFailed"
      using x DoStall by (cases "apply_stall_failure now j sid tid a reason") auto
    from c obtain i where i: "position (\<lambda>s. stage_id_of s = sid) (jr_stages j) = Some i"
      by (auto simp: apply_stall_failure_def split: option.splits)
    have il: "i < length (jr_stages j)" using position_Some [OF i] by simp
    obtain s r where s: "fail_stalled_task now (policy_of j) (jr_stages j ! i) tid a reason = (s, r)" by fastforce
    from c i s have r: "r = Inr True" and j': "j' = job_refresh_state (j\<lparr>jr_stages := (jr_stages j)[i := s]\<rparr>)"
      by (auto simp: apply_stall_failure_def Let_def split: sum.splits if_splits)
    have "jr_state j' = job_state_of (js_kind (jr_spec j)) (map sg_state (jr_stages j'))" by (simp add: j' job_refresh_state_def)
    then have "sg_state s \<noteq> StageFailed" using f failed_stage_job [of i j'] il j' by auto
    with stage_stall_failed [OF s [unfolded r] sok(1) [OF il] rw(1) sok(2) [OF il]] rw(2)
    show ?thesis using job_budget_update [OF il, of j' s] j' DoStall c by simp
  qed (use x in simp_all)
qed

definition demo_failing :: "nat job_op list" where
  "demo_failing = [DoAssign 10 [\<lparr>ta_task_id = ''m0'', ta_executor_id = ''e1''\<rparr>], DoLaunch demo_inputs,
     DoUpdate 20 (demo_report ''map'' ''m0'' TaskFailed 1)]"

end
