(* ===== verification/JobFaults.thy ===== *)
theory JobFaults
  imports JobRetries
begin

text \<open>
  Faults of executors against the job record: the reports of a lost executor are fenced, a report is
  applied only by the owner of the current attempt, lost shuffle output is regenerated a bounded
  number of times, and the two windows in which a late message reopens a finished job.
\<close>

section \<open>Lost executors are fenced\<close>

definition fenced :: "string \<Rightarrow> job_record \<Rightarrow> bool" where
  "fenced e j \<longleftrightarrow> (\<forall>t \<in> set (job_tasks j). tr_assigned_executor t = Some e \<longrightarrow> task_is_terminal (tr_state t))"

lemma all2_member: "list_all2 R xs ys \<Longrightarrow> y \<in> set ys \<Longrightarrow> \<exists>x \<in> set xs. R x y"
  by (induction rule: list_all2_induct) auto

lemma stages_task:
  assumes "list_all2 R (jr_stages j) (jr_stages j')" and "\<And>s s'. R s s' \<Longrightarrow> list_all2 Q (sg_tasks s) (sg_tasks s')"
    and "t' \<in> set (job_tasks j')"
  shows "\<exists>t \<in> set (job_tasks j). Q t t'"
proof -
  obtain s' where s': "s' \<in> set (jr_stages j')" "t' \<in> set (sg_tasks s')" using assms(3) by auto
  from all2_member [OF assms(1) s'(1)] obtain s where s: "s \<in> set (jr_stages j)" "R s s'" by auto
  from all2_member [OF assms(2) [OF s(2)] s'(2)] s(1) show ?thesis by auto
qed

lemma fenced_rel:
  assumes "job_rel E j j'" and "e \<notin> E" and "fenced e j"
  shows "fenced e j'"
  unfolding fenced_def
proof (intro ballI impI)
  fix t' assume t': "t' \<in> set (job_tasks j')" "tr_assigned_executor t' = Some e"
  have "list_all2 (stage_rel E) (jr_stages j) (jr_stages j')" using assms(1) by (simp add: job_rel_def)
  from stages_task [OF this _ t'(1), of "quiet E"] obtain t where "t \<in> set (job_tasks j)" "quiet E t t'"
    by (auto simp: stage_rel_def)
  with t'(2) assms(2,3) show "task_is_terminal (tr_state t')" by (auto simp: quiet_def fenced_def)
qed

lemma fenced_launch:
  assumes "launch_assigned_task_assignments fc nr li j = (j', r)" and "fenced e j"
  shows "fenced e j'"
  unfolding fenced_def
proof (intro ballI impI)
  fix t' assume t': "t' \<in> set (job_tasks j')" "tr_assigned_executor t' = Some e"
  have "list_all2 stage_launches (jr_stages j) (jr_stages j')" using launch_job_cases [OF assms(1)] by blast
  from stages_task [OF this _ t'(1), of launches] obtain t where t: "t \<in> set (job_tasks j)" "launches t t'"
    by (auto simp: stage_launches_def)
  with t'(2) have "tr_assigned_executor t = Some e" by (auto simp: launches_def)
  with t(1) assms(2) have "task_is_terminal (tr_state t)" unfolding fenced_def by blast
  with t(2) show "task_is_terminal (tr_state t')" by (auto simp: launches_def)
qed

lemma fenced_run:
  assumes "fenced e j" and "\<forall>x \<in> set xs. e \<notin> placed x"
  shows "fenced e (fst (job_run fc al nr j xs))"
  using assms
proof (induction xs arbitrary: j)
  case (Cons x xs)
  obtain j1 as where s: "job_step fc al nr j x = (j1, as)" by fastforce
  have "fenced e j1"
  proof (cases "\<exists>li. x = DoLaunch li")
    case True
    then obtain li where x: "x = DoLaunch li" by blast
    obtain j2 r where l: "launch_assigned_task_assignments fc nr li j = (j2, r)" by fastforce
    with s x have "j1 = j2" by (auto split: sum.splits)
    with fenced_launch [OF l] Cons.prems(1) show ?thesis by simp
  next
    case False
    with job_step_rel [of x "placed x" j fc al nr] s have "job_rel (placed x) j j1" by simp
    with Cons.prems show ?thesis by (auto intro: fenced_rel)
  qed
  from Cons.IH [OF this] Cons.prems(2) have "fenced e (fst (job_run fc al nr j1 xs))" by simp
  with s show ?case by (cases "job_run fc al nr j1 xs") simp
qed simp

lemma touch_job_tasks:
  assumes "t' \<in> set (job_tasks (touch_job p f j))"
  shows "\<exists>s \<in> set (jr_stages j). \<exists>t \<in> set (sg_tasks s). t' = (if p s t then f t else t)"
proof (cases "list_ex (\<lambda>s. list_ex (p s) (sg_tasks s)) (jr_stages j)")
  case True
  with assms obtain s where s: "s \<in> set (jr_stages j)" "t' \<in> set (sg_tasks (touch_stage (p s) f s))"
    by (auto simp: touch_job_def)
  have "sg_tasks (touch_stage (p s) f s) = map (\<lambda>t. if p s t then f t else t) (sg_tasks s)"
  proof (cases "list_ex (p s) (sg_tasks s)")
    case False
    then have "\<forall>t \<in> set (sg_tasks s). \<not> p s t" by (simp add: list_ex_iff)
    then have "map (\<lambda>t. if p s t then f t else t) (sg_tasks s) = sg_tasks s" by (simp add: map_idI)
    with False show ?thesis by (simp add: touch_stage_def)
  qed (simp add: touch_stage_def)
  with s show ?thesis by auto
next
  case False
  then have none: "\<not> p s t" if "s \<in> set (jr_stages j)" "t \<in> set (sg_tasks s)" for s t using that by (auto simp: list_ex_iff)
  from False assms have "t' \<in> set (job_tasks j)" by (simp add: touch_job_def)
  then obtain s where "s \<in> set (jr_stages j)" "t' \<in> set (sg_tasks s)" by auto
  with none show ?thesis by (intro bexI [of _ s] bexI [of _ t']) auto
qed

lemma lose_executor_fences:
  assumes "\<forall>t \<in> set (job_tasks j). tr_assigned_executor t = Some e \<longrightarrow> tr_state t \<notin> {TaskPending, TaskRetrying}"
  shows "fenced e (lose_executor fc al e j)"
proof -
  let ?j1 = "touch_job (\<lambda>_. held_by_lost fc al e) lose_task (bump_recovery_epoch j)"
  have "fenced e ?j1"
    unfolding fenced_def
  proof (intro ballI impI)
    fix t' assume t': "t' \<in> set (job_tasks ?j1)" "tr_assigned_executor t' = Some e"
    from touch_job_tasks [OF t'(1)] obtain t where t: "t \<in> set (job_tasks j)"
      "t' = (if held_by_lost fc al e t then lose_task t else t)" by (auto simp: bump_recovery_epoch_def)
    have "\<not> held_by_lost fc al e t" using t'(2) t(2) by (auto simp: lose_task_def Let_def split: if_splits)
    with t t'(2) assms show "task_is_terminal (tr_state t')"
      by (cases "tr_state t") (auto simp: held_by_lost_def)
  qed
  from fenced_rel [OF invalidate_executor_rel, of e "{}"] this show ?thesis by (simp add: lose_executor_def)
qed

lemma job_update_applied:
  assumes "job_apply_task_update now j u = (j', Inr Applied)"
  shows "\<exists>t \<in> set (job_tasks j). task_id_of t = tu_task_id u \<and> tr_attempt t = tu_attempt u
    \<and> tr_assigned_executor t = Some (tu_executor_id u) \<and> \<not> task_is_terminal (tr_state t)"
proof -
  from job_update_cases [OF assms] obtain i s where i: "position (\<lambda>s. stage_id_of s = tu_stage_id u) (jr_stages j) = Some i"
    and s: "stage_apply_task_update now (policy_of j) (jr_stages j ! i) u = (s, Inr Applied)" by auto
  from s obtain k where k: "position (\<lambda>t. task_id_of t = tu_task_id u) (sg_tasks (jr_stages j ! i)) = Some k"
    by (auto simp: stage_apply_task_update_def split: option.splits)
  obtain t r where t: "apply_status_update now (sg_tasks (jr_stages j ! i) ! k) u = (t, r)" by fastforce
  from s k t have "r = Inr Applied" by (auto simp: stage_apply_task_update_def split: sum.splits task_update_outcome.splits)
  note st = status_applied [OF t [unfolded this]]
  have "jr_stages j ! i \<in> set (jr_stages j)" "sg_tasks (jr_stages j ! i) ! k \<in> set (sg_tasks (jr_stages j ! i))"
    using position_Some [OF k] position_Some [OF i] by simp_all
  then have "sg_tasks (jr_stages j ! i) ! k \<in> set (job_tasks j)" by auto
  with st position_Some [OF k] show ?thesis by blast
qed


definition demo_running :: "nat job_op list" where
  "demo_running = [DoAssign 10 [\<lparr>ta_task_id = ''m0'', ta_executor_id = ''e1''\<rparr>], DoLaunch demo_inputs,
     DoUpdate 20 (demo_report ''map'' ''m0'' TaskRunning 1)]"

lemmas demo_loss_defs = demo_running_def lose_executor_def touch_job_def touch_stage_def held_by_lost_def bump_recovery_epoch_def
  lose_task_def MAX_EXECUTOR_LOSSES_BEFORE_FAIL_def invalidate_executor_shuffle_partitions_def invalidate_stage_def
  invalidate_task_def


section \<open>What a status report can do\<close>

lemma stage_update_duplicate:
  assumes "stage_apply_task_update now rp s u = (s', Inr Duplicate)"
  shows "s' = s"
proof -
  from assms obtain k where k: "position (\<lambda>t. task_id_of t = tu_task_id u) (sg_tasks s) = Some k"
    by (auto simp: stage_apply_task_update_def split: option.splits)
  obtain t r where t: "apply_status_update now (sg_tasks s ! k) u = (t, r)" by fastforce
  from assms k t have "r = Inr Duplicate" "s' = s\<lparr>sg_tasks := (sg_tasks s)[k := t]\<rparr>"
    by (auto simp: stage_apply_task_update_def Let_def split: sum.splits task_update_outcome.splits if_splits prod.splits)
  with status_duplicate_unchanged [of now "sg_tasks s ! k" u t] t show ?thesis by simp
qed

text \<open>What the record does with a report, on every path of the record's own operation.\<close>

lemma record_report_outcomes:
  "case coordinator_task_update now j u of
     (j', Inl e) \<Rightarrow> j' = j
   | (j', Inr Duplicate) \<Rightarrow> jr_stages j' = jr_stages j
   | (j', Inr Applied) \<Rightarrow> \<not> job_is_terminal (jr_state j) \<and>
       (\<exists>t \<in> set (job_tasks j). task_id_of t = tu_task_id u \<and> tr_attempt t = tu_attempt u
          \<and> tr_assigned_executor t = Some (tu_executor_id u) \<and> \<not> task_is_terminal (tr_state t))"
proof (cases "job_is_terminal (jr_state j)")
  case True
  then show ?thesis by (simp add: coordinator_task_update_def)
next
  case False
  obtain j' r where u: "job_apply_task_update now j u = (j', r)" by fastforce
  have dup: "jr_stages j' = jr_stages j" if "r = Inr Duplicate"
  proof -
    from job_update_cases [OF u] that obtain i s where
      "stage_apply_task_update now (policy_of j) (jr_stages j ! i) u = (s, Inr Duplicate)" "jr_stages j' = (jr_stages j)[i := s]"
      by auto
    with stage_update_duplicate show ?thesis by (metis list_update_id)
  qed
  have "coordinator_task_update now j u = (j', r)" using False u by (simp add: coordinator_task_update_def)
  then show ?thesis
    using False dup job_update_error_unchanged [of now j u j'] job_update_applied [of now j u j'] u
    by (auto split: sum.split task_update_outcome.split)
qed

section \<open>Lost shuffle output is regenerated a bounded number of times\<close>

definition regen_at :: "string \<times> nat \<Rightarrow> (string \<times> nat, shuffle_regen_attempt) amap \<Rightarrow> nat" where
  "regen_at k m = (case map_of m k of None \<Rightarrow> 0 | Some a \<Rightarrow> ra_attempts a)"

definition regen_attempts :: "job_record \<Rightarrow> string \<times> nat \<Rightarrow> nat" where
  "regen_attempts j k = regen_at k (jr_shuffle_regen j)"

fun regenerates :: "string \<times> nat \<Rightarrow> job_record \<Rightarrow> 'rb job_op \<Rightarrow> bool" where
  "regenerates k j (DoRegen missing max_regen) =
     (snd (invalidate_specific_shuffle_partitions j missing max_regen) = Regenerated \<and> k \<in> fst ` set (diagnoses_of j missing))"
| "regenerates k j _ = False"

lemma touch_job_regen [simp]: "jr_shuffle_regen (touch_job p f j) = jr_shuffle_regen j"
  by (simp add: touch_job_def)

lemma invalidate_executor_regen [simp]: "jr_shuffle_regen (fst (invalidate_executor_shuffle_partitions j e)) = jr_shuffle_regen j"
  by (simp add: invalidate_executor_shuffle_partitions_def Let_def split: prod.split)

lemma audit_regen [simp]: "jr_shuffle_regen (audit_shuffle_availability known j) = jr_shuffle_regen j"
proof -
  have "jr_shuffle_regen (foldl (\<lambda>j e. fst (invalidate_executor_shuffle_partitions j e)) k es) = jr_shuffle_regen k" for k es
    by (induction es arbitrary: k) simp_all
  then show ?thesis by (simp add: audit_shuffle_availability_def Let_def)
qed

lemma step_regen:
  assumes "\<forall>missing n. x \<noteq> DoRegen missing n"
  shows "jr_shuffle_regen (fst (job_step fc al nr j x)) = jr_shuffle_regen j"
proof (cases x)
  case (DoLaunch li)
  obtain j' r where l: "launch_assigned_task_assignments fc nr li j = (j', r)" by fastforce
  with launch_job_cases [OF l] DoLaunch show ?thesis by (auto split: sum.split)
next
  case (DoUpdate now u)
  obtain j' r where u: "job_apply_task_update now j u = (j', r)" by fastforce
  from job_update_cases [OF u] have "jr_shuffle_regen j' = jr_shuffle_regen j" by auto
  with DoUpdate u show ?thesis by (simp add: coordinator_task_update_def)
next
  case (DoStall now sid tid a reason)
  then show ?thesis by (auto simp: apply_stall_failure_def Let_def split: option.split prod.split sum.split)
next
  case (DoStreaming now e sid st)
  then show ?thesis by (simp add: apply_streaming_task_state_def Let_def split: option.split)
next
  case (DoRescue tid)
  then show ?thesis by (auto simp: rescue_failed_continuous_task_def bump_recovery_epoch_def Let_def split: prod.split)
next
  case (DoRegen missing n)
  with assms show ?thesis by blast
qed (simp_all add: mark_queued_def mark_admitted_def apply_assignments_def lose_executor_def bump_recovery_epoch_def
      clear_assignments_for_bad_executor_def reset_stuck_assigned_tasks_def apply_speculation_preempt_def
      normalize_recovered_launch_state_def abort_continuous_input_cycle_def complete_continuous_input_cycle_def
      clear_launch_in_flight_for_job_def clear_launch_in_flight_for_task_def reopen_launches_def refresh_progress_for_running_tasks_def stamp_pending_tasks_def
      reconcile_latched_job_def cancel_job_def job_cancel_def finalize_staged_sink_outputs_def mark_sink_publish_committed_def mark_sink_publish_failed_def)

lemma record_regen_all:
  assumes "regen_at k m \<le> u32_max"
  shows "regen_at k m \<le> regen_at k (foldl (record_regen epoch) m kds) \<and> regen_at k (foldl (record_regen epoch) m kds) \<le> u32_max
    \<and> (k \<in> fst ` set kds \<longrightarrow> regen_at k m < u32_max \<longrightarrow> regen_at k m < regen_at k (foldl (record_regen epoch) m kds))"
  using assms
proof (induction kds arbitrary: m)
  case (Cons kd kds)
  have same: "fst kd \<noteq> k \<Longrightarrow> regen_at k (record_regen epoch m kd) = regen_at k m"
    by (simp add: regen_at_def record_regen_def amap_alter_def)
  have next_at: "fst kd = k \<Longrightarrow> regen_at k (record_regen epoch m kd) = saturating_add_u32 (regen_at k m) 1"
    by (auto simp: regen_at_def record_regen_def amap_alter_def split: option.split)
  show ?case
  proof (cases "fst kd = k")
    case False
    with Cons.IH [of "record_regen epoch m kd"] Cons.prems same show ?thesis by auto
  next
    case True
    have le: "regen_at k m \<le> saturating_add_u32 (regen_at k m) 1" "saturating_add_u32 (regen_at k m) 1 \<le> u32_max"
      "regen_at k m < u32_max \<Longrightarrow> regen_at k m < saturating_add_u32 (regen_at k m) 1"
      using saturating_add_u32_le [OF Cons.prems, of 1] saturating_add_u32_Suc [of "regen_at k m"] by simp_all
    from Cons.IH [of "record_regen epoch m kd"] next_at [OF True] le(2)
    have "saturating_add_u32 (regen_at k m) 1 \<le> regen_at k (foldl (record_regen epoch) m (kd # kds))"
      "regen_at k (foldl (record_regen epoch) m (kd # kds)) \<le> u32_max" by simp_all
    with le show ?thesis by linarith
  qed
qed simp

lemma regen_step_attempts:
  assumes "regen_attempts j k \<le> u32_max" and "R \<le> u32_max" "0 < R" and "\<And>missing n. x = DoRegen missing n \<Longrightarrow> n \<le> R"
  shows "regen_attempts (fst (job_step fc al nr j x)) k \<le> u32_max
    \<and> regen_attempts j k \<le> regen_attempts (fst (job_step fc al nr j x)) k
    \<and> (regenerates k j x \<longrightarrow> regen_attempts j k < R \<and> regen_attempts j k < regen_attempts (fst (job_step fc al nr j x)) k)"
proof (cases "\<exists>missing n. x = DoRegen missing n")
  case False
  then have "\<not> regenerates k j x" by (cases x) simp_all
  with False step_regen [of x fc al nr j] assms(1) show ?thesis by (simp add: regen_attempts_def)
next
  case True
  then obtain missing n where x: "x = DoRegen missing n" by blast
  let ?ds = "diagnoses_of j missing"
  obtain j' oc where i: "invalidate_specific_shuffle_partitions j missing n = (j', oc)" by fastforce
  show ?thesis
  proof (cases "oc = Regenerated")
    case False
    with i have "j' = j" by (auto simp: invalidate_specific_shuffle_partitions_def Let_def split: if_splits option.splits prod.splits)
    with False x i assms(1) show ?thesis by simp
  next
    case True
    note unf = i [unfolded invalidate_specific_shuffle_partitions_def Let_def True]
    from unf have r: "jr_shuffle_regen j' = foldl (record_regen (jr_recovery_epoch j)) (jr_shuffle_regen j) ?ds"
      by (auto split: if_splits option.splits prod.splits)
    from unf have none: "List.find (\<lambda>kd. case map_of (jr_shuffle_regen j) (fst kd) of
          None \<Rightarrow> False | Some attempt \<Rightarrow> ra_attempts attempt \<ge> n) ?ds = None"
      by (auto split: if_splits option.splits prod.splits)
    have "regen_attempts j k < R" if "k \<in> fst ` set ?ds"
    proof -
      from that obtain kd where "kd \<in> set ?ds" "fst kd = k" by auto
      with none have "\<not> (case map_of (jr_shuffle_regen j) k of None \<Rightarrow> False | Some a \<Rightarrow> ra_attempts a \<ge> n)"
        unfolding find_None_iff by blast
      with assms(3) assms(4) [of missing n] x show ?thesis by (auto simp: regen_attempts_def regen_at_def split: option.splits)
    qed
    moreover have "regenerates k j x \<longleftrightarrow> k \<in> fst ` set ?ds" "fst (job_step fc al nr j x) = j'" using x i True by simp_all
    ultimately show ?thesis
      using record_regen_all [of k "jr_shuffle_regen j" "jr_recovery_epoch j" ?ds] assms(1,2) r unfolding regen_attempts_def
      by (metis order_less_le_trans)
  qed
qed

definition demo_output :: task_output_metadata where
  "demo_output = \<lparr>om_output_kind = ''shuffle'', om_row_count = 1,
     om_shuffle_partitions = [\<lparr>sp_partition_id = 0, sp_size_bytes = 8, sp_flight_endpoint = ''h1''\<rparr>],
     om_runtime_stats = None\<rparr>"

definition demo_done :: "nat job_op list" where
  "demo_done = demo_running @ [DoUpdate 30 ((demo_report ''map'' ''m0'' TaskSucceeded 1)\<lparr>tu_output_metadata := Some demo_output\<rparr>)]"

lemmas demo_done_defs = demo_done_def demo_running_def demo_output_def demo_defs demo_launch_defs demo_update_defs
  amap_alter_def mark_available_def

section \<open>Two windows in which a finished job is reopened\<close>

lemma status_duplicate:
  assumes "tr_attempt t \<noteq> 0" "tu_attempt u = tr_attempt t" "tr_assigned_executor t = Some (tu_executor_id u)" "tu_state u = tr_state t"
  shows "apply_status_update now t u = (t, Inr Duplicate)"
  using assms by (simp add: apply_status_update_def)

text \<open>
  C38. The publish window can be skipped. While a finished batch job publishes its staged output
  (state committing), a repeated success report of one of its tasks is only a duplicate, yet it moves
  the job to succeeded; the outcome of the publish, committed or failed, is then ignored.
\<close>

theorem duplicate_report_ends_publish_window:
  assumes "jr_state j = JobCommitting" "js_kind (jr_spec j) = BatchJob" "\<forall>s \<in> set (jr_stages j). sg_state s = StageSucceeded"
    and "position (\<lambda>s. stage_id_of s = tu_stage_id u) (jr_stages j) = Some i"
    and "position (\<lambda>t. task_id_of t = tu_task_id u) (sg_tasks (jr_stages j ! i)) = Some k"
    and "t = sg_tasks (jr_stages j ! i) ! k" "tr_attempt t \<noteq> 0" "tr_state t = TaskSucceeded"
    and "tu_state u = TaskSucceeded" "tu_attempt u = tr_attempt t" "tr_assigned_executor t = Some (tu_executor_id u)"
  shows "coordinator_task_update now j u = (j\<lparr>jr_state := JobSucceeded\<rparr>, Inr Duplicate)
    \<and> mark_sink_publish_failed (j\<lparr>jr_state := JobSucceeded\<rparr>) = j\<lparr>jr_state := JobSucceeded\<rparr>"
proof -
  have "apply_status_update now t u = (t, Inr Duplicate)" using assms(7-11) by (simp add: status_duplicate)
  then have "stage_apply_task_update now (policy_of j) (jr_stages j ! i) u = (jr_stages j ! i, Inr Duplicate)"
    using assms(5,6) by (simp add: stage_apply_task_update_def)
  moreover have "job_state_of BatchJob (map sg_state (jr_stages j)) = JobSucceeded"
    using assms(3) by (auto simp: job_state_of_def list_ex_iff list_all_iff)
  ultimately have "job_apply_task_update now j u = (j\<lparr>jr_state := JobSucceeded\<rparr>, Inr Duplicate)"
    using assms(2,4) by (simp add: job_apply_task_update_def Let_def job_refresh_state_def split: option.split)
  with assms(1) show ?thesis by (simp add: coordinator_task_update_def mark_sink_publish_failed_def)
qed

definition demo_one_spec :: job_spec where
  "demo_one_spec = with_stage (job_spec_new ''q'' ''query'' BatchJob)
     (with_task (stage_spec_new ''map'' ''map'') (task_spec_new ''m0'' ''scan''))"

definition demo_committing :: job_record where
  "demo_committing = fst (job_run demo_codec True id (job_from_spec demo_one_spec 0) (demo_done @ [DoFinalize True]))"

lemma demo_committing_eq:
  "jr_state demo_committing = JobCommitting \<and> js_kind (jr_spec demo_committing) = BatchJob
   \<and> map (\<lambda>s. (stage_id_of s, sg_state s, map (\<lambda>t. (task_id_of t, tr_attempt t, tr_state t, tr_assigned_executor t)) (sg_tasks s)))
        (jr_stages demo_committing)
     = [(''map'', StageSucceeded, [(''m0'', 1, TaskSucceeded, Some ''e1'')])]"
  by (simp add: demo_committing_def demo_one_spec_def demo_done_defs finalize_staged_sink_outputs_def)

theorem duplicate_report_ends_publish_window_witness:
  "jr_state demo_committing = JobCommitting
   \<and> jr_state (fst (coordinator_task_update 60 demo_committing (demo_report ''map'' ''m0'' TaskSucceeded 1))) = JobSucceeded
   \<and> jr_state (mark_sink_publish_failed (fst (coordinator_task_update 60 demo_committing (demo_report ''map'' ''m0'' TaskSucceeded 1))))
       = JobSucceeded"
proof -
  obtain s t where s: "jr_stages demo_committing = [s]" "sg_tasks s = [t]" "stage_id_of s = ''map''" "sg_state s = StageSucceeded"
    "task_id_of t = ''m0''" "tr_attempt t = 1" "tr_state t = TaskSucceeded" "tr_assigned_executor t = Some ''e1''"
    using demo_committing_eq by (auto simp: map_eq_Cons_conv)
  have j: "jr_state demo_committing = JobCommitting" "js_kind (jr_spec demo_committing) = BatchJob" using demo_committing_eq by simp_all
  have "coordinator_task_update 60 demo_committing (demo_report ''map'' ''m0'' TaskSucceeded 1)
      = (demo_committing\<lparr>jr_state := JobSucceeded\<rparr>, Inr Duplicate)
    \<and> mark_sink_publish_failed (demo_committing\<lparr>jr_state := JobSucceeded\<rparr>) = demo_committing\<lparr>jr_state := JobSucceeded\<rparr>"
    by (rule duplicate_report_ends_publish_window [OF j, where i = 0 and k = 0 and t = t]) (simp_all add: s demo_report_def)
  with j show ?thesis by simp
qed

text \<open>Losing an executor resets the succeeded tasks whose remote shuffle output it served.\<close>

lemma invalidate_stages_affected:
  assumes "inval_ok inval" and "invalidate_stages inval reason keyed ss out = (ss', out', b)"
    and "\<forall>s \<in> set ss. sg_state s = StageSucceeded" and "\<forall>s \<in> set ss. \<forall>t \<in> set (sg_tasks s). tr_state t = TaskSucceeded"
  shows "b = (\<exists>s \<in> set ss. \<exists>t \<in> set (sg_tasks s). snd (inval s t) \<noteq> [])
    \<and> sg_state ` set ss' \<subseteq> {StageSucceeded, StagePending} \<and> (b \<longrightarrow> StagePending \<in> sg_state ` set ss')"
  using assms(2-4)
proof (induction ss arbitrary: out ss' out' b)
  case (Cons s ss)
  obtain s1 o1 b1 where i: "invalidate_stage inval reason keyed s out = (s1, o1, b1)" by (metis prod.exhaust)
  obtain ss2 o2 b2 where r: "invalidate_stages inval reason keyed ss o1 = (ss2, o2, b2)" by (metis prod.exhaust)
  from Cons.prems(1) i r have *: "ss' = s1 # ss2" "b = (b1 \<or> b2)" by auto
  let ?ts = "map (\<lambda>t. fst (inval s t)) (sg_tasks s)"
  have task: "tr_state (fst (inval s t)) = (if snd (inval s t) = [] then TaskSucceeded else TaskPending)" if "t \<in> set (sg_tasks s)" for t
    using assms(1) Cons.prems(3) that by (auto simp: inval_ok_def reset_task_def)
  have "b1 = (\<exists>t \<in> set (sg_tasks s). snd (inval s t) \<noteq> []) \<and> sg_state s1 = (if b1 then StagePending else StageSucceeded)"
  proof (cases "concat (map (\<lambda>t. snd (inval s t)) (sg_tasks s)) = []")
    case True
    have "\<not> b1" "sg_state s1 = sg_state s" using i unfolding invalidate_stage_def Let_def map_map comp_def if_P [OF True] by auto
    with True Cons.prems(2) show ?thesis by auto
  next
    case False
    have "b1" "s1 = stage_refresh_state (s\<lparr>sg_tasks := ?ts\<rparr>)"
      using i unfolding invalidate_stage_def Let_def map_map comp_def if_not_P [OF False] by auto
    moreover from False obtain t where t: "t \<in> set (sg_tasks s)" "snd (inval s t) \<noteq> []" by auto
    moreover have "stage_state_of (map tr_state ?ts) = StagePending"
    proof -
      have "TaskPending \<in> set (map tr_state ?ts)" using t task [OF t(1)] by force
      moreover have "set (map tr_state ?ts) \<subseteq> {TaskSucceeded, TaskPending}" using task by auto
      ultimately show ?thesis unfolding stage_state_of_def list_all_iff list_ex_iff by auto
    qed
    ultimately show ?thesis by (auto simp: stage_refresh_state_def)
  qed
  with Cons.IH [OF r] Cons.prems(2,3) * show ?case by auto
qed simp

lemma not_list_all: "y \<in> set xs \<Longrightarrow> \<not> P y \<Longrightarrow> \<not> list_all P xs"
  by (auto simp: list_all_iff)

text \<open>
  C39. A finished job can be reopened by a late executor loss. When an executor is lost after a batch
  job succeeded and it served remote shuffle output of one of the job's tasks (none of them a
  continuous task), the job leaves its terminal state and runs again.
\<close>

theorem lost_executor_reopens_finished_job:
  assumes "jr_state j = JobSucceeded" "\<forall>s \<in> set (jr_stages j). sg_state s = StageSucceeded"
    and "\<forall>t \<in> set (job_tasks j). tr_state t = TaskSucceeded \<and> \<not> is_loop_task fc al t"
    and "t \<in> set (job_tasks j)" "tr_assigned_executor t = Some e" "has_remote_shuffle t"
  shows "jr_state (lose_executor fc al e j) = JobRunning"
proof -
  let ?j = "bump_recovery_epoch j"
  have st: "jr_stages ?j = jr_stages j" "jr_spec ?j = jr_spec j" by (simp_all add: bump_recovery_epoch_def)
  have "touch_job (\<lambda>_. held_by_lost fc al e) lose_task ?j = ?j"
    using assms(3) by (auto simp: touch_job_def st list_ex_iff held_by_lost_def)
  then have l: "lose_executor fc al e j = fst (invalidate_executor_shuffle_partitions ?j e)" by (simp add: lose_executor_def)
  let ?inval = "\<lambda>s. invalidate_task (job_id_of j) (stage_id_of s) e"
  obtain ss out b where i: "invalidate_stages ?inval ''executor lost''
      (\<lambda>sid. is_ok (id_try_new ''stage id'' sid)) (jr_stages j) (jr_shuffle_output ?j) = (ss, out, b)" by (metis prod.exhaust)
  from assms(4) obtain s where s: "s \<in> set (jr_stages j)" "t \<in> set (sg_tasks s)" by auto
  have "snd (?inval s t) \<noteq> []"
    using assms(3-6) by (auto simp: invalidate_task_def has_remote_shuffle_def Let_def list_ex_iff filter_empty_conv split: option.splits)
  with s invalidate_stages_affected [OF inval_ok_task i assms(2)] assms(3)
  have b: "b" "sg_state ` set ss \<subseteq> {StageSucceeded, StagePending}" "StagePending \<in> sg_state ` set ss" by auto
  have "\<not> list_ex (\<lambda>s. s = StageFailed) (map sg_state ss)" "\<not> list_all (\<lambda>s. s = StageSucceeded) (map sg_state ss)"
    using b(2) not_list_all [of StagePending "map sg_state ss"] b(3) by (auto simp: list_ex_iff)
  then have "job_state_of k (map sg_state ss) = JobRunning" for k by (simp add: job_state_of_def)
  with i b(1) show ?thesis by (simp add: l invalidate_executor_shuffle_partitions_def st job_refresh_state_def)
qed

definition demo_finished :: job_record where
  "demo_finished = fst (job_run demo_codec True id (job_from_spec demo_one_spec 0) demo_done)"

theorem lost_executor_reopens_finished_job_witness:
  "jr_state demo_finished = JobSucceeded \<and> jr_state (lose_executor demo_codec True ''e1'' demo_finished) = JobRunning"
proof -
  have f: "jr_state demo_finished = JobSucceeded" "\<forall>s \<in> set (jr_stages demo_finished). sg_state s = StageSucceeded"
    "\<forall>t \<in> set (job_tasks demo_finished). tr_state t = TaskSucceeded \<and> \<not> is_loop_task demo_codec True t"
    "\<exists>t \<in> set (job_tasks demo_finished). tr_assigned_executor t = Some ''e1'' \<and> has_remote_shuffle t"
    by (simp_all add: demo_finished_def demo_one_spec_def demo_done_defs is_loop_task_def task_body_for_profile_def
        decode_for_profile_def trim_def trim_end.simps ws_last_def has_remote_shuffle_def)
  with lost_executor_reopens_finished_job [OF f(1-3)] show ?thesis by blast
qed

end
