(* ===== verification/JobLife.thy ===== *)
theory JobLife
  imports JobStore JobFaults
begin

text \<open>
  The life of a job record beyond \<open>job_op\<close>. Three operations are added to it here: replacing the
  unlaunched tasks of a stage at a stage boundary (\<open>coordinator/aqe.rs\<close>), preparing an input cycle of a
  continuous job (\<open>task_assignment.rs\<close>) and rebuilding the record from the store after a restart
  (\<open>store.rs\<close>). Proved over every sequence of all operations: what stays well formed, how many failures
  the accounting absorbs and how often a shuffle partition is regenerated.
\<close>

section \<open>Replacing the tasks of a stage\<close>

text \<open>
  What the record must satisfy for a stage to be rewritten. Reading the plan bodies and choosing the
  new ones is the planner's part: its fragments come as an argument.
\<close>

definition aqe_rewritable :: "job_record \<Rightarrow> stage_record \<Rightarrow> bool" where
  "aqe_rewritable j s \<longleftrightarrow> js_kind (jr_spec j) \<noteq> StreamingJob \<and> ss_kind (sg_spec s) = ResultStage \<and> sg_tasks s \<noteq> []
     \<and> list_all (\<lambda>t. (tr_state t = TaskPending \<or> tr_state t = TaskAssigned) \<and> \<not> tr_launch_in_flight t
          \<and> ts_shuffle_write (tr_spec t) = None \<and> ts_shuffle_read (tr_spec t) = None \<and> ts_sink_contract (tr_spec t) = None) (sg_tasks s)
     \<and> ss_upstream_stage_ids (sg_spec s) \<noteq> []
     \<and> list_all (\<lambda>up. case List.find (\<lambda>u. stage_id_of u = up) (jr_stages j) of
            None \<Rightarrow> False | Some u \<Rightarrow> sg_state u = StageSucceeded) (ss_upstream_stage_ids (sg_spec s))"

definition aqe_task :: "string \<Rightarrow> nat \<times> string \<Rightarrow> task_record" where
  "aqe_task stage_id x = (case x of (index, fragment) \<Rightarrow>
     task_from_spec (task_spec_new (stage_id @ ''-aqe-'' @ show_nat index) fragment))"

definition apply_stage_rewrite :: "string \<Rightarrow> string list \<Rightarrow> job_record \<Rightarrow> job_record" where
  "apply_stage_rewrite stage_id fragments j =
     (case position (\<lambda>s. stage_id_of s = stage_id) (jr_stages j) of
        None \<Rightarrow> j
      | Some i \<Rightarrow>
          if aqe_rewritable j (jr_stages j ! i)
          then j\<lparr>jr_stages := (jr_stages j)[i := replace_tasks (jr_stages j ! i) (map (aqe_task stage_id) (enumerate 0 fragments))]\<rparr>
          else j)"

section \<open>Preparing an input cycle\<close>

definition not_idle :: "string \<Rightarrow> scheduler_error" where
  "not_idle job_id = InvalidJob (''continuous job '' @ job_id @ '' is not idle and ready for input'')"

text \<open>
  An error stops the loops where they are: the tasks prepared before it stay changed. The decoder's own
  message for a body it refuses is not modelled; a fixed text stands for it.
\<close>

fun prepare_tasks :: "frag_codec \<Rightarrow> bool \<Rightarrow> string \<Rightarrow> nat \<Rightarrow> task_record list \<Rightarrow> nat \<Rightarrow>
    task_record list \<times> (scheduler_error + nat)" where
  "prepare_tasks fc al job_id now_ms [] n = ([], Inr n)"
| "prepare_tasks fc al job_id now_ms (t # ts) n =
     (case task_body_for_profile fc al (ts_description (tr_spec t)) of
        None \<Rightarrow> (t # ts, Inl (InvalidJob ''undecodable task body''))
      | Some body \<Rightarrow>
          if \<not> starts_with body ''stream:loop:'' then
            (case prepare_tasks fc al job_id now_ms ts n of (ts', r) \<Rightarrow> (t # ts', r))
          else if tr_assigned_executor t = None \<or> tr_launch_in_flight t
            \<or> (tr_state t \<noteq> TaskRunning \<and> tr_state t \<noteq> TaskSucceeded \<and> tr_state t \<noteq> TaskAssigned)
          then (t # ts, Inl (not_idle job_id))
          else
            (case prepare_tasks fc al job_id now_ms ts (saturating_add_u64 n 1) of
               (ts', r) \<Rightarrow> (t\<lparr>tr_state := TaskAssigned, tr_output_metadata := None, tr_assigned_at_ms := Some now_ms,
                              tr_last_progress_ms := None\<rparr> # ts', r)))"

fun prepare_stages :: "frag_codec \<Rightarrow> bool \<Rightarrow> string \<Rightarrow> nat \<Rightarrow> stage_record list \<Rightarrow> nat \<Rightarrow>
    stage_record list \<times> (scheduler_error + nat)" where
  "prepare_stages fc al job_id now_ms [] n = ([], Inr n)"
| "prepare_stages fc al job_id now_ms (s # ss) n =
     (case prepare_tasks fc al job_id now_ms (sg_tasks s) n of
        (ts, Inl err) \<Rightarrow> (s\<lparr>sg_tasks := ts\<rparr> # ss, Inl err)
      | (ts, Inr m) \<Rightarrow>
          (case prepare_stages fc al job_id now_ms ss m of (ss', r) \<Rightarrow> (stage_refresh_state (s\<lparr>sg_tasks := ts\<rparr>) # ss', r)))"

definition prepare_continuous_input_cycle :: "frag_codec \<Rightarrow> bool \<Rightarrow> nat \<Rightarrow> job_record \<Rightarrow> job_record \<times> (scheduler_error + unit)" where
  "prepare_continuous_input_cycle fc al now_ms j =
     (if js_kind (jr_spec j) \<noteq> StreamingJob
      then (j, Inl (InvalidJob (''job '' @ job_id_of j @ '' is not a streaming job'')))
      else
        (case prepare_stages fc al (job_id_of j) now_ms (jr_stages j) 0 of
           (ss, Inl err) \<Rightarrow> (j\<lparr>jr_stages := ss\<rparr>, Inl err)
         | (ss, Inr n) \<Rightarrow>
             if n \<noteq> 1 then
               (j\<lparr>jr_stages := ss\<rparr>, Inl (InvalidJob (''continuous job '' @ job_id_of j
                  @ '' must contain exactly one stream:loop task; found '' @ show_nat n)))
             else (job_refresh_state (j\<lparr>jr_stages := ss\<rparr>), Inr ())))"

section \<open>Runs\<close>

datatype 'rb coord_op =
    Own "'rb job_op"
  | Rewrite string "string list"
  | PrepareCycle nat
  | Restart

fun coord_step :: "frag_codec \<Rightarrow> bool \<Rightarrow> ('rb \<Rightarrow> nat) \<Rightarrow> job_record \<Rightarrow> 'rb coord_op \<Rightarrow> job_record" where
  "coord_step fc al nr j (Own x) = fst (job_step fc al nr j x)"
| "coord_step fc al nr j (Rewrite sid fragments) = apply_stage_rewrite sid fragments j"
| "coord_step fc al nr j (PrepareCycle now) = fst (prepare_continuous_input_cycle fc al now j)"
| "coord_step fc al nr j Restart = restored_job j"

abbreviation coord_run :: "frag_codec \<Rightarrow> bool \<Rightarrow> ('rb \<Rightarrow> nat) \<Rightarrow> job_record \<Rightarrow> 'rb coord_op list \<Rightarrow> job_record" where
  "coord_run fc al nr \<equiv> foldl (coord_step fc al nr)"

text \<open>Whether every input cycle of a run was prepared without an error.\<close>

fun cycles_prepared :: "frag_codec \<Rightarrow> bool \<Rightarrow> ('rb \<Rightarrow> nat) \<Rightarrow> job_record \<Rightarrow> 'rb coord_op list \<Rightarrow> bool" where
  "cycles_prepared fc al nr j [] = True"
| "cycles_prepared fc al nr j (x # xs) =
     ((case x of PrepareCycle now \<Rightarrow> is_ok (snd (prepare_continuous_input_cycle fc al now j)) | _ \<Rightarrow> True)
      \<and> cycles_prepared fc al nr (coord_step fc al nr j x) xs)"

section \<open>Well-formedness\<close>

text \<open>The tasks of a stage are those of its specification or the numbered ones of a rewrite.\<close>

definition tasks_named :: "stage_record \<Rightarrow> bool" where
  "tasks_named s \<longleftrightarrow> map tr_spec (sg_tasks s) = ss_tasks (sg_spec s)
     \<or> map task_id_of (sg_tasks s) = map (\<lambda>i. stage_id_of s @ ''-aqe-'' @ show_nat i) [0..<length (sg_tasks s)]"

definition well_formed :: "job_record \<Rightarrow> bool" where
  "well_formed j \<longleftrightarrow> job_shape j \<and> list_all tasks_named (jr_stages j)"

lemma named_same:
  assumes "tasks_named s" and "map tr_spec (sg_tasks s') = map tr_spec (sg_tasks s)" and "sg_spec s' = sg_spec s"
  shows "tasks_named s'"
proof -
  have "map task_id_of (sg_tasks s') = map ts_task_id (map tr_spec (sg_tasks s'))" by simp
  also have "\<dots> = map task_id_of (sg_tasks s)" unfolding assms(2) by simp
  finally have "map task_id_of (sg_tasks s') = map task_id_of (sg_tasks s)" .
  moreover have "length (sg_tasks s') = length (sg_tasks s)" using arg_cong [OF assms(2), of length] by simp
  ultimately show ?thesis using assms by (simp add: tasks_named_def)
qed

lemma own_well_formed: "well_formed j \<Longrightarrow> well_formed (fst (job_step fc al nr j x))"
proof -
  assume w: "well_formed j"
  obtain j' as where s: "job_step fc al nr j x = (j', as)" by fastforce
  have "list_all tasks_named ss \<longrightarrow> list_all tasks_named ss'" if "list_all2 stage_kept ss ss'" for ss ss'
    using that by (induction rule: list_all2_induct) (auto simp: stage_kept_def intro: named_same)
  with step_kept [OF s] step_shape [OF s] w s show ?thesis by (auto simp: well_formed_def)
qed

lemma rewrite_stage_ok:
  "stage_shape s \<Longrightarrow> stage_shape (replace_tasks s (map (aqe_task sid) xs))"
  by (auto simp: stage_shape_def replace_tasks_def list_all_iff aqe_task_def task_from_spec_def task_ok_def split: prod.split)

lemma rewrite_named: "tasks_named (replace_tasks s (map (aqe_task (stage_id_of s)) (enumerate 0 fragments)))"
proof -
  have "task_id_of (aqe_task sid x) = sid @ ''-aqe-'' @ show_nat (fst x)" for sid x
    by (cases x) (simp add: aqe_task_def task_from_spec_def task_spec_new_def)
  then have "map task_id_of (map (aqe_task sid) (enumerate 0 fragments))
      = map (\<lambda>i. sid @ ''-aqe-'' @ show_nat i) (map fst (enumerate 0 fragments))" for sid
    unfolding map_map by (intro map_cong) simp_all
  then show ?thesis by (simp add: tasks_named_def replace_tasks_def)
qed

lemma rewrite_cases:
  obtains (none) "apply_stage_rewrite sid fragments j = j"
  | (rewritten) i where "i < length (jr_stages j)" "stage_id_of (jr_stages j ! i) = sid" "aqe_rewritable j (jr_stages j ! i)"
      "position (\<lambda>s. stage_id_of s = sid) (jr_stages j) = Some i"
      "apply_stage_rewrite sid fragments j
        = j\<lparr>jr_stages := (jr_stages j)[i := replace_tasks (jr_stages j ! i) (map (aqe_task sid) (enumerate 0 fragments))]\<rparr>"
proof (cases "position (\<lambda>s. stage_id_of s = sid) (jr_stages j)")
  case None
  then show ?thesis using none by (simp add: apply_stage_rewrite_def)
next
  case (Some i)
  with position_Some [OF Some] none rewritten show ?thesis
    by (cases "aqe_rewritable j (jr_stages j ! i)") (auto simp: apply_stage_rewrite_def)
qed

lemma rewrite_well_formed: "well_formed j \<Longrightarrow> well_formed (apply_stage_rewrite sid fragments j)"
proof (cases rule: rewrite_cases [of sid fragments j])
  case (rewritten i)
  assume w: "well_formed j"
  let ?s = "replace_tasks (jr_stages j ! i) (map (aqe_task sid) (enumerate 0 fragments))"
  have "stage_shape (jr_stages j ! i)" using w rewritten(1) by (simp add: well_formed_def job_shape_def list_all_length)
  note sh = rewrite_stage_ok [OF this, of sid "enumerate 0 fragments"]
  have nm: "tasks_named ?s" using rewrite_named [of "jr_stages j ! i" fragments] rewritten(2) by simp
  have "sg_spec ?s = sg_spec (jr_stages j ! i)" by (simp add: replace_tasks_def)
  then have "map sg_spec ((jr_stages j)[i := ?s]) = map sg_spec (jr_stages j)" by (metis list_update_id map_update)
  moreover have "list_all P (xs[i := x])" if "list_all P xs" "P x" for P and x :: stage_record and xs
    using that set_update_subset_insert [of xs i x] by (auto simp: list_all_iff)
  ultimately show ?thesis using w sh nm rewritten(5) by (simp add: well_formed_def job_shape_def)
qed simp

lemma rewrite_tidy: "job_tidy j \<Longrightarrow> job_tidy (apply_stage_rewrite sid fragments j)"
proof (cases rule: rewrite_cases [of sid fragments j])
  case (rewritten i)
  assume t: "job_tidy j"
  let ?s = "jr_stages j ! i" and ?s' = "replace_tasks (jr_stages j ! i) (map (aqe_task sid) (enumerate 0 fragments))"
  have "settled ?s" using t rewritten(1) by (simp add: job_tidy_def list_all_length)
  moreover obtain u us where u: "sg_tasks ?s = u # us"
    using rewritten(3) unfolding aqe_rewritable_def by (cases "sg_tasks ?s") blast+
  moreover have "tr_state u = TaskPending \<or> tr_state u = TaskAssigned"
    using rewritten(3) u by (simp add: aqe_rewritable_def)
  ultimately have "sg_state ?s \<noteq> StageSucceeded" by (auto simp: settled_def)
  then have "jr_state j \<noteq> JobSucceeded" "jr_state j \<noteq> JobCommitting"
    using t rewritten(1) by (auto simp: job_tidy_def concluded_def)
  moreover have "settled ?s'" by (simp add: replace_tasks_def)
  moreover have "list_all settled (xs[i := x])" if "list_all settled xs" "settled x" for x xs
    using that set_update_subset_insert [of xs i x] by (auto simp: list_all_iff)
  ultimately show ?thesis using t rewritten(5) by (simp add: job_tidy_def)
qed simp

lemma prepare_tasks_keeps:
  assumes "prepare_tasks fc al job now ts n = (ts', r)"
  shows "map tr_spec ts' = map tr_spec ts \<and> map tr_failure_count ts' = map tr_failure_count ts \<and> (list_all task_ok ts \<longrightarrow> list_all task_ok ts')"
  using assms
proof (induction ts arbitrary: n ts' r)
  case (Cons t ts)
  obtain a ra where a: "prepare_tasks fc al job now ts n = (a, ra)" by fastforce
  obtain b rb where b: "prepare_tasks fc al job now ts (saturating_add_u64 n 1) = (b, rb)" by fastforce
  from Cons.prems Cons.IH [OF a] Cons.IH [OF b] a b show ?case
    by (auto simp: task_ok_def split: option.splits if_splits)
qed simp

definition stage_prepared :: "stage_record \<Rightarrow> stage_record \<Rightarrow> bool" where
  "stage_prepared s s' \<longleftrightarrow> sg_spec s' = sg_spec s \<and> sg_retry_count s' = sg_retry_count s \<and> map tr_spec (sg_tasks s') = map tr_spec (sg_tasks s)
      \<and> map tr_failure_count (sg_tasks s') = map tr_failure_count (sg_tasks s)
      \<and> (list_all task_ok (sg_tasks s) \<longrightarrow> list_all task_ok (sg_tasks s'))"

lemma stage_prepared_refl [simp]: "stage_prepared s s"
  by (simp add: stage_prepared_def)

lemma prepare_stages_keeps:
  assumes "prepare_stages fc al job now ss n = (ss', r)"
  shows "list_all2 stage_prepared ss ss' \<and> (is_ok r \<longrightarrow> list_all settled ss')"
  using assms
proof (induction ss arbitrary: n ss' r)
  case (Cons s ss)
  obtain ts q where q: "prepare_tasks fc al job now (sg_tasks s) n = (ts, q)" by fastforce
  note k = prepare_tasks_keeps [OF q]
  show ?case
  proof (cases q)
    case (Inl err)
    with Cons.prems q k show ?thesis by (auto simp: list.rel_refl stage_prepared_def)
  next
    case (Inr m)
    obtain a ra where a: "prepare_stages fc al job now ss m = (a, ra)" by fastforce
    from Cons.prems Cons.IH [OF a] a q Inr k show ?thesis by (auto simp: stage_prepared_def)
  qed
qed simp

lemma prepare_keeps:
  assumes "prepare_continuous_input_cycle fc al now j = (j', r)"
  shows "jr_spec j' = jr_spec j \<and> jr_max_stage_retries j' = jr_max_stage_retries j \<and> jr_shuffle_regen j' = jr_shuffle_regen j
    \<and> list_all2 stage_prepared (jr_stages j) (jr_stages j') \<and> (is_ok r \<longrightarrow> job_tidy j')"
proof -
  obtain ss q where q: "prepare_stages fc al (job_id_of j) now (jr_stages j) 0 = (ss, q)" by fastforce
  from prepare_stages_keeps [OF q] assms q show ?thesis
    by (auto simp: prepare_continuous_input_cycle_def job_tidy_def list.rel_refl split: if_splits sum.splits)
qed

lemma prepare_well_formed: "well_formed j \<Longrightarrow> well_formed (fst (prepare_continuous_input_cycle fc al now j))"
proof -
  assume w: "well_formed j"
  obtain j' r where p: "prepare_continuous_input_cycle fc al now j = (j', r)" by fastforce
  have "map sg_spec ss' = map sg_spec ss \<and> (list_all stage_shape ss \<longrightarrow> list_all stage_shape ss')
      \<and> (list_all tasks_named ss \<longrightarrow> list_all tasks_named ss')" if "list_all2 stage_prepared ss ss'" for ss ss'
    using that by (induction rule: list_all2_induct) (auto simp: stage_prepared_def stage_shape_def intro: named_same)
  from this [of "jr_stages j" "jr_stages j'"] prepare_keeps [OF p] w p show ?thesis
    by (simp add: well_formed_def job_shape_def)
qed

lemma restart_well_formed: "well_formed j \<Longrightarrow> well_formed (restored_job j)"
proof -
  assume w: "well_formed j"
  have "tasks_named (restored_stage s)" if "tasks_named s" for s
    using that unfolding tasks_named_def
  proof
    assume "map tr_spec (sg_tasks s) = ss_tasks (sg_spec s)"
    then have "map restored_task_spec (map tr_spec (sg_tasks s)) = map restored_task_spec (ss_tasks (sg_spec s))" by (rule arg_cong)
    then show "map tr_spec (sg_tasks (restored_stage s)) = ss_tasks (sg_spec (restored_stage s))
        \<or> map task_id_of (sg_tasks (restored_stage s))
          = map (\<lambda>i. stage_id_of (restored_stage s) @ ''-aqe-'' @ show_nat i) [0..<length (sg_tasks (restored_stage s))]"
      by (simp add: restored_stage_def restored_task_def comp_def)
  qed (simp add: restored_stage_def restored_task_def comp_def)
  then have "list_all tasks_named (jr_stages (restored_job j))" using w by (auto simp: well_formed_def restored_job_def list_all_iff)
  with restored_shape w show ?thesis by (simp add: well_formed_def)
qed

lemma step_well_formed: "well_formed j \<Longrightarrow> well_formed (coord_step fc al nr j x)"
  by (cases x) (simp_all add: own_well_formed rewrite_well_formed prepare_well_formed restart_well_formed)

lemma step_spec: "jr_spec (coord_step fc al nr j x) \<in> {jr_spec j, restored_job_spec (jr_spec j)}
    \<and> jr_max_stage_retries (coord_step fc al nr j x) = jr_max_stage_retries j"
proof (cases x)
  case (Own y)
  then show ?thesis using step_kept [of fc al nr j y] by (cases "job_step fc al nr j y") simp
next
  case (Rewrite sid fragments)
  then show ?thesis by (cases rule: rewrite_cases [of sid fragments j]) simp_all
next
  case (PrepareCycle now)
  then show ?thesis using prepare_keeps [of fc al now j] by (cases "prepare_continuous_input_cycle fc al now j") simp
next
  case Restart
  then show ?thesis by (simp add: restored_job_def)
qed

lemma step_tidy:
  assumes "job_tidy j" and "case x of PrepareCycle now \<Rightarrow> is_ok (snd (prepare_continuous_input_cycle fc al now j)) | _ \<Rightarrow> True"
  shows "job_tidy (coord_step fc al nr j x)"
proof (cases x)
  case (Own y)
  then show ?thesis using step_shape [of fc al nr j y] assms(1) by (cases "job_step fc al nr j y") simp
next
  case (PrepareCycle now)
  then show ?thesis using prepare_keeps [of fc al now j] assms(2) by (cases "prepare_continuous_input_cycle fc al now j") simp
qed (simp_all add: assms(1) rewrite_tidy restored_tidy)

lemma run_well_formed:
  "well_formed j \<Longrightarrow> well_formed (coord_run fc al nr j xs)"
  "jr_spec (coord_run fc al nr j xs) \<in> {jr_spec j, restored_job_spec (jr_spec j)}"
  "job_tidy j \<Longrightarrow> cycles_prepared fc al nr j xs \<Longrightarrow> job_tidy (coord_run fc al nr j xs)"
proof -
  show "well_formed j \<Longrightarrow> well_formed (coord_run fc al nr j xs)"
    by (induction xs arbitrary: j) (simp_all add: step_well_formed)
  show "jr_spec (coord_run fc al nr j xs) \<in> {jr_spec j, restored_job_spec (jr_spec j)}"
  proof (induction xs arbitrary: j)
    case (Cons x xs)
    from Cons [of "coord_step fc al nr j x"] step_spec [of fc al nr j x] show ?case by auto
  qed simp
  show "job_tidy j \<Longrightarrow> cycles_prepared fc al nr j xs \<Longrightarrow> job_tidy (coord_run fc al nr j xs)"
    by (induction xs arbitrary: j) (simp_all add: step_tidy)
qed

lemma from_spec_start: "well_formed (job_from_spec spec retries) \<and> job_tidy (job_from_spec spec retries)"
  using from_spec_ok [of spec retries]
  by (auto simp: well_formed_def job_shape_def job_tidy_def job_ok_def stage_ok_def stage_shape_def tasks_named_def list_all_iff job_from_spec_def)

text \<open>
  C16. Type invariant of the job record. Take any sequence of coordinator operations, stage rewrites,
  input cycles and restarts included. The record still has the stages of its specification, and in
  each stage either the specified tasks or the numbered tasks of a rewrite; counters are within their
  width, a launch is only in flight for an assigned task, and a running task has been launched. The
  specification is the submitted one or, after a restart, what the store keeps of it. If no input
  cycle failed half way, a stage marked succeeded has only succeeded tasks, and a job marked
  succeeded or committing has only succeeded stages.
\<close>

theorem job_record_well_formed:
  "well_formed (coord_run fc al nr (job_from_spec spec retries) xs)
   \<and> jr_spec (coord_run fc al nr (job_from_spec spec retries) xs) \<in> {spec, restored_job_spec spec}
   \<and> (cycles_prepared fc al nr (job_from_spec spec retries) xs \<longrightarrow> job_tidy (coord_run fc al nr (job_from_spec spec retries) xs))"
proof -
  have "jr_spec (job_from_spec spec retries) = spec" by (simp add: job_from_spec_def)
  with run_well_formed [where j = "job_from_spec spec retries"] from_spec_start [of spec retries] show ?thesis by metis
qed

definition demo_rewrite_spec :: job_spec where
  "demo_rewrite_spec = demo_job_spec\<lparr>js_stages := map (\<lambda>s. s\<lparr>ss_kind := ResultStage\<rparr>) (js_stages demo_job_spec)\<rparr>"

definition demo_life :: "nat coord_op list" where
  "demo_life = map Own [DoAssign 10 [\<lparr>ta_task_id = ''m0'', ta_executor_id = ''e1''\<rparr>], DoLaunch demo_inputs,
       DoUpdate 20 (demo_report ''map'' ''m0'' TaskRunning 1), DoUpdate 30 (demo_report ''map'' ''m0'' TaskSucceeded 1)]
     @ [Rewrite ''red'' [''p'', ''q''], Restart]"

lemma demo_digits: "show_nat 0 = ''0''" "show_nat (Suc 0) = ''1''"
  by code_simp+

theorem job_record_well_formed_witness:
  "map task_id_of (job_tasks (coord_run demo_codec True id (job_from_spec demo_rewrite_spec 0) demo_life))
     = [''m0'', ''red-aqe-0'', ''red-aqe-1'']
   \<and> cycles_prepared demo_codec True id (job_from_spec demo_rewrite_spec 0) demo_life
   \<and> job_tidy (coord_run demo_codec True id (job_from_spec demo_rewrite_spec 0) demo_life)"
proof -
  have c: "cycles_prepared demo_codec True id (job_from_spec demo_rewrite_spec 0) demo_life"
    by (simp add: demo_life_def del: coord_step.simps)
  have "map task_id_of (job_tasks (coord_run demo_codec True id (job_from_spec demo_rewrite_spec 0) demo_life))
     = [''m0'', ''red-aqe-0'', ''red-aqe-1'']"
    by (simp add: demo_life_def demo_rewrite_spec_def demo_defs demo_launch_defs demo_update_defs apply_stage_rewrite_def aqe_rewritable_def
        replace_tasks_def aqe_task_def restored_job_def restored_stage_def restored_task_def enumerate_eq_zip demo_digits)
  with c job_record_well_formed [of demo_codec True id demo_rewrite_spec 0 demo_life] show ?thesis by blast
qed

section \<open>Retries\<close>

fun failures_absorbed :: "frag_codec \<Rightarrow> bool \<Rightarrow> ('rb \<Rightarrow> nat) \<Rightarrow> job_record \<Rightarrow> 'rb coord_op list \<Rightarrow> nat" where
  "failures_absorbed fc al nr j [] = 0"
| "failures_absorbed fc al nr j (x # xs) =
     (case x of Own y \<Rightarrow> if absorbed j y then 1 else 0 | _ \<Rightarrow> 0) + failures_absorbed fc al nr (coord_step fc al nr j x) xs"

text \<open>The attempts the tasks of a rewrite bring along.\<close>

fun new_attempts :: "job_record \<Rightarrow> 'rb coord_op \<Rightarrow> nat" where
  "new_attempts j (Rewrite sid fragments) =
     (case position (\<lambda>s. stage_id_of s = sid) (jr_stages j) of
        None \<Rightarrow> 0
      | Some i \<Rightarrow>
          if aqe_rewritable j (jr_stages j ! i)
          then length fragments * max (ss_max_task_attempts (sg_spec (jr_stages j ! i))) MISSING_SHUFFLE_MAX_ATTEMPTS
          else 0)"
| "new_attempts j _ = 0"

fun rewrite_attempts :: "frag_codec \<Rightarrow> bool \<Rightarrow> ('rb \<Rightarrow> nat) \<Rightarrow> job_record \<Rightarrow> 'rb coord_op list \<Rightarrow> nat" where
  "rewrite_attempts fc al nr j [] = 0"
| "rewrite_attempts fc al nr j (x # xs) = new_attempts j x + rewrite_attempts fc al nr (coord_step fc al nr j x) xs"

lemma rewrite_budget: "job_budget (apply_stage_rewrite sid fragments j) \<le> job_budget j + new_attempts j (Rewrite sid fragments)"
proof (cases rule: rewrite_cases [of sid fragments j])
  case (rewritten i)
  let ?s = "jr_stages j ! i" and ?s' = "replace_tasks (jr_stages j ! i) (map (aqe_task sid) (enumerate 0 fragments))"
  let ?f = "stage_budget (jr_max_stage_retries j)"
  have zero: "tr_failure_count (aqe_task sid x) = 0" for x by (simp add: aqe_task_def task_from_spec_def split: prod.split)
  have "?f ?s' \<le> ?f ?s + length fragments * max (ss_max_task_attempts (sg_spec ?s)) MISSING_SHUFFLE_MAX_ATTEMPTS"
    by (simp add: stage_budget_def replace_tasks_def comp_def zero sum_list_triv)
  with sum_list_map_update [OF rewritten(1), of ?f ?s'] rewritten(3-5) show ?thesis by (simp add: job_budget_def)
qed simp

lemma prepare_budget: "job_budget (fst (prepare_continuous_input_cycle fc al now j)) = job_budget j"
proof -
  obtain j' r where p: "prepare_continuous_input_cycle fc al now j = (j', r)" by fastforce
  have same: "stage_budget n s' = stage_budget n s" if "stage_prepared s s'" for n s s'
  proof -
    have "map tr_failure_count (sg_tasks s') = map tr_failure_count (sg_tasks s)" using that by (simp add: stage_prepared_def)
    from arg_cong [OF this, of "map f" for f :: "nat \<Rightarrow> nat"]
    have "map (\<lambda>t. f (tr_failure_count t)) (sg_tasks s') = map (\<lambda>t. f (tr_failure_count t)) (sg_tasks s)" for f :: "nat \<Rightarrow> nat"
      by (simp add: comp_def)
    with that show ?thesis by (simp add: stage_budget_def stage_prepared_def)
  qed
  have "map (stage_budget n) ss' = map (stage_budget n) ss" if "list_all2 stage_prepared ss ss'" for n ss ss'
    using that by (induction rule: list_all2_induct) (simp_all add: same)
  from this [of "jr_stages j" "jr_stages j'" "jr_max_stage_retries j"] prepare_keeps [OF p] p show ?thesis by (simp add: job_budget_def)
qed

lemma restart_budget: "job_budget (restored_job j) \<le> job_budget j"
proof -
  have "stage_budget n (restored_stage s) \<le> stage_budget n s" for n s
    by (simp add: stage_budget_def restored_stage_def restored_task_def comp_def MISSING_SHUFFLE_MAX_ATTEMPTS_def)
      (intro sum_list_mono diff_le_mono max.mono, simp_all)
  then show ?thesis by (simp add: job_budget_def restored_job_def comp_def sum_list_mono)
qed

lemma coord_step_budget:
  assumes "job_shape j" and "widths_ok (jr_spec j) (jr_max_stage_retries j)"
  shows "(case x of Own y \<Rightarrow> if absorbed j y then 1 else 0 | _ \<Rightarrow> 0) + job_budget (coord_step fc al nr j x) \<le> job_budget j + new_attempts j x"
proof (cases x)
  case (Own y)
  obtain j' as where s: "job_step fc al nr j y = (j', as)" by fastforce
  from step_budget [OF assms(1) s] absorbed_decreases [OF assms, of y fc al nr] s Own show ?thesis by auto
next
  case (Rewrite sid fragments)
  then show ?thesis using rewrite_budget [of sid fragments j] by (simp del: new_attempts.simps)
qed (simp_all add: prepare_budget restart_budget)

lemma step_widths: "widths_ok (jr_spec j) (jr_max_stage_retries j) \<Longrightarrow>
    widths_ok (jr_spec (coord_step fc al nr j x)) (jr_max_stage_retries (coord_step fc al nr j x))"
  using step_spec [of fc al nr j x] by (auto simp: widths_ok_def)

lemma absorbed_within:
  "well_formed j \<Longrightarrow> widths_ok (jr_spec j) (jr_max_stage_retries j) \<Longrightarrow>
   failures_absorbed fc al nr j xs \<le> job_budget j + rewrite_attempts fc al nr j xs"
proof (induction xs arbitrary: j)
  case (Cons x xs)
  have "job_shape j" using Cons.prems(1) by (simp add: well_formed_def)
  from Cons.IH [OF step_well_formed [OF Cons.prems(1), of fc al nr x] step_widths [OF Cons.prems(2)]]
    coord_step_budget [OF this Cons.prems(2), of x fc al nr] show ?case by simp
qed simp


lemma demo_failing_absorbed:
  "failures_absorbed demo_codec True id (job_from_spec demo_job_spec 1) (map Own demo_failing @ [Restart]) = 1
   \<and> rewrite_attempts demo_codec True id (job_from_spec demo_job_spec 1) (map Own demo_failing @ [Restart]) = 0"
  by (simp add: demo_failing_def demo_defs demo_launch_defs demo_update_defs retry_stage_def reset_task_def)


section \<open>Shuffle regeneration\<close>

fun regenerations :: "string \<times> nat \<Rightarrow> frag_codec \<Rightarrow> bool \<Rightarrow> ('rb \<Rightarrow> nat) \<Rightarrow> job_record \<Rightarrow> 'rb coord_op list \<Rightarrow> nat" where
  "regenerations k fc al nr j [] = 0"
| "regenerations k fc al nr j (x # xs) =
     (case x of Own y \<Rightarrow> if regenerates k j y then 1 else 0 | _ \<Rightarrow> 0) + regenerations k fc al nr (coord_step fc al nr j x) xs"

definition restarts :: "'rb coord_op list \<Rightarrow> nat" where
  "restarts xs = length (filter (\<lambda>x. case x of Restart \<Rightarrow> True | _ \<Rightarrow> False) xs)"

lemma restarts_simps [simp]:
  "restarts [] = 0" "restarts (Restart # xs) = Suc (restarts xs)" "restarts (Own y # xs) = restarts xs"
  "restarts (Rewrite sid frs # xs) = restarts xs" "restarts (PrepareCycle now # xs) = restarts xs"
  by (simp_all add: restarts_def)

lemma regenerations_left:
  assumes "\<And>missing n. Own (DoRegen missing n) \<in> set xs \<Longrightarrow> n \<le> R" and "0 < R" "R \<le> u32_max" and "regen_attempts j k \<le> u32_max"
  shows "regenerations k fc al nr j xs \<le> R * restarts xs + (R - regen_attempts j k)"
  using assms(1,4)
proof (induction xs arbitrary: j)
  case (Cons x xs)
  let ?j = "coord_step fc al nr j x"
  have IH: "regenerations k fc al nr ?j xs \<le> R * restarts xs + (R - regen_attempts ?j k)" if "regen_attempts ?j k \<le> u32_max"
    using Cons.IH [OF _ that] Cons.prems(1) by fastforce
  show ?case
  proof (cases x)
    case (Own y)
    from regen_step_attempts [OF Cons.prems(2) assms(3,2), of y fc al nr] Cons.prems(1) Own
    have s: "regen_attempts ?j k \<le> u32_max" "regen_attempts j k \<le> regen_attempts ?j k"
      "regenerates k j y \<Longrightarrow> regen_attempts j k < R \<and> regen_attempts j k < regen_attempts ?j k" by auto
    show ?thesis using IH [OF s(1)] s(2,3) Own by (auto simp del: coord_step.simps)
  next
    case (Rewrite sid frs)
    have "regen_attempts ?j k = regen_attempts j k"
      unfolding Rewrite by (cases rule: rewrite_cases [of sid frs j]) (simp_all add: regen_attempts_def)
    then show ?thesis using IH Cons.prems(2) Rewrite by (simp del: coord_step.simps)
  next
    case (PrepareCycle now)
    have "regen_attempts ?j k = regen_attempts j k"
      using PrepareCycle prepare_keeps [of fc al now j] by (cases "prepare_continuous_input_cycle fc al now j") (simp add: regen_attempts_def)
    then show ?thesis using IH Cons.prems(2) PrepareCycle by (simp del: coord_step.simps)
  next
    case Restart
    have "regen_attempts ?j k = 0" using Restart by (simp add: regen_attempts_def regen_at_def restored_job_def)
    then show ?thesis using IH Restart by (simp del: coord_step.simps)
  qed
qed simp


definition demo_regen :: "nat coord_op list" where
  "demo_regen = map Own (demo_done @ [DoRegen [\<lparr>mp_stage_id = ''map'', mp_partition_id = 0\<rparr>] 2])"

lemma demo_regenerated:
  "regenerations (''map'', 0) demo_codec True id (job_from_spec demo_job_spec 0) demo_regen = 1 \<and> restarts demo_regen = 0"
  by (simp add: demo_regen_def demo_done_defs invalidate_specific_shuffle_partitions_def diagnoses_of_def missing_report_addresses_task_def
      diagnosis_capture_def invalidate_stage_def invalidate_missing_def)


section \<open>An undelivered launch after a cancellation\<close>

text \<open>
  A job is cancelled while a launch is being delivered. When the delivery fails, taking the launch back
  refreshes the record, and the cancelled job runs again.
\<close>

lemma undelivered_launch_reopens:
  "jr_state (fst (job_run demo_codec True id (job_from_spec demo_job_spec 0)
     [DoAssign 10 [\<lparr>ta_task_id = ''m0'', ta_executor_id = ''e1''\<rparr>], DoLaunch demo_inputs, DoCancel])) = JobCancelled
   \<and> jr_state (fst (job_run demo_codec True id (job_from_spec demo_job_spec 0)
     [DoAssign 10 [\<lparr>ta_task_id = ''m0'', ta_executor_id = ''e1''\<rparr>], DoLaunch demo_inputs, DoCancel, DoClearLaunch])) = JobRunning"
  by (simp add: demo_defs demo_launch_defs demo_update_defs cancel_job_def job_cancel_def stage_cancel_def task_cancel_def
      clear_launch_in_flight_for_job_def)

end
