(* ===== verification/ReportHandler.thy ===== *)
theory ReportHandler
  imports AssignRound JobLife
begin

text \<open>
  The coordinator's whole handler of a task status report (\<open>apply_task_update\<close> of
  \<open>coordinator/job_lifecycle.rs\<close>), composed of the operations of the other theories in the order the
  code calls them: the leadership and lease checks, the job record's update, the circuit breaker, the
  regeneration of lost shuffle output, the claim of a spooled result, the rewrite of downstream stages,
  the end or the rescue of a continuous cycle, the publish window, the write to the store and the
  drain of the backlog. The planner's rewrites, whether a job stages its sink output, and the bytes a
  report declares as spooled are arguments. Hot keys, inline results, coalescing hints, snapshots of
  continuous state, terminal bookkeeping, the event log and metrics touch neither the job records nor
  the answer and are left out. Proved: what each answer means for the job.
\<close>

section \<open>The handler\<close>

record report_state =
  rs_core :: assign_state
  rs_spools :: "(string \<times> string \<times> nat, nat) amap"
  rs_result_spools :: "(string, nat list) amap"
  rs_max_regen :: nat
  rs_fail_closed :: bool

definition put_job :: "string \<Rightarrow> job_record \<Rightarrow> assign_state \<Rightarrow> assign_state" where
  "put_job job_id j c = c\<lparr>ac_jobs := amap_insert job_id j (ac_jobs c)\<rparr>"

definition on_job :: "string \<Rightarrow> (job_record \<Rightarrow> job_record) \<Rightarrow> assign_state \<Rightarrow> assign_state" where
  "on_job job_id f c = (case find_job c job_id of Inl _ \<Rightarrow> c | Inr j \<Rightarrow> put_job job_id (f j) c)"

definition is_continuous_cycle_task :: "frag_codec \<Rightarrow> bool \<Rightarrow> job_record \<Rightarrow> string \<Rightarrow> bool" where
  "is_continuous_cycle_task fc allow_legacy j task_id =
     (case List.find (\<lambda>t. task_id_of t = task_id) (job_tasks j) of None \<Rightarrow> False | Some t \<Rightarrow> is_loop_task fc allow_legacy t)"

definition coordinator_cancel_job :: "string \<Rightarrow> assign_state \<Rightarrow> assign_state \<times> (scheduler_error + unit)" where
  "coordinator_cancel_job job_id c =
     (case ensure_active c of
        Inl err \<Rightarrow> (c, Inl err)
      | Inr _ \<Rightarrow>
          (case find_job c job_id of
             Inl err \<Rightarrow> (c, Inl err)
           | Inr j \<Rightarrow>
               if job_is_terminal (jr_state j) then (c, Inr ())
               else (case cancel_job j of
                       (_, Inl err) \<Rightarrow> (c, Inl err)
                     | (j', Inr _) \<Rightarrow> persist_job_record (put_job job_id j' c))))"

definition charge_breaker :: "nat \<Rightarrow> task_status_update \<Rightarrow> assign_state \<Rightarrow> assign_state" where
  "charge_breaker now_ms u c =
     (if tu_state u = TaskFailed \<and> tu_missing_shuffle_partitions u = [] then
        (case record_task_failure (ac_executors c) (tu_executor_id u) (ac_breaker_threshold c) now_ms of
           (r, exceeded) \<Rightarrow>
             let c1 = c\<lparr>ac_executors := r\<rparr> in
             if exceeded then on_job (tu_job_id u) (\<lambda>j. fst (clear_assignments_for_bad_executor (tu_executor_id u) j)) c1 else c1)
      else if tu_state u = TaskSucceeded then
        c\<lparr>ac_executors := fst (reset_task_failures (ac_executors c) (tu_executor_id u))\<rparr>
      else c)"

definition regenerate_missing :: "nat \<Rightarrow> task_status_update \<Rightarrow> assign_state \<Rightarrow> assign_state \<times> (scheduler_error + unit)" where
  "regenerate_missing max_regen u c =
     (if tu_state u = TaskFailed \<and> tu_missing_shuffle_partitions u \<noteq> [] then
        (case find_job c (tu_job_id u) of
           Inl _ \<Rightarrow> (c, Inr ())
         | Inr j \<Rightarrow>
             (case invalidate_specific_shuffle_partitions j (tu_missing_shuffle_partitions u) max_regen of
                (j', RepeatedMiss diagnosis) \<Rightarrow>
                  (fst (coordinator_cancel_job (tu_job_id u) (put_job (tu_job_id u) j' c)),
                   Inl (TransportError (''job '' @ tu_job_id u @ '' failed: the same shuffle partition was reported missing twice ''
                     @ ''with no executor loss in between, so regenerating it again cannot help. '' @ diagnosis)))
              | (j', BudgetExhausted attempts limit diagnosis) \<Rightarrow>
                  (fst (coordinator_cancel_job (tu_job_id u) (put_job (tu_job_id u) j' c)),
                   Inl (TransportError (''job '' @ tu_job_id u @ '' lost shuffle output and regenerated it '' @ show_nat attempts
                     @ '' times (limit '' @ show_nat limit @ ''); the producing stage cannot durably retain its output '' @ em_dash
                     @ '' failing the job as unrecoverable. '' @ diagnosis)))
              | (j', _) \<Rightarrow> (put_job (tu_job_id u) j' c, Inr ())))
      else (c, Inr ()))"

definition claim_spool :: "nat \<Rightarrow> task_status_update \<Rightarrow> report_state \<Rightarrow> report_state \<times> (scheduler_error + unit)" where
  "claim_spool spooled u rs =
     (if tu_state u = TaskSucceeded \<and> spooled > 0 then
        (let key = (tu_job_id u, tu_task_id u, tu_attempt u);
             rs1 = rs\<lparr>rs_spools := amap_remove key (rs_spools rs)\<rparr>;
             cancelled = rs1\<lparr>rs_core := fst (coordinator_cancel_job (tu_job_id u) (rs_core rs1))\<rparr>
         in case map_of (rs_spools rs) key of
              Some bytes \<Rightarrow>
                if bytes = spooled then
                  (rs1\<lparr>rs_result_spools := amap_alter [] (tu_job_id u) (\<lambda>xs. xs @ [bytes]) (rs_result_spools rs1)\<rparr>, Inr ())
                else
                  (cancelled, Inl (TransportError (''task '' @ tu_task_id u @ '' spooled result size mismatch: status declares ''
                     @ show_nat spooled @ '' bytes, spool holds '' @ show_nat bytes @ ''; cancelling job'')))
            | None \<Rightarrow>
                (cancelled, Inl (TransportError (''task '' @ tu_task_id u @ '' declared a spooled result of '' @ show_nat spooled
                   @ '' bytes but no spool was received; cancelling job''))))
      else (rs, Inr ()))"

text \<open>\<open>bodies\<close> is the planner's choice of new fragments for a stage, if it finds one.\<close>

definition plan_stage_rewrite :: "(job_record \<Rightarrow> string \<Rightarrow> string list option) \<Rightarrow> job_record \<Rightarrow> string \<Rightarrow> (string \<times> string list) option" where
  "plan_stage_rewrite bodies j stage_id =
     (case List.find (\<lambda>s. stage_id_of s = stage_id) (jr_stages j) of
        None \<Rightarrow> None
      | Some s \<Rightarrow> if aqe_rewritable j s then map_option (Pair stage_id) (bodies j stage_id) else None)"

definition plan_aqe_rewrites :: "(job_record \<Rightarrow> string \<Rightarrow> string list option) \<Rightarrow> job_record \<Rightarrow> string \<Rightarrow> (string \<times> string list) list" where
  "plan_aqe_rewrites bodies j succeeded_stage_id =
     List.map_filter (\<lambda>s. if succeeded_stage_id \<in> set (ss_upstream_stage_ids (sg_spec s))
                          then plan_stage_rewrite bodies j (stage_id_of s) else None) (jr_stages j)"

definition apply_stage_boundary_aqe :: "(job_record \<Rightarrow> string \<Rightarrow> string list option) \<Rightarrow> string \<Rightarrow> string \<Rightarrow>
    assign_state \<Rightarrow> assign_state" where
  "apply_stage_boundary_aqe bodies job_id stage_id c =
     (case find_job c job_id of
        Inl _ \<Rightarrow> c
      | Inr j \<Rightarrow>
          if js_kind (jr_spec j) = StreamingJob then c
          else
            (let rewrites = plan_aqe_rewrites bodies j stage_id
             in if rewrites = [] then c
                else fst (persist_job_record
                       ((put_job job_id (foldl (\<lambda>j (sid, fragments). apply_stage_rewrite sid fragments j) j rewrites) c)
                         \<lparr>ac_launch_dirty_jobs := List.insert job_id (ac_launch_dirty_jobs c)\<rparr>))))"

definition cross_stage_boundary :: "(job_record \<Rightarrow> string \<Rightarrow> string list option) \<Rightarrow> task_status_update \<Rightarrow>
    assign_state \<Rightarrow> assign_state" where
  "cross_stage_boundary bodies u c =
     (if tu_state u = TaskSucceeded
         \<and> (case find_job c (tu_job_id u) of
              Inl _ \<Rightarrow> False
            | Inr j \<Rightarrow> (case List.find (\<lambda>s. stage_id_of s = tu_stage_id u) (jr_stages j) of
                         None \<Rightarrow> False | Some s \<Rightarrow> sg_state s = StageSucceeded))
      then apply_stage_boundary_aqe bodies (tu_job_id u) (tu_stage_id u) c else c)"

definition end_cycle :: "nat \<Rightarrow> nat \<Rightarrow> bool \<Rightarrow> task_status_update \<Rightarrow> assign_state \<Rightarrow> assign_state" where
  "end_cycle now_ms applied_ms is_continuous_cycle u c =
     (if is_continuous_cycle \<and> tu_state u = TaskSucceeded then
        on_job (tu_job_id u) (complete_continuous_input_cycle (tu_task_id u)) c
      else if is_continuous_cycle \<and> tu_state u = TaskFailed \<and> tu_missing_shuffle_partitions u = [] then
        (case find_job c (tu_job_id u) of
           Inl _ \<Rightarrow> c
         | Inr j \<Rightarrow>
             (case rescue_failed_continuous_task (tu_task_id u) j of
                (j', rescued) \<Rightarrow>
                  let c1 = put_job (tu_job_id u) j' c in
                  if rescued then fst (assign_pending_tasks now_ms applied_ms c1 (tu_job_id u)) else c1))
      else c)"

definition persist_report :: "bool \<Rightarrow> task_status_update \<Rightarrow> assign_state \<Rightarrow> assign_state \<times> (scheduler_error + unit)" where
  "persist_report fail_closed u c = (if task_is_terminal (tu_state u) \<or> fail_closed then persist_job_record c else (c, Inr ()))"

definition release_slot :: "nat \<Rightarrow> nat \<Rightarrow> task_status_update \<Rightarrow> assign_state \<Rightarrow> assign_state" where
  "release_slot now_ms applied_ms u c =
     (let job_id = tu_job_id u;
          is_terminal = (case find_job c job_id of Inl _ \<Rightarrow> False | Inr j \<Rightarrow> job_is_terminal (jr_state j));
          c1 = (if is_terminal
                then c\<lparr>ac_pending_backlog_jobs := removeAll job_id (ac_pending_backlog_jobs c),
                       ac_launch_dirty_jobs := removeAll job_id (ac_launch_dirty_jobs c)\<rparr>
                else c\<lparr>ac_launch_dirty_jobs := List.insert job_id (ac_launch_dirty_jobs c)\<rparr>)
      in if tu_state u = TaskSucceeded \<or> tu_state u = TaskFailed then
           drain_pending_backlog now_ms applied_ms
             (if is_terminal then c1 else c1\<lparr>ac_pending_backlog_jobs := List.insert job_id (ac_pending_backlog_jobs c1)\<rparr>)
         else c1)"

text \<open>What follows once the record has applied a report.\<close>

definition after_update :: "(job_record \<Rightarrow> string \<Rightarrow> string list option) \<Rightarrow> (job_record \<Rightarrow> bool) \<Rightarrow> nat \<Rightarrow> nat \<Rightarrow> nat \<Rightarrow>
    bool \<Rightarrow> task_status_update \<Rightarrow> report_state \<Rightarrow> report_state \<times> (scheduler_error + task_update_outcome)" where
  "after_update bodies staged now_ms applied_ms spooled is_continuous_cycle u rs =
     (case regenerate_missing (rs_max_regen rs) u (charge_breaker now_ms u (rs_core rs)) of
        (c, Inl err) \<Rightarrow> (rs\<lparr>rs_core := c\<rparr>, Inl err)
      | (c, Inr _) \<Rightarrow>
          (case claim_spool spooled u (rs\<lparr>rs_core := c\<rparr>) of
             (rs1, Inl err) \<Rightarrow> (rs1, Inl err)
           | (rs1, Inr _) \<Rightarrow>
               (case persist_report (rs_fail_closed rs1) u
                       (on_job (tu_job_id u) (\<lambda>j. finalize_staged_sink_outputs (staged j) j)
                         (end_cycle now_ms applied_ms is_continuous_cycle u (cross_stage_boundary bodies u (rs_core rs1)))) of
                  (c1, Inl err) \<Rightarrow> (rs1\<lparr>rs_core := c1\<rparr>, Inl err)
                | (c1, Inr _) \<Rightarrow> (rs1\<lparr>rs_core := release_slot now_ms applied_ms u c1\<rparr>, Inr Applied))))"

definition apply_task_update :: "frag_codec \<Rightarrow> bool \<Rightarrow> (job_record \<Rightarrow> string \<Rightarrow> string list option) \<Rightarrow> (job_record \<Rightarrow> bool) \<Rightarrow>
    nat \<Rightarrow> nat \<Rightarrow> nat \<Rightarrow> report_state \<Rightarrow> task_status_update \<Rightarrow> report_state \<times> (scheduler_error + task_update_outcome)" where
  "apply_task_update fc allow_legacy bodies staged now_ms applied_ms spooled rs u =
     (case ensure_active (rs_core rs) of
        Inl err \<Rightarrow> (rs, Inl err)
      | Inr _ \<Rightarrow>
          (case validate_lease (ac_executors (rs_core rs)) (tu_executor_id u) (tu_lease_generation u) of
             Inl err \<Rightarrow> (rs, Inl err)
           | Inr _ \<Rightarrow>
               (case find_job (rs_core rs) (tu_job_id u) of
                  Inl err \<Rightarrow> (rs, Inl err)
                | Inr j \<Rightarrow>
                    (case coordinator_task_update now_ms j u of
                       (j', outcome) \<Rightarrow>
                         let rs1 = rs\<lparr>rs_core := put_job (tu_job_id u) j' (rs_core rs)\<rparr> in
                         if outcome = Inr Applied then
                           after_update bodies staged now_ms applied_ms spooled
                             (is_continuous_cycle_task fc allow_legacy j (tu_task_id u)) u rs1
                         else (rs1, outcome)))))"

section \<open>What an answer means\<close>

text \<open>The job of a coordinator, and the conditions under which a report is applied.\<close>

definition job_at :: "report_state \<Rightarrow> string \<Rightarrow> job_record option" where
  "job_at rs = map_of (ac_jobs (rs_core rs))"

definition reporter_holds :: "task_status_update \<Rightarrow> job_record \<Rightarrow> bool" where
  "reporter_holds u j \<longleftrightarrow> \<not> job_is_terminal (jr_state j)
     \<and> list_ex (\<lambda>t. task_id_of t = tu_task_id u \<and> tr_attempt t = tu_attempt u \<and> tr_assigned_executor t = Some (tu_executor_id u)
          \<and> \<not> task_is_terminal (tr_state t)) (job_tasks j)"

definition report_fits :: "report_state \<Rightarrow> task_status_update \<Rightarrow> bool" where
  "report_fits rs u \<longleftrightarrow> ac_state (rs_core rs) = CoordActive
     \<and> (case map_of (xr_executors (ac_executors (rs_core rs))) (tu_executor_id u) of
          None \<Rightarrow> False | Some e \<Rightarrow> er_lease_generation e = tu_lease_generation u)
     \<and> (case job_at rs (tu_job_id u) of None \<Rightarrow> False | Some j \<Rightarrow> reporter_holds u j)"

text \<open>What the steps of the handler keep: other jobs, the leadership and the schedule of the store.\<close>

definition only_job :: "string \<Rightarrow> assign_state \<Rightarrow> assign_state \<Rightarrow> bool" where
  "only_job k c c' \<longleftrightarrow> (\<forall>k'. k' \<noteq> k \<longrightarrow> map_of (ac_jobs c') k' = map_of (ac_jobs c) k')
     \<and> set (ac_store_faults c') \<subseteq> set (ac_store_faults c) \<and> ac_state c' = ac_state c"

lemma only_job_refl [simp]: "only_job k c c"
  by (simp add: only_job_def)

lemma only_job_trans: "only_job k a b \<Longrightarrow> only_job k b c \<Longrightarrow> only_job k a c"
  by (auto simp: only_job_def)

lemma only_job_put [simp]: "only_job k c (put_job k j c')" if "only_job k c c'"
  using that by (simp add: only_job_def put_job_def)

lemma only_job_on [simp]: "only_job k c (on_job k f c)"
  by (simp add: on_job_def split: sum.split)

lemma only_job_persist: "only_job k c c' \<Longrightarrow> only_job k c (fst (persist_job_record c'))"
  by (auto simp: only_job_def persist_job_record_def split: list.split option.split)

lemma persist_error: "snd (persist_job_record c) = Inl e \<Longrightarrow> Some e \<in> set (ac_store_faults c)"
  by (auto simp: persist_job_record_def split: list.splits option.splits)

lemma persist_jobs [simp]: "ac_jobs (fst (persist_job_record c)) = ac_jobs c"
  by (simp add: persist_job_record_def split: list.split)

lemma only_job_cancel: "only_job k c (fst (coordinator_cancel_job k c))"
  by (auto simp: coordinator_cancel_job_def intro: only_job_persist split: sum.split prod.split)

lemma only_job_assign: "only_job k c (fst (assign_pending_tasks now applied c k))"
  by (auto simp: assign_pending_tasks_def assign_pending_tasks_capped_def only_job_def persist_job_record_def Let_def
      split: sum.split prod.split list.split option.split if_splits)

lemma only_job_charge: "only_job (tu_job_id u) c (charge_breaker now u c)"
  by (auto simp: charge_breaker_def only_job_def on_job_def put_job_def find_job_def Let_def split: prod.split option.split)

lemma only_job_regenerate: "only_job (tu_job_id u) c (fst (regenerate_missing n u c))"
  by (auto simp: regenerate_missing_def intro: only_job_trans [OF only_job_put [OF only_job_refl] only_job_cancel]
      split: sum.split prod.split shuffle_regen_outcome.split)

lemma only_job_boundary: "only_job (tu_job_id u) c (cross_stage_boundary bodies u c)"
  by (auto simp: cross_stage_boundary_def apply_stage_boundary_aqe_def Let_def only_job_def put_job_def persist_job_record_def
      split: sum.split option.split list.split)

lemma only_job_cycle: "only_job (tu_job_id u) c (end_cycle now applied b u c)"
  by (auto simp: end_cycle_def Let_def intro: only_job_trans [OF only_job_put [OF only_job_refl] only_job_assign]
      split: sum.split prod.split)

text \<open>A cancelled job has ended, unless it publishes its output.\<close>

lemma cancel_ends:
  assumes "map_of (ac_jobs c) k = Some j" and "jr_state j \<noteq> JobCommitting" and "ac_state c = CoordActive"
  shows "\<exists>j'. map_of (ac_jobs (fst (coordinator_cancel_job k c))) k = Some j' \<and> job_is_terminal (jr_state j')"
  using assms by (auto simp: coordinator_cancel_job_def ensure_active_def find_job_def cancel_job_def job_cancel_def put_job_def)

fun is_refusal :: "shuffle_regen_outcome \<Rightarrow> bool" where
  "is_refusal (RepeatedMiss _) = True"
| "is_refusal (BudgetExhausted _ _ _) = True"
| "is_refusal _ = False"

lemma refusal_unchanged:
  assumes "invalidate_specific_shuffle_partitions j missing n = (j', r)" and "is_refusal r"
  shows "j' = j"
  using assms by (auto simp: invalidate_specific_shuffle_partitions_def Let_def split: if_splits option.splits prod.splits)

definition ended :: "string \<Rightarrow> assign_state \<Rightarrow> bool" where
  "ended k c \<longleftrightarrow> (case map_of (ac_jobs c) k of None \<Rightarrow> False | Some j \<Rightarrow> job_is_terminal (jr_state j))"

lemma cancel_ended:
  "map_of (ac_jobs c) k = Some j \<Longrightarrow> jr_state j \<noteq> JobCommitting \<Longrightarrow> ac_state c = CoordActive \<Longrightarrow> ended k (fst (coordinator_cancel_job k c))"
  using cancel_ends by (fastforce simp: ended_def)

lemma regenerate_outcomes:
  assumes j: "map_of (ac_jobs c) (tu_job_id u) = Some j" "jr_state j \<noteq> JobCommitting" "ac_state c = CoordActive"
    and r: "regenerate_missing n u c = (c', r)"
  shows "case r of
      Inl _ \<Rightarrow> ended (tu_job_id u) c'
    | Inr _ \<Rightarrow> tu_state u = TaskFailed \<longrightarrow> \<not> is_refusal (snd (invalidate_specific_shuffle_partitions j (tu_missing_shuffle_partitions u) n))"
proof -
  let ?k = "tu_job_id u"
  obtain j' q where q: "invalidate_specific_shuffle_partitions j (tu_missing_shuffle_partitions u) n = (j', q)" by fastforce
  have none: "q = NoneAffected" if "tu_missing_shuffle_partitions u = []"
    using q that by (simp add: invalidate_specific_shuffle_partitions_def Let_def)
  have same: "j' = j" if "is_refusal q" using refusal_unchanged [OF q that] .
  have "ended ?k (fst (coordinator_cancel_job ?k (put_job ?k j c)))"
    by (rule cancel_ended [of _ _ j]) (use j in \<open>simp_all add: put_job_def\<close>)
  with r q none same j(1) show ?thesis
    by (cases q) (auto simp: regenerate_missing_def find_job_def split: if_splits)
qed

lemma claim_outcomes:
  assumes j: "map_of (ac_jobs (rs_core rs)) (tu_job_id u) = Some j" "jr_state j \<noteq> JobCommitting" "ac_state (rs_core rs) = CoordActive"
    and r: "claim_spool spooled u rs = (rs', r)"
  shows "case r of
      Inl _ \<Rightarrow> ended (tu_job_id u) (rs_core rs') \<and> only_job (tu_job_id u) (rs_core rs) (rs_core rs')
    | Inr _ \<Rightarrow> rs_core rs' = rs_core rs \<and> (tu_state u = TaskSucceeded \<longrightarrow> spooled > 0 \<longrightarrow>
        map_of (rs_spools rs) (tu_job_id u, tu_task_id u, tu_attempt u) = Some spooled)"
  using r cancel_ended [OF j] only_job_cancel [of "tu_job_id u" "rs_core rs"]
  by (auto simp: claim_spool_def Let_def split: if_splits option.splits)

lemma charge_other:
  "tu_state u \<noteq> TaskFailed \<or> tu_missing_shuffle_partitions u \<noteq> [] \<Longrightarrow> ac_jobs (charge_breaker now u c) = ac_jobs c"
  by (auto simp: charge_breaker_def)

lemma persist_report_outcomes:
  assumes "persist_report b u (on_job (tu_job_id u) f (end_cycle now applied d u (cross_stage_boundary bodies u c))) = (c1, Inl e)"
  shows "only_job (tu_job_id u) c c1 \<and> Some e \<in> set (ac_store_faults c)"
proof -
  let ?c = "on_job (tu_job_id u) f (end_cycle now applied d u (cross_stage_boundary bodies u c))"
  have o: "only_job (tu_job_id u) c ?c"
    by (rule only_job_trans [OF only_job_boundary only_job_trans [OF only_job_cycle only_job_on]])
  have p: "persist_job_record ?c = (c1, Inl e)" using assms by (simp add: persist_report_def split: if_splits)
  from persist_error [of ?c e] p o have "Some e \<in> set (ac_store_faults c)" by (auto simp: only_job_def)
  with only_job_persist [OF o] p show ?thesis by simp
qed

lemma after_update_outcomes:
  assumes j: "map_of (ac_jobs (rs_core rs)) (tu_job_id u) = Some j" "jr_state j \<noteq> JobCommitting" "ac_state (rs_core rs) = CoordActive"
    and r: "after_update bodies staged now applied spooled b u rs = (rs', r)"
  shows "case r of
      Inl e \<Rightarrow> only_job (tu_job_id u) (rs_core rs) (rs_core rs')
        \<and> (ended (tu_job_id u) (rs_core rs') \<or> Some e \<in> set (ac_store_faults (rs_core rs)))
    | Inr x \<Rightarrow> x = Applied
        \<and> (tu_state u = TaskFailed \<longrightarrow> \<not> is_refusal (snd (invalidate_specific_shuffle_partitions j (tu_missing_shuffle_partitions u) (rs_max_regen rs))))
        \<and> (tu_state u = TaskSucceeded \<longrightarrow> spooled > 0 \<longrightarrow>
             map_of (rs_spools rs) (tu_job_id u, tu_task_id u, tu_attempt u) = Some spooled)"
proof -
  let ?k = "tu_job_id u" and ?c0 = "charge_breaker now u (rs_core rs)"
  obtain c q where q: "regenerate_missing (rs_max_regen rs) u ?c0 = (c, q)" by fastforce
  obtain rs1 s where s: "claim_spool spooled u (rs\<lparr>rs_core := c\<rparr>) = (rs1, s)" by fastforce
  have act: "ac_state ?c0 = CoordActive" using only_job_charge [of u "rs_core rs" now] j(3) by (simp add: only_job_def)
  have c: "only_job ?k (rs_core rs) c"
    using only_job_trans [OF only_job_charge only_job_regenerate] q by (metis fst_conv)
  have regen: "case q of Inl _ \<Rightarrow> ended ?k c | Inr _ \<Rightarrow> tu_state u = TaskFailed \<longrightarrow>
      \<not> is_refusal (snd (invalidate_specific_shuffle_partitions j (tu_missing_shuffle_partitions u) (rs_max_regen rs)))"
  proof (cases "tu_state u = TaskFailed \<and> tu_missing_shuffle_partitions u = []")
    case True
    then show ?thesis using q by (auto simp: regenerate_missing_def invalidate_specific_shuffle_partitions_def Let_def)
  next
    case False
    then show ?thesis using regenerate_outcomes [OF _ j(2) act q] charge_other [of u now "rs_core rs"] j(1) by simp
  qed
  have spool: "case s of Inl _ \<Rightarrow> ended ?k (rs_core rs1) \<and> only_job ?k c (rs_core rs1)
      | Inr _ \<Rightarrow> rs_core rs1 = c \<and> (tu_state u = TaskSucceeded \<longrightarrow> spooled > 0 \<longrightarrow>
          map_of (rs_spools rs) (tu_job_id u, tu_task_id u, tu_attempt u) = Some spooled)"
  proof (cases "tu_state u = TaskSucceeded")
    case True
    then have "c = ?c0" using q by (simp add: regenerate_missing_def)
    then show ?thesis using claim_outcomes [OF _ j(2) _ s] act charge_other [of u now "rs_core rs"] True j(1) by (cases s) simp_all
  next
    case False
    then show ?thesis using s by (auto simp: claim_spool_def)
  qed
  show ?thesis
  proof (cases q)
    case (Inl e)
    with r q c regen show ?thesis by (auto simp: after_update_def)
  next
    case q1: (Inr x)
    show ?thesis
    proof (cases s)
      case (Inl e)
      with r q q1 s spool only_job_trans [OF c] show ?thesis by (auto simp: after_update_def)
    next
      case (Inr y)
      have f: "set (ac_store_faults c) \<subseteq> set (ac_store_faults (rs_core rs))" using c by (simp add: only_job_def)
      from r q q1 s Inr regen spool show ?thesis
        using only_job_trans [OF c] f
        by (auto simp: after_update_def dest!: persist_report_outcomes split: prod.splits sum.splits)
    qed
  qed
qed


text \<open>
  The last task of a job reports success and declares a spooled result that never arrived. The
  handler refuses the report, but the record has already moved to succeeded, so the cancellation
  meant to fail the job does nothing.
\<close>

definition demo_reporting :: report_state where
  "demo_reporting =
     \<lparr>rs_core = demo_coordinator\<lparr>ac_jobs := [(''q'', fst (job_run demo_codec True id (job_from_spec demo_one_spec 0) demo_running))],
        ac_executors := (ac_executors demo_coordinator)\<lparr>xr_executors := [(''e1'', executor_record_new demo_descriptor 0 7)]\<rparr>\<rparr>,
      rs_spools = [], rs_result_spools = [], rs_max_regen = 2, rs_fail_closed = True\<rparr>"

lemma demo_unspooled:
  "\<exists>rs' e. apply_task_update demo_codec True (\<lambda>_ _. None) (\<lambda>_. False) 40 41 5 demo_reporting (demo_report ''map'' ''m0'' TaskSucceeded 1)
       = (rs', Inl e)
     \<and> map_option jr_state (job_at rs' ''q'') = Some JobSucceeded
     \<and> map_option jr_state (job_at demo_reporting ''q'') = Some JobRunning"
  by (simp add: apply_task_update_def after_update_def demo_reporting_def ensure_active_def find_job_def job_at_def put_job_def
      claim_spool_def coordinator_cancel_job_def regenerate_missing_def charge_breaker_def Let_def
      validate_lease_def find_executor_def validate_executor_lease_def demo_coordinator_def executor_record_new_def
      demo_one_spec_def demo_running_def demo_defs demo_launch_defs demo_update_defs)


end
