(* ===== verification/Spec2Isabelle.thy ===== *)
theory Spec2Isabelle
  imports Rescaling TtlState Timers ExecutorSinks ReportHandler
begin

text \<open>
  A verification library for Krishiv, a batch and streaming compute engine. A coordinator
  (\<open>krishiv-scheduler\<close>) validates jobs, keeps their records, tracks the executors, places and launches
  tasks and drives checkpoints; executors (\<open>krishiv-executor\<close>) run the tasks over keyed state
  (\<open>krishiv-state\<close>) and write to sinks (\<open>krishiv-connectors\<close>); the messages between them are in
  \<open>krishiv-proto\<close>. The library models the parts that carry the fault tolerance of the engine. Paths
  below are relative to \<open>src/crates\<close>.

  \<^bold>\<open>Conventions.\<close> Machine integers are \<^typ>\<open>nat\<close> or \<^typ>\<open>int\<close>, with wrapping and saturation written
  out; bytes are 8-bit words; a \<open>HashMap\<close> is an association list in iteration order, a \<open>BTreeMap\<close> one
  sorted by key; a \<open>Result\<close> is a sum with the error on the left; an operation that may fail halfway
  returns the state it leaves and its result. A reading of the clock is an argument. A trait is a
  record of its operations, and its contract a locale that is interpreted for the implementations.
  Code outside the repository is a parameter: the JSON codec, SHA-256, the hash of a routing key, Arrow
  batches. So is whether a write to the file system or to the metadata store fails: a schedule of
  failures decides it.

  \<^bold>\<open>Foundations.\<close> \<open>Prelude\<close> (integers, encodings, maps), \<open>RustStr\<close> (strings, formatting), \<open>StateCore\<close>
  (\<open>krishiv-state/src/error.rs\<close>, \<open>namespace.rs\<close>), \<open>Ids\<close> (\<open>krishiv-proto/src/ids.rs\<close>, \<open>checkpoint.rs\<close>),
  \<open>Lifecycle\<close> (\<open>lifecycle.rs\<close>), \<open>TaskProto\<close> (\<open>io.rs\<close>, \<open>job.rs\<close>, \<open>task.rs\<close>, \<open>executor.rs\<close> and the task fragments
  of \<open>krishiv-plan\<close>), \<open>SchedError\<close> (\<open>krishiv-scheduler/src/error.rs\<close>, shuffle metadata).

  \<^bold>\<open>Keyed state.\<close> \<open>SnapshotCodec\<close> (\<open>snapshot.rs\<close>: the codec is exact), \<open>KeyGroups\<close> (\<open>key_group.rs\<close>: every
  group has one owner), \<open>Rescaling\<close> (\<open>checkpoint/rescaling.rs\<close>: a redistribution refines its
  specification and moves every entry to the owner of its group), \<open>StateBackend\<close> (\<open>backend.rs\<close>),
  \<open>TtlState\<close> (\<open>ttl.rs\<close>: visibility, checkpoint and restore, also one that the backend interrupts), \<open>Timers\<close>
  (\<open>timer.rs\<close>, \<open>processing_time.rs\<close>: a timer fires exactly once).

  \<^bold>\<open>Checkpoints.\<close> \<open>CkptMetadata\<close>, \<open>CkptStorage\<close> and \<open>CkptIO\<close> (\<open>krishiv-state/src/checkpoint\<close>: atomic writes,
  also when a call fails or a write is torn, exact validation of an epoch, savepoints), \<open>CkptCoordinator\<close>
  (\<open>krishiv-scheduler/src/checkpoint.rs\<close>: quorum, crash safety, refusal of stale acks, progress).

  \<^bold>\<open>Sinks.\<close> \<open>TwoPhase\<close> (\<open>krishiv-connectors/src/two_phase.rs\<close>, \<open>krishiv-executor/src/transactions.rs\<close>),
  \<open>SinkContract\<close> (the contract of a sink and what the transaction log makes of it), \<open>ExactlyOnce\<close> and
  \<open>ExecutorSinks\<close> (exactly-once output through checkpoint, crash and restore).

  \<^bold>\<open>Jobs.\<close> \<open>JobValidation\<close> (\<open>job/scheduler.rs\<close>: accepts exactly the well-formed acyclic jobs), \<open>JobRecord\<close>
  (\<open>job/record.rs\<close>), \<open>JobRecovery\<close> (what the methods in \<open>coordinator\<close> do to a record), \<open>JobLaws\<close> (the record
  as a transition system over these operations), \<open>JobSafety\<close> (an attempt is launched once, stages run
  in order), \<open>JobRetries\<close> (the accounting of failures), \<open>JobFaults\<close> (fencing of lost executors, two ways a
  finished job is reopened), \<open>JobStore\<close> (\<open>store.rs\<close>: what a record is after it was written to the metadata
  store and read back), \<open>JobLife\<close> (the transition system extended by stage rewrites of \<open>coordinator/aqe.rs\<close>,
  input cycles and restarts: well-formedness, bounded retries, bounded regeneration), \<open>ReportHandler\<close>
  (\<open>apply_task_update\<close> of \<open>coordinator/job_lifecycle.rs\<close> as a whole: what each answer to a report means).

  \<^bold>\<open>Scheduling.\<close> \<open>ExecRegistry\<close> (\<open>heartbeat.rs\<close>: leases fence, silent executors are evicted, the circuit
  breaker keeps capacity), \<open>Placement\<close> (the schedulers of \<open>job/scheduler.rs\<close> under one contract: within
  capacity, in order), \<open>FairPools\<close> (pool quotas are fair and waste nothing), \<open>AssignRound\<close>
  (\<open>coordinator/task_assignment.rs\<close> and the pool round of \<open>executor_ops.rs\<close>: what a call changes, and that a
  round stays within the free slots as long as the store accepts its writes). This theory joins rescaled state with launched tasks.

  \<^bold>\<open>Recursion.\<close> No definition uses fuel. Kahn's loop of the job validation is a partial function that is
  proved to return on every job; the rounds of the pool quotas end because each one hands out a slot;
  the search for a free staging name is proved to end below the handle-id limit; every other loop is
  a recursion over a list.

  \<^bold>\<open>Limits of the model.\<close> Each operation is one atomic step: locks, async tasks and interleaving inside an
  operation are not represented. Of the coordinator's methods the part on the job records, the
  registry and the queues of job ids is modelled; notifications, metrics, the event log and RPC around
  it are not. Of the metadata store the outcome of a write and what a record loses in it are modelled,
  not its files. The choice of the fragments of a stage rewrite is an argument. Reads and listings of
  files fail only for what the tree holds. Sums of executor slots in the registry are assumed not to overflow.

  \<^bold>\<open>Not modelled.\<close> Parts that mostly delegate to libraries outside the repository, so that a model would be
  one of those libraries: SQL planning and execution on DataFusion (\<open>krishiv-sql\<close>, \<open>krishiv-api\<close>,
  \<open>krishiv-runtime\<close>, \<open>krishiv-engines\<close>), operators on Arrow arrays (\<open>krishiv-dataflow\<close>), the external
  connectors, RocksDB, etcd and object-store backends. Servers, command lines, bindings and
  deployment: \<open>krishiv\<close>, \<open>krishiv-flight-sql\<close>, \<open>krishiv-mcp\<close>, \<open>krishiv-metrics\<close>, \<open>krishiv-operator\<close>,
  \<open>krishiv-python\<close>, \<open>krishiv-sql-gateway\<close>, \<open>krishiv-ui\<close>, the HTTP and gRPC services of scheduler and executor.
  Tests and benchmarks: \<open>krishiv-bench\<close>, \<open>krishiv-chaos\<close>, \<open>krishiv-conformance\<close>. Logic that could be modelled
  and is not yet: incremental views (\<open>krishiv-delta\<close>, \<open>krishiv-ivm\<close>, \<open>krishiv-engine-core\<close>), the optimizer,
  windows and pattern matcher of \<open>krishiv-plan\<close>, admission and the files of the metadata store of the scheduler, the
  executor's assignment inbox, barrier alignment (\<open>krishiv-dataflow\<close>), the shuffle stores, broadcast state, incremental
  checkpoints and migrations, and the memory managers of \<open>krishiv-common\<close>.
\<close>

section \<open>Rescaled state meets the launched task\<close>

lemma key_group_range_for_task_eq:
  assumes "i < n" and "n \<le> NUM_KEY_GROUPS"
  shows "key_group_range_for_task i n = \<lparr>kg_start = range_lo n i, kg_end = range_lo n (Suc i) - 1\<rparr>"
proof -
  have n: "max n 1 mod 2 ^ 32 = n" "i mod 2 ^ 32 = i" using assms by (simp_all add: NUM_KEY_GROUPS_def)
  have "i * (NUM_KEY_GROUPS div n) \<le> range_lo n i" by (simp add: range_lo_def)
  also have "\<dots> \<le> 32768" using range_lo_le [of n i] assms by simp
  finally have "min (i * (NUM_KEY_GROUPS div n)) u32_max = i * (NUM_KEY_GROUPS div n)" by simp
  then show ?thesis
    unfolding key_group_range_for_task_def Let_def n range_lo_Suc by (simp add: range_lo_def)
qed

lemma launch_task_range:
  assumes "launch_task fc nr li job locs spec par i t = (t', Inr (Some a))"
  shows "ea_key_group_range a = key_group_range_for_task i par \<and> ea_stage_id a = ss_stage_id spec \<and> ea_task_id a = task_id_of t"
  using assms
  by (auto simp: launch_task_def Let_def build_assignment_def assignment_new_def
      split: if_splits option.splits sum.splits)

lemma launch_tasks_range:
  assumes "launch_tasks fc nr li job locs spec par i ts = (ts', Inr as)" and "a \<in> set as"
  shows "\<exists>k < length ts. ea_key_group_range a = key_group_range_for_task (i + k) par
    \<and> ea_stage_id a = ss_stage_id spec \<and> ea_task_id a = task_id_of (ts ! k)"
  using assms
proof (induction ts arbitrary: i ts' as)
  case (Cons t ts)
  obtain t1 r1 where t: "launch_task fc nr li job locs spec par i t = (t1, r1)" by fastforce
  obtain ts2 r2 where ts: "launch_tasks fc nr li job locs spec par (Suc i) ts = (ts2, r2)" by fastforce
  from Cons.prems(1) t ts obtain x bs where r: "r1 = Inr x" "r2 = Inr bs" "as = (case x of None \<Rightarrow> [] | Some x \<Rightarrow> [x]) @ bs"
    by (auto split: sum.splits)
  show ?case
  proof (cases "x = Some a")
    case True
    with launch_task_range [of fc nr li job locs spec par i t t1 a] t r(1) show ?thesis by (intro exI [of _ 0]) simp
  next
    case False
    with r Cons.prems(2) have "a \<in> set bs" by (auto split: option.splits)
    from Cons.IH [OF ts [unfolded r(2)] this] obtain k where "k < length ts" "ea_key_group_range a = key_group_range_for_task (Suc i + k) par"
      "ea_stage_id a = ss_stage_id spec" "ea_task_id a = task_id_of (ts ! k)" by blast
    then show ?thesis by (intro exI [of _ "Suc k"]) simp
  qed
qed simp

lemma launch_stages_range:
  assumes "launch_stages fc nr li job locs succ ss = (ss', Inr as)" and "a \<in> set as"
  shows "\<exists>s \<in> set ss. \<exists>k < length (sg_tasks s). ea_key_group_range a = key_group_range_for_task k (length (sg_tasks s))
    \<and> ea_stage_id a = stage_id_of s \<and> ea_task_id a = task_id_of (sg_tasks s ! k)"
  using assms
proof (induction ss arbitrary: ss' as)
  case (Cons s ss)
  obtain s1 r1 where s: "launch_stage fc nr li job locs succ s = (s1, r1)" by fastforce
  obtain ss2 r2 where ss: "launch_stages fc nr li job locs succ ss = (ss2, r2)" by fastforce
  from Cons.prems(1) s ss obtain bs cs where r: "r1 = Inr bs" "r2 = Inr cs" "as = bs @ cs" by (auto split: sum.splits)
  show ?case
  proof (cases "a \<in> set bs")
    case True
    with s r(1) obtain ts where "launch_tasks fc nr li job locs (sg_spec s) (length (sg_tasks s)) 0 (sg_tasks s) = (ts, Inr bs)"
      by (auto simp: launch_stage_def Let_def split: if_splits prod.splits sum.splits)
    from launch_tasks_range [OF this True] show ?thesis by auto
  next
    case False
    with r Cons.prems(2) Cons.IH [OF ss [unfolded r(2)]] show ?thesis by auto
  qed
qed simp

text \<open>Whether the key group of an entry's routing key lies in a range.\<close>

definition routed_into :: "(bytes \<Rightarrow> bytes) \<Rightarrow> entry_routing \<Rightarrow> key_group_range \<Rightarrow> snapshot_entry \<Rightarrow> bool" where
  "routed_into sha256 routing r e =
     (case routing_key (entry_key e) routing of None \<Rightarrow> False | Some key \<Rightarrow> kgr_contains r (key_group_for_key sha256 key))"

lemma routed_into_iff_target:
  assumes "k < n" and "n \<le> NUM_KEY_GROUPS"
  shows "routed_into sha256 routing (key_group_range_for_task k n) e \<longleftrightarrow> target sha256 n routing e = Some k"
proof -
  have "kgr_contains (key_group_range_for_task k n) kg \<longleftrightarrow> k = task_index_for_key_group kg n" if "kg < NUM_KEY_GROUPS" for kg
  proof -
    have "max n 1 = n" using assms(1) by simp
    then have "key_group_ranges_for_parallelism n ! k = key_group_range_for_task k n" "k < max n 1"
      using key_group_ranges_nth [of k n] assms by (simp_all add: key_group_range_for_task_eq)
    with contains_iff_task_index [OF that, of k n] show ?thesis by simp
  qed
  then show ?thesis by (auto simp: routed_into_def target_def key_group_for_key_less split: option.split)
qed

lemma redistribute_by_range:
  assumes "redistribute_snapshots sha256 snaps n routing = Inr outs"
    and "\<forall>x \<in> set snaps. length x < two64" and "\<forall>x \<in> set outs. length x < two64"
    and "k < n" and "n \<le> NUM_KEY_GROUPS"
  shows "\<exists>es shared. all_entries snaps = Inr es
    \<and> all_entries [outs ! k] = Inr (filter (routed_into sha256 routing (key_group_range_for_task k n)) es @ shared)
    \<and> set shared \<subseteq> {e \<in> set es. routing_key (entry_key e) routing = None}"
proof -
  obtain es shared where es: "all_entries snaps = Inr es"
    and own: "\<And>i. i < max n 1 \<Longrightarrow> all_entries [outs ! i] = Inr (owned_by sha256 n routing (Some i) es @ shared)"
    and sh: "set shared \<subseteq> set (owned_by sha256 n routing None es)"
    by (rule redistribute_entries [OF assms(1-3)]) blast
  have "routed_into sha256 routing (key_group_range_for_task k n) = (\<lambda>e. target sha256 n routing e = Some k)"
    using routed_into_iff_target [OF assms(4,5)] by blast
  with own [of k] assms(4) have "all_entries [outs ! k]
      = Inr (filter (routed_into sha256 routing (key_group_range_for_task k n)) es @ shared)"
    by (simp add: owned_by_def)
  moreover have "set shared \<subseteq> {e \<in> set es. routing_key (entry_key e) routing = None}"
    using sh by (auto simp: owned_by_def target_def)
  ultimately show ?thesis using es by blast
qed

text \<open>
  C4. State follows the task that owns it. Every task assignment the coordinator launches belongs to
  a task of a stage such that, when keyed state is redistributed to the parallelism of that stage, the
  snapshot at the task's index holds exactly the keyed entries whose key group lies in the key-group
  range the assignment carries, followed by shared (unkeyed) entries.
\<close>

theorem rescaled_state_meets_launch:
  assumes "launch_assigned_task_assignments fc nr li j = (j', Inr as)" and "a \<in> set as"
    and "\<forall>s \<in> set (jr_stages j). length (sg_tasks s) \<le> NUM_KEY_GROUPS"
  shows "\<exists>s \<in> set (jr_stages j). \<exists>k < length (sg_tasks s).
      stage_id_of s = ea_stage_id a \<and> task_id_of (sg_tasks s ! k) = ea_task_id a
    \<and> (\<forall>sha256 snaps routing outs. redistribute_snapshots sha256 snaps (length (sg_tasks s)) routing = Inr outs \<longrightarrow>
         (\<forall>x \<in> set snaps. length x < two64) \<longrightarrow> (\<forall>x \<in> set outs. length x < two64) \<longrightarrow>
         (\<exists>es shared. all_entries snaps = Inr es
            \<and> all_entries [outs ! k] = Inr (filter (routed_into sha256 routing (ea_key_group_range a)) es @ shared)
            \<and> set shared \<subseteq> {e \<in> set es. routing_key (entry_key e) routing = None}))"
proof -
  obtain ss r where l: "launch_stages fc nr li (jr_spec j) (shuffle_location_inputs nr j)
      (map stage_id_of (filter (\<lambda>s. sg_state s = StageSucceeded) (jr_stages j))) (jr_stages j) = (ss, r)" by fastforce
  have "jr_state j \<noteq> JobQueued" using assms(1,2) by (auto simp: launch_assigned_task_assignments_def)
  with assms(1) l have "r = Inr as" by (simp add: launch_assigned_task_assignments_def Let_def)
  from launch_stages_range [OF l [unfolded this] assms(2)] obtain s k where s: "s \<in> set (jr_stages j)" "k < length (sg_tasks s)"
    "ea_key_group_range a = key_group_range_for_task k (length (sg_tasks s))" "ea_stage_id a = stage_id_of s"
    "ea_task_id a = task_id_of (sg_tasks s ! k)" by blast
  have n: "length (sg_tasks s) \<le> NUM_KEY_GROUPS" using assms(3) s(1) by blast
  show ?thesis
    unfolding s(3) using redistribute_by_range [OF _ _ _ s(2) n] s(1,2,4,5)
    by (intro bexI [OF _ s(1)] exI [of _ k] conjI allI impI) simp_all
qed

definition demo_pair :: job_record where
  "demo_pair = apply_assignments 10 (job_from_spec (with_stage (job_spec_new ''q'' ''query'' BatchJob)
       (with_task (with_task (stage_spec_new ''win'' ''win'') (task_spec_new ''w0'' ''scan'')) (task_spec_new ''w1'' ''scan''))) 0)
     [\<lparr>ta_task_id = ''w0'', ta_executor_id = ''e1''\<rparr>, \<lparr>ta_task_id = ''w1'', ta_executor_id = ''e1''\<rparr>]"

lemma demo_pair_launch:
  "\<exists>j' a b. launch_assigned_task_assignments demo_codec id demo_inputs demo_pair = (j', Inr [a, b])"
  by (simp add: demo_pair_def demo_defs demo_launch_defs)

theorem rescaled_state_meets_launch_witness:
  "\<exists>j' a b. launch_assigned_task_assignments demo_codec id demo_inputs demo_pair = (j', Inr [a, b])
    \<and> (\<exists>k < 2. \<exists>es shared. all_entries [encode_snapshot_entries [(''op'', ''sum'', [1], [7])]] = Inr es
       \<and> all_entries [[encode_snapshot_entries [(''op'', ''sum'', [1], [7])], []] ! k]
         = Inr (filter (routed_into (\<lambda>_. replicate 32 0) ByStateKey (ea_key_group_range a)) es @ shared))"
proof -
  let ?s = "encode_snapshot_entries [(''op'', ''sum'', [1], [7])]"
  obtain j' a b where l: "launch_assigned_task_assignments demo_codec id demo_inputs demo_pair = (j', Inr [a, b])"
    using demo_pair_launch by blast
  have two: "\<forall>s \<in> set (jr_stages demo_pair). length (sg_tasks s) = 2" by (simp add: demo_pair_def demo_defs)
  then have "\<forall>s \<in> set (jr_stages demo_pair). length (sg_tasks s) \<le> NUM_KEY_GROUPS" by (simp add: NUM_KEY_GROUPS_def)
  from rescaled_state_meets_launch [OF l _ this, of a] obtain s k where s: "s \<in> set (jr_stages demo_pair)" "k < length (sg_tasks s)"
    and r: "\<forall>sha256 snaps routing outs. redistribute_snapshots sha256 snaps (length (sg_tasks s)) routing = Inr outs \<longrightarrow>
         (\<forall>x \<in> set snaps. length x < two64) \<longrightarrow> (\<forall>x \<in> set outs. length x < two64) \<longrightarrow>
         (\<exists>es shared. all_entries snaps = Inr es
            \<and> all_entries [outs ! k] = Inr (filter (routed_into sha256 routing (ea_key_group_range a)) es @ shared)
            \<and> set shared \<subseteq> {e \<in> set es. routing_key (entry_key e) routing = None})"
    by (elim meta_impE) (simp, blast)
  have "length ?s = 51" by (simp add: encode_snapshot_entries_def write_prefix_def)
  then have "\<forall>x \<in> set [?s]. length x < two64" "\<forall>x \<in> set [?s, []]. length x < two64" by simp_all
  moreover have "redistribute_snapshots (\<lambda>_. replicate 32 0) [?s] (length (sg_tasks s)) ByStateKey = Inr [?s, []]" "k < 2"
    using redistribute_example two s by simp_all
  ultimately show ?thesis using r l by blast
qed

end
